(* ===== verification/Word36.thy ===== *)
theory Word36
  imports Main "HOL-Library.Word"
begin

text \<open>
  The prelude of the development: the machine types of the simulator, the generic facts on
  words, bits and masks that every component shares, and the reading of a 36-bit PDP-10 word
  that the simulator keeps in a 64-bit unsigned integer (\<open>t_uint64\<close>).

  Octal literals of the C text are written in hexadecimal.
\<close>

unbundle bit_operations_syntax

section \<open>Machine types\<close>

text \<open>
  \<open>u64\<close> is \<open>t_uint64\<close>; \<open>u32\<close> is \<open>uint32\<close> and, because the
  PDP-10 simulators are built without 64-bit addresses, also \<open>t_addr\<close>.
\<close>

type_synonym u64 = "64 word"
type_synonym u32 = "32 word"
type_synonym u16 = "16 word"
type_synonym u8 = "8 word"

section \<open>Fact collections\<close>

named_theorems mask_simps
  \<open>masks of the source, read as bit-range selections\<close>
named_theorems tst_simps
  \<open>C tests \<open>x & m\<close> with a one-bit mask, read as bits\<close>
named_theorems wf36_intros
  \<open>operations that keep a 64-bit value inside 36 bits\<close>

section \<open>C bit tests\<close>

definition tst :: "'a::len word \<Rightarrow> 'a word \<Rightarrow> bool" where
  \<comment> \<open>\<open>if (x & m)\<close>\<close>
  "tst x m \<longleftrightarrow> x AND m \<noteq> 0"

definition clr_bits :: "'a::len word \<Rightarrow> 'a word \<Rightarrow> 'a word" where
  \<comment> \<open>\<open>x &= ~m\<close>\<close>
  "clr_bits x m = x AND NOT m"

definition set_if :: "bool \<Rightarrow> 'a::len word \<Rightarrow> 'a word \<Rightarrow> 'a word" where
  \<comment> \<open>\<open>if (c) x |= m\<close>\<close>
  "set_if c m x = (if c then x OR m else x)"

lemma tst_exp: "tst (x :: 'a::len word) (2 ^ n) \<longleftrightarrow> bit x n"
  by (simp add: tst_def and_exp_eq_0_iff_not_bit)

lemma bit_set_if: "bit (set_if c m x) n \<longleftrightarrow> bit x n \<or> c \<and> bit m n"
  by (auto simp: set_if_def bit_or_iff)

lemma bit_clr_bits: "bit (clr_bits x m) n \<longleftrightarrow> bit x n \<and> \<not> bit m n"
  by (auto simp: clr_bits_def bit_and_iff bit_not_iff dest: bit_imp_le_length)

lemma set_if_simps [simp]:
  "set_if True m x = x OR m"
  "set_if False m x = x"
  by (simp_all add: set_if_def)

lemma uint_less_bits: "uint (x :: 'a::len word) < 2 ^ n \<Longrightarrow> bit x k \<Longrightarrow> k < n"
proof -
  assume "uint x < 2 ^ n" and b: "bit x k"
  then have "take_bit n (uint x) = uint x" by (simp add: take_bit_int_eq_self_iff)
  moreover have "bit (uint x) k" using b bit_imp_le_length [OF b] by (simp add: bit_uint_iff)
  ultimately have "bit (take_bit n (uint x)) k" by simp
  then show "k < n" by (simp add: bit_take_bit_iff)
qed

section \<open>Integers of bounded size\<close>

lemma signed_take_id: "signed_take_bit k i = i \<longleftrightarrow> (\<forall>n \<ge> k. bit i n = bit i k)" for i :: int
proof
  assume s: "signed_take_bit k i = i"
  show "\<forall>n \<ge> k. bit i n = bit i k"
  proof (intro allI impI)
    fix n assume "k \<le> n"
    then have "bit (signed_take_bit k i) n = bit i k"
      unfolding bit_signed_take_bit_iff by (simp add: min_def)
    then show "bit i n = bit i k" unfolding s .
  qed
next
  assume a: "\<forall>n \<ge> k. bit i n = bit i k"
  show "signed_take_bit k i = i"
  proof (rule bit_eqI)
    fix n
    have "bit i n = bit i k" if "k \<le> n" using a that by blast
    then have "bit i (min k n) = bit i n" by (cases "k \<le> n") (simp_all add: min_def)
    then show "bit (signed_take_bit k i) n = bit i n" unfolding bit_signed_take_bit_iff by simp
  qed
qed

lemma fits_int_bits: "- (2 ^ k) \<le> i \<and> i < 2 ^ k \<longleftrightarrow> (\<forall>n \<ge> k. bit i n = bit i k)" for i :: int
  unfolding signed_take_id [symmetric] signed_take_bit_int_eq_self_iff by (rule refl)

section \<open>Masks of the 36-bit word\<close>

text \<open>Names and values of \<open>PDP10/kx10_defs.h\<close>.\<close>

abbreviation (input) LMASK :: u64 where "LMASK \<equiv> 0xFFFFC0000"
abbreviation (input) RMASK :: u64 where "RMASK \<equiv> 0x3FFFF"
abbreviation (input) FMASK :: u64 where "FMASK \<equiv> 0xFFFFFFFFF"
abbreviation (input) CMASK :: u64 where "CMASK \<equiv> 0x7FFFFFFFF"
abbreviation (input) SMASK :: u64 where "SMASK \<equiv> 0x800000000"
abbreviation (input) C1 :: u64 where "C1 \<equiv> 0x1000000000"
abbreviation (input) RSIGN :: u64 where "RSIGN \<equiv> 0x20000"
abbreviation (input) MMASK :: u64 where "MMASK \<equiv> 0x7FFFFFF"
abbreviation (input) EXPO :: u64 where "EXPO \<equiv> 0x7F8000000"

lemma mask_consts:
  "(0xFFFFFFFFF :: u64) = mask 36" "(0x7FFFFFFFF :: u64) = mask 35"
  "(0x3FFFF :: u64) = mask 18" "(0x7FFFFFF :: u64) = mask 27"
  "(0xFFFFC0000 :: u64) = push_bit 18 (mask 18)"
  by (simp_all add: mask_eq_exp_minus_1 push_bit_eq_mult)

lemma bit_masks [simp]:
  "bit (0xFFFFFFFFF :: u64) n \<longleftrightarrow> n < 36"
  "bit (0x7FFFFFFFF :: u64) n \<longleftrightarrow> n < 35"
  "bit (0x3FFFF :: u64) n \<longleftrightarrow> n < 18"
  "bit (0x7FFFFFF :: u64) n \<longleftrightarrow> n < 27"
  "bit (0xFFFFC0000 :: u64) n \<longleftrightarrow> 18 \<le> n \<and> n < 36"
  by (auto simp: mask_consts bit_simps)

lemma mask_consts_int:
  "(0xFFFFFFFFF :: int) = mask 36" "(0x7FFFFFFFF :: int) = mask 35"
  "(0x3FFFF :: int) = mask 18" "(0x7FFFFFF :: int) = mask 27"
  "(0xFFFFC0000 :: int) = push_bit 18 (mask 18)"
  by (simp_all add: mask_eq_exp_minus_1 push_bit_eq_mult)

lemma bit_masks_int [simp]:
  "bit (0xFFFFFFFFF :: int) n \<longleftrightarrow> n < 36"
  "bit (0x7FFFFFFFF :: int) n \<longleftrightarrow> n < 35"
  "bit (0x3FFFF :: int) n \<longleftrightarrow> n < 18"
  "bit (0x7FFFFFF :: int) n \<longleftrightarrow> n < 27"
  "bit (0xFFFFC0000 :: int) n \<longleftrightarrow> 18 \<le> n \<and> n < 36"
  by (auto simp: mask_consts_int bit_simps)

lemma mask_word [mask_simps]:
  "(x :: u64) AND 0xFFFFFFFFF = take_bit 36 x"
  "(x :: u64) AND 0x7FFFFFFFF = take_bit 35 x"
  "(x :: u64) AND 0x3FFFF = take_bit 18 x"
  "(x :: u64) AND 0x7FFFFFF = take_bit 27 x"
  by (simp_all add: take_bit_eq_mask mask_eq_exp_minus_1)

lemma bit_single:
  "bit (0x800000000 :: u64) n \<longleftrightarrow> n = 35"
  "bit (0x1000000000 :: u64) n \<longleftrightarrow> n = 36"
  "bit (0x20000 :: u64) n \<longleftrightarrow> n = 17"
  using bit_exp_iff [where 'a = u64, of 35 n] bit_exp_iff [where 'a = u64, of 36 n]
    bit_exp_iff [where 'a = u64, of 17 n]
  by auto

lemma bit_single_int [simp]:
  "bit (0x800000000 :: int) n \<longleftrightarrow> n = 35"
  "bit (0x1000000000 :: int) n \<longleftrightarrow> n = 36"
  "bit (0x20000 :: int) n \<longleftrightarrow> n = 17"
  using bit_exp_iff [where 'a = int, of 35 n] bit_exp_iff [where 'a = int, of 36 n]
    bit_exp_iff [where 'a = int, of 17 n]
  by auto

lemma tst_single [tst_simps]:
  "tst (x :: u64) 0x800000000 \<longleftrightarrow> bit x 35"
  "tst (x :: u64) 0x1000000000 \<longleftrightarrow> bit x 36"
  "tst (x :: u64) 0x20000 \<longleftrightarrow> bit x 17"
  using tst_exp [of x 35] tst_exp [of x 36] tst_exp [of x 17] by simp_all

section \<open>36-bit values\<close>

definition wf36 :: "u64 \<Rightarrow> bool" where
  \<comment> \<open>the 64-bit container holds a legal 36-bit word\<close>
  "wf36 x \<longleftrightarrow> x \<le> FMASK"

definition sval :: "u64 \<Rightarrow> int" where
  \<comment> \<open>the two's-complement value of a 36-bit word; bit 35 of the container is the
      PDP-10's bit 0, the sign\<close>
  "sval x = uint x - (if bit x 35 then 2 ^ 36 else 0)"

lemma wf36_uint: "wf36 x \<longleftrightarrow> uint x < 2 ^ 36"
  unfolding wf36_def word_le_def by auto

lemma wf36_take: "wf36 x \<longleftrightarrow> take_bit 36 x = x"
proof -
  have "uint x < 2 ^ 36 \<longleftrightarrow> take_bit 36 (uint x) = uint x"
    by (simp only: take_bit_int_eq_self_iff uint_ge_0 simp_thms)
  also have "\<dots> \<longleftrightarrow> take_bit 36 x = x"
    by (simp only: word_uint_eq_iff unsigned_take_bit_eq)
  finally show ?thesis by (simp add: wf36_uint)
qed

lemma bit_u64: "bit (x :: u64) n \<Longrightarrow> n < 64"
  using bit_imp_le_length [of x n] by simp

lemma wf36_bits: "wf36 x \<longleftrightarrow> (\<forall>n. bit x n \<longrightarrow> n < 36)"
  unfolding wf36_take by (auto simp: bit_eq_iff bit_take_bit_iff dest: bit_u64)

lemma wf36_bitD: "wf36 x \<Longrightarrow> bit x n \<Longrightarrow> n < 36"
  by (simp add: wf36_bits)

lemma wf36_high: "wf36 x \<Longrightarrow> 36 \<le> n \<Longrightarrow> \<not> bit x n"
  using wf36_bitD by fastforce

lemma wf36_const [wf36_intros]:
  "wf36 0" "wf36 1" "wf36 0xFFFFFFFFF" "wf36 0x3FFFF" "wf36 0xFFFFC0000" "wf36 0x800000000"
  by (simp_all add: wf36_def)

lemma wf36_bitwise [wf36_intros]:
  "wf36 x \<Longrightarrow> wf36 (x AND y)"
  "wf36 y \<Longrightarrow> wf36 (x AND y)"
  "wf36 x \<Longrightarrow> wf36 y \<Longrightarrow> wf36 (x OR y)"
  "wf36 x \<Longrightarrow> wf36 y \<Longrightarrow> wf36 (x XOR y)"
  "wf36 x \<Longrightarrow> wf36 (drop_bit k x)"
  by (auto simp: wf36_bits bit_simps)

lemma wf36_take_bit [wf36_intros]: "k \<le> 36 \<Longrightarrow> wf36 (take_bit k x)"
  by (auto simp: wf36_bits bit_simps)

lemma wf36_mask [wf36_intros]: "wf36 (x AND 0xFFFFFFFFF)" "wf36 (x AND 0x7FFFFFFFF)"
    "wf36 (x AND 0x3FFFF)" "wf36 (x AND 0xFFFFC0000)"
  by (auto simp: wf36_bits bit_simps)

lemma odd_top_bit: "0 \<le> a \<Longrightarrow> a < 2 ^ 36 \<Longrightarrow> odd (a div 2 ^ 35) \<longleftrightarrow> 2 ^ 35 \<le> a" for a :: int
proof -
  assume "0 \<le> a" "a < 2 ^ 36"
  then have "a div 2 ^ 35 = (if 2 ^ 35 \<le> a then 1 else 0)"
    using div_pos_pos_trivial [of a "2 ^ 35"] div_pos_pos_trivial [of "a - 2 ^ 35" "2 ^ 35"]
      div_add_self2 [of "2 ^ 35" "a - 2 ^ 35"]
    by auto
  then show ?thesis by simp
qed

lemma sign_iff: "wf36 x \<Longrightarrow> bit x 35 \<longleftrightarrow> 2 ^ 35 \<le> uint x"
proof -
  assume "wf36 x"
  then have b: "uint x < 2 ^ 36" by (simp add: wf36_uint)
  have "bit x 35 \<longleftrightarrow> odd (uint x div 2 ^ 35)"
    by (metis bit_iff_odd bit_uint_iff bit_imp_le_length)
  also have "\<dots> \<longleftrightarrow> 2 ^ 35 \<le> uint x"
    using odd_top_bit [OF uint_ge_0 b] .
  finally show ?thesis .
qed

lemma sval_range: "wf36 x \<Longrightarrow> - (2 ^ 35) \<le> sval x \<and> sval x < 2 ^ 35"
  using sign_iff [of x] uint_ge_0 [of x] by (cases "bit x 35") (simp_all add: sval_def wf36_uint, insert uint_ge_0 [of x], linarith)

lemma sval_inj: "wf36 x \<Longrightarrow> wf36 y \<Longrightarrow> sval x = sval y \<Longrightarrow> x = y"
  using sign_iff [of x] sign_iff [of y]
  by (cases "bit x 35"; cases "bit y 35")
    (simp_all add: sval_def wf36_uint word_uint_eq_iff,
     (insert uint_ge_0 [of x] uint_ge_0 [of y], linarith)+)

lemma sval_neg_iff: "wf36 x \<Longrightarrow> sval x < 0 \<longleftrightarrow> bit x 35"
  using uint_ge_0 [of x] by (auto simp: sval_def wf36_uint)

end
