(* ===== verification/Event_Queue.thy ===== *)
theory Event_Queue
  imports Word36
begin

text \<open>
  The event queue of \<open>scp.c\<close>, built without asynchronous I/O: \<open>sim_activate\<close>,
  \<open>sim_activate_abs\<close>, \<open>sim_activate_notbefore\<close>, \<open>sim_cancel\<close>,
  \<open>sim_is_active\<close>, the times of an event and \<open>sim_process_event\<close>.

  The queue is kept in clock order, each entry with its delay after the entry before it, and the
  processor counts \<open>sim_interval\<close> down to the first. Its meaning is the \<open>agenda\<close>,
  the list of the absolute times at which the units are due; the operations on the queue are shown
  to insert into, filter and consume that list.

  The linked list of units is the list of their names; \<open>sim_time\<close>, a C double that holds
  whole numbers, is an integer. Delays in microseconds (\<open>usecs_remaining\<close>,
  \<open>UNIT_TMR_UNIT\<close>) belong to \<open>sim_timer.c\<close> and are not part of the queue.
\<close>

unbundle bit_operations_syntax

section \<open>State\<close>

text \<open>The units of the modelled devices.\<close>

datatype unit_id = CPU_UNIT | CTYO_UNIT | CTYI_UNIT | PTP_UNIT | PTR_UNIT | LPT_UNIT | CR_UNIT
  | CP_UNIT | DK_UNIT nat

record clock =
  clock_queue :: "(unit_id \<times> int) list"
  sim_interval :: int
  noqueue_time :: int
  sim_time :: int
  sim_rtime :: u32
  stop_cpu :: bool

abbreviation (input) NOQUEUE_WAIT :: int where "NOQUEUE_WAIT \<equiv> 1000000"
abbreviation (input) SCPE_STOP :: nat where "SCPE_STOP \<equiv> 77"

section \<open>Operations\<close>

definition head_time :: "'a clock_scheme \<Rightarrow> int" where
  \<comment> \<open>the local \<open>_x\<close> of \<open>UPDATE_SIM_TIME\<close>\<close>
  "head_time s = (case clock_queue s of [] \<Rightarrow> noqueue_time s | (u, t) # q \<Rightarrow> t)"

definition update_sim_time :: "'a clock_scheme \<Rightarrow> 'a clock_scheme" where
  "update_sim_time s =
     (let x = head_time s - sim_interval s;
          s1 = s\<lparr>sim_time := sim_time s + x, sim_rtime := sim_rtime s + of_int x\<rparr>
      in case clock_queue s of
           [] \<Rightarrow> s1\<lparr>noqueue_time := sim_interval s\<rparr>
         | (u, t) # q \<Rightarrow> s1\<lparr>clock_queue := (u, sim_interval s) # q\<rparr>)"

definition sim_is_active :: "unit_id \<Rightarrow> 'a clock_scheme \<Rightarrow> bool" where
  "sim_is_active u s \<longleftrightarrow> list_ex (\<lambda>(v, t). v = u) (clock_queue s)"

fun queue_insert :: "unit_id \<Rightarrow> int \<Rightarrow> int \<Rightarrow> (unit_id \<times> int) list \<Rightarrow> (unit_id \<times> int) list" where
  \<comment> \<open>the scan of \<open>_sim_activate\<close>, with \<open>accum\<close>, and the insertion after it\<close>
  "queue_insert u event_time accum [] = [(u, event_time - accum)]"
| "queue_insert u event_time accum ((v, d) # q) =
     (if event_time < accum + d
      then (u, event_time - accum) # (v, d - (event_time - accum)) # q
      else (v, d) # queue_insert u event_time (accum + d) q)"

definition sim_activate :: "unit_id \<Rightarrow> int \<Rightarrow> 'a clock_scheme \<Rightarrow> 'a clock_scheme" where
  "sim_activate u event_time s =
     (if sim_is_active u s then s
      else
        (let s = update_sim_time s;
             q = queue_insert u event_time 0 (clock_queue s)
         in s\<lparr>clock_queue := q, sim_interval := snd (hd q)\<rparr>))"

fun queue_remove :: "unit_id \<Rightarrow> (unit_id \<times> int) list \<Rightarrow> (unit_id \<times> int) list" where
  "queue_remove u [] = []"
| "queue_remove u ((v, d) # q) =
     (if v = u then (case q of [] \<Rightarrow> [] | (w, e) # r \<Rightarrow> (w, e + d) # r)
      else (v, d) # queue_remove u q)"

definition set_wait :: "'a clock_scheme \<Rightarrow> 'a clock_scheme" where
  \<comment> \<open>\<open>sim_interval = noqueue_time = NOQUEUE_WAIT\<close>\<close>
  "set_wait s = s\<lparr>sim_interval := NOQUEUE_WAIT, noqueue_time := NOQUEUE_WAIT\<rparr>"

definition sim_cancel :: "unit_id \<Rightarrow> 'a clock_scheme \<Rightarrow> 'a clock_scheme" where
  "sim_cancel u s =
     (if \<not> sim_is_active u s then s
      else
        (let s = update_sim_time s;
             q = queue_remove u (clock_queue s);
             s = s\<lparr>clock_queue := q\<rparr>
         in case q of [] \<Rightarrow> set_wait s | (v, t) # r \<Rightarrow> s\<lparr>sim_interval := t\<rparr>))"

definition sim_activate_abs :: "unit_id \<Rightarrow> int \<Rightarrow> 'a clock_scheme \<Rightarrow> 'a clock_scheme" where
  "sim_activate_abs u event_time s = sim_activate u event_time (sim_cancel u s)"

definition sim_grtime :: "'a clock_scheme \<Rightarrow> u32 \<times> 'a clock_scheme" where
  "sim_grtime s = (let s = update_sim_time s in (sim_rtime s, s))"

definition sim_activate_notbefore :: "unit_id \<Rightarrow> u32 \<Rightarrow> 'a clock_scheme \<Rightarrow> 'a clock_scheme" where
  "sim_activate_notbefore u rtime s =
     (let (now, s) = sim_grtime (sim_cancel u s);
          s = sim_cancel u s
      in if 0x80000000 \<le> rtime - now then sim_activate u 0 s
         else sim_activate u (sint (rtime - now)) s)"

fun queue_time :: "unit_id \<Rightarrow> int \<Rightarrow> (unit_id \<times> int) list \<Rightarrow> int" where
  \<comment> \<open>the scan of \<open>_sim_activate_queue_time\<close> behind the first entry\<close>
  "queue_time u accum [] = 0"
| "queue_time u accum ((v, d) # q) =
     (let accum = accum + d in if v = u then accum + 1 else queue_time u accum q)"

definition sim_activate_time :: "unit_id \<Rightarrow> 'a clock_scheme \<Rightarrow> int" where
  "sim_activate_time u s =
     (case clock_queue s of
        [] \<Rightarrow> 0
      | (v, d) # q \<Rightarrow> queue_time u 0 ((v, max 0 (sim_interval s)) # q))"

definition sim_qcount :: "'a clock_scheme \<Rightarrow> nat" where
  "sim_qcount s = length (clock_queue s)"

section \<open>Processing\<close>

text \<open>
  The routine of a unit (\<open>uptr->action\<close>) is a function of the state that returns a reason;
  it may activate and cancel units.
\<close>

type_synonym 's action = "unit_id \<Rightarrow> 's \<Rightarrow> nat \<times> 's"

definition pop_event :: "int \<Rightarrow> 'a clock_scheme \<Rightarrow> 'a clock_scheme" where
  \<comment> \<open>\<open>catchup\<close> is \<open>sim_interval_catchup\<close>\<close>
  "pop_event catchup s =
     (let q = tl (clock_queue s); s = s\<lparr>clock_queue := q\<rparr>
      in case q of
           [] \<Rightarrow> set_wait s
         | (v, t) # r \<Rightarrow>
             s\<lparr>sim_interval := (if catchup < 0 then - catchup else sim_interval s) + (catchup + t)\<rparr>)"

definition event_turn ::
    "'a clock_scheme action \<Rightarrow> int \<Rightarrow> 'a clock_scheme \<Rightarrow> (nat \<times> int \<times> 'a clock_scheme) option" where
  \<comment> \<open>the body of the \<open>do\<close> loop; \<open>None\<close> where it reads through
      \<open>QUEUE_LIST_END\<close>, which is no address of a unit\<close>
  "event_turn act catchup s =
     (let (r, s) = act (fst (hd (clock_queue s))) (pop_event catchup s)
      in if catchup < -1 then
           (case clock_queue s of
              [] \<Rightarrow> None
            | (v, t) # q \<Rightarrow>
                Some (r, catchup + t,
                  s\<lparr>sim_time := sim_time s + t, sim_rtime := sim_rtime s + of_int t\<rparr>))
         else Some (r, 0, s))"

partial_function (option) event_loop ::
    "'a clock_scheme action \<Rightarrow> int \<Rightarrow> 'a clock_scheme \<Rightarrow> (nat \<times> 'a clock_scheme) option" where
  "event_loop act catchup s =
     (case event_turn act catchup s of
        None \<Rightarrow> None
      | Some (r, c, s) \<Rightarrow>
          (if r = 0 \<and> sim_interval s + c \<le> 0 \<and> clock_queue s \<noteq> [] \<and> \<not> stop_cpu s
           then event_loop act c s else Some (r, s)))"

definition catch_up :: "'a clock_scheme \<Rightarrow> int \<times> 'a clock_scheme" where
  \<comment> \<open>back to the time the first event was to fire, if it is past\<close>
  "catch_up s =
     (if sim_interval s < 0 then
        (let c = sim_interval s;
             s = update_sim_time (s\<lparr>sim_interval := 0\<rparr>);
             t = head_time s
         in (c, s\<lparr>sim_time := sim_time s - t, sim_rtime := sim_rtime s - of_int t\<rparr>))
      else (0, s))"

definition sim_process_event ::
    "'a clock_scheme action \<Rightarrow> 'a clock_scheme \<Rightarrow> (nat \<times> 'a clock_scheme) option" where
  "sim_process_event act s =
     (if stop_cpu s then Some (SCPE_STOP, s\<lparr>stop_cpu := False\<rparr>)
      else
        (let s = update_sim_time s
         in if sim_interval s > 0 then Some (0, s)
            else if clock_queue s = [] then Some (0, set_wait s)
            else
              (let (c, s) = catch_up s
               in case event_loop act c s of
                    None \<Rightarrow> None
                  | Some (r, s) \<Rightarrow>
                      (let s = (if clock_queue s = [] then set_wait s else s)
                       in if r = 0 \<and> stop_cpu s then Some (SCPE_STOP, s\<lparr>stop_cpu := False\<rparr>)
                          else Some (r, s)))))"

section \<open>The agenda\<close>

definition gtime :: "'a clock_scheme \<Rightarrow> int" where
  \<comment> \<open>the time \<open>sim_gtime\<close> returns\<close>
  "gtime s = sim_time s + (head_time s - sim_interval s)"

fun dues :: "int \<Rightarrow> (unit_id \<times> int) list \<Rightarrow> (unit_id \<times> int) list" where
  "dues t [] = []"
| "dues t ((u, d) # q) = (u, t + d) # dues (t + d) q"

definition agenda :: "'a clock_scheme \<Rightarrow> (unit_id \<times> int) list" where
  \<comment> \<open>the units with the absolute times at which they are due\<close>
  "agenda s = dues (sim_time s) (clock_queue s)"

definition queue_ok :: "'a clock_scheme \<Rightarrow> bool" where
  \<comment> \<open>no unit twice, in clock order\<close>
  "queue_ok s \<longleftrightarrow> distinct (map fst (clock_queue s)) \<and> (\<forall>e \<in> set (tl (clock_queue s)). 0 \<le> snd e)"

lemma map_fst_dues [simp]: "map fst (dues t q) = map fst q"
  by (induction t q rule: dues.induct) auto

lemma dues_Nil [simp]: "dues t q = [] \<longleftrightarrow> q = []"
  by (cases q) auto

lemma dues_ge: "\<forall>e \<in> set q. 0 \<le> snd e \<Longrightarrow> e \<in> set (dues t q) \<Longrightarrow> t \<le> snd e"
  by (induction t q rule: dues.induct) force+

lemma sim_is_active_iff: "sim_is_active u s \<longleftrightarrow> u \<in> fst ` set (clock_queue s)"
  by (force simp: sim_is_active_def list_ex_iff)

lemma update_sim_time_sel [simp]:
  "sim_interval (update_sim_time s) = sim_interval s" "stop_cpu (update_sim_time s) = stop_cpu s"
  "sim_time (update_sim_time s) = gtime s" "head_time (update_sim_time s) = sim_interval s"
  "map fst (clock_queue (update_sim_time s)) = map fst (clock_queue s)"
  "tl (clock_queue (update_sim_time s)) = tl (clock_queue s)"
  "clock_queue (update_sim_time s) = [] \<longleftrightarrow> clock_queue s = []"
  by (auto simp: update_sim_time_def Let_def gtime_def head_time_def split: list.split)

lemma update_gtime [simp]: "gtime (update_sim_time s) = gtime s"
  by (subst (1) gtime_def) simp

lemma update_agenda [simp]: "agenda (update_sim_time s) = agenda s"
  by (auto simp: agenda_def update_sim_time_def Let_def head_time_def split: list.split)

lemma agenda_sel:
  "agenda (s\<lparr>clock_queue := q, sim_interval := i\<rparr>) = dues (sim_time s) q"
  "agenda (s\<lparr>sim_interval := i, clock_queue := q\<rparr>) = dues (sim_time s) q"
  "agenda (s\<lparr>clock_queue := q\<rparr>) = dues (sim_time s) q"
  by (simp_all add: agenda_def)

lemma agenda_interval [simp]: "agenda (s\<lparr>sim_interval := i\<rparr>) = agenda s"
  by (simp add: agenda_def)

lemma update_active [simp]: "sim_is_active u (update_sim_time s) = sim_is_active u s"
  by (simp add: sim_is_active_iff flip: set_map)

lemma update_ok [simp]: "queue_ok (update_sim_time s) = queue_ok s"
  by (simp add: queue_ok_def)

lemma set_wait_sel [simp]:
  "clock_queue (set_wait s) = clock_queue s" "sim_time (set_wait s) = sim_time s"
  "stop_cpu (set_wait s) = stop_cpu s" "agenda (set_wait s) = agenda s"
  "clock_queue s = [] \<Longrightarrow> gtime (set_wait s) = sim_time s"
  by (simp_all add: set_wait_def agenda_def gtime_def head_time_def)

text \<open>Insertion. Events due at the same time keep the order in which they were activated.\<close>

definition agenda_insert ::
    "unit_id \<Rightarrow> int \<Rightarrow> (unit_id \<times> int) list \<Rightarrow> (unit_id \<times> int) list" where
  "agenda_insert u t xs = filter (\<lambda>e. snd e \<le> t) xs @ (u, t) # filter (\<lambda>e. t < snd e) xs"

lemma dues_later: "\<forall>e \<in> set q. 0 \<le> snd e \<Longrightarrow> x < t \<Longrightarrow>
    filter (\<lambda>e. snd e \<le> x) (dues t q) = [] \<and> filter (\<lambda>e. x < snd e) (dues t q) = dues t q"
  using dues_ge [of q _ t] by (fastforce simp: filter_empty_conv filter_id_conv)

lemma dues_queue_insert:
  assumes "\<forall>e \<in> set (tl q). 0 \<le> snd e"
  shows "dues (g + a) (queue_insert u t a q) = agenda_insert u (g + t) (dues (g + a) q)"
  using assms
proof (induction q arbitrary: a)
  case Nil
  then show ?case by (simp add: agenda_insert_def)
next
  case (Cons e q)
  obtain v d where e: "e = (v, d)" by (cases e)
  have q: "\<forall>e \<in> set q. 0 \<le> snd e" using Cons.prems by simp
  show ?case
  proof (cases "t < a + d")
    case True
    then show ?thesis
      using dues_later [OF q, of "g + t" "g + a + d"]
      by (simp add: e agenda_insert_def algebra_simps)
  next
    case False
    have "\<forall>e \<in> set (tl q). 0 \<le> snd e" using q by (cases q) auto
    from Cons.IH [OF this, of "a + d"] False show ?thesis
      by (simp add: e agenda_insert_def algebra_simps)
  qed
qed

lemma hd_queue_insert [simp]: "queue_insert u t a q \<noteq> []"
  by (cases q) (auto split: if_splits)

lemma head_gtime: "sim_interval s = head_time s \<Longrightarrow> gtime s = sim_time s"
  by (simp add: gtime_def)

lemma head_time_hd: "clock_queue s \<noteq> [] \<Longrightarrow> head_time s = snd (hd (clock_queue s))"
  by (cases "clock_queue s") (auto simp: head_time_def)

lemma activate_idle:
  assumes "\<not> sim_is_active u s" and "queue_ok s"
  shows "agenda (sim_activate u t s) = agenda_insert u (gtime s + t) (agenda s)"
    and "gtime (sim_activate u t s) = gtime s"
proof -
  let ?s = "update_sim_time s"
  have a: "dues (gtime s) (clock_queue ?s) = agenda s"
    using update_agenda [of s] by (simp add: agenda_def)
  have "\<forall>e \<in> set (tl (clock_queue ?s)). 0 \<le> snd e" using assms(2) by (simp add: queue_ok_def)
  from dues_queue_insert [OF this, of "gtime s" 0 u t]
  show "agenda (sim_activate u t s) = agenda_insert u (gtime s + t) (agenda s)"
    using assms(1) a by (simp add: sim_activate_def Let_def agenda_sel)
  show "gtime (sim_activate u t s) = gtime s"
    using assms(1) by (simp add: sim_activate_def Let_def gtime_def head_time_hd)
qed

lemma activate_active: "sim_is_active u s \<Longrightarrow> sim_activate u t s = s"
  by (simp add: sim_activate_def)

lemma queue_insert_tail:
  "\<forall>e \<in> set (tl q). 0 \<le> snd e \<Longrightarrow> \<forall>e \<in> set (tl (queue_insert u t a q)). 0 \<le> snd e"
proof (induction q arbitrary: a)
  case (Cons e q)
  obtain v d where e: "e = (v, d)" by (cases e)
  have "\<forall>e \<in> set (tl q). 0 \<le> snd e" using Cons.prems by (cases q) auto
  from Cons.IH [OF this, of "a + d"] Cons.prems show ?case
    by (cases q) (fastforce simp: e split: if_splits)+
qed simp

lemma set_queue_insert: "fst ` set (queue_insert u t a q) = insert u (fst ` set q)"
  by (induction u t a q rule: queue_insert.induct) auto

lemma distinct_queue_insert:
  "distinct (map fst q) \<Longrightarrow> u \<notin> fst ` set q \<Longrightarrow> distinct (map fst (queue_insert u t a q))"
  by (induction u t a q rule: queue_insert.induct) (auto simp: set_queue_insert)

lemma activate_ok: "queue_ok s \<Longrightarrow> queue_ok (sim_activate u t s)"
  using queue_insert_tail [of "clock_queue (update_sim_time s)"]
    distinct_queue_insert [of "clock_queue (update_sim_time s)"]
    update_active [of u s] update_ok [of s]
  unfolding queue_ok_def sim_activate_def sim_is_active_iff Let_def by simp

text \<open>Removal.\<close>

lemma dues_queue_remove:
  "distinct (map fst q) \<Longrightarrow> dues t (queue_remove u q) = filter (\<lambda>e. fst e \<noteq> u) (dues t q)"
proof (induction q arbitrary: t)
  case (Cons e q)
  obtain v d where e: "e = (v, d)" by (cases e)
  show ?case
  proof (cases "v = u")
    case True
    have "filter (\<lambda>e. fst e \<noteq> u) (dues x q) = dues x q" for x
    proof (rule filter_True, rule ballI)
      fix e' assume "e' \<in> set (dues x q)"
      then have "fst e' \<in> fst ` set q" using map_fst_dues [of x q] by (metis image_eqI list.set_map)
      then show "fst e' \<noteq> u" using Cons.prems e True by auto
    qed
    then show ?thesis using e True by (cases q) (auto simp: algebra_simps)
  next
    case False
    then show ?thesis using Cons e by simp
  qed
qed simp

lemma queue_remove_sets:
  "distinct (map fst q) \<Longrightarrow> map fst (queue_remove u q) = filter (\<lambda>v. v \<noteq> u) (map fst q)"
proof (induction u q rule: queue_remove.induct)
  case (2 u v d q)
  then show ?case by (cases q) (auto intro!: filter_True [symmetric])
qed simp

lemma queue_remove_tail:
  "\<forall>e \<in> set (tl q). 0 \<le> snd e \<Longrightarrow> \<forall>e \<in> set (tl (queue_remove u q)). 0 \<le> snd e"
proof -
  have all: "\<forall>e \<in> set p. 0 \<le> snd e \<Longrightarrow> \<forall>e \<in> set (queue_remove u p). 0 \<le> snd e" for p
  proof (induction u p rule: queue_remove.induct)
    case (2 u v d q)
    then show ?case by (cases q) auto
  qed simp
  assume "\<forall>e \<in> set (tl q). 0 \<le> snd e"
  then show ?thesis using all [of "tl q"]
    by (cases q; cases "hd q"; cases "tl q") auto
qed

lemma cancel_idle [simp]: "\<not> sim_is_active u s \<Longrightarrow> sim_cancel u s = s"
  by (simp add: sim_cancel_def)

lemma cancel_queue:
  "sim_is_active u s \<Longrightarrow>
     clock_queue (sim_cancel u s) = queue_remove u (clock_queue (update_sim_time s))
   \<and> sim_time (sim_cancel u s) = gtime s"
  by (auto simp: sim_cancel_def Let_def split: list.split)

lemma cancel_agenda:
  assumes "queue_ok s"
  shows "agenda (sim_cancel u s) = filter (\<lambda>e. fst e \<noteq> u) (agenda s)"
    and "gtime (sim_cancel u s) = gtime s" and "queue_ok (sim_cancel u s)"
proof -
  let ?s = "update_sim_time s"
  have d: "distinct (map fst (clock_queue ?s))" using assms by (simp add: queue_ok_def)
  have a: "dues (gtime s) (clock_queue ?s) = agenda s"
    using update_agenda [of s] by (simp add: agenda_def)
  have t: "\<forall>e \<in> set (tl (clock_queue ?s)). 0 \<le> snd e" using assms by (simp add: queue_ok_def)
  show "agenda (sim_cancel u s) = filter (\<lambda>e. fst e \<noteq> u) (agenda s)"
  proof (cases "sim_is_active u s")
    case True
    then show ?thesis
      using dues_queue_remove [OF d] a by (simp add: agenda_def cancel_queue)
  next
    case False
    have "filter (\<lambda>e. fst e \<noteq> u) (agenda s) = agenda s"
    proof (rule filter_True, rule ballI)
      fix e assume "e \<in> set (agenda s)"
      then have "fst e \<in> fst ` set (clock_queue s)"
        unfolding agenda_def using map_fst_dues [of "sim_time s" "clock_queue s"]
        by (metis image_eqI list.set_map)
      then show "fst e \<noteq> u" using False by (auto simp: sim_is_active_iff)
    qed
    then show ?thesis using False by simp
  qed
  show "gtime (sim_cancel u s) = gtime s"
    by (cases "sim_is_active u s")
      (auto simp: sim_cancel_def Let_def set_wait_def gtime_def head_time_def split: list.split)
  show "queue_ok (sim_cancel u s)"
    using assms d t queue_remove_sets [OF d, of u] queue_remove_tail [OF t, of u]
    by (cases "sim_is_active u s") (simp_all add: queue_ok_def cancel_queue)
qed

section \<open>Times\<close>

definition rtime_ok :: "'a clock_scheme \<Rightarrow> bool" where
  \<comment> \<open>the 32-bit time is the time, wrapped\<close>
  "rtime_ok s \<longleftrightarrow> sim_rtime s = of_int (sim_time s)"

lemma update_rtime: "rtime_ok s \<Longrightarrow> sim_rtime (update_sim_time s) = of_int (gtime s)"
  by (auto simp: rtime_ok_def update_sim_time_def Let_def gtime_def split: list.split)

lemma cancel_rtime: "rtime_ok s \<Longrightarrow> rtime_ok (sim_cancel u s)"
  using update_rtime [of s] update_sim_time_sel(3) [of s]
  by (auto simp: rtime_ok_def sim_cancel_def Let_def set_wait_def split: list.split)

lemma cancel_inactive: "queue_ok s \<Longrightarrow> \<not> sim_is_active u (sim_cancel u s)"
proof (cases "sim_is_active u s")
  case True
  assume "queue_ok s"
  then have "distinct (map fst (clock_queue (update_sim_time s)))" by (simp add: queue_ok_def)
  from queue_remove_sets [OF this, of u] show ?thesis
    using cancel_queue [OF True] by (simp add: sim_is_active_iff flip: set_map)
qed simp

lemma small_delay:
  assumes "0 \<le> k" and "k < 2 ^ 31"
  shows "\<not> (0x80000000 :: u32) \<le> of_int k" and "sint (of_int k :: u32) = k"
proof -
  have u: "uint (of_int k :: u32) = k" using assms by (simp add: unsigned_of_int take_bit_int_eq_self)
  then show "\<not> (0x80000000 :: u32) \<le> of_int k" using assms by (simp add: word_le_def)
  show "sint (of_int k :: u32) = k"
    using assms u by (simp add: sint_uint signed_take_bit_eq_take_bit_shift take_bit_int_eq_self)
qed

lemma notbefore_agenda:
  assumes q: "queue_ok s" and r: "rtime_ok s" and k: "0 \<le> k" "k < 2 ^ 31"
  shows "agenda (sim_activate_notbefore u (of_int (gtime s + k)) s)
    = agenda_insert u (gtime s + k) (filter (\<lambda>e. fst e \<noteq> u) (agenda s))"
proof -
  let ?c = "sim_cancel u s"
  note c = cancel_agenda [OF q, of u] and i = cancel_inactive [OF q, of u]
  have d: "of_int (gtime s + k) - sim_rtime (update_sim_time ?c) = of_int k"
    using update_rtime [OF cancel_rtime [OF r]] c(2) by simp
  have "agenda (sim_activate_notbefore u (of_int (gtime s + k)) s)
      = agenda (sim_activate u k (update_sim_time ?c))"
    using small_delay [OF k] d i by (simp add: sim_activate_notbefore_def sim_grtime_def Let_def)
  also have "\<dots> = agenda_insert u (gtime s + k) (filter (\<lambda>e. fst e \<noteq> u) (agenda s))"
    using activate_idle(1) [of u "update_sim_time ?c" k] i c by simp
  finally show ?thesis .
qed

lemma queue_time_dues:
  "distinct (map fst q) \<Longrightarrow> (u, x) \<in> set (dues b q) \<Longrightarrow> queue_time u a q = a + (x - b) + 1"
proof (induction u a q arbitrary: b rule: queue_time.induct)
  case (2 u a v d q)
  show ?case
  proof (cases "v = u")
    case True
    then have "u \<notin> fst ` set q" using 2(2) by auto
    then have "(u, x) \<notin> set (dues (b + d) q)"
      using map_fst_dues [of "b + d" q] by (metis fst_conv image_eqI list.set_map)
    then show ?thesis using True 2(3) by auto
  next
    case False
    then show ?thesis using 2(1) [OF refl False, of "b + d"] 2(2,3) by auto
  qed
qed simp

lemma activate_time:
  assumes "queue_ok s" and "0 \<le> sim_interval s" and "(u, x) \<in> set (agenda s)"
  shows "sim_activate_time u s = x - gtime s + 1"
proof (cases "clock_queue s")
  case (Cons e q)
  obtain v d where e: "e = (v, d)" by (cases e)
  have "(u, x) \<in> set (dues (gtime s) ((v, sim_interval s) # q))"
    using assms(3) Cons e by (simp add: agenda_def gtime_def head_time_def)
  moreover have "distinct (map fst ((v, sim_interval s) # q))"
    using assms(1) Cons e by (simp add: queue_ok_def)
  ultimately show ?thesis
    using queue_time_dues [of "(v, sim_interval s) # q" u x "gtime s" 0] assms(2) Cons e
    by (simp add: sim_activate_time_def max_def del: queue_time.simps)
qed (use assms(3) in \<open>simp add: agenda_def\<close>)

section \<open>Processing\<close>

definition calm :: "'a clock_scheme \<Rightarrow> bool" where
  \<comment> \<open>the queue as the routine of a unit finds it and has to leave it\<close>
  "calm s \<longleftrightarrow> queue_ok s \<and> sim_interval s = head_time s \<and> 0 \<le> head_time s"

lemma activate_calm: "calm s \<Longrightarrow> 0 \<le> t \<Longrightarrow> calm (sim_activate u t s)"
proof (cases "sim_is_active u s")
  case False
  assume c: "calm s" and t: "0 \<le> t"
  have h: "0 \<le> snd (hd (queue_insert u t 0 (clock_queue (update_sim_time s))))"
  proof (cases "clock_queue (update_sim_time s)")
    case (Cons e q)
    moreover have "0 \<le> head_time (update_sim_time s)" using c by (simp add: calm_def)
    ultimately show ?thesis using t by (cases e) (auto simp: head_time_def)
  next
    case Nil
    then show ?thesis using t by (simp only: queue_insert.simps) simp
  qed
  have "head_time (sim_activate u t s) = snd (hd (queue_insert u t 0 (clock_queue (update_sim_time s))))"
    "sim_interval (sim_activate u t s) = snd (hd (queue_insert u t 0 (clock_queue (update_sim_time s))))"
    using False by (simp_all add: sim_activate_def Let_def head_time_hd)
  then show ?thesis using h c activate_ok [of s u t] by (simp add: calm_def)
qed (simp add: activate_active)

lemma cancel_calm: "calm s \<Longrightarrow> calm (sim_cancel u s)"
proof (cases "sim_is_active u s")
  case True
  assume c: "calm s"
  let ?q = "clock_queue (update_sim_time s)"
  have q: "\<forall>e \<in> set ?q. 0 \<le> snd e"
  proof (cases ?q)
    case (Cons e r)
    moreover have "queue_ok (update_sim_time s)" "0 \<le> head_time (update_sim_time s)"
      using c by (simp_all add: calm_def)
    ultimately show ?thesis by (cases e) (auto simp: queue_ok_def head_time_def)
  qed (simp only: list.set ball_simps)
  have "\<forall>e \<in> set p. 0 \<le> snd e \<Longrightarrow> \<forall>e \<in> set (queue_remove u p). 0 \<le> snd e" for p
  proof (induction u p rule: queue_remove.induct)
    case (2 u v d q)
    then show ?case by (cases q) auto
  qed simp
  from this [OF q] have "0 \<le> head_time (sim_cancel u s) \<and> sim_interval (sim_cancel u s) = head_time (sim_cancel u s)"
    using True by (auto simp: sim_cancel_def Let_def set_wait_def head_time_def split: list.split)
  then show ?thesis using c cancel_agenda(3) [of s u] by (simp add: calm_def)
qed simp

lemma notbefore_calm: "calm s \<Longrightarrow> calm (sim_activate_notbefore u t s)"
proof -
  assume c: "calm s"
  define s1 where "s1 = sim_cancel u s"
  have "calm (update_sim_time s1)"
    using cancel_calm [OF c, of u] by (simp add: calm_def s1_def)
  then have "calm (sim_cancel u (update_sim_time s1))" by (rule cancel_calm)
  moreover have "\<not> 0x80000000 \<le> x \<Longrightarrow> 0 \<le> sint x" for x :: u32
    by (simp add: sint_uint signed_take_bit_eq_take_bit_shift word_le_def
        take_bit_int_eq_self)
  ultimately show ?thesis
    by (auto simp: sim_activate_notbefore_def sim_grtime_def Let_def s1_def intro!: activate_calm)
qed

text \<open>
  The time of the event at the head while the loop catches up: the body has already moved
  \<open>sim_time\<close> to it.
\<close>

definition loop_agenda :: "int \<Rightarrow> 'a clock_scheme \<Rightarrow> (unit_id \<times> int) list" where
  "loop_agenda c s = dues (if c < 0 then sim_time s - head_time s else sim_time s) (clock_queue s)"

definition loop_inv :: "int \<Rightarrow> 'a clock_scheme \<Rightarrow> bool" where
  "loop_inv c s \<longleftrightarrow> clock_queue s \<noteq> [] \<and> calm s \<and> c \<le> 0 \<and> (c = 0 \<longrightarrow> head_time s = 0)"

lemma pop_event_on_time:
  assumes "loop_inv c s" and "clock_queue s = (u, d) # q"
  shows "loop_agenda c s = (u, gtime (pop_event c s)) # agenda (pop_event c s)"
    and "calm (pop_event c s)"
    and "clock_queue (pop_event c s) = q" and "stop_cpu (pop_event c s) = stop_cpu s"
    and "sim_time (pop_event c s) = sim_time s"
  using assms
  by (auto simp: loop_inv_def loop_agenda_def pop_event_def Let_def calm_def queue_ok_def gtime_def
      head_time_def agenda_def set_wait_def split: list.split) force+

lemma catch_up_inv:
  fixes s :: "'a clock_scheme"
  assumes "queue_ok s" and "clock_queue s \<noteq> []" and "sim_interval s \<le> 0"
  shows "loop_inv (fst (catch_up (update_sim_time s))) (snd (catch_up (update_sim_time s)))"
proof -
  have o: "queue_ok (t\<lparr>sim_interval := i\<rparr>) = queue_ok t" "queue_ok (t\<lparr>sim_time := i\<rparr>) = queue_ok t"
    "queue_ok (t\<lparr>sim_rtime := k\<rparr>) = queue_ok t" "head_time (t\<lparr>sim_time := i\<rparr>) = head_time t"
    "head_time (t\<lparr>sim_rtime := k\<rparr>) = head_time t" for t :: "'a clock_scheme" and i k
    by (simp_all add: queue_ok_def head_time_def split: list.split)
  show ?thesis
    using assms by (auto simp: catch_up_def Let_def loop_inv_def calm_def o)
qed

text \<open>
  What every routine keeps, processing keeps: a property of the state beside the queue and the clock.
\<close>

lemma more_frame:
  fixes s :: "'a clock_scheme"
  shows "clock.more (update_sim_time s) = clock.more s" "clock.more (set_wait s) = clock.more s"
    "clock.more (pop_event c s) = clock.more s" "clock.more (snd (catch_up s)) = clock.more s"
proof -
  show u: "clock.more (update_sim_time s) = clock.more s" for s :: "'a clock_scheme"
    by (simp add: update_sim_time_def Let_def split: list.split)
  show "clock.more (snd (catch_up s)) = clock.more s" by (simp add: catch_up_def Let_def u)
qed (simp_all add: set_wait_def pop_event_def Let_def split: list.split)

locale event_invariant =
  fixes act :: "'a clock_scheme action" and ok :: "'a clock_scheme \<Rightarrow> bool"
  assumes ok_frame: "clock.more t = clock.more s \<Longrightarrow> ok s \<Longrightarrow> ok t"
    and act_ok: "ok s \<Longrightarrow> ok (snd (act u s))"
begin

lemma ok_more: "clock.more t = clock.more s \<Longrightarrow> ok t = ok s"
  using ok_frame [of t s] ok_frame [of s t] by auto

lemma turn_ok:
  assumes "ok s" and "event_turn act c s = Some (r, c', s')"
  shows "ok s'"
proof -
  obtain r' w where w: "act (fst (hd (clock_queue s))) (pop_event c s) = (r', w)" by fastforce
  have "ok (pop_event c s)" using assms(1) more_frame(3) by (rule ok_frame [rotated])
  then have "ok w" using act_ok [of "pop_event c s" "fst (hd (clock_queue s))"] w by simp
  moreover have "clock.more s' = clock.more w"
    using assms(2) by (auto simp: event_turn_def w split: if_splits list.splits)
  ultimately show ?thesis by (rule ok_frame [rotated])
qed

lemma loop_ok:
  assumes "ok s" and "event_loop act c s = Some (r, s')"
  shows "ok s'"
proof -
  let ?P = "\<lambda>a c s x. a = act \<longrightarrow> ok s \<longrightarrow> ok (snd x)"
  have "?P a c s x" if "event_loop a c s = Some x" for a x
  proof (rule event_loop.raw_induct [OF _ that, of ?P], goal_cases)
    case (1 loop act' c s x)
    show ?case
    proof (intro impI)
      assume [simp]: "act' = act" and i: "ok s"
      obtain r c' s' where t: "event_turn act c s = Some (r, c', s')"
        using 1(2) by (fastforce split: option.splits)
      show "ok (snd x)"
        using 1(1) [of act c' s' x] 1(2) turn_ok [OF i t] t by (auto split: if_splits)
    qed
  qed
  from this [OF assms(2)] assms(1) show ?thesis by simp
qed

lemma process_ok:
  assumes "ok s" and "sim_process_event act s = Some (r, s')"
  shows "ok s'"
proof -
  obtain c t where ct: "catch_up (update_sim_time s) = (c, t)" by fastforce
  have m: "clock.more t = clock.more s"
    using more_frame(4) [of "update_sim_time s"] by (simp add: ct more_frame)
  consider "clock.more s' = clock.more s"
    | r' u where "event_loop act c t = Some (r', u)" "clock.more s' = clock.more u"
  proof (cases "event_loop act c t")
    case None
    then have "clock.more s' = clock.more s"
      using assms(2) by (auto simp: sim_process_event_def ct Let_def more_frame split: if_splits)
    then show thesis by (rule that(1))
  next
    case (Some x)
    obtain r' u where x: "x = (r', u)" by fastforce
    have "clock.more s' = clock.more s \<or> clock.more s' = clock.more u"
      using assms(2) Some by (auto simp: sim_process_event_def ct x Let_def more_frame split: if_splits)
    then show thesis using that Some x by blast
  qed
  then show "ok s'"
  proof cases
    case 1
    then show ?thesis using assms(1) by (rule ok_frame)
  next
    case 2
    have "ok t" using m assms(1) by (rule ok_frame)
    then have "ok u" using 2(1) by (rule loop_ok)
    with 2(2) show ?thesis by (rule ok_frame)
  qed
qed

end

text \<open>
  Routines that leave the queue in order and its time alone, for a set of units that only schedule
  each other.
\<close>

locale event_routines = event_invariant +
  fixes units :: "unit_id set"
  assumes act_calm: "u \<in> units \<Longrightarrow> ok s \<Longrightarrow> calm s \<Longrightarrow> calm (snd (act u s))"
    and act_time: "u \<in> units \<Longrightarrow> ok s \<Longrightarrow> calm s \<Longrightarrow> sim_time (snd (act u s)) = sim_time s"
    and act_units: "u \<in> units \<Longrightarrow> ok s \<Longrightarrow> calm s \<Longrightarrow> sim_is_active v (snd (act u s)) \<Longrightarrow>
      sim_is_active v s \<or> v \<in> units"
begin

definition good :: "'a clock_scheme \<Rightarrow> bool" where
  "good s \<longleftrightarrow> ok s \<and> (\<forall>u. sim_is_active u s \<longrightarrow> u \<in> units)"

lemma pop_good:
  assumes "good s" and "loop_inv c s" and "clock_queue s = (u, d) # q"
  shows "u \<in> units" and "good (pop_event c s)" and "calm (pop_event c s)"
proof -
  note p = pop_event_on_time [OF assms(2,3)]
  show "u \<in> units" using assms(1,3) by (auto simp: good_def sim_is_active_def)
  have "ok (pop_event c s)"
    using assms(1) ok_frame [OF more_frame(3)] by (auto simp: good_def)
  then show "good (pop_event c s)" "calm (pop_event c s)"
    using assms(1,3) p(2,3) by (auto simp: good_def sim_is_active_def)
qed

lemma act_good: "u \<in> units \<Longrightarrow> good s \<Longrightarrow> calm s \<Longrightarrow> good (snd (act u s))"
  using act_ok [of s u] act_units [of u s] by (auto simp: good_def)

lemma turn:
  assumes "loop_inv c s" and g: "good s" and t: "event_turn act c s = Some (r, c', s')"
  shows "calm s'" and "clock_queue s' \<noteq> [] \<Longrightarrow> sim_interval s' + c' \<le> 0 \<Longrightarrow> loop_inv c' s'"
    and "clock_queue s' \<noteq> [] \<Longrightarrow> 0 < sim_interval s' + c' \<Longrightarrow> 0 < sim_interval s'"
    and "c < - 1 \<longrightarrow> clock_queue s' \<noteq> []" and "good s'"
proof -
  obtain u d q where q: "clock_queue s = (u, d) # q"
    using assms(1) by (cases "clock_queue s") (auto simp: loop_inv_def)
  note p = pop_good [OF g assms(1) q]
  define w where "w = snd (act u (pop_event c s))"
  have w: "calm w" "good w"
    using act_calm [OF p(1) _ p(3)] act_good [OF p] p(2) by (auto simp: w_def good_def)
  have s': "if c < -1 then clock_queue w \<noteq> [] \<and> c' = c + head_time w
              \<and> s' = w\<lparr>sim_time := sim_time w + head_time w,
                      sim_rtime := sim_rtime w + of_int (head_time w)\<rparr>
            else c' = 0 \<and> s' = w"
    using t by (auto simp: event_turn_def q w_def Let_def head_time_def case_prod_unfold
        split: if_splits list.splits)
  show c: "calm s'"
    using w s' by (auto simp: calm_def queue_ok_def head_time_def split: if_splits list.splits)
  have "clock.more s' = clock.more w" "clock_queue s' = clock_queue w"
    using s' by (auto split: if_splits)
  then show "good s'"
    using w(2) ok_frame [of s' w] by (auto simp: good_def sim_is_active_def)
  have i: "sim_interval s' = head_time s'" "0 \<le> head_time s'" using c by (auto simp: calm_def)
  have h: "c < - 1 \<Longrightarrow> head_time s' = head_time w"
    using s' by (auto simp: head_time_def split: list.splits)
  show "loop_inv c' s'" if "clock_queue s' \<noteq> []" "sim_interval s' + c' \<le> 0"
    using that c i s' h by (auto simp: loop_inv_def split: if_splits)
  show "0 < sim_interval s'" if "clock_queue s' \<noteq> []" "0 < sim_interval s' + c'"
    using that i s' h by (cases "c < -1") auto
  show "c < - 1 \<longrightarrow> clock_queue s' \<noteq> []" using s' by auto
qed

lemma loop_result:
  assumes "loop_inv c s" and "good s" and "event_loop act c s = Some (r, s')"
  shows "calm s' \<and> good s' \<and> (r = 0 \<and> \<not> stop_cpu s' \<and> clock_queue s' \<noteq> [] \<longrightarrow> 0 < sim_interval s')"
proof -
  let ?P = "\<lambda>a c s x. a = act \<longrightarrow> loop_inv c s \<longrightarrow> good s \<longrightarrow> calm (snd x) \<and> good (snd x) \<and>
      (fst x = 0 \<and> \<not> stop_cpu (snd x) \<and> clock_queue (snd x) \<noteq> [] \<longrightarrow> 0 < sim_interval (snd x))"
  have "?P a c s x" if "event_loop a c s = Some x" for a x
  proof (rule event_loop.raw_induct [OF _ that, of ?P], goal_cases)
    case (1 loop act' c s x)
    show ?case
    proof (intro impI)
      assume [simp]: "act' = act" and i: "loop_inv c s" "good s"
      obtain r c' s' where t: "event_turn act c s = Some (r, c', s')"
        using 1(2) by (fastforce split: option.splits)
      show "calm (snd x) \<and> good (snd x) \<and>
        (fst x = 0 \<and> \<not> stop_cpu (snd x) \<and> clock_queue (snd x) \<noteq> [] \<longrightarrow> 0 < sim_interval (snd x))"
        using 1(1) [of act c' s' x] 1(2) turn [OF i t] t by (auto split: if_splits)
    qed
  qed
  from this [OF assms(3)] assms(1,2) show ?thesis by simp
qed

lemma catch_up_good: "good s \<Longrightarrow> good (snd (catch_up (update_sim_time s)))"
proof -
  have "sim_is_active u (snd (catch_up (update_sim_time s))) = sim_is_active u s" for u
    by (auto simp: catch_up_def Let_def sim_is_active_iff simp flip: set_map)
  moreover have "clock.more (snd (catch_up (update_sim_time s))) = clock.more s"
    by (simp add: more_frame)
  ultimately show "good s \<Longrightarrow> ?thesis"
    using ok_frame [of "snd (catch_up (update_sim_time s))" s] by (simp add: good_def)
qed

lemma process_result:
  assumes "queue_ok s" and "good s" and "\<not> stop_cpu s" and "sim_process_event act s = Some (0, s')"
  shows "calm s'" and "0 < sim_interval s'"
proof -
  have w: "clock_queue t = [] \<Longrightarrow> calm (set_wait t) \<and> 0 < sim_interval (set_wait t)" for t :: "'a clock_scheme"
    by (simp add: calm_def queue_ok_def head_time_def set_wait_def)
  have u: "0 < sim_interval s \<Longrightarrow> calm (update_sim_time s)"
    using assms(1) by (simp add: calm_def)
  obtain c t where ct: "catch_up (update_sim_time s) = (c, t)" by fastforce
  show "calm s'" "0 < sim_interval s'"
    using assms catch_up_inv [of s] catch_up_good [OF assms(2)] loop_result [of c t]
      w [of "update_sim_time s"] w u ct
    by (auto simp: sim_process_event_def Let_def split: if_splits option.splits)
qed

end

text \<open>
  The routines of a machine whose unit \<open>beat\<close> is always rescheduled, none of which
  schedules a unit for the time at which it runs: processing the queue then ends.
\<close>

locale prompt_routines = event_routines +
  fixes beat :: unit_id
  assumes act_beats: "u \<in> units \<Longrightarrow> ok s \<Longrightarrow> calm s \<Longrightarrow> u = beat \<or> sim_is_active beat s \<Longrightarrow>
      sim_is_active beat (snd (act u s))"
    and act_later: "u \<in> units \<Longrightarrow> ok s \<Longrightarrow> calm s \<Longrightarrow> length (filter (\<lambda>e. snd e \<le> gtime s) (agenda (snd (act u s))))
      \<le> length (filter (\<lambda>e. snd e \<le> gtime s) (agenda s))"
begin

definition due_now :: "int \<Rightarrow> 'a clock_scheme \<Rightarrow> nat" where
  "due_now c s =
     length (filter (\<lambda>e. snd e \<le> snd (hd (loop_agenda c s))) (loop_agenda c s))"

lemma turn_returns:
  assumes i: "loop_inv c s" and g: "good s" and b: "sim_is_active beat s"
  shows "\<exists>r c' s'. event_turn act c s = Some (r, c', s') \<and> sim_is_active beat s' \<and>
    (clock_queue s' \<noteq> [] \<and> sim_interval s' + c' \<le> 0 \<longrightarrow>
       nat (- c') < nat (- c) \<or> nat (- c') = nat (- c) \<and> due_now c' s' < due_now c s)"
proof -
  obtain u d q where q: "clock_queue s = (u, d) # q"
    using i by (cases "clock_queue s") (auto simp: loop_inv_def)
  let ?p = "pop_event c s"
  note p = pop_event_on_time [OF i q]
  have o: "u \<in> units" "ok ?p" using pop_good [OF g i q] by (simp_all add: good_def)
  obtain r w where w: "act u ?p = (r, w)" by fastforce
  have cw: "calm w" and tw: "sim_time w = sim_time ?p"
    using act_calm [OF o p(2)] act_time [OF o p(2)] w by simp_all
  have gp: "gtime ?p = sim_time ?p" "gtime w = sim_time w"
    using p(2) cw by (simp_all add: calm_def gtime_def)
  have bw: "sim_is_active beat w"
    using act_beats [OF o p(2)] b p(3) q w by (auto simp: sim_is_active_def)
  have nw: "length (filter (\<lambda>e. snd e \<le> gtime ?p) (agenda w))
      \<le> length (filter (\<lambda>e. snd e \<le> gtime ?p) (agenda ?p))"
    using act_later [OF o p(2)] w by simp
  have ds: "due_now c s = Suc (length (filter (\<lambda>e. snd e \<le> gtime ?p) (agenda ?p)))"
    by (simp add: due_now_def p(1))
  obtain v t q' where qw: "clock_queue w = (v, t) # q'"
    using bw by (cases "clock_queue w") (auto simp: sim_is_active_def)
  have hw: "sim_interval w = t" "0 \<le> t" using cw qw by (simp_all add: calm_def head_time_def)
  show ?thesis
  proof (cases "c < - 1")
    case True
    let ?s = "w\<lparr>sim_time := sim_time w + t, sim_rtime := sim_rtime w + of_int t\<rparr>"
    have e: "event_turn act c s = Some (r, c + t, ?s)"
      using True by (simp add: event_turn_def q w qw)
    have "due_now c ?s < due_now c s" if "t = 0"
      using that True nw ds gp tw qw
      by (simp add: due_now_def loop_agenda_def agenda_def head_time_def)
    then show ?thesis using e True hw bw by (auto simp: sim_is_active_def)
  next
    case False
    then have e: "event_turn act c s = Some (r, 0, w)"
      by (simp add: event_turn_def q w)
    have "due_now 0 w < due_now c s" if "t \<le> 0"
      using that hw nw ds gp tw qw
      by (simp add: due_now_def loop_agenda_def agenda_def)
    then show ?thesis using e False hw bw i by (auto simp: loop_inv_def)
  qed
qed

lemma loop_returns:
  assumes "loop_inv c s" and "good s" and "sim_is_active beat s"
  shows "\<exists>x. event_loop act c s = Some x"
  using assms
proof (induction "(c, s)" arbitrary: c s rule: wf_induct_rule [OF wf_measures
      [of "[\<lambda>(c, s). nat (- c), \<lambda>(c, s). due_now c s]"]])
  case (1 c s)
  from turn_returns [OF 1(2,3,4)] obtain r c' s' where
    e: "event_turn act c s = Some (r, c', s')" and b: "sim_is_active beat s'" and
    l: "clock_queue s' \<noteq> [] \<and> sim_interval s' + c' \<le> 0 \<longrightarrow>
       nat (- c') < nat (- c) \<or> nat (- c') = nat (- c) \<and> due_now c' s' < due_now c s"
    by blast
  show ?case
  proof (cases "r = 0 \<and> sim_interval s' + c' \<le> 0 \<and> clock_queue s' \<noteq> [] \<and> \<not> stop_cpu s'")
    case True
    with 1(1) [of c' s'] l b turn(2,5) [OF 1(2,3) e] have "\<exists>x. event_loop act c' s' = Some x" by auto
    then show ?thesis using True e by (simp add: event_loop.simps [of act c s])
  next
    case False
    then show ?thesis using e by (auto simp: event_loop.simps [of act c s])
  qed
qed

lemma process_returns:
  assumes "queue_ok s" and "good s" and "sim_is_active beat s"
  shows "\<exists>x. sim_process_event act s = Some x"
proof -
  obtain c t where ct: "catch_up (update_sim_time s) = (c, t)" by fastforce
  have a: "sim_is_active beat (snd (catch_up (update_sim_time s)))"
    using assms(3) by (auto simp: catch_up_def Let_def sim_is_active_iff simp flip: set_map)
  have n: "clock_queue s \<noteq> []" using assms(3) by (auto simp: sim_is_active_def)
  then have "sim_interval s \<le> 0 \<Longrightarrow> \<exists>x. event_loop act c t = Some x"
    using loop_returns [of c t] catch_up_inv [OF assms(1)] catch_up_good [OF assms(2)] a ct by simp
  then show ?thesis
    using n ct by (fastforce simp: sim_process_event_def Let_def)
qed

lemma loop_keeps:
  assumes "loop_inv c s" and "good s" and "sim_is_active beat s" and "event_loop act c s = Some (r, s')"
  shows "calm s' \<and> good s' \<and> sim_is_active beat s'"
proof -
  let ?P = "\<lambda>a c s x. a = act \<longrightarrow> loop_inv c s \<longrightarrow> good s \<longrightarrow> sim_is_active beat s \<longrightarrow>
      sim_is_active beat (snd x)"
  have "?P a c s x" if "event_loop a c s = Some x" for a x
  proof (rule event_loop.raw_induct [OF _ that, of ?P], goal_cases)
    case (1 loop act' c s x)
    show ?case
    proof (intro impI)
      assume [simp]: "act' = act" and i: "loop_inv c s" "good s" "sim_is_active beat s"
      obtain r c' s' where t: "event_turn act c s = Some (r, c', s')" and b: "sim_is_active beat s'"
        using turn_returns [OF i] by blast
      show "sim_is_active beat (snd x)"
        using 1(1) [of act c' s' x] 1(2) turn(2,5) [OF i(1,2) t] t b by (auto split: if_splits)
    qed
  qed
  from this [OF assms(4)] loop_result [OF assms(1,2,4)] assms(1-3) show ?thesis by simp
qed

lemma process_keeps:
  assumes "queue_ok s" and "good s" and "sim_is_active beat s" and "sim_process_event act s = Some (r, s')"
  shows "queue_ok s' \<and> good s' \<and> sim_is_active beat s'"
proof -
  obtain c t where ct: "catch_up (update_sim_time s) = (c, t)" by fastforce
  have n: "clock_queue s \<noteq> []" using assms(3) by (auto simp: sim_is_active_def)
  have f: "queue_ok (u\<lparr>stop_cpu := b\<rparr>) = queue_ok u" "sim_is_active v (u\<lparr>stop_cpu := b\<rparr>) = sim_is_active v u"
    for u :: "'a clock_scheme" and b v
    by (simp_all add: queue_ok_def sim_is_active_def)
  have g: "good (u\<lparr>stop_cpu := b\<rparr>) = good u" "good (update_sim_time u) = good u" for u b
    using ok_more [of "u\<lparr>stop_cpu := b\<rparr>" u] ok_more [of "update_sim_time u" u] more_frame(1) [of u]
    by (simp_all add: good_def f)
  show ?thesis
  proof (cases "stop_cpu s \<or> 0 < sim_interval s")
    case True
    then have "s' = s\<lparr>stop_cpu := False\<rparr> \<or> s' = update_sim_time s"
      using assms(4) by (auto simp: sim_process_event_def Let_def split: if_splits)
    then show ?thesis using assms(1-3) by (auto simp: f g)
  next
    case False
    have a: "sim_is_active beat t"
      using assms(3) ct by (auto simp: catch_up_def Let_def sim_is_active_iff simp flip: set_map split: if_splits)
    have l: "loop_inv c t" "good t"
      using catch_up_inv [OF assms(1) n] catch_up_good [OF assms(2)] False ct by simp_all
    obtain r' u where e: "event_loop act c t = Some (r', u)" using loop_returns [OF l a] by fast
    have u: "calm u" "good u" "sim_is_active beat u" using loop_keeps [OF l a e] by simp_all
    then have "clock_queue u \<noteq> []" by (auto simp: sim_is_active_def)
    then have "s' = u \<or> s' = u\<lparr>stop_cpu := False\<rparr>"
      using assms(4) False n by (auto simp: sim_process_event_def Let_def ct e split: if_splits)
    then show ?thesis using u by (auto simp: f g calm_def)
  qed
qed

end

end
