(* ===== verification/Pi_System.thy ===== *)
theory Pi_System
  imports Event_Queue
begin

text \<open>
  The priority-interrupt system of \<open>PDP10/kx10_cpu.c\<close> as built for the KI10:
  \<open>set_interrupt\<close>, \<open>clr_interrupt\<close>, \<open>check_irq_level\<close>, \<open>restore_pi_hold\<close>
  and \<open>set_pi_hold\<close> over the globals they share. Level \<open>n\<close> (1 to 7, 1 the
  highest) is the bit \<open>0200 >> n\<close>, that is bit \<open>7 - n\<close>, of every PI register.

  The locale \<open>irq_lines\<close> is the interface the devices use: raising and dropping a
  request line. It is interpreted here on the code's own functions.
\<close>

unbundle bit_operations_syntax

section \<open>State\<close>

text \<open>
  The PI globals. Integers the C code uses only as truth values are booleans. The table
  \<open>dev_irq\<close> has 128 entries, indexed by device number divided by 4.
\<close>

record pi_state = clock +
  dev_irq :: "nat \<Rightarrow> u16"
  IOB_PI :: u16
  PIR :: u8
  PIH :: u8
  PIE :: u8
  pi_enc :: nat
  pi_enable :: bool
  pi_pending :: bool
  parity_irq :: bool
  xct_flag :: u32

abbreviation MAX_DEV :: nat where "MAX_DEV \<equiv> 128"

definition pi_level :: "nat \<Rightarrow> 'a::len word" where
  \<comment> \<open>\<open>0200 >> lvl\<close>\<close>
  "pi_level lvl = drop_bit lvl 0x80"

section \<open>Operations\<close>

definition set_interrupt :: "nat \<Rightarrow> nat \<Rightarrow> 'a pi_state_scheme \<Rightarrow> 'a pi_state_scheme" where
  "set_interrupt dev lvl0 s =
     (let lvl = lvl0 mod 8
      in if lvl \<noteq> 0 then
           s\<lparr>dev_irq := (dev_irq s)(dev div 4 := pi_level lvl),
             pi_pending := True,
             IOB_PI := IOB_PI s OR pi_level lvl\<rparr>
         else s)"

fun irq_bus :: "(nat \<Rightarrow> u16) \<Rightarrow> nat \<Rightarrow> u16" where
  \<comment> \<open>\<open>for (lvl = i = 0; i < MAX_DEV; i++) lvl |= dev_irq[i]\<close>\<close>
  "irq_bus irq 0 = 0"
| "irq_bus irq (Suc i) = irq_bus irq i OR irq i"

definition clr_interrupt :: "nat \<Rightarrow> 'a pi_state_scheme \<Rightarrow> 'a pi_state_scheme" where
  "clr_interrupt dev s =
     (let irq = (dev_irq s)(dev div 4 := 0)
      in s\<lparr>dev_irq := irq, IOB_PI := irq_bus irq MAX_DEV\<rparr>)"

text \<open>
  The scan both loops of \<open>check_irq_level\<close> make: from level \<open>i\<close> (bit \<open>lvl\<close>) down,
  stop at a held level, stop with success at a requested one.
\<close>

lemma drop1_less: "lvl \<noteq> 0 \<Longrightarrow> unat (drop_bit (Suc 0) lvl) < unat lvl" for lvl :: "'a::len word"
  by (simp only: unat_drop_bit_eq) (simp add: drop_bit_eq_div unat_gt_0)

function pi_scan :: "u16 \<Rightarrow> u16 \<Rightarrow> u16 \<Rightarrow> nat \<Rightarrow> nat \<times> bool" where
  "pi_scan pih req lvl i =
     (if lvl = 0 then (i, False)
      else if tst lvl pih then (i, False)
      else if tst req lvl then (i, True)
      else pi_scan pih req (drop_bit 1 lvl) (i + 1))"
  by pat_completeness auto
termination
  by (relation "measure (\<lambda>(pih, req, lvl, i). unat lvl)") (auto intro: drop1_less)

declare pi_scan.simps [simp del]

definition check_irq_level :: "'a pi_state_scheme \<Rightarrow> bool \<times> 'a pi_state_scheme" where
  "check_irq_level s =
     (if xct_flag s \<noteq> 0 then (False, s)
      else if \<not> pi_enable s then
        (if PIR s \<noteq> 0 then
           (case pi_scan (ucast (PIH s)) (ucast (PIR s)) 0x40 1 of
              (n, found) \<Rightarrow> (found, s\<lparr>pi_enc := n\<rparr>))
         else (False, s))
      else
        (let s1 = (if IOB_PI s = 0 then s\<lparr>pi_pending := False\<rparr> else s);
             pi_req = (IOB_PI s AND ucast (PIE s)) OR ucast (PIR s)
         in case pi_scan (ucast (PIH s)) pi_req 0x40 1 of
              (n, found) \<Rightarrow> (if found then (True, s1\<lparr>pi_enc := n\<rparr>) else (False, s1))))"

function pi_top_held :: "u8 \<Rightarrow> u8 \<Rightarrow> u8" where
  \<comment> \<open>the bit at which the loop of \<open>restore_pi_hold\<close> stops, 0 if no level is held\<close>
  "pi_top_held pih lvl =
     (if lvl = 0 then 0
      else if tst lvl pih then lvl
      else pi_top_held pih (drop_bit 1 lvl))"
  by pat_completeness auto
termination
  by (relation "measure (\<lambda>(pih, lvl). unat lvl)") (auto intro: drop1_less)

declare pi_top_held.simps [simp del]

definition restore_pi_hold :: "'a pi_state_scheme \<Rightarrow> 'a pi_state_scheme" where
  "restore_pi_hold s =
     (if \<not> pi_enable s then s
      else let lvl = pi_top_held (PIH s) 0x40
           in s\<lparr>PIR := clr_bits (PIR s) lvl, PIH := clr_bits (PIH s) lvl,
                pi_pending := True\<rparr>)"

definition set_pi_hold :: "'a pi_state_scheme \<Rightarrow> 'a pi_state_scheme" where
  "set_pi_hold s =
     (let pi = pi_enc s;
          s1 = s\<lparr>PIR := clr_bits (PIR s) (pi_level pi)\<rparr>
      in if pi_enable s then s1\<lparr>PIH := PIH s OR pi_level pi\<rparr> else s1)"

section \<open>The request lines\<close>

definition irq_req :: "'a pi_state_scheme \<Rightarrow> nat \<Rightarrow> nat \<Rightarrow> bool" where
  \<comment> \<open>slot \<open>i\<close> of \<open>dev_irq\<close> asks for level \<open>n\<close>\<close>
  "irq_req s i n \<longleftrightarrow> n \<le> 7 \<and> bit (dev_irq s i) (7 - n)"

definition irq_on_bus :: "'a pi_state_scheme \<Rightarrow> nat \<Rightarrow> bool" where
  \<comment> \<open>level \<open>n\<close> is up on the I/O bus\<close>
  "irq_on_bus s n \<longleftrightarrow> n \<le> 7 \<and> bit (IOB_PI s) (7 - n)"

definition bus_inv :: "'a pi_state_scheme \<Rightarrow> bool" where
  \<comment> \<open>every device request is on the bus\<close>
  "bus_inv s \<longleftrightarrow> (\<forall>i < MAX_DEV. dev_irq s i AND NOT (IOB_PI s) = 0)"

lemma bit_pi_level:
  "bit (pi_level n :: u16) k \<longleftrightarrow> n \<le> 7 \<and> k = 7 - n"
  "bit (pi_level n :: u8) k \<longleftrightarrow> n \<le> 7 \<and> k = 7 - n"
  using bit_exp_iff [where 'a = u16, of 7 "k + n"] bit_exp_iff [where 'a = u8, of 7 "k + n"]
  by (auto simp: pi_level_def bit_drop_bit_eq add.commute)

lemma bit_irq_bus: "bit (irq_bus irq k) n \<longleftrightarrow> (\<exists>i < k. bit (irq i) n)"
  by (induction k) (auto simp: bit_simps less_Suc_eq)

lemma bus_inv_bits: "bus_inv s \<longleftrightarrow> (\<forall>i < MAX_DEV. \<forall>n. bit (dev_irq s i) n \<longrightarrow> bit (IOB_PI s) n)"
proof -
  have "x AND NOT y = 0 \<longleftrightarrow> (\<forall>n. bit x n \<longrightarrow> bit y n)" for x y :: u16
    using bit_imp_le_length [of x] by (auto simp: bit_eq_iff bit_simps)
  then show ?thesis by (simp add: bus_inv_def)
qed

text \<open>What a device may rely on when it raises and drops its request line.\<close>

locale irq_lines =
  fixes raise :: "nat \<Rightarrow> nat \<Rightarrow> 's \<Rightarrow> 's"
    and lower :: "nat \<Rightarrow> 's \<Rightarrow> 's"
    and req :: "'s \<Rightarrow> nat \<Rightarrow> nat \<Rightarrow> bool"
    and on_bus :: "'s \<Rightarrow> nat \<Rightarrow> bool"
    and inv :: "'s \<Rightarrow> bool"
  assumes raise_req: "l mod 8 \<noteq> 0 \<Longrightarrow> req (raise d l s) (d div 4) n \<longleftrightarrow> n = l mod 8"
    and raise_zero: "l mod 8 = 0 \<Longrightarrow> raise d l s = s"
    and raise_other: "i \<noteq> d div 4 \<Longrightarrow> req (raise d l s) i n = req s i n"
    and drop_req: "\<not> req (lower d s) (d div 4) n"
    and drop_other: "i \<noteq> d div 4 \<Longrightarrow> req (lower d s) i n = req s i n"
    and raise_inv: "inv s \<Longrightarrow> inv (raise d l s)"
    and drop_inv: "inv (lower d s)"
    and inv_bus: "inv s \<Longrightarrow> i < 128 \<Longrightarrow> req s i n \<Longrightarrow> on_bus s n"
    and drop_bus: "on_bus (lower d s) n \<longleftrightarrow> (\<exists>i < 128. req (lower d s) i n)"
begin

lemma raised_on_bus:
  assumes "inv s" and "d div 4 < 128" and "l mod 8 \<noteq> 0"
  shows "on_bus (raise d l s) (l mod 8)"
  using assms raise_req raise_inv inv_bus by blast

lemma drop_keeps_others:
  assumes "i < 128" and "i \<noteq> d div 4" and "req s i n"
  shows "on_bus (lower d s) n"
  using assms drop_other drop_bus by blast

lemma drop_only_requester:
  assumes "\<And>i. i < 128 \<Longrightarrow> i \<noteq> d div 4 \<Longrightarrow> \<not> req s i n"
  shows "\<not> on_bus (lower d s) n"
  using assms drop_bus drop_other drop_req by metis

lemma raise_drop_req:
  "req (lower d (raise d l s)) i n \<longleftrightarrow> i \<noteq> d div 4 \<and> req s i n"
  using drop_req drop_other raise_other by (cases "i = d div 4") auto

end

interpretation pi_lines: irq_lines set_interrupt clr_interrupt irq_req irq_on_bus bus_inv
proof unfold_locales
  fix l d n i and s :: "'a pi_state_scheme"
  show "l mod 8 \<noteq> 0 \<Longrightarrow> irq_req (set_interrupt d l s) (d div 4) n \<longleftrightarrow> n = l mod 8"
    by (auto simp: irq_req_def set_interrupt_def Let_def bit_pi_level) 
  show "l mod 8 = 0 \<Longrightarrow> set_interrupt d l s = s"
    by (simp add: set_interrupt_def)
  show "i \<noteq> d div 4 \<Longrightarrow> irq_req (set_interrupt d l s) i n = irq_req s i n"
    by (simp add: irq_req_def set_interrupt_def Let_def)
  show "\<not> irq_req (clr_interrupt d s) (d div 4) n"
    by (simp add: irq_req_def clr_interrupt_def Let_def)
  show "i \<noteq> d div 4 \<Longrightarrow> irq_req (clr_interrupt d s) i n = irq_req s i n"
    by (simp add: irq_req_def clr_interrupt_def Let_def)
  show "bus_inv s \<Longrightarrow> bus_inv (set_interrupt d l s)"
    by (auto simp: bus_inv_bits set_interrupt_def Let_def bit_simps)
  show "bus_inv (clr_interrupt d s)"
    by (auto simp: bus_inv_bits clr_interrupt_def Let_def bit_irq_bus)
  show "bus_inv s \<Longrightarrow> i < 128 \<Longrightarrow> irq_req s i n \<Longrightarrow> irq_on_bus s n"
    by (auto simp: bus_inv_bits irq_req_def irq_on_bus_def)
  show "irq_on_bus (clr_interrupt d s) n \<longleftrightarrow> (\<exists>i < 128. irq_req (clr_interrupt d s) i n)"
    by (auto simp: irq_on_bus_def irq_req_def clr_interrupt_def Let_def bit_irq_bus)
qed

section \<open>Priority: which level is granted\<close>

definition pi_wants :: "'a pi_state_scheme \<Rightarrow> nat \<Rightarrow> bool" where
  \<comment> \<open>level \<open>n\<close> is asked for, by an enabled bus line or by the program\<close>
  "pi_wants s n \<longleftrightarrow>
     irq_on_bus s n \<and> bit (PIE s) (7 - n) \<or> bit (PIR s) (7 - n)"

definition pi_held :: "'a pi_state_scheme \<Rightarrow> nat \<Rightarrow> bool" where
  "pi_held s n \<longleftrightarrow> bit (PIH s) (7 - n)"

definition pi_grant :: "'a pi_state_scheme \<Rightarrow> nat \<Rightarrow> bool" where
  \<comment> \<open>the highest level asked for, with no level in service at or above it\<close>
  "pi_grant s n \<longleftrightarrow> 1 \<le> n \<and> n \<le> 7 \<and> pi_wants s n
     \<and> (\<forall>m. 1 \<le> m \<longrightarrow> m \<le> n \<longrightarrow> \<not> pi_held s m)
     \<and> (\<forall>m. 1 \<le> m \<longrightarrow> m < n \<longrightarrow> \<not> pi_wants s m)"

definition held_levels :: "'a pi_state_scheme \<Rightarrow> nat list" where
  \<comment> \<open>the levels in service, highest first: the abstract stack of nested interrupts\<close>
  "held_levels s = filter (pi_held s) [1..<8]"

lemma tst_commute: "tst x y = tst y x"
  by (simp add: tst_def and.commute)

lemma tst_exp': "tst (2 ^ k) (x :: 'a::len word) \<longleftrightarrow> bit x k"
  by (simp add: tst_commute [of _ x] tst_exp)

lemma drop1_exp: "drop_bit (Suc 0) (2 ^ Suc k :: 'a::len word) = (if Suc k < LENGTH('a) then 2 ^ k else 0)"
  by (rule bit_word_eqI) (auto simp: bit_simps)

lemma exp_nonzero: "k < LENGTH('a) \<Longrightarrow> (2 ^ k :: 'a::len word) \<noteq> 0"
  by simp

lemma pi_scan_exp:
  "k \<le> 6 \<Longrightarrow> pi_scan pih req (2 ^ k) (7 - k) = (n, True) \<longleftrightarrow>
     7 - k \<le> n \<and> n \<le> 7 \<and> bit req (7 - n) \<and> (\<forall>m. 7 - k \<le> m \<longrightarrow> m \<le> n \<longrightarrow> \<not> bit pih (7 - m))
     \<and> (\<forall>m. 7 - k \<le> m \<longrightarrow> m < n \<longrightarrow> \<not> bit req (7 - m))"
proof (induction k)
  case 0
  have "pi_scan pih req 1 7 =
      (if bit pih 0 then (7, False) else if bit req 0 then (7, True) else (8, False))"
    using tst_exp [of req 0] tst_exp' [of 0 pih]
    by (simp add: pi_scan.simps [of pih req 1] pi_scan.simps [of pih req 0])
  then show ?case by (cases "n = 7") (auto simp: le_less)
next
  case (Suc k)
  have nz: "(2 ^ Suc k :: u16) \<noteq> 0" using Suc.prems by (intro exp_nonzero) simp
  have next': "drop_bit 1 (2 ^ Suc k :: u16) = 2 ^ k" "7 - Suc k + 1 = 7 - k"
    using Suc.prems drop1_exp [where 'a = 16, of k] by auto
  have unfold: "pi_scan pih req (2 ^ Suc k) (7 - Suc k) =
      (if bit pih (Suc k) then (7 - Suc k, False) else if bit req (Suc k) then (7 - Suc k, True)
       else pi_scan pih req (2 ^ k) (7 - k))"
    unfolding pi_scan.simps [of pih req "2 ^ Suc k"] next' tst_exp tst_exp'
    using nz by (simp only: if_False)
  have le: "7 - Suc k \<le> m \<longleftrightarrow> m = 7 - Suc k \<or> 7 - k \<le> m" for m
    using Suc.prems by auto
  have idx: "7 - (7 - Suc k) = Suc k" using Suc.prems by simp
  show ?case
    unfolding unfold le using Suc idx
    by (cases "bit pih (Suc k)"; cases "bit req (Suc k)"; cases "n = 7 - Suc k")
      (auto simp: le_diff_conv)
qed

lemma pi_scan_spec:
  "pi_scan pih req 0x40 1 = (n, True) \<longleftrightarrow>
     1 \<le> n \<and> n \<le> 7 \<and> bit req (7 - n) \<and> (\<forall>m. 1 \<le> m \<longrightarrow> m \<le> n \<longrightarrow> \<not> bit pih (7 - m))
     \<and> (\<forall>m. 1 \<le> m \<longrightarrow> m < n \<longrightarrow> \<not> bit req (7 - m))"
  using pi_scan_exp [of 6 pih req n] by simp

lemma check_irq_enabled:
  assumes "pi_enable s" and "xct_flag s = 0"
  shows "(\<exists>s'. check_irq_level s = (True, s') \<and> pi_enc s' = n) \<longleftrightarrow> pi_grant s n"
proof -
  let ?req = "(IOB_PI s AND ucast (PIE s)) OR ucast (PIR s)"
  have lt: "7 - m < 16" for m :: nat by simp
  have req: "bit ?req (7 - m) \<longleftrightarrow> pi_wants s m" if "m \<le> 7" for m
    using that lt [of m] by (auto simp: pi_wants_def irq_on_bus_def bit_simps)
  have held: "bit (ucast (PIH s) :: u16) (7 - m) \<longleftrightarrow> pi_held s m" for m
    using lt [of m] by (auto simp: pi_held_def bit_simps)
  have "(\<exists>s'. check_irq_level s = (True, s') \<and> pi_enc s' = n)
        \<longleftrightarrow> pi_scan (ucast (PIH s)) ?req 0x40 1 = (n, True)"
    using assms by (auto simp: check_irq_level_def Let_def split: prod.splits)
  then show ?thesis
    unfolding pi_scan_spec pi_grant_def using req held by auto
qed

lemma check_irq_frame:
  "check_irq_level s = (b, s') \<Longrightarrow>
   PIH s' = PIH s \<and> PIR s' = PIR s \<and> PIE s' = PIE s \<and> IOB_PI s' = IOB_PI s
   \<and> dev_irq s' = dev_irq s \<and> pi_enable s' = pi_enable s \<and> xct_flag s' = xct_flag s"
  by (auto simp: check_irq_level_def Let_def split: if_splits prod.splits)

section \<open>Nesting: holding and restoring are a stack\<close>

lemma set_pi_hold_held:
  "pi_held (set_pi_hold s) n \<longleftrightarrow>
     pi_held s n \<or> pi_enable s \<and> pi_enc s \<le> 7 \<and> 7 - n = 7 - pi_enc s"
  by (auto simp: set_pi_hold_def Let_def pi_held_def bit_or_iff bit_pi_level)

lemma filter_insert_first:
  assumes "sorted xs" and "distinct xs" and "n \<in> set xs" and "\<And>m. m \<in> set xs \<Longrightarrow> m \<le> n \<Longrightarrow> \<not> P m"
  shows "filter (\<lambda>m. P m \<or> m = n) xs = n # filter P (xs :: 'a::linorder list)"
  using assms
proof (induction xs)
  case Nil
  then show ?case by simp
next
  case (Cons x xs)
  show ?case
  proof (cases "x = n")
    case True
    have "filter (\<lambda>m. P m \<or> m = n) xs = filter P xs"
      by (rule filter_cong) (use Cons.prems True in auto)
    with True Cons.prems show ?thesis by auto
  next
    case False
    then have "n \<in> set xs" "x < n" using Cons.prems by (auto simp: less_le)
    with Cons False show ?thesis by auto
  qed
qed

lemma pi_grant_push:
  assumes "pi_enable s" and "xct_flag s = 0" and "check_irq_level s = (True, s')"
  shows "held_levels (set_pi_hold s') = pi_enc s' # held_levels s"
proof -
  have g: "pi_grant s (pi_enc s')"
    using check_irq_enabled [OF assms(1,2)] assms(3) by blast
  have f: "PIH s' = PIH s" "pi_enable s'"
    using check_irq_frame [OF assms(3)] assms(1) by auto
  have h: "pi_held (set_pi_hold s') m \<longleftrightarrow> pi_held s m \<or> m = pi_enc s'" if "m \<in> set [1..<8]" for m
  proof -
    have "7 - m = 7 - pi_enc s' \<longleftrightarrow> m = pi_enc s'" using that g by (auto simp: pi_grant_def)
    moreover have "pi_held s' m = pi_held s m" using f by (simp add: pi_held_def)
    ultimately show ?thesis using g f(2) by (simp add: set_pi_hold_held pi_grant_def)
  qed
  have "held_levels (set_pi_hold s') = filter (\<lambda>m. pi_held s m \<or> m = pi_enc s') [1..<8]"
    unfolding held_levels_def by (rule filter_cong) (use h in auto)
  also have "\<dots> = pi_enc s' # held_levels s"
    unfolding held_levels_def using g
    by (intro filter_insert_first) (auto simp: pi_grant_def)
  finally show ?thesis .
qed

lemma pi_top_held_exp:
  "k < 8 \<Longrightarrow> (\<exists>j \<le> k. bit pih j \<and> (\<forall>i \<le> k. j < i \<longrightarrow> \<not> bit pih i) \<and> pi_top_held pih (2 ^ k) = 2 ^ j)
     \<or> (\<forall>j \<le> k. \<not> bit pih j) \<and> pi_top_held pih (2 ^ k) = 0"
proof (induction k)
  case 0
  have "pi_top_held pih 1 = (if bit pih 0 then 1 else 0)"
    using tst_exp' [of 0 pih]
    by (simp add: pi_top_held.simps [of pih 1] pi_top_held.simps [of pih 0])
  then show ?case by auto
next
  case (Suc k)
  have nz: "(2 ^ Suc k :: u8) \<noteq> 0" using Suc.prems by (intro exp_nonzero) simp
  have next': "drop_bit 1 (2 ^ Suc k :: u8) = 2 ^ k"
    using Suc.prems drop1_exp [where 'a = 8, of k] by auto
  have unfold: "pi_top_held pih (2 ^ Suc k) =
      (if bit pih (Suc k) then 2 ^ Suc k else pi_top_held pih (2 ^ k))"
    unfolding pi_top_held.simps [of pih "2 ^ Suc k"] next' tst_exp'
    using nz by (simp only: if_False)
  show ?case
    unfolding unfold using Suc by (cases "bit pih (Suc k)") (auto simp: le_Suc_eq)
qed

lemma pi_restore_pop:
  assumes "pi_enable s"
  shows "held_levels (restore_pi_hold s) = tl (held_levels s)"
proof -
  let ?t = "pi_top_held (PIH s) 0x40"
  have h: "pi_held (restore_pi_hold s) m \<longleftrightarrow> pi_held s m \<and> \<not> bit ?t (7 - m)" for m
    using assms by (simp add: restore_pi_hold_def Let_def pi_held_def bit_clr_bits)
  consider (none) "\<forall>j \<le> 6. \<not> bit (PIH s) j" "?t = 0"
    | (top) j where "j \<le> 6" "bit (PIH s) j" "\<forall>i \<le> 6. j < i \<longrightarrow> \<not> bit (PIH s) i" "?t = 2 ^ j"
    using pi_top_held_exp [of 6 "PIH s"] by auto
  then show ?thesis
  proof cases
    case none
    then have "held_levels s = []" by (auto simp: held_levels_def filter_empty_conv pi_held_def)
    moreover have "held_levels (restore_pi_hold s) = []"
      using none(1) by (auto simp: held_levels_def filter_empty_conv h) (simp add: pi_held_def)
    ultimately show ?thesis by simp
  next
    case top
    define n where "n = 7 - j"
    have n: "n \<in> set [1..<8]" "pi_held s n" using top by (auto simp: n_def pi_held_def)
    have low: "\<not> pi_held s m" if "m \<in> set [1..<8]" "m < n" for m
      using that top(1,3) by (auto simp: n_def pi_held_def)
    have "filter (\<lambda>m. (pi_held s m \<and> m \<noteq> n) \<or> m = n) [1..<8]
          = n # filter (\<lambda>m. pi_held s m \<and> m \<noteq> n) [1..<8]"
      by (rule filter_insert_first) (use n low in \<open>auto simp: le_less\<close>)
    moreover have "filter (\<lambda>m. (pi_held s m \<and> m \<noteq> n) \<or> m = n) [1..<8] = held_levels s"
      unfolding held_levels_def by (rule filter_cong) (use n in auto)
    moreover have "held_levels (restore_pi_hold s) = filter (\<lambda>m. pi_held s m \<and> m \<noteq> n) [1..<8]"
      unfolding held_levels_def h top(4) using top(1)
      by (intro filter_cong) (auto simp: n_def bit_exp_iff)
    ultimately show ?thesis by (metis list.sel(3))
  qed
qed

end
