(* ===== verification/Apr_Device.thy ===== *)
theory Apr_Device
  imports Pi_System
begin

text \<open>
  The processor's own I/O devices of the KI10 build: the PI device (\<open>dev_pi\<close>), the
  arithmetic-processor device (\<open>check_apr_irq\<close>, \<open>dev_apr\<close>), the clock service
  routine (\<open>rtc_srv\<close>) and the routine of absent devices (\<open>null_dev\<close>), all of
  \<open>PDP10/kx10_cpu.c\<close>. A device routine takes the device number with the transfer
  function in its two low bits and the data word, and returns the data word and the state;
  every one of them returns \<open>SCPE_OK\<close>.
\<close>

unbundle bit_operations_syntax

section \<open>State\<close>

record apr_state = pi_state +
  RUN :: bool
  nxm_stop :: bool
  nxm_flag :: bool
  adr_flag :: bool
  inout_fail :: bool
  apr_irq :: nat
  clk_en :: bool
  clk_flg :: bool
  clk_irq :: nat
  timer_irq :: bool
  timer_flg :: bool
  SW :: u64
  MI :: u64
  MI_flag :: bool
  MI_disable :: bool

definition DATAI :: u32 where "DATAI = 0"
definition DATAO :: u32 where "DATAO = 1"
definition CONI :: u32 where "CONI = 2"
definition CONO :: u32 where "CONO = 3"

lemmas io_functions = DATAI_def DATAO_def CONI_def CONO_def

definition flag :: "bool \<Rightarrow> nat \<Rightarrow> u64" where
  \<comment> \<open>\<open>(b << n)\<close> for a flag \<open>b\<close> that is 0 or 1\<close>
  "flag b n = (if b then push_bit n 1 else 0)"

lemma bit_flag: "bit (flag b n) k \<longleftrightarrow> b \<and> k = n \<and> n < 64"
  by (auto simp: flag_def bit_simps)

section \<open>Operations\<close>

definition check_apr_irq :: "'a apr_state_scheme \<Rightarrow> 'a apr_state_scheme" where
  "check_apr_irq s =
     (let s1 = (if nxm_stop s \<and> nxm_flag s then s\<lparr>RUN := False\<rparr> else s);
          s2 = (if pi_enable s1 \<and> apr_irq s1 \<noteq> 0 then
                  (let t = clr_interrupt 0 s1
                   in if inout_fail t \<or> nxm_flag t \<or> adr_flag t
                      then set_interrupt 0 (apr_irq t) t else t)
                else s1)
      in if pi_enable s2 \<and> clk_en s2 \<and> clk_flg s2 then set_interrupt 4 (clk_irq s2) s2 else s2)"

definition dev_pi_cono :: "u64 \<Rightarrow> 'a apr_state_scheme \<Rightarrow> 'a apr_state_scheme" where
  "dev_pi_cono res s =
     (let lvls = ucast (res AND 0x7F);
          s = (if tst res 0x1000
               then s\<lparr>PIR := 0, PIH := 0, PIE := 0, pi_enable := False, parity_irq := False\<rparr>
               else s);
          s = (if tst res 0x80 then s\<lparr>pi_enable := True\<rparr> else s);
          s = (if tst res 0x100 then s\<lparr>pi_enable := False\<rparr> else s);
          s = (if tst res 0x200 then s\<lparr>PIE := clr_bits (PIE s) lvls\<rparr> else s);
          s = (if tst res 0x400 then s\<lparr>PIE := PIE s OR lvls\<rparr> else s);
          s = (if tst res 0x800 then s\<lparr>PIR := PIR s OR lvls, pi_pending := True\<rparr> else s);
          s = (if tst res 0x2000 then s\<lparr>PIR := clr_bits (PIR s) lvls\<rparr> else s);
          s = (if tst res 0x4000 then s\<lparr>parity_irq := True\<rparr> else s);
          s = (if tst res 0x8000 then s\<lparr>parity_irq := False\<rparr> else s)
      in check_apr_irq s)"

definition dev_pi_coni :: "'a apr_state_scheme \<Rightarrow> u64" where
  "dev_pi_coni s =
     ucast (PIE s) OR flag (pi_enable s) 7 OR push_bit 8 (ucast (PIH s))
     OR push_bit 18 (ucast (PIR s)) OR flag (adr_flag s) 31 OR flag (parity_irq s) 15"

definition dev_pi :: "u32 \<Rightarrow> u64 \<Rightarrow> 'a apr_state_scheme \<Rightarrow> u64 \<times> 'a apr_state_scheme" where
  "dev_pi dev data s =
     (let fn = dev AND 3
      in if fn = CONO then (data, dev_pi_cono data s)
         else if fn = CONI then (dev_pi_coni s, s)
         else if fn = DATAO then (data, s\<lparr>MI := data, MI_flag := \<not> MI_disable s\<rparr>)
         else (data, s))"

definition null_dev :: "u32 \<Rightarrow> u64 \<Rightarrow> 's \<Rightarrow> u64 \<times> 's" where
  "null_dev dev data s =
     (let fn = dev AND 3 in if fn = CONI \<or> fn = DATAI then (0, s) else (data, s))"

text \<open>
  \<open>reset_all(1)\<close>, which \<open>CONO APR,\<close> with bit 19 calls, runs the reset routines of the
  peripherals through \<open>scp.c\<close>; it is the argument \<open>io_reset\<close>.
\<close>

definition dev_apr_cono ::
    "('a apr_state_scheme \<Rightarrow> 'a apr_state_scheme) \<Rightarrow> u64 \<Rightarrow> 'a apr_state_scheme
     \<Rightarrow> 'a apr_state_scheme" where
  "dev_apr_cono io_reset res s =
     (let s = s\<lparr>clk_irq := unat (res AND 7), apr_irq := unat (drop_bit 3 res AND 7)\<rparr>;
          s = (if tst res 0x40 then s\<lparr>nxm_flag := False\<rparr> else s);
          s = (if tst res 0x80 then s\<lparr>inout_fail := False\<rparr> else s);
          s = (if tst res 0x200 then clr_interrupt 4 (s\<lparr>clk_flg := False\<rparr>) else s);
          s = (if tst res 0x400
               then (let s = s\<lparr>clk_en := True\<rparr>
                     in if clk_flg s then set_interrupt 4 (clk_irq s) s else s)
               else s);
          s = (if tst res 0x800 then clr_interrupt 4 (s\<lparr>clk_en := False\<rparr>) else s);
          s = (if tst res 0x4000 then s\<lparr>timer_irq := True\<rparr> else s);
          s = (if tst res 0x8000 then s\<lparr>timer_irq := False\<rparr> else s);
          s = (if tst res 0x10000 then io_reset s else s);
          s = (if tst res 0x20000 then s\<lparr>timer_flg := False\<rparr> else s)
      in check_apr_irq s)"

definition dev_apr_coni :: "'a apr_state_scheme \<Rightarrow> u64" where
  "dev_apr_coni s =
     of_nat (clk_irq s) OR push_bit 3 (of_nat (apr_irq s)) OR flag (nxm_flag s) 6
     OR flag (inout_fail s) 7 OR flag (clk_flg s) 9 OR flag (clk_en s) 10
     OR flag (timer_irq s) 14 OR flag (parity_irq s) 15 OR flag (timer_flg s) 17"

definition dev_apr ::
    "('a apr_state_scheme \<Rightarrow> 'a apr_state_scheme) \<Rightarrow> u32 \<Rightarrow> u64 \<Rightarrow> 'a apr_state_scheme
     \<Rightarrow> u64 \<times> 'a apr_state_scheme" where
  "dev_apr io_reset dev data s =
     (let fn = dev AND 3
      in if fn = CONI then (dev_apr_coni s, s)
         else if fn = CONO then (data, dev_apr_cono io_reset data s)
         else if fn = DATAO then (data, s)
         else (SW s, s))"

definition rtc_srv :: "'a apr_state_scheme \<Rightarrow> 'a apr_state_scheme" where
  \<comment> \<open>without the calls that recalibrate and re-arm the host timer\<close>
  "rtc_srv s =
     (let s = s\<lparr>clk_flg := True\<rparr>
      in if clk_en s then set_interrupt 4 (clk_irq s) s else s)"

section \<open>Frames\<close>

lemma set_interrupt_frame [simp]:
  "PIE (set_interrupt d l s) = PIE s" "PIR (set_interrupt d l s) = PIR s"
  "PIH (set_interrupt d l s) = PIH s" "pi_enable (set_interrupt d l s) = pi_enable s"
  "parity_irq (set_interrupt d l s) = parity_irq s" "pi_enc (set_interrupt d l s) = pi_enc s"
  "xct_flag (set_interrupt d l s) = xct_flag s"
  "clock_queue (set_interrupt d l s) = clock_queue s" "sim_interval (set_interrupt d l s) = sim_interval s"
  "noqueue_time (set_interrupt d l s) = noqueue_time s" "sim_time (set_interrupt d l s) = sim_time s"
  "sim_rtime (set_interrupt d l s) = sim_rtime s" "stop_cpu (set_interrupt d l s) = stop_cpu s"
  "pi_state.more (set_interrupt d l s) = pi_state.more s"
  by (simp_all add: set_interrupt_def Let_def)

lemma clr_interrupt_frame [simp]:
  "PIE (clr_interrupt d s) = PIE s" "PIR (clr_interrupt d s) = PIR s"
  "PIH (clr_interrupt d s) = PIH s" "pi_enable (clr_interrupt d s) = pi_enable s"
  "parity_irq (clr_interrupt d s) = parity_irq s" "pi_enc (clr_interrupt d s) = pi_enc s"
  "xct_flag (clr_interrupt d s) = xct_flag s"
  "clock_queue (clr_interrupt d s) = clock_queue s" "sim_interval (clr_interrupt d s) = sim_interval s"
  "noqueue_time (clr_interrupt d s) = noqueue_time s" "sim_time (clr_interrupt d s) = sim_time s"
  "sim_rtime (clr_interrupt d s) = sim_rtime s" "stop_cpu (clr_interrupt d s) = stop_cpu s"
  "pi_state.more (clr_interrupt d s) = pi_state.more s"
  by (simp_all add: clr_interrupt_def Let_def)

lemma apr_more_frame:
  fixes s t :: "'a apr_state_scheme"
  assumes "pi_state.more s = pi_state.more t"
  shows "nxm_stop s = nxm_stop t" "nxm_flag s = nxm_flag t" "adr_flag s = adr_flag t"
    "inout_fail s = inout_fail t" "apr_irq s = apr_irq t" "clk_en s = clk_en t"
    "clk_flg s = clk_flg t" "clk_irq s = clk_irq t" "timer_irq s = timer_irq t"
    "timer_flg s = timer_flg t" "SW s = SW t" "MI s = MI t" "MI_flag s = MI_flag t"
    "MI_disable s = MI_disable t" "RUN s = RUN t" "apr_state.more s = apr_state.more t"
  using assms by (cases s; cases t; simp)+

lemmas set_interrupt_apr [simp] = apr_more_frame [OF set_interrupt_frame(14)]
lemmas clr_interrupt_apr [simp] = apr_more_frame [OF clr_interrupt_frame(14)]

lemma check_apr_irq_frame [simp]:
  "PIE (check_apr_irq s) = PIE s" "PIR (check_apr_irq s) = PIR s"
  "PIH (check_apr_irq s) = PIH s" "pi_enable (check_apr_irq s) = pi_enable s"
  "parity_irq (check_apr_irq s) = parity_irq s" "pi_enc (check_apr_irq s) = pi_enc s"
  "xct_flag (check_apr_irq s) = xct_flag s"
  "nxm_stop (check_apr_irq s) = nxm_stop s" "nxm_flag (check_apr_irq s) = nxm_flag s"
  "adr_flag (check_apr_irq s) = adr_flag s" "inout_fail (check_apr_irq s) = inout_fail s"
  "apr_irq (check_apr_irq s) = apr_irq s" "clk_en (check_apr_irq s) = clk_en s"
  "clk_flg (check_apr_irq s) = clk_flg s" "clk_irq (check_apr_irq s) = clk_irq s"
  "timer_irq (check_apr_irq s) = timer_irq s" "timer_flg (check_apr_irq s) = timer_flg s"
  "SW (check_apr_irq s) = SW s" "MI (check_apr_irq s) = MI s"
  "MI_flag (check_apr_irq s) = MI_flag s" "MI_disable (check_apr_irq s) = MI_disable s"
  "apr_state.more (check_apr_irq s) = apr_state.more s"
  "clock_queue (check_apr_irq s) = clock_queue s" "sim_interval (check_apr_irq s) = sim_interval s"
  by (simp_all add: check_apr_irq_def Let_def)

lemma bus_inv_cong: "dev_irq s = dev_irq t \<Longrightarrow> IOB_PI s = IOB_PI t \<Longrightarrow> bus_inv s = bus_inv t"
  by (simp add: bus_inv_def)

lemma check_apr_irq_bus: "bus_inv s \<Longrightarrow> bus_inv (check_apr_irq s)"
proof -
  assume "bus_inv s"
  then have "bus_inv (s\<lparr>RUN := False\<rparr>)" by (simp add: bus_inv_def)
  then show ?thesis
    using \<open>bus_inv s\<close> by (auto simp: check_apr_irq_def Let_def pi_lines.raise_inv pi_lines.drop_inv)
qed

section \<open>What the devices do\<close>

lemma tst_u64 [tst_simps]:
  "tst (x :: u64) 0x80 = bit x 7" "tst (x :: u64) 0x100 = bit x 8" "tst (x :: u64) 0x200 = bit x 9"
  "tst (x :: u64) 0x400 = bit x 10" "tst (x :: u64) 0x800 = bit x 11"
  "tst (x :: u64) 0x1000 = bit x 12" "tst (x :: u64) 0x2000 = bit x 13"
  "tst (x :: u64) 0x4000 = bit x 14" "tst (x :: u64) 0x8000 = bit x 15"
  using tst_exp [of x 7] tst_exp [of x 8] tst_exp [of x 9] tst_exp [of x 10] tst_exp [of x 11]
    tst_exp [of x 12] tst_exp [of x 13] tst_exp [of x 14] tst_exp [of x 15]
  by simp_all

lemma bit_levels7: "bit (ucast (x AND 0x7F :: u64) :: u8) k \<longleftrightarrow> bit x k \<and> k < 7"
proof -
  have "x AND 0x7F = take_bit 7 x" by (simp add: take_bit_eq_mask mask_eq_exp_minus_1)
  then show ?thesis by (auto simp: bit_simps)
qed

lemma dev_pi_PIE:
  assumes "1 \<le> n" and "n \<le> 7"
  shows "bit (PIE (snd (dev_pi CONO res s))) (7 - n) \<longleftrightarrow>
    (if bit res (7 - n) \<and> bit res 10 then True
     else if bit res (7 - n) \<and> bit res 9 then False
     else bit (PIE s) (7 - n) \<and> \<not> bit res 12)"
  using assms
  by (simp add: dev_pi_def io_functions dev_pi_cono_def Let_def tst_simps bit_or_iff bit_clr_bits
      bit_levels7)

lemma dev_pi_PIR:
  assumes "1 \<le> n" and "n \<le> 7"
  shows "bit (PIR (snd (dev_pi CONO res s))) (7 - n) \<longleftrightarrow>
    (if bit res (7 - n) \<and> bit res 13 then False
     else if bit res (7 - n) \<and> bit res 11 then True
     else bit (PIR s) (7 - n) \<and> \<not> bit res 12)"
  using assms
  by (simp add: dev_pi_def io_functions dev_pi_cono_def Let_def tst_simps bit_or_iff bit_clr_bits
      bit_levels7)

lemma dev_pi_enable:
  "pi_enable (snd (dev_pi CONO res s)) \<longleftrightarrow>
     \<not> bit res 8 \<and> (bit res 7 \<or> pi_enable s \<and> \<not> bit res 12)"
  by (simp add: dev_pi_def io_functions dev_pi_cono_def Let_def tst_simps)

lemma dev_pi_bus: "bus_inv s \<Longrightarrow> bus_inv (snd (dev_pi dev res s))"
proof -
  assume inv: "bus_inv s"
  have "bus_inv (dev_pi_cono res s)"
    unfolding dev_pi_cono_def Let_def
    by (rule check_apr_irq_bus) (use inv in \<open>simp add: bus_inv_def\<close>)
  then show ?thesis using inv by (simp add: dev_pi_def Let_def bus_inv_def)
qed

end
