(* ===== verification/Memory.thy ===== *)
theory Memory
  imports Apr_Device
begin

text \<open>
  Memory of the KI10 build of \<open>PDP10/kx10_cpu.c\<close>: the store, the fast-memory
  registers, the KI10 pager (\<open>address_conditions\<close>, \<open>load_tlb\<close>,
  \<open>page_lookup\<close>), the processor's accesses (\<open>Mem_read\<close>, \<open>Mem_write\<close>,
  \<open>Mem_read_nopage\<close>, \<open>Mem_write_nopage\<close>), the channels' accesses
  (\<open>Mem_read_word\<close>, \<open>Mem_write_word\<close>), the pager's device (\<open>dev_pag\<close>) and the
  console's examine and deposit (\<open>cpu_ex\<close>, \<open>cpu_dep\<close>).

  The breakpoint table of \<open>scp.c\<close>, which the accesses only consult, is the pair of
  predicates \<open>brk_R\<close>, \<open>brk_W\<close>. The instruction history and the front-panel
  copies of the memory bus are not part of the state.
\<close>

unbundle bit_operations_syntax

section \<open>State\<close>

record mem_state = apr_state +
  M :: "u32 \<Rightarrow> u64"
  FM :: "u32 \<Rightarrow> u64"
  MEMSIZE :: u32
  FLAGS :: u32
  AB :: u32
  MB :: u64
  ub_ptr :: u32
  eb_ptr :: u32
  e_tlb :: "u32 \<Rightarrow> u32"
  u_tlb :: "u32 \<Rightarrow> u32"
  ac_stack :: u32
  fm_sel :: u8
  small_user :: bool
  user_addr_cmp :: bool
  page_enable :: bool
  page_fault :: bool
  fault_data :: u64
  pag_reload :: u32
  last_page :: u32
  apr_serial :: int
  adr_cond :: u32
  AS :: u32
  watch_stop :: bool
  modify :: bool
  last_addr :: u32
  brk_R :: "u32 \<Rightarrow> bool"
  brk_W :: "u32 \<Rightarrow> bool"

text \<open>Flag bits of the KI10 program-counter word (\<open>kx10_defs.h\<close>).\<close>

abbreviation (input) NODIV :: u32 where "NODIV \<equiv> 0x1"
abbreviation (input) FLTUND :: u32 where "FLTUND \<equiv> 0x2"
abbreviation (input) TRP1 :: u32 where "TRP1 \<equiv> 0x4"
abbreviation (input) TRP2 :: u32 where "TRP2 \<equiv> 0x8"
abbreviation (input) ADRFLT :: u32 where "ADRFLT \<equiv> 0x10"
abbreviation (input) PUBLIC :: u32 where "PUBLIC \<equiv> 0x20"
abbreviation (input) USERIO :: u32 where "USERIO \<equiv> 0x40"
abbreviation (input) USER :: u32 where "USER \<equiv> 0x80"
abbreviation (input) BYTI :: u32 where "BYTI \<equiv> 0x100"
abbreviation (input) FLTOVR :: u32 where "FLTOVR \<equiv> 0x200"
abbreviation (input) CRY1 :: u32 where "CRY1 \<equiv> 0x400"
abbreviation (input) CRY0 :: u32 where "CRY0 \<equiv> 0x800"
abbreviation (input) OVR :: u32 where "OVR \<equiv> 0x1000"
abbreviation (input) PRV_PUB :: u32 where "PRV_PUB \<equiv> 0x2000"

text \<open>Page-table entry bits of the KI10.\<close>

abbreviation (input) KI_PAG_A :: u32 where "KI_PAG_A \<equiv> 0x20000"
abbreviation (input) KI_PAG_P :: u32 where "KI_PAG_P \<equiv> 0x10000"
abbreviation (input) KI_PAG_W :: u32 where "KI_PAG_W \<equiv> 0x8000"
abbreviation (input) KI_PAG_S :: u32 where "KI_PAG_S \<equiv> 0x4000"
abbreviation (input) KI_PAG_X :: u32 where "KI_PAG_X \<equiv> 0x2000"

text \<open>Address-break conditions.\<close>

abbreviation (input) ADR_IFETCH :: u32 where "ADR_IFETCH \<equiv> 0x10"
abbreviation (input) ADR_DFETCH :: u32 where "ADR_DFETCH \<equiv> 0x8"
abbreviation (input) ADR_WRITE :: u32 where "ADR_WRITE \<equiv> 0x4"
abbreviation (input) ADR_STOP :: u32 where "ADR_STOP \<equiv> 0x2"
abbreviation (input) ADR_BREAK :: u32 where "ADR_BREAK \<equiv> 0x1"

definition OP_PORTAL :: "u64 \<Rightarrow> bool" where
  "OP_PORTAL x \<longleftrightarrow> x AND 0xFFF800000 = 0x560800000"

section \<open>Fast memory\<close>

definition get_reg :: "u32 \<Rightarrow> 'a mem_state_scheme \<Rightarrow> u64" where
  "get_reg reg s =
     (if tst (FLAGS s) USER then FM s (ucast (fm_sel s) OR (reg AND 0xF))
      else FM s (reg AND 0xF))"

definition set_reg :: "u32 \<Rightarrow> u64 \<Rightarrow> 'a mem_state_scheme \<Rightarrow> 'a mem_state_scheme" where
  "set_reg reg v s =
     (if tst (FLAGS s) USER
      then s\<lparr>FM := (FM s)(ucast (fm_sel s) OR (reg AND 0xF) := v)\<rparr>
      else s\<lparr>FM := (FM s)(reg AND 0xF := v)\<rparr>)"

section \<open>The pager\<close>

definition address_conditions :: "bool \<Rightarrow> bool \<Rightarrow> 'a mem_state_scheme \<Rightarrow> 'a mem_state_scheme" where
  "address_conditions fetch write s =
     (let cond = (if fetch then ADR_IFETCH else if write then ADR_WRITE else ADR_DFETCH);
          s = (if tst (adr_cond s) cond
               then (let s = (if tst (adr_cond s) ADR_STOP then s\<lparr>watch_stop := True\<rparr> else s)
                     in if tst (adr_cond s) ADR_BREAK then s\<lparr>adr_flag := True\<rparr> else s)
               else s)
      in check_apr_irq s)"

definition tlb_fill :: "u32 \<Rightarrow> u32 \<Rightarrow> u64 \<Rightarrow> (u32 \<Rightarrow> u32) \<Rightarrow> (u32 \<Rightarrow> u32)" where
  \<comment> \<open>load the pair of entries that shares the page-table word \<open>d\<close>\<close>
  "tlb_fill m page d tlb =
     tlb(page AND m := ucast (drop_bit 18 d AND RMASK), page OR 1 := ucast (d AND RMASK))"

definition load_tlb :: "bool \<Rightarrow> u32 \<Rightarrow> 'a mem_state_scheme \<Rightarrow> u32 \<times> 'a mem_state_scheme" where
  "load_tlb uf page0 s =
     (let upmp = (\<not> uf \<and> page0 AND 0x1E0 = 0xE0);
          page = (if upmp then page0 + 0x120 else page0);
          base = (\<not> uf \<and> \<not> upmp \<and> tst page 0x100);
          direct = (\<not> uf \<and> \<not> upmp \<and> \<not> base)
      in if direct then (KI_PAG_A OR KI_PAG_X OR page, s)
         else
           (let s = s\<lparr>sim_interval := sim_interval s - 1\<rparr>;
                reload = ((pag_reload s + 1) AND 0x1F) OR 0x20
            in if base then
                 (let d = M s (eb_ptr s + drop_bit 1 page);
                      tlb = tlb_fill 0x1FE page d (e_tlb s)
                  in (tlb page AND 0x3FFFF,
                      s\<lparr>e_tlb := tlb, pag_reload := reload,
                        last_page := push_bit 1 (page XOR 0x1FF) OR 1\<rparr>))
               else
                 (let d = M s (ub_ptr s + drop_bit 1 page);
                      tlb = tlb_fill 0x3FE page d (u_tlb s)
                  in (tlb page AND 0x3FFFF,
                      s\<lparr>u_tlb := tlb, pag_reload := reload,
                        last_page := (if upmp then push_bit 1 ((page - 0x120) XOR 0x1FF) OR 1
                                      else push_bit 1 (page XOR 0x1FF))\<rparr>))))"

definition fault_word :: "u32 \<Rightarrow> bool \<Rightarrow> u64" where
  \<comment> \<open>\<open>(((uint64)(page))<<18) | ((uint64)(uf) << 27)\<close>\<close>
  "fault_word page uf = push_bit 18 (ucast page) OR flag uf 27"

definition set_fault :: "u64 \<Rightarrow> 'a mem_state_scheme \<Rightarrow> 'a mem_state_scheme" where
  "set_fault d s = s\<lparr>fault_data := d, page_fault := True\<rparr>"

text \<open>
  \<open>page_lookup\<close> returns \<open>None\<close> where the C function returns 0 and
  \<open>Some loc\<close> where it returns 1 with \<open>*loc\<close> set.
\<close>

definition lookup_space :: "bool \<Rightarrow> bool \<Rightarrow> bool \<Rightarrow> bool \<Rightarrow> 'a mem_state_scheme \<Rightarrow> bool \<times> bool" where
  \<comment> \<open>whether the access is to user space and whether it is made in public mode\<close>
  "lookup_space flg wr cur_context md s =
     (let prev = (\<not> flg \<and> xct_flag s \<noteq> 0 \<and> \<not> cur_context
                  \<and> (tst (xct_flag s) 2 \<and> wr \<or> tst (xct_flag s) 1 \<and> (\<not> wr \<or> md)))
      in (if flg then False
          else if prev then tst (FLAGS s) USERIO else tst (FLAGS s) USER,
          if prev then tst (FLAGS s) PRV_PUB else tst (FLAGS s) PUBLIC))"

definition lookup_direct ::
    "u32 \<Rightarrow> bool \<Rightarrow> bool \<Rightarrow> bool \<Rightarrow> bool \<Rightarrow> bool \<Rightarrow> u32 \<Rightarrow> 'a mem_state_scheme
     \<Rightarrow> u32 option \<times> 'a mem_state_scheme" where
  \<comment> \<open>the direct-mapped executive pages 000 to 337\<close>
  "lookup_direct addr flg wr fetch uf pub page s =
     (if \<not> flg \<and> pub \<and> (\<not> fetch \<or> M s addr AND 0xFF8800000 \<noteq> 0x560800000)
      then (if wr then None else Some addr, set_fault (fault_word page uf OR 0x11) s)
      else (Some addr, s))"

definition lookup_checked ::
    "u32 \<Rightarrow> bool \<Rightarrow> bool \<Rightarrow> bool \<Rightarrow> bool \<Rightarrow> bool \<Rightarrow> u32 \<Rightarrow> u32 \<Rightarrow> 'a mem_state_scheme
     \<Rightarrow> u32 option \<times> 'a mem_state_scheme" where
  \<comment> \<open>the checks on the page-table entry \<open>data\<close>\<close>
  "lookup_checked addr flg wr fetch uf pub page data s =
     (let loc = push_bit 9 (data AND 0x1FFF) + (addr AND 0x1FF)
      in if \<not> tst data KI_PAG_A \<or> wr \<and> \<not> tst data KI_PAG_W
         then (None, set_fault ((fault_word page uf AND LMASK)
                 OR flag (tst data KI_PAG_A) 3 OR flag (tst data KI_PAG_W) 2
                 OR flag (tst data KI_PAG_S) 1 OR flag wr 0) s)
         else if \<not> flg \<and> pub \<and> \<not> tst data KI_PAG_P
                 \<and> (\<not> fetch \<or> \<not> OP_PORTAL (M s loc))
         then (None, set_fault (fault_word page uf OR 0x11) s)
         else (Some loc,
               if fetch \<and> tst data KI_PAG_P then s\<lparr>FLAGS := FLAGS s OR PUBLIC\<rparr> else s))"

definition page_lookup ::
    "u32 \<Rightarrow> bool \<Rightarrow> bool \<Rightarrow> bool \<Rightarrow> bool \<Rightarrow> bool \<Rightarrow> 'a mem_state_scheme
     \<Rightarrow> u32 option \<times> 'a mem_state_scheme" where
  "page_lookup addr flg wr0 cur_context fetch md s0 =
     (if page_fault s0 then (None, s0)
      else
        (let page = drop_bit 9 (addr AND 0x3FFFF);
             s = (if adr_cond s0 \<noteq> 0 \<and> addr = AS s0 then address_conditions fetch wr0 s0 else s0)
         in if \<not> page_enable s then (Some addr, s)
         else
           (let (uf, pub) = lookup_space flg wr0 cur_context md s;
                wr = (wr0 \<or> md)
            in if uf \<and> small_user s \<and> tst page 0xE0
               then (None, set_fault (fault_word page uf OR 0x10) s)
               else if \<not> uf \<and> page < 0xE0 then lookup_direct addr flg wr fetch uf pub page s
               else (let (data, s) = load_tlb uf page s
                     in lookup_checked addr flg wr fetch uf pub page data s))))"

section \<open>Accesses of the processor\<close>

definition nxm :: "'a mem_state_scheme \<Rightarrow> bool \<times> 'a mem_state_scheme" where
  \<comment> \<open>\<open>nxm_flag = 1; check_apr_irq(); return 1;\<close>\<close>
  "nxm s = (True, check_apr_irq (s\<lparr>nxm_flag := True\<rparr>))"

definition read_core ::
    "bool \<Rightarrow> bool \<Rightarrow> bool \<Rightarrow> bool \<Rightarrow> 'a mem_state_scheme \<Rightarrow> bool \<times> 'a mem_state_scheme" where
  \<comment> \<open>\<open>Mem_read\<close> from the label \<open>read\<close> on\<close>
  "read_core flg cur_context fetch md s =
     (case page_lookup (AB s) flg False cur_context fetch md s of
        (None, s) \<Rightarrow> (True, s)
      | (Some addr, s) \<Rightarrow>
          if MEMSIZE s \<le> addr then nxm s
          else (False,
                s\<lparr>watch_stop := (watch_stop s \<or> brk_R s (AB s)),
                  sim_interval := sim_interval s - 1,
                  MB := M s addr, modify := md, last_addr := addr\<rparr>))"

definition Mem_read ::
    "bool \<Rightarrow> bool \<Rightarrow> bool \<Rightarrow> bool \<Rightarrow> 'a mem_state_scheme \<Rightarrow> bool \<times> 'a mem_state_scheme" where
  \<comment> \<open>the first component is the C function's result: true on a fault\<close>
  "Mem_read flg cur_context fetch md s =
     (if AB s < 0x10 then
        (if \<not> tst (FLAGS s) USER \<and> \<not> cur_context \<and> tst (xct_flag s) 1 then
           (if tst (FLAGS s) USERIO then
              (if fm_sel s = 0 then read_core flg cur_context fetch md s
               else (let s = s\<lparr>MB := FM s (ucast (fm_sel s) OR AB s)\<rparr>
                     in (False, s\<lparr>MB := get_reg (AB s) s\<rparr>)))
            else (let s = s\<lparr>MB := M s (ub_ptr s + ac_stack s + AB s),
                           sim_interval := sim_interval s - 1\<rparr>
                  in (False, s\<lparr>MB := get_reg (AB s) s\<rparr>)))
         else (False, s\<lparr>MB := get_reg (AB s) s\<rparr>))
      else read_core flg cur_context fetch md s)"

definition write_core :: "bool \<Rightarrow> bool \<Rightarrow> 'a mem_state_scheme \<Rightarrow> bool \<times> 'a mem_state_scheme" where
  \<comment> \<open>\<open>Mem_write\<close> from the label \<open>write\<close> on\<close>
  "write_core flg cur_context s =
     (case page_lookup (AB s) flg True cur_context False False s of
        (None, s) \<Rightarrow> (True, s)
      | (Some addr, s) \<Rightarrow>
          if MEMSIZE s \<le> addr then nxm s
          else (False,
                s\<lparr>watch_stop := (watch_stop s \<or> brk_W s (AB s)),
                  sim_interval := sim_interval s - 1,
                  M := (M s)(addr := MB s)\<rparr>))"

definition Mem_write :: "bool \<Rightarrow> bool \<Rightarrow> 'a mem_state_scheme \<Rightarrow> bool \<times> 'a mem_state_scheme" where
  "Mem_write flg cur_context s =
     (if AB s < 0x10 then
        (if tst (FLAGS s) USER then (False, set_reg (AB s) (MB s) s)
         else if \<not> cur_context \<and> (tst (xct_flag s) 1 \<and> modify s \<or> tst (xct_flag s) 2) then
           (if tst (FLAGS s) USERIO then
              (if fm_sel s = 0 then write_core flg cur_context s
               else (False, s\<lparr>FM := (FM s)(ucast (fm_sel s) OR AB s := MB s)\<rparr>))
            else (False, s\<lparr>M := (M s)(ub_ptr s + ac_stack s + AB s := MB s)\<rparr>))
         else (False, set_reg (AB s) (MB s) s))
      else if modify s then
        (False, s\<lparr>watch_stop := (watch_stop s \<or> brk_W s (last_addr s)),
                  M := (M s)(last_addr s := MB s), modify := False\<rparr>)
      else write_core flg cur_context s)"

definition Mem_read_nopage :: "'a mem_state_scheme \<Rightarrow> bool \<times> 'a mem_state_scheme" where
  "Mem_read_nopage s =
     (let s = (if adr_cond s \<noteq> 0 \<and> AB s = AS s then address_conditions False False s else s)
      in if MEMSIZE s \<le> AB s then nxm s
         else (False, s\<lparr>sim_interval := sim_interval s - 1, MB := M s (AB s)\<rparr>))"

definition Mem_write_nopage :: "'a mem_state_scheme \<Rightarrow> bool \<times> 'a mem_state_scheme" where
  "Mem_write_nopage s =
     (let s = (if adr_cond s \<noteq> 0 \<and> AB s = AS s then address_conditions False True s else s)
      in if MEMSIZE s \<le> AB s then nxm s
         else (False, s\<lparr>sim_interval := sim_interval s - 1, M := (M s)(AB s := MB s)\<rparr>))"

section \<open>Accesses of the channels\<close>

definition Mem_read_word :: "u32 \<Rightarrow> bool \<Rightarrow> 'a mem_state_scheme \<Rightarrow> u64 option" where
  \<comment> \<open>\<open>None\<close> where the C function returns 1\<close>
  "Mem_read_word addr0 ept s =
     (let addr = (if ept then addr0 + eb_ptr s else addr0)
      in if MEMSIZE s \<le> addr then None else Some (M s addr))"

definition Mem_write_word :: "u32 \<Rightarrow> u64 \<Rightarrow> bool \<Rightarrow> 'a mem_state_scheme \<Rightarrow> 'a mem_state_scheme option" where
  "Mem_write_word addr0 d ept s =
     (let addr = (if ept then addr0 + eb_ptr s else addr0)
      in if MEMSIZE s \<le> addr then None else Some (s\<lparr>M := (M s)(addr := d)\<rparr>))"

section \<open>Frames\<close>

lemma mem_more_frame:
  fixes s t :: "'a mem_state_scheme"
  assumes "apr_state.more s = apr_state.more t"
  shows "M s = M t" "FM s = FM t" "MEMSIZE s = MEMSIZE t" "FLAGS s = FLAGS t" "AB s = AB t"
    "MB s = MB t" "ub_ptr s = ub_ptr t" "eb_ptr s = eb_ptr t" "e_tlb s = e_tlb t"
    "u_tlb s = u_tlb t" "ac_stack s = ac_stack t" "fm_sel s = fm_sel t"
    "small_user s = small_user t" "user_addr_cmp s = user_addr_cmp t"
    "page_enable s = page_enable t" "page_fault s = page_fault t" "fault_data s = fault_data t"
    "pag_reload s = pag_reload t" "last_page s = last_page t" "apr_serial s = apr_serial t"
    "adr_cond s = adr_cond t" "AS s = AS t" "watch_stop s = watch_stop t" "modify s = modify t"
    "last_addr s = last_addr t" "brk_R s = brk_R t"
    "brk_W s = brk_W t" "mem_state.more s = mem_state.more t"
  using assms by (cases s; cases t; simp)+

lemmas check_apr_irq_mem [simp] = mem_more_frame [OF check_apr_irq_frame(22)]

lemma set_reg_frame [simp]:
  "M (set_reg r v s) = M s" "MEMSIZE (set_reg r v s) = MEMSIZE s" "FLAGS (set_reg r v s) = FLAGS s"
  "AB (set_reg r v s) = AB s" "MB (set_reg r v s) = MB s" "fm_sel (set_reg r v s) = fm_sel s"
  "page_fault (set_reg r v s) = page_fault s" "modify (set_reg r v s) = modify s"
  "mem_state.more (set_reg r v s) = mem_state.more s"
  by (simp_all add: set_reg_def)

lemma address_conditions_frame [simp]:
  "M (address_conditions f w s) = M s" "FM (address_conditions f w s) = FM s"
  "MEMSIZE (address_conditions f w s) = MEMSIZE s" "FLAGS (address_conditions f w s) = FLAGS s"
  "AB (address_conditions f w s) = AB s" "MB (address_conditions f w s) = MB s"
  "page_enable (address_conditions f w s) = page_enable s"
  "page_fault (address_conditions f w s) = page_fault s"
  "fm_sel (address_conditions f w s) = fm_sel s"
  "small_user (address_conditions f w s) = small_user s"
  "ub_ptr (address_conditions f w s) = ub_ptr s" "eb_ptr (address_conditions f w s) = eb_ptr s"
  "xct_flag (address_conditions f w s) = xct_flag s"
  "modify (address_conditions f w s) = modify s"
  "last_addr (address_conditions f w s) = last_addr s"
  "mem_state.more (address_conditions f w s) = mem_state.more s"
  by (simp_all add: address_conditions_def Let_def)

lemma load_tlb_frame [simp]:
  "adr_cond (snd (load_tlb u p s)) = adr_cond s"
  "M (snd (load_tlb u p s)) = M s" "FM (snd (load_tlb u p s)) = FM s"
  "MEMSIZE (snd (load_tlb u p s)) = MEMSIZE s" "FLAGS (snd (load_tlb u p s)) = FLAGS s"
  "AB (snd (load_tlb u p s)) = AB s" "MB (snd (load_tlb u p s)) = MB s"
  "page_fault (snd (load_tlb u p s)) = page_fault s"
  "page_enable (snd (load_tlb u p s)) = page_enable s"
  "ub_ptr (snd (load_tlb u p s)) = ub_ptr s" "eb_ptr (snd (load_tlb u p s)) = eb_ptr s"
  "fm_sel (snd (load_tlb u p s)) = fm_sel s" "modify (snd (load_tlb u p s)) = modify s"
  "last_addr (snd (load_tlb u p s)) = last_addr s"
  "mem_state.more (snd (load_tlb u p s)) = mem_state.more s"
  by (simp_all add: load_tlb_def Let_def)

definition same_store :: "'a mem_state_scheme \<Rightarrow> 'a mem_state_scheme \<Rightarrow> bool" where
  \<comment> \<open>what an address translation leaves alone\<close>
  "same_store s t \<longleftrightarrow> M s = M t \<and> FM s = FM t \<and> MEMSIZE s = MEMSIZE t \<and> AB s = AB t
     \<and> MB s = MB t \<and> ub_ptr s = ub_ptr t \<and> eb_ptr s = eb_ptr t \<and> fm_sel s = fm_sel t
     \<and> modify s = modify t \<and> last_addr s = last_addr t \<and> page_enable s = page_enable t
     \<and> ac_stack s = ac_stack t \<and> small_user s = small_user t \<and> xct_flag s = xct_flag t
     \<and> mem_state.more s = mem_state.more t"

lemma same_store_steps [simp]:
  "same_store s s"
  "same_store (address_conditions f w s) s"
  "same_store (set_fault d s) s"
  "same_store (s\<lparr>FLAGS := fl\<rparr>) s"
  by (simp_all add: same_store_def address_conditions_def set_fault_def Let_def)

lemma same_store_trans: "same_store s t \<Longrightarrow> same_store t u \<Longrightarrow> same_store s u"
  by (simp add: same_store_def)

lemma same_store_load_tlb: "same_store (snd (load_tlb u p s)) s"
  by (simp add: load_tlb_def Let_def same_store_def)

lemma same_store_checked: "same_store (snd (lookup_checked a f w fe u p pg d s)) s"
  by (simp add: lookup_checked_def Let_def)

lemma same_store_direct: "same_store (snd (lookup_direct a f w fe u p pg s)) s"
  by (simp add: lookup_direct_def)

lemma page_lookup_store: "same_store (snd (page_lookup a f w c fe md s)) s"
proof (cases "page_fault s")
  case True
  then show ?thesis by (simp add: page_lookup_def)
next
  case False
  define t where "t = (if adr_cond s \<noteq> 0 \<and> a = AS s then address_conditions fe w s else s)"
  have t: "same_store t s" by (simp add: t_def)
  have "same_store (snd (page_lookup a f w c fe md s)) t"
    using False same_store_trans [OF same_store_checked same_store_load_tlb] same_store_direct
    unfolding page_lookup_def Let_def case_prod_unfold t_def [symmetric]
    by (auto simp del: drop_bit_and)
  then show ?thesis using t by (rule same_store_trans)
qed

section \<open>Address translation\<close>

definition pt_entry :: "'a mem_state_scheme \<Rightarrow> u32 \<Rightarrow> u32 \<Rightarrow> u32" where
  \<comment> \<open>entry \<open>page\<close> of the page table at \<open>base\<close>: two 18-bit entries a word,
      the even page in the left half\<close>
  "pt_entry s base page =
     (let w = M s (base + drop_bit 1 page)
      in ucast (if bit page 0 then w AND RMASK else drop_bit 18 w AND RMASK))"

definition frame_of :: "u32 \<Rightarrow> u32 \<Rightarrow> u32" where
  \<comment> \<open>the physical address a page-table entry gives to \<open>addr\<close>\<close>
  "frame_of entry addr = push_bit 9 (entry AND 0x1FFF) + (addr AND 0x1FF)"

definition page_of :: "u32 \<Rightarrow> u32" where
  "page_of addr = drop_bit 9 (addr AND 0x3FFFF)"

lemma and_masks32:
  "(x :: u32) AND 0x3FFFF = take_bit 18 x" "(x :: u32) AND 0x1FFF = take_bit 13 x"
  "(x :: u32) AND 0x1FF = take_bit 9 x" "(x :: u32) AND 0xF = take_bit 4 x"
  by (simp_all add: take_bit_eq_mask mask_eq_exp_minus_1)

lemma bit_const32:
  "bit (0x3FE :: u32) n \<longleftrightarrow> 1 \<le> n \<and> n < 10" "bit (0x1FE :: u32) n \<longleftrightarrow> 1 \<le> n \<and> n < 9"
proof -
  have eq: "(0x3FE :: u32) = push_bit 1 (mask 9)" "(0x1FE :: u32) = push_bit 1 (mask 8)"
    by (simp_all add: mask_eq_exp_minus_1)
  show "bit (0x3FE :: u32) n \<longleftrightarrow> 1 \<le> n \<and> n < 10"
    unfolding eq(1) by (auto simp only: bit_push_bit_iff bit_mask_iff possible_bit_word, simp_all)
  show "bit (0x1FE :: u32) n \<longleftrightarrow> 1 \<le> n \<and> n < 9"
    unfolding eq(2) by (auto simp only: bit_push_bit_iff bit_mask_iff possible_bit_word, simp_all)
qed

lemma page_of_bits: "bit (page_of a) n \<longleftrightarrow> n < 9 \<and> bit a (9 + n)"
  by (auto simp: page_of_def and_masks32 bit_take_bit_iff bit_drop_bit_eq)

lemma tlb_pair:
  assumes "\<And>n. bit page n \<Longrightarrow> n < k" and "\<And>n. bit (m :: u32) n \<longleftrightarrow> 1 \<le> n \<and> n < k"
  shows "tlb_fill m page d f page =
    ucast (if bit page 0 then d AND RMASK else drop_bit 18 d AND RMASK)"
proof (cases "bit page 0")
  case True
  then have "page OR 1 = page" by (intro bit_word_eqI) (auto simp: bit_or_iff bit_1_iff)
  then show ?thesis using True by (simp add: tlb_fill_def)
next
  case False
  have "page AND m = page"
  proof (rule bit_word_eqI)
    fix n show "bit (page AND m) n = bit page n"
      using False assms(1) [of n] assms(2) [of n] by (cases n) (auto simp: bit_and_iff)
  qed
  moreover have "page OR 1 \<noteq> page"
    using False bit_or_iff [of page 1 0] by (metis bit_1_0)
  ultimately show ?thesis using False by (simp add: tlb_fill_def)
qed

lemma page_bound: "uint page < 2 ^ 9 \<Longrightarrow> bit page n \<Longrightarrow> n < 10" for page :: u32
  using uint_less_bits [of page 9 n] by simp

lemma page_bound9: "uint page < 2 ^ 9 \<Longrightarrow> bit page n \<Longrightarrow> n < 9" for page :: u32
  by (rule uint_less_bits)

lemma and_18: "(ucast ((x :: u64) AND RMASK) :: u32) AND 0x3FFFF = ucast (x AND RMASK)"
  by (rule bit_word_eqI) (auto simp: and_masks32 mask_simps bit_simps)

lemma load_tlb_user:
  "uint page < 2 ^ 9 \<Longrightarrow> fst (load_tlb True page s) = pt_entry s (ub_ptr s) page"
  using tlb_pair [OF page_bound bit_const32(1)]
  by (simp add: load_tlb_def Let_def pt_entry_def and_18)

lemma load_tlb_exec:
  "uint page < 2 ^ 9 \<Longrightarrow> tst page 0x100 \<Longrightarrow> page AND 0x1E0 \<noteq> 0xE0 \<Longrightarrow>
   fst (load_tlb False page s) = pt_entry s (eb_ptr s) page"
  using tlb_pair [OF page_bound9 bit_const32(2)]
  by (simp add: load_tlb_def Let_def pt_entry_def and_18)

lemma page_of_less: "uint (page_of a) < 2 ^ 9"
proof -
  have "take_bit 9 (page_of a) = page_of a"
    by (rule bit_word_eqI) (auto simp: bit_take_bit_iff page_of_bits)
  then have "uint (page_of a) = take_bit 9 (uint (page_of a))"
    by (metis unsigned_take_bit_eq)
  then show ?thesis by (metis take_bit_int_less_exp)
qed

section \<open>Translation of user addresses\<close>

definition user_access :: "'a mem_state_scheme \<Rightarrow> bool" where
  \<comment> \<open>the processor is in user mode with paging on, no address stop set and no page
      failure pending\<close>
  "user_access s \<longleftrightarrow> tst (FLAGS s) USER \<and> xct_flag s = 0 \<and> page_enable s
     \<and> \<not> page_fault s \<and> adr_cond s = 0"

definition user_entry :: "'a mem_state_scheme \<Rightarrow> u32 \<Rightarrow> u32" where
  "user_entry s addr = pt_entry s (ub_ptr s) (page_of addr)"

definition user_may :: "'a mem_state_scheme \<Rightarrow> bool \<Rightarrow> bool \<Rightarrow> u32 \<Rightarrow> bool" where
  \<comment> \<open>what the page tables allow a user-mode access to \<open>addr\<close>\<close>
  "user_may s fetch wr addr \<longleftrightarrow>
     \<not> (small_user s \<and> tst (page_of addr) 0xE0)
     \<and> tst (user_entry s addr) KI_PAG_A
     \<and> (wr \<longrightarrow> tst (user_entry s addr) KI_PAG_W)
     \<and> (tst (FLAGS s) PUBLIC \<longrightarrow>
          tst (user_entry s addr) KI_PAG_P
          \<or> fetch \<and> OP_PORTAL (M s (frame_of (user_entry s addr) addr)))"

lemma lookup_space_plain: "xct_flag s = 0 \<Longrightarrow>
    lookup_space False w c md s = (tst (FLAGS s) USER, tst (FLAGS s) PUBLIC)"
  by (simp add: lookup_space_def)

lemma page_lookup_user:
  assumes "user_access s"
  shows "page_lookup a False w c fe md s =
      (if small_user s \<and> tst (page_of a) 0xE0
       then (None, set_fault (fault_word (page_of a) True OR 0x10) s)
       else lookup_checked a False (w \<or> md) fe True (tst (FLAGS s) PUBLIC) (page_of a)
              (user_entry s a) (snd (load_tlb True (page_of a) s)))"
  using assms unfolding page_lookup_def page_of_def [symmetric] Let_def user_entry_def
    load_tlb_user [OF page_of_less, symmetric]
  by (simp add: user_access_def lookup_space_plain case_prod_unfold del: drop_bit_and)

lemma lookup_checked_fst:
  "fst (lookup_checked a f w fe uf pub pg d s) =
     (if tst d KI_PAG_A \<and> (w \<longrightarrow> tst d KI_PAG_W)
         \<and> (\<not> f \<and> pub \<longrightarrow> tst d KI_PAG_P \<or> fe \<and> OP_PORTAL (M s (frame_of d a)))
      then Some (frame_of d a) else None)"
  unfolding lookup_checked_def frame_of_def [symmetric] Let_def by auto

lemma lookup_checked_fault:
  "fst (lookup_checked a f w fe uf pub pg d s) = None \<Longrightarrow>
   page_fault (snd (lookup_checked a f w fe uf pub pg d s))"
  unfolding lookup_checked_def Let_def by (auto simp: set_fault_def)

lemma lookup_user:
  assumes "user_access s"
  shows "fst (page_lookup a False w c fe md s) =
    (if user_may s fe (w \<or> md) a then Some (frame_of (user_entry s a) a) else None)"
  unfolding page_lookup_user [OF assms] user_may_def by (auto simp: lookup_checked_fst)

lemma lookup_user_fault:
  assumes "user_access s" and "page_lookup a False w c fe md s = (None, s')"
  shows "page_fault s'"
proof (cases "small_user s \<and> tst (page_of a) 0xE0")
  case True
  then show ?thesis using assms(2) unfolding page_lookup_user [OF assms(1)] by (auto simp: set_fault_def)
next
  case False
  then have "lookup_checked a False (w \<or> md) fe True (tst (FLAGS s) PUBLIC) (page_of a)
      (user_entry s a) (snd (load_tlb True (page_of a) s)) = (None, s')"
    using assms(2) unfolding page_lookup_user [OF assms(1)] by (simp only: if_False)
  then show ?thesis using lookup_checked_fault by (metis fst_conv snd_conv)
qed

lemma page_lookup_storeD:
  "page_lookup a f w c fe md s = (r, s') \<Longrightarrow> same_store s' s"
  using page_lookup_store [of a f w c fe md s] by simp

text \<open>A user-mode store reaches only pages the user page table marks writable.\<close>

lemma write_core_user:
  assumes "user_access s"
  shows "\<exists>t. same_store t s \<and> write_core False c s =
    (if user_may s False True (AB s) then
       (let a = frame_of (user_entry s (AB s)) (AB s)
        in if MEMSIZE s \<le> a then nxm t
           else (False, t\<lparr>watch_stop := (watch_stop t \<or> brk_W t (AB s)),
                  sim_interval := sim_interval t - 1, M := (M s)(a := MB s)\<rparr>))
     else (True, t)) \<and> (\<not> user_may s False True (AB s) \<longrightarrow> page_fault t)"
proof -
  obtain r t where pl: "page_lookup (AB s) False True c False False s = (r, t)" by fastforce
  have r: "r = (if user_may s False True (AB s) then Some (frame_of (user_entry s (AB s)) (AB s))
                else None)"
    using lookup_user [OF assms, of "AB s" True c False False] pl by simp
  have st: "same_store t s" using pl by (rule page_lookup_storeD)
  then have eq: "M t = M s" "AB t = AB s" "MB t = MB s" "MEMSIZE t = MEMSIZE s"
    by (simp_all add: same_store_def)
  have fault: "\<not> user_may s False True (AB s) \<Longrightarrow> page_fault t"
    using lookup_user_fault [OF assms] pl r by simp
  show ?thesis
    by (rule exI [of _ t]) (use st fault in \<open>simp add: write_core_def pl r eq Let_def\<close>)
qed

lemma nxm_mem [simp]: "fst (nxm s)" "M (snd (nxm s)) = M s" "FM (snd (nxm s)) = FM s"
    "nxm_flag (snd (nxm s))" "page_fault (snd (nxm s)) = page_fault s"
  by (simp_all add: nxm_def)

lemma Mem_write_high:
  "\<not> AB s < 0x10 \<Longrightarrow> \<not> modify s \<Longrightarrow> Mem_write f c s = write_core f c s"
  by (simp add: Mem_write_def)

lemma Mem_write_user_ac:
  "AB s < 0x10 \<Longrightarrow> tst (FLAGS s) USER \<Longrightarrow> Mem_write f c s = (False, set_reg (AB s) (MB s) s)"
  by (simp add: Mem_write_def)

text \<open>A user-mode store reaches only pages the user page table marks writable.\<close>

lemma user_write_confined:
  assumes u: "user_access s" and m: "\<not> modify s" and ch: "M (snd (Mem_write False c s)) a \<noteq> M s a"
  shows "user_may s False True (AB s) \<and> a = frame_of (user_entry s (AB s)) (AB s)
         \<and> a < MEMSIZE s \<and> M (snd (Mem_write False c s)) a = MB s"
proof -
  have ab: "\<not> AB s < 0x10"
    using u ch Mem_write_user_ac [of s] by (auto simp: user_access_def)
  obtain t where "same_store t s" and wc: "write_core False c s =
    (if user_may s False True (AB s) then
       (let a = frame_of (user_entry s (AB s)) (AB s)
        in if MEMSIZE s \<le> a then nxm t
           else (False, t\<lparr>watch_stop := (watch_stop t \<or> brk_W t (AB s)),
                  sim_interval := sim_interval t - 1, M := (M s)(a := MB s)\<rparr>))
     else (True, t))"
    using write_core_user [OF u] by blast
  then have "M t = M s" by (simp add: same_store_def)
  then show ?thesis
    using ch unfolding Mem_write_high [OF ab m] wc
    by (auto simp: Let_def not_le split: if_splits)
qed

text \<open>A refused access leaves the store alone and reports a page failure.\<close>

lemma user_write_refused:
  assumes u: "user_access s" and m: "\<not> modify s" and ab: "\<not> AB s < 0x10"
    and no: "\<not> user_may s False True (AB s)"
  shows "\<exists>s'. Mem_write False c s = (True, s') \<and> page_fault s' \<and> M s' = M s \<and> FM s' = FM s"
  using write_core_user [OF u, of c] no unfolding Mem_write_high [OF ab m]
  by (auto simp: same_store_def)

text \<open>
  A read-modify-write cycle: the read already asks for write access, so the write that
  follows it, which takes the translated address from the read, cannot be refused and goes
  to the word that was read.
\<close>

lemma Mem_write_modify:
  "\<not> AB s < 0x10 \<Longrightarrow> modify s \<Longrightarrow> Mem_write f c s =
     (False, s\<lparr>watch_stop := (watch_stop s \<or> brk_W s (last_addr s)),
               M := (M s)(last_addr s := MB s), modify := False\<rparr>)"
  by (simp add: Mem_write_def)

lemma user_rmw:
  assumes u: "user_access s" and ab: "\<not> AB s < 0x10"
    and rd: "Mem_read False c False True s = (False, s')"
  defines "a \<equiv> frame_of (user_entry s (AB s)) (AB s)"
  shows "user_may s False True (AB s)" "MB s' = M s a"
    "fst (Mem_write False c' (s'\<lparr>MB := v\<rparr>)) = False"
    "M (snd (Mem_write False c' (s'\<lparr>MB := v\<rparr>))) = (M s)(a := v)"
proof -
  obtain r t where pl: "page_lookup (AB s) False False c False True s = (r, t)" by fastforce
  have r: "r = (if user_may s False True (AB s) then Some a else None)"
    using lookup_user [OF u, of "AB s" False c False True] pl by (simp add: a_def)
  have st: "M t = M s" "AB t = AB s" using page_lookup_storeD [OF pl] by (simp_all add: same_store_def)
  have rc: "read_core False c False True s = (False, s')"
    using rd ab by (simp add: Mem_read_def)
  then have may: "user_may s False True (AB s)" and sz: "\<not> MEMSIZE t \<le> a"
    unfolding read_core_def pl r by (auto simp: nxm_def split: if_splits)
  then have s': "s' = t\<lparr>watch_stop := (watch_stop t \<or> brk_R t (AB t)),
                  sim_interval := sim_interval t - 1,
                  MB := M t a, modify := True, last_addr := a\<rparr>"
    using rc unfolding read_core_def pl r by simp
  show "user_may s False True (AB s)" by (rule may)
  show "MB s' = M s a" by (simp add: s' st)
  have "\<not> AB (s'\<lparr>MB := v\<rparr>) < 0x10" "modify (s'\<lparr>MB := v\<rparr>)" using ab by (simp_all add: s' st)
  note wr = Mem_write_modify [OF this]
  show "fst (Mem_write False c' (s'\<lparr>MB := v\<rparr>)) = False" unfolding wr by simp
  show "M (snd (Mem_write False c' (s'\<lparr>MB := v\<rparr>))) = (M s)(a := v)"
    unfolding wr by (simp add: s' st)
qed

end
