(* ===== verification/Pager_Device.thy ===== *)
theory Pager_Device
  imports Memory
begin

text \<open>
  The KI10 pager's I/O device (\<open>dev_pag\<close>), the console's examine, deposit and memory-size
  commands (\<open>cpu_ex\<close>, \<open>cpu_dep\<close>, \<open>cpu_set_size\<close>) of \<open>PDP10/kx10_cpu.c\<close>, and
  the locale \<open>mem_port\<close>, the view of memory the data channels have.
\<close>

unbundle bit_operations_syntax

section \<open>The pager's device\<close>

definition DEF_SERIAL :: int where "DEF_SERIAL = 514"

definition flush_tlb :: "'a mem_state_scheme \<Rightarrow> 'a mem_state_scheme" where
  \<comment> \<open>the two loops that clear \<open>e_tlb[0..511]\<close> and \<open>u_tlb[0..545]\<close>\<close>
  "flush_tlb s = s\<lparr>e_tlb := (\<lambda>i. if i < 512 then 0 else e_tlb s i),
                    u_tlb := (\<lambda>i. if i < 546 then 0 else u_tlb s i)\<rparr>"

definition dev_pag_coni :: "'a mem_state_scheme \<Rightarrow> u64" where
  "dev_pag_coni s =
     ucast (pag_reload s XOR 0x20) OR push_bit 8 (ucast (last_page s))
     OR push_bit 26 (of_int (if apr_serial s = - 1 then DEF_SERIAL else apr_serial s))"

definition dev_pag_cono :: "u64 \<Rightarrow> 'a mem_state_scheme \<Rightarrow> 'a mem_state_scheme" where
  "dev_pag_cono d s =
     s\<lparr>ac_stack := ucast (drop_bit 9 d AND 0x1F0),
       pag_reload := ucast (d AND 0x1F) OR (pag_reload s AND 0x20)\<rparr>"

definition dev_pag_datao :: "u64 \<Rightarrow> 'a mem_state_scheme \<Rightarrow> 'a mem_state_scheme" where
  "dev_pag_datao res s =
     (let s = (if tst res RSIGN
               then flush_tlb (s\<lparr>eb_ptr := push_bit 9 (ucast (res AND 0x1FFF))\<rparr>)
                      \<lparr>page_enable := tst res 0x2000\<rparr>
               else s);
          s = (if tst res SMASK
               then flush_tlb (s\<lparr>ub_ptr := push_bit 9 (ucast (drop_bit 18 res AND 0x1FFF))\<rparr>)
                      \<lparr>user_addr_cmp := tst res 0x80000000, small_user := tst res 0x100000000,
                       fm_sel := ucast (drop_bit 29 res) AND 0x30\<rparr>
               else s)
      in s\<lparr>pag_reload := 0\<rparr>)"

definition dev_pag_datai :: "'a mem_state_scheme \<Rightarrow> u64" where
  "dev_pag_datai s =
     ucast (drop_bit 9 (eb_ptr s)) OR flag (page_enable s) 13
     OR push_bit 9 (ucast (ub_ptr s)) OR flag (user_addr_cmp s) 31 OR flag (small_user s) 32
     OR push_bit 29 (ucast (fm_sel s))"

definition dev_pag :: "u32 \<Rightarrow> u64 \<Rightarrow> 'a mem_state_scheme \<Rightarrow> u64 \<times> 'a mem_state_scheme" where
  "dev_pag dev d s =
     (let fn = dev AND 3
      in if fn = CONI then (dev_pag_coni s, s)
         else if fn = CONO then (d, dev_pag_cono d s)
         else if fn = DATAO then (d, dev_pag_datao d s)
         else (dev_pag_datai s, s))"

lemma and_low_masks [mask_simps]:
  "(x :: u64) AND 0x1FFF = take_bit 13 x" "(y :: u8) AND 0x30 = push_bit 4 (take_bit 2 (drop_bit 4 y))"
proof -
  show "x AND 0x1FFF = take_bit 13 x" by (simp add: take_bit_eq_mask mask_eq_exp_minus_1)
  have eq: "(0x30 :: u8) = push_bit 4 (mask 2)" by (simp add: mask_eq_exp_minus_1)
  show "y AND 0x30 = push_bit 4 (take_bit 2 (drop_bit 4 y))"
    unfolding eq by (rule bit_word_eqI) (auto simp: bit_simps)
qed

lemma tst_pag: "tst (x :: u64) 0x80000000 = bit x 31" "tst (x :: u64) 0x100000000 = bit x 32"
    "tst (x :: u64) 0x2000 = bit x 13"
  using tst_exp [of x 31] tst_exp [of x 32] tst_exp [of x 13] by simp_all

lemma bit_pag_mask: "bit (0x7FFFC3FFF :: u64) n \<longleftrightarrow> n < 14 \<or> 18 \<le> n \<and> n < 35"
proof -
  have eq: "(0x7FFFC3FFF :: u64) = push_bit 18 (mask 17) OR mask 14"
    by (simp add: mask_eq_exp_minus_1)
  show ?thesis
    unfolding eq by (auto simp: bit_simps)
qed

lemma bit_pag_mask_int: "bit (0x7FFFC3FFF :: int) n \<longleftrightarrow> n < 14 \<or> 18 \<le> n \<and> n < 35"
proof -
  have eq: "(0x7FFFC3FFF :: int) = push_bit 18 (mask 17) OR mask 14"
    by (simp add: mask_eq_exp_minus_1 push_bit_eq_mult)
  show ?thesis
    unfolding eq by (auto simp: bit_simps)
qed

lemma flush_tlb_frame [simp]:
  "eb_ptr (flush_tlb s) = eb_ptr s" "ub_ptr (flush_tlb s) = ub_ptr s"
  "page_enable (flush_tlb s) = page_enable s" "M (flush_tlb s) = M s" "FM (flush_tlb s) = FM s"
  "mem_state.more (flush_tlb s) = mem_state.more s"
  by (simp_all add: flush_tlb_def)

lemma datao_fields:
  assumes "bit d 17" and "bit d 35"
  shows "eb_ptr (dev_pag_datao d s) = push_bit 9 (ucast (take_bit 13 d))"
    "ub_ptr (dev_pag_datao d s) = push_bit 9 (ucast (take_bit 13 (drop_bit 18 d)))"
    "page_enable (dev_pag_datao d s) = bit d 13" "user_addr_cmp (dev_pag_datao d s) = bit d 31"
    "small_user (dev_pag_datao d s) = bit d 32"
    "fm_sel (dev_pag_datao d s) = push_bit 4 (take_bit 2 (drop_bit 4 (ucast (drop_bit 29 d))))"
  using assms by (simp_all add: dev_pag_datao_def Let_def tst_simps tst_pag mask_simps)

lemma pag_fields:
  "ucast (drop_bit 9 (push_bit 9 (ucast (take_bit 13 (d :: u64))) :: u32)) = take_bit 13 d"
  "push_bit 9 (ucast (push_bit 9 (ucast (take_bit 13 (drop_bit 18 d))) :: u32) :: u64)
     = push_bit 18 (take_bit 13 (drop_bit 18 d))"
  "push_bit 29 (ucast (push_bit 4 (take_bit 2 (drop_bit 4 (ucast (drop_bit 29 d)))) :: u8) :: u64)
     = push_bit 33 (take_bit 2 (drop_bit 33 d))"
  by (rule bit_word_eqI; simp add: bit_simps; fastforce simp: bit_simps)+

lemma pag_join:
  "take_bit 13 d OR flag (bit d 13) 13 OR push_bit 18 (take_bit 13 (drop_bit 18 d))
     OR flag (bit d 31) 31 OR flag (bit d 32) 32 OR push_bit 33 (take_bit 2 (drop_bit 33 d))
   = (d :: u64) AND 0x7FFFC3FFF"
proof (rule bit_word_eqI)
  fix n assume n: "n < LENGTH(64)"
  consider "n < 13" | "n = 13" | "13 < n" "n < 18" | "18 \<le> n" "n < 31" | "n = 31" | "n = 32"
    | "n = 33" | "n = 34" | "35 \<le> n" by linarith
  then show "bit (take_bit 13 d OR flag (bit d 13) 13 OR push_bit 18 (take_bit 13 (drop_bit 18 d))
     OR flag (bit d 31) 31 OR flag (bit d 32) 32 OR push_bit 33 (take_bit 2 (drop_bit 33 d))) n
   = bit (d AND 0x7FFFC3FFF) n"
    using n by cases (simp_all add: bit_simps bit_flag bit_pag_mask_int less_diff_conv2)
qed

lemma dev_pag_datai_datao:
  assumes "bit d 17" and "bit d 35"
  shows "dev_pag_datai (dev_pag_datao d s) = d AND 0x7FFFC3FFF"
  unfolding dev_pag_datai_def datao_fields [OF assms] pag_fields by (rule pag_join)

section \<open>The console\<close>

text \<open>
  \<open>cpu_ex\<close> and \<open>cpu_dep\<close>. \<open>v\<close> and \<open>u\<close> are the switches -V and
  -U; the first component of a result is the C function's \<open>t_stat\<close>.
\<close>

definition SCPE_OK :: nat where "SCPE_OK = 0"
definition SCPE_NXM :: nat where "SCPE_NXM = 64"
definition SCPE_ARG :: nat where "SCPE_ARG = 72"

definition console_map :: "bool \<Rightarrow> bool \<Rightarrow> u32 \<Rightarrow> 'a mem_state_scheme \<Rightarrow> u32 option" where
  \<comment> \<open>the address a virtual examine or deposit goes to, through the loaded TLBs\<close>
  "console_map v u ea s =
     (if \<not> v then Some ea
      else (let page = drop_bit 9 ea;
                upmp = (\<not> u \<and> page AND 0x1E0 = 0xE0);
                tlb = (if upmp then u_tlb s (page + 0x120)
                       else if u then u_tlb s page else e_tlb s page)
            in if \<not> tst tlb 0x20000 then None
               else Some (push_bit 9 (tlb AND 0x1FFF) + (ea AND 0x1FF))))"

definition cpu_ex :: "bool \<Rightarrow> bool \<Rightarrow> u32 \<Rightarrow> 'a mem_state_scheme \<Rightarrow> nat \<times> u64 option" where
  \<comment> \<open>the second component is the value stored through \<open>vptr\<close>\<close>
  "cpu_ex v u ea s =
     (if ea < 0x10 then (SCPE_OK, Some (FM s ea AND FMASK))
      else (case console_map v u ea s of
              None \<Rightarrow> (4, None)
            | Some a \<Rightarrow> if MEMSIZE s \<le> a then (SCPE_NXM, None)
                        else (SCPE_OK, Some (M s a AND FMASK))))"

definition cpu_dep ::
    "u64 \<Rightarrow> bool \<Rightarrow> bool \<Rightarrow> u32 \<Rightarrow> 'a mem_state_scheme \<Rightarrow> nat \<times> 'a mem_state_scheme" where
  "cpu_dep val v u ea s =
     (if ea < 0x10 then (SCPE_OK, s\<lparr>FM := (FM s)(ea := val AND FMASK)\<rparr>)
      else (case console_map v u ea s of
              None \<Rightarrow> (4, s)
            | Some a \<Rightarrow> if MEMSIZE s \<le> a then (SCPE_NXM, s)
                        else (SCPE_OK, s\<lparr>M := (M s)(a := val AND FMASK)\<rparr>)))"

lemma console_map_store [simp]:
  "console_map v u ea (s\<lparr>M := m\<rparr>) = console_map v u ea s"
  by (simp add: console_map_def Let_def)

lemma cpu_ex_dep:
  assumes "fst (cpu_dep val v u ea s) = SCPE_OK"
  shows "cpu_ex v u ea (snd (cpu_dep val v u ea s)) = (SCPE_OK, Some (val AND FMASK))"
  using assms
  by (auto simp: cpu_dep_def cpu_ex_def SCPE_OK_def SCPE_NXM_def split: option.splits if_splits)

lemma cpu_dep_refused:
  "fst (cpu_dep val v u ea s) \<noteq> SCPE_OK \<Longrightarrow> snd (cpu_dep val v u ea s) = s
     \<and> cpu_ex v u ea s = (fst (cpu_dep val v u ea s), None)"
  by (auto simp: cpu_dep_def cpu_ex_def SCPE_OK_def SCPE_NXM_def split: option.splits if_splits)

text \<open>
  \<open>cpu_set_size\<close>: \<open>n\<close> is the size in units of 16K words, \<open>yes\<close> the
  operator's answer to the question \<open>get_yn\<close> asks. The scan of the words the change
  would lose starts one word early, as the C loop does.
\<close>

abbreviation MAXMEMSIZE :: int where "MAXMEMSIZE \<equiv> 4194304"

fun or_words :: "(u32 \<Rightarrow> u64) \<Rightarrow> nat \<Rightarrow> nat \<Rightarrow> u64" where
  \<comment> \<open>\<open>for (; n > 0; n--, i++) mc = mc | M[i]\<close>\<close>
  "or_words m i 0 = 0"
| "or_words m i (Suc n) = m (of_nat i) OR or_words m (i + 1) n"

definition cpu_set_size :: "int \<Rightarrow> bool \<Rightarrow> 'a mem_state_scheme \<Rightarrow> nat \<times> 'a mem_state_scheme" where
  "cpu_set_size n yes s =
     (let val = n * 16 * 1024
      in if n \<le> 0 \<or> MAXMEMSIZE < val then (SCPE_ARG, s)
         else if val < uint (MEMSIZE s)
                 \<and> or_words (M s) (nat val - 1) (nat (uint (MEMSIZE s) - val + 1)) \<noteq> 0
                 \<and> \<not> yes
         then (SCPE_OK, s)
         else (SCPE_OK,
               s\<lparr>M := (\<lambda>a. if MEMSIZE s \<le> a \<and> uint a < val then 0 else M s a),
                 MEMSIZE := word_of_int val\<rparr>))"

lemma or_words_zero: "or_words m i n = 0 \<longleftrightarrow> (\<forall>k < n. m (of_nat (i + k)) = 0)"
proof (induction n arbitrary: i)
  case (Suc n)
  have "or_words m i (Suc n) = 0 \<longleftrightarrow> m (of_nat i) = 0 \<and> or_words m (i + 1) n = 0"
    by (simp add: or_eq_0_iff del: of_nat_Suc)
  also have "\<dots> \<longleftrightarrow> (\<forall>k < Suc n. m (of_nat (i + k)) = 0)"
    unfolding Suc.IH by (auto simp: less_Suc_eq_0_disj simp del: of_nat_Suc of_nat_add)
  finally show ?case .
qed simp

lemma size_uint: "n \<le> 256 \<Longrightarrow> 0 < n \<Longrightarrow> uint (word_of_int (n * 16384) :: u32) = n * 16384"
proof -
  assume "n \<le> 256" "0 < n"
  then show ?thesis by (simp only: uint_word_of_int, intro mod_pos_pos_trivial, simp_all)
qed

text \<open>
  A size change the operator did not confirm never discards a non-zero word, and the words a
  larger memory gains are zero.
\<close>

lemma cpu_set_size_keeps:
  assumes "cpu_set_size n False s = (SCPE_OK, s')" and "a < MEMSIZE s" and "M s a \<noteq> 0"
  shows "a < MEMSIZE s' \<and> M s' a = M s a"
proof -
  define val where "val = n * 16 * 1024"
  have ok: "\<not> (n \<le> 0 \<or> MAXMEMSIZE < val)"
    using assms(1) by (auto simp: cpu_set_size_def val_def [symmetric] Let_def SCPE_OK_def SCPE_ARG_def)
  then have n: "0 < n" "n \<le> 256" by (auto simp: val_def)
  have val: "val = n * 16384" by (simp add: val_def)
  have word: "uint (word_of_int val :: u32) = val" unfolding val by (rule size_uint [OF n(2,1)])
  define c where "c \<longleftrightarrow> val < uint (MEMSIZE s)
                 \<and> or_words (M s) (nat val - 1) (nat (uint (MEMSIZE s) - val + 1)) \<noteq> 0"
  have eq: "cpu_set_size n False s = (if c then (SCPE_OK, s) else (SCPE_OK,
               s\<lparr>M := (\<lambda>a. if MEMSIZE s \<le> a \<and> uint a < val then 0 else M s a),
                 MEMSIZE := word_of_int val\<rparr>))"
    using ok unfolding cpu_set_size_def val_def [symmetric] Let_def c_def by simp
  show ?thesis
  proof (cases c)
    case True
    then show ?thesis using assms unfolding eq by simp
  next
    case False
    then have s': "s' = s\<lparr>M := (\<lambda>a. if MEMSIZE s \<le> a \<and> uint a < val then 0 else M s a),
                 MEMSIZE := word_of_int val\<rparr>" using assms(1) unfolding eq by simp
    have "uint a < val"
    proof (rule ccontr)
      assume le: "\<not> uint a < val"
      have lt: "uint a < uint (MEMSIZE s)" using assms(2) by (simp add: word_less_def)
      then have z: "or_words (M s) (nat val - 1) (nat (uint (MEMSIZE s) - val + 1)) = 0"
        using False le by (auto simp: c_def)
      define k where "k = nat (uint a - val + 1)"
      have k: "k < nat (uint (MEMSIZE s) - val + 1)" using le lt by (simp add: k_def)
      have "int (nat val - 1 + k) = uint a" using le n by (simp add: k_def val)
      then have "nat val - 1 + k = nat (uint a)" by linarith
      then have "M s (of_nat (nat (uint a))) = 0" using z k unfolding or_words_zero by metis
      then show False using assms(3) by simp
    qed
    then show ?thesis using assms(2) by (simp add: s' word_less_def word_le_def word not_le)
  qed
qed

lemma cpu_set_size_grows:
  assumes "cpu_set_size n yes s = (SCPE_OK, s')" and "MEMSIZE s \<le> a" and "a < MEMSIZE s'"
  shows "M s' a = 0"
proof -
  define val where "val = n * 16 * 1024"
  have ok: "\<not> (n \<le> 0 \<or> MAXMEMSIZE < val)"
    using assms(1) by (auto simp: cpu_set_size_def val_def [symmetric] Let_def SCPE_OK_def SCPE_ARG_def)
  then have n: "0 < n" "n \<le> 256" by (auto simp: val_def)
  have val: "val = n * 16384" by (simp add: val_def)
  have word: "uint (word_of_int val :: u32) = val" unfolding val by (rule size_uint [OF n(2,1)])
  have "s' = s \<or> s' = s\<lparr>M := (\<lambda>a. if MEMSIZE s \<le> a \<and> uint a < val then 0 else M s a),
                 MEMSIZE := word_of_int val\<rparr>"
    using assms(1) ok unfolding cpu_set_size_def val_def [symmetric] Let_def by (auto split: if_splits)
  then show ?thesis using assms(2,3) by (auto simp: word_less_def word_le_def word)
qed

section \<open>The port of the data channels\<close>

locale mem_port =
  fixes rd :: "u32 \<Rightarrow> 's \<Rightarrow> u64 option"
    and wr :: "u32 \<Rightarrow> u64 \<Rightarrow> 's \<Rightarrow> 's option"
  assumes rd_wr: "wr a d s = Some t \<Longrightarrow> rd b t = (if b = a then Some d else rd b s)"
    and wr_defined: "wr a d s = None \<longleftrightarrow> rd a s = None"
begin

fun wr_block :: "(u32 \<times> u64) list \<Rightarrow> 's \<Rightarrow> 's option" where
  "wr_block [] s = Some s"
| "wr_block ((a, d) # ws) s = (case wr a d s of None \<Rightarrow> None | Some t \<Rightarrow> wr_block ws t)"

lemma rd_present: "wr a d s = Some t \<Longrightarrow> rd b t = None \<longleftrightarrow> rd b s = None"
  using rd_wr wr_defined by (metis option.distinct(1))

lemma wr_block_other: "wr_block ws s = Some t \<Longrightarrow> b \<notin> fst ` set ws \<Longrightarrow> rd b t = rd b s"
proof (induction ws arbitrary: s)
  case (Cons w ws)
  obtain a d where w: "w = (a, d)" by fastforce
  then obtain s1 where s1: "wr a d s = Some s1" "wr_block ws s1 = Some t"
    using Cons.prems(1) by (auto split: option.splits)
  have "rd b t = rd b s1" using Cons s1(2) by simp
  then show ?case using rd_wr [OF s1(1)] Cons.prems(2) w by simp
qed simp

lemma wr_block_defined:
  "(\<And>a. a \<in> fst ` set ws \<Longrightarrow> rd a s \<noteq> None) \<Longrightarrow> \<exists>t. wr_block ws s = Some t"
proof (induction ws arbitrary: s)
  case (Cons w ws)
  obtain a d where w: "w = (a, d)" by fastforce
  then have "rd a s \<noteq> None" using Cons.prems by simp
  then obtain s1 where s1: "wr a d s = Some s1" using wr_defined by (metis option.exhaust)
  have "\<exists>t. wr_block ws s1 = Some t"
    using Cons.IH [of s1] Cons.prems rd_present [OF s1] by simp
  then show ?case using w s1 by simp
qed simp

lemma wr_block_rd:
  "wr_block ws s = Some t \<Longrightarrow> distinct (map fst ws) \<Longrightarrow> (a, d) \<in> set ws \<Longrightarrow> rd a t = Some d"
proof (induction ws arbitrary: s)
  case (Cons w ws)
  obtain b e where w: "w = (b, e)" by fastforce
  then obtain s1 where s1: "wr b e s = Some s1" "wr_block ws s1 = Some t"
    using Cons.prems(1) by (auto split: option.splits)
  show ?case
  proof (cases "(a, d) \<in> set ws")
    case True
    then show ?thesis using Cons s1(2) by simp
  next
    case False
    then have ab: "a = b" "d = e" using Cons.prems(3) w by auto
    have "rd b t = rd b s1" using wr_block_other [OF s1(2)] Cons.prems(2) w by simp
    then show ?thesis using rd_wr [OF s1(1)] ab by simp
  qed
qed simp

end

lemma add_eq_iff: "(a :: u32) + c = b + c \<longleftrightarrow> a = b"
  by simp

interpretation port: mem_port "\<lambda>a. Mem_read_word a ept" "\<lambda>a d. Mem_write_word a d ept"
  for ept
  by unfold_locales (auto simp: Mem_read_word_def Mem_write_word_def Let_def split: if_splits)

end
