(* ===== verification/Arith36.thy ===== *)
theory Arith36
  imports Word36
begin

text \<open>
  The word macros of \<open>kx10_defs.h\<close> and \<open>kx10_cpu.c\<close> (\<open>CM\<close>, \<open>CCM\<close>,
  \<open>SWAP_AR\<close>, \<open>AOB\<close>, \<open>SOB\<close>) and the arithmetic of 36-bit words kept in
  64-bit containers: \<open>wrap36\<close> is the word that holds an integer modulo
  \<open>2 ^ 36\<close>, \<open>sval\<close> reads it back in two's complement.
\<close>

unbundle bit_operations_syntax

section \<open>Word macros\<close>

abbreviation (input) MANT :: u64 where "MANT \<equiv> 0x7FFFFFF"

definition CM :: "u64 \<Rightarrow> u64" where "CM x = FMASK XOR x"
definition CCM :: "u64 \<Rightarrow> u64" where "CCM x = (CMASK XOR x) AND CMASK"

definition SWAP :: "u64 \<Rightarrow> u64" where
  \<comment> \<open>\<open>SWAP_AR\<close>\<close>
  "SWAP x = push_bit 18 (RMASK AND x) OR (drop_bit 18 x AND RMASK)"

definition AOB :: "u64 \<Rightarrow> u64" where
  "AOB x = ((x + 1) AND RMASK) OR ((x + 0x40000) AND (C1 OR LMASK))"

definition SOB :: "u64 \<Rightarrow> u64" where
  "SOB x = ((x + RMASK) AND RMASK) OR ((x + LMASK) AND (C1 OR LMASK))"

definition LRZ :: "u64 \<Rightarrow> u64" where "LRZ x = drop_bit 18 x AND RMASK"

definition neg36 :: "u64 \<Rightarrow> u64" where
  \<comment> \<open>\<open>(CM(x) + 1) & FMASK\<close>\<close>
  "neg36 x = (CM x + 1) AND FMASK"

section \<open>Integers modulo \<open>2 ^ 36\<close>\<close>

definition wrap36 :: "int \<Rightarrow> u64" where
  \<comment> \<open>the 36-bit word that holds \<open>i\<close> modulo \<open>2 ^ 36\<close>\<close>
  "wrap36 i = word_of_int (i mod 2 ^ 36)"

definition fits36 :: "int \<Rightarrow> bool" where
  \<comment> \<open>\<open>i\<close> is a 36-bit two's-complement number\<close>
  "fits36 i \<longleftrightarrow> - (2 ^ 35) \<le> i \<and> i < 2 ^ 35"

lemma uint_wrap36: "uint (wrap36 i) = i mod 2 ^ 36"
proof -
  have "i mod 2 ^ 36 < 2 ^ 36" "0 \<le> i mod 2 ^ 36" by simp_all
  then show ?thesis
    unfolding wrap36_def by (simp only: uint_word_of_int) (intro mod_pos_pos_trivial, simp_all)
qed

lemma wf36_wrap [wf36_intros]: "wf36 (wrap36 i)"
  by (simp add: wf36_uint uint_wrap36)

lemma uint_take: "uint (take_bit n (x :: u64)) = uint x mod 2 ^ n"
  by (metis unsigned_take_bit_eq take_bit_eq_mod)

lemma uint_fmask: "uint (x AND FMASK) = uint x mod 2 ^ 36"
  unfolding mask_simps by (rule uint_take)

lemma uint_cmask: "uint (x AND CMASK) = uint x mod 2 ^ 35"
  unfolding mask_simps by (rule uint_take)

lemma uint_rmask: "uint (x AND RMASK) = uint x mod 2 ^ 18"
  unfolding mask_simps by (rule uint_take)

lemma fmask_wrap: "x AND FMASK = wrap36 (uint x)"
  by (simp only: word_uint_eq_iff uint_fmask uint_wrap36)

lemma wrap36_shift: "wrap36 (i + k * 2 ^ 36) = wrap36 i"
  by (simp add: wrap36_def)

lemma wrap36_cong: "i = j + k * 2 ^ 36 \<Longrightarrow> wrap36 i = wrap36 j"
  by (simp only: wrap36_shift)

lemma sval_uint: "sval x = uint x - 2 ^ 36 * of_bool (bit x 35)"
  by (simp add: sval_def)

lemma sval_mod: "wf36 x \<Longrightarrow> sval x mod 2 ^ 36 = uint x"
proof -
  assume w: "wf36 x"
  have "sval x mod 2 ^ 36 = (uint x + (- of_bool (bit x 35)) * 2 ^ 36) mod 2 ^ 36"
    by (simp add: sval_def)
  also have "\<dots> = uint x mod 2 ^ 36" by (rule mod_mult_self1)
  also have "\<dots> = uint x" using w by (simp add: wf36_uint)
  finally show ?thesis .
qed

lemma wf36_wrap_uint: "wf36 x \<Longrightarrow> wrap36 (uint x) = x"
  by (simp add: word_uint_eq_iff uint_wrap36 wf36_uint)

lemma wf36_wrap_sval: "wf36 x \<Longrightarrow> wrap36 (sval x) = x"
  by (simp only: word_uint_eq_iff uint_wrap36 sval_mod)

lemma bit35_wrap: "bit (wrap36 i) 35 \<longleftrightarrow> 2 ^ 35 \<le> i mod 2 ^ 36"
  using sign_iff [OF wf36_wrap] by (simp only: uint_wrap36)

lemma sval_wrap36: "fits36 i \<Longrightarrow> sval (wrap36 i) = i"
proof -
  assume i: "fits36 i"
  show ?thesis
  proof (cases "0 \<le> i")
    case True
    then have "i mod 2 ^ 36 = i" using i by (intro mod_pos_pos_trivial) (auto simp: fits36_def)
    then show ?thesis using bit35_wrap [of i] i by (simp add: sval_def uint_wrap36 fits36_def)
  next
    case False
    have "i mod 2 ^ 36 = (i + 2 ^ 36) mod 2 ^ 36" by simp
    also have "\<dots> = i + 2 ^ 36"
      using False i by (intro mod_pos_pos_trivial) (auto simp: fits36_def)
    finally show ?thesis using bit35_wrap [of i] i by (simp add: sval_def uint_wrap36 fits36_def)
  qed
qed

lemma sval_fits: "wf36 x \<Longrightarrow> fits36 (sval x)"
  using sval_range by (simp add: fits36_def)

lemma sval_nonneg: "\<not> bit x 35 \<Longrightarrow> sval x = uint x"
  by (simp add: sval_def)

lemma wrap36_sval_lin:
  "wrap36 (sval a + i) = wrap36 (uint a + i)" "wrap36 (i + sval a) = wrap36 (i + uint a)"
  "wrap36 (i - sval a) = wrap36 (i - uint a)" "wrap36 (- sval a) = wrap36 (- uint a)"
proof -
  show "wrap36 (sval a + i) = wrap36 (uint a + i)" "wrap36 (i + sval a) = wrap36 (i + uint a)"
    by (rule wrap36_cong [of _ _ "- of_bool (bit a 35)"], simp add: sval_uint)+
  show "wrap36 (i - sval a) = wrap36 (i - uint a)" "wrap36 (- sval a) = wrap36 (- uint a)"
    by (rule wrap36_cong [of _ _ "of_bool (bit a 35)"], simp add: sval_uint)+
qed

section \<open>Complement and negation\<close>

lemma uint_CM: "wf36 x \<Longrightarrow> uint (CM x) = 2 ^ 36 - 1 - uint x"
proof -
  assume w: "wf36 x"
  have "CM x + x = FMASK"
  proof -
    have "CM x AND x = 0"
      using w by (intro bit_word_eqI) (auto simp: CM_def bit_simps dest: wf36_bitD)
    then have "CM x + x = CM x OR x" by (simp only: disjunctive_add_eq_or)
    also have "\<dots> = FMASK"
      using w by (intro bit_word_eqI) (auto simp: CM_def bit_simps dest: wf36_bitD)
    finally show ?thesis .
  qed
  then have "CM x = FMASK - x" by (simp add: eq_diff_eq)
  moreover have "x \<le> FMASK" using w by (simp add: wf36_def)
  ultimately show ?thesis by (simp add: uint_minus_simple_alt)
qed

lemma wf36_CM [wf36_intros]: "wf36 x \<Longrightarrow> wf36 (CM x)"
  by (simp add: CM_def wf36_intros)

lemma uint_add64: "uint a + uint b < 2 ^ 64 \<Longrightarrow> uint (a + b) = uint a + uint b" for a b :: u64
  by (simp only: uint_word_ariths) (intro mod_pos_pos_trivial, simp_all)

lemma uint_CM1: "wf36 x \<Longrightarrow> uint (CM x + 1) = 2 ^ 36 - uint x"
proof -
  assume w: "wf36 x"
  have "uint (CM x) + uint (1 :: u64) < 2 ^ 64" 
    unfolding uint_CM [OF w] unsigned_1 by (simp, insert uint_ge_0 [of x], linarith)
  from uint_add64 [OF this] show ?thesis using w by (simp add: uint_CM)
qed

lemma neg36_wrap: "wf36 x \<Longrightarrow> neg36 x = wrap36 (- sval x)"
proof -
  assume w: "wf36 x"
  have "neg36 x = wrap36 (2 ^ 36 - uint x)" by (simp add: neg36_def fmask_wrap uint_CM1 w)
  also have "\<dots> = wrap36 (- sval x)"
    unfolding wrap36_sval_lin(4) by (rule wrap36_cong [of _ _ 1]) simp
  finally show ?thesis .
qed

lemma sval_neg36: "wf36 x \<Longrightarrow> x \<noteq> SMASK \<Longrightarrow> sval (neg36 x) = - sval x"
proof -
  assume w: "wf36 x" and "x \<noteq> SMASK"
  have "wf36 SMASK" "sval SMASK = - (2 ^ 35)" by (simp_all add: sval_def wf36_def bit_single)
  then have "sval x \<noteq> - (2 ^ 35)" using \<open>x \<noteq> SMASK\<close> w sval_inj by metis
  then show ?thesis using sval_range [OF w] by (simp add: neg36_wrap w sval_wrap36 fits36_def)
qed

lemma CCM_uint: "wf36 v \<Longrightarrow> uint (CCM v) = 2 ^ 35 - 1 - uint v mod 2 ^ 35"
proof -
  assume w: "wf36 v"
  have "CCM v = CM (v OR SMASK)"
    using w by (intro bit_word_eqI) (auto simp: CCM_def CM_def bit_simps bit_single dest: wf36_bitD)
  moreover have "uint (v OR SMASK) = uint v mod 2 ^ 35 + 2 ^ 35"
  proof -
    have eq: "v OR SMASK = take_bit 35 v OR SMASK"
      using w by (intro bit_word_eqI) (auto simp: bit_simps bit_single dest: wf36_bitD)
    have "take_bit 35 v AND SMASK = 0"
      by (intro bit_word_eqI) (auto simp: bit_simps bit_single)
    then have "v OR SMASK = take_bit 35 v + SMASK" unfolding eq by (simp only: disjunctive_add_eq_or)
    moreover have "uint (take_bit 35 v) + uint SMASK < 2 ^ 64"
      using pos_mod_bound [of "2 ^ 35" "uint v"] by (simp add: uint_take)
    ultimately show ?thesis by (simp only: uint_add64) (simp add: uint_take)
  qed
  ultimately show ?thesis using w by (simp add: uint_CM wf36_intros)
qed

section \<open>Shifts and products in 64 bits\<close>

lemma uint_mult64: "uint a * uint b < 2 ^ 64 \<Longrightarrow> uint (a * b) = uint a * uint b" for a b :: u64
  by (simp only: uint_word_ariths) (intro mod_pos_pos_trivial, simp_all)

lemma uint_drop64: "uint (drop_bit n x) = uint x div 2 ^ n" for x :: u64
  by (metis unsigned_drop_bit_eq take_bit_int_eq_self uint_ge_0 uint_lt2p drop_bit_eq_div)

lemma uint_push64: "uint x * 2 ^ n < 2 ^ 64 \<Longrightarrow> uint (push_bit n x) = uint x * 2 ^ n" for x :: u64
proof -
  assume b: "uint x * 2 ^ n < 2 ^ 64"
  have "uint (push_bit n x) = take_bit 64 (push_bit n (uint x))"
    by (simp only: unsigned_push_bit_eq) simp
  also have "\<dots> = uint x * 2 ^ n"
    using b by (simp only: push_bit_eq_mult take_bit_int_eq_self_iff) simp
  finally show ?thesis .
qed

lemma uint_push_lmask: "uint (push_bit 18 x AND LMASK) = uint x mod 2 ^ 18 * 2 ^ 18" for x :: u64
proof -
  have "push_bit 18 x AND LMASK = push_bit 18 (take_bit 18 x)"
    by (rule bit_word_eqI) (auto simp: bit_simps)
  moreover have "uint (take_bit 18 x) * 2 ^ 18 < 2 ^ 64"
    using pos_mod_bound [of "2 ^ 18" "uint x"] by (simp only: uint_take) simp
  ultimately show ?thesis by (simp only: uint_push64 uint_take)
qed

lemma le_div_pow: "k \<le> P div 2 ^ n \<longleftrightarrow> k * 2 ^ n \<le> P" for P k :: int
proof
  assume "k \<le> P div 2 ^ n"
  then have "k * 2 ^ n \<le> P div 2 ^ n * 2 ^ n" by (simp add: mult_right_mono)
  also have "\<dots> = P - P mod 2 ^ n" by (rule div_mult_mod_eq [THEN eq_diff_eq [THEN iffD2]])
  also have "\<dots> \<le> P" by simp
  finally show "k * 2 ^ n \<le> P" .
next
  assume "k * 2 ^ n \<le> P"
  then have "(k * 2 ^ n) div 2 ^ n \<le> P div 2 ^ n" by (rule zdiv_mono1) simp
  then show "k \<le> P div 2 ^ n" by simp
qed

lemma sval_smask: "sval SMASK = - (2 ^ 35)"
  by (simp add: sval_def)

lemma neg36_smask: "neg36 SMASK = SMASK"
  by (simp add: neg36_def CM_def)

end
