(* ===== verification/Io_Device.thy ===== *)
theory Io_Device
  imports Apr_Device
begin

text \<open>
  What the peripherals of \<open>PDP10/\<close> share: the fields of a \<open>UNIT\<close>, the contract of
  a device routine with the interrupt system and the event queue, and its consequences.

  A device routine works on the state of its own unit beside the state of the interrupt system. It
  may move its own request line and schedule events, and nothing else: \<open>bus_step\<close>; what it
  delivers is a 36-bit word. The locale \<open>io_device\<close> states that contract for the I/O routine and the service routine of a
  device; it is interpreted for each device in the theory that models it.
\<close>

unbundle bit_operations_syntax

section \<open>Units\<close>

record unit_state =
  STATUS :: u32
  attached :: bool
  wait :: int

text \<open>
  Delays in microseconds are converted by \<open>sim_timer.c\<close>, which measures the speed of the
  host: \<open>usec_delay\<close> gives the number of instructions of a delay, \<open>usec_left\<close> the
  microseconds of a number of instructions (\<open>sim_activate_time_usecs\<close>, of which the devices
  use the whole part), \<open>coschedule\<close> the instructions until so many ticks of the clock.
\<close>

record timer =
  usec_delay :: "int \<Rightarrow> int"
  usec_left :: "int \<Rightarrow> int"
  coschedule :: "int \<Rightarrow> int"

definition sim_activate_after :: "timer \<Rightarrow> unit_id \<Rightarrow> int \<Rightarrow> 'a clock_scheme \<Rightarrow> 'a clock_scheme" where
  "sim_activate_after tm u us s = sim_activate u (usec_delay tm us) s"

definition sim_activate_time_usecs :: "timer \<Rightarrow> unit_id \<Rightarrow> 'a clock_scheme \<Rightarrow> int" where
  "sim_activate_time_usecs tm u s = usec_left tm (sim_activate_time u s)"

definition sim_clock_coschedule :: "timer \<Rightarrow> unit_id \<Rightarrow> int \<Rightarrow> 'a clock_scheme \<Rightarrow> 'a clock_scheme" where
  "sim_clock_coschedule tm u n s = sim_activate u (coschedule tm n) s"

definition timer_ok :: "timer \<Rightarrow> bool" where
  \<comment> \<open>a delay takes at least one instruction\<close>
  "timer_ok tm \<longleftrightarrow> (\<forall>us > 0. 0 < usec_delay tm us) \<and> (\<forall>n. 0 < coschedule tm n)"

section \<open>What a device may do\<close>

definition bus_step :: "nat \<Rightarrow> 'a pi_state_scheme \<Rightarrow> 'a pi_state_scheme \<Rightarrow> bool" where
  "bus_step d s t \<longleftrightarrow>
     pi_state.more t = pi_state.more s \<and> PIE t = PIE s \<and> PIR t = PIR s \<and> PIH t = PIH s
   \<and> pi_enable t = pi_enable s \<and> pi_enc t = pi_enc s \<and> parity_irq t = parity_irq s
   \<and> xct_flag t = xct_flag s \<and> stop_cpu t = stop_cpu s
   \<and> (\<forall>i. i \<noteq> d div 4 \<longrightarrow> dev_irq t i = dev_irq s i)
   \<and> (bus_inv s \<longrightarrow> bus_inv t)"

lemma bus_step_refl [simp]: "bus_step d s s"
  by (simp add: bus_step_def)

lemma bus_step_trans: "bus_step d s t \<Longrightarrow> bus_step d t u \<Longrightarrow> bus_step d s u"
  by (auto simp: bus_step_def)

lemma agenda_cong: "clock_queue s = clock_queue t \<Longrightarrow> sim_time s = sim_time t \<Longrightarrow> agenda s = agenda t"
  by (simp add: agenda_def)

lemma calm_cong: "clock_queue s = clock_queue t \<Longrightarrow> sim_interval s = sim_interval t \<Longrightarrow>
    noqueue_time s = noqueue_time t \<Longrightarrow> calm s \<longleftrightarrow> calm t"
  by (simp add: calm_def queue_ok_def head_time_def split: list.split)

lemma dev_irq_other:
  "i \<noteq> e div 4 \<Longrightarrow> dev_irq (set_interrupt e l s) i = dev_irq s i"
  "i \<noteq> e div 4 \<Longrightarrow> dev_irq (clr_interrupt e s) i = dev_irq s i"
  by (simp_all add: set_interrupt_def clr_interrupt_def Let_def)

lemma bus_step_raise: "e div 4 = d div 4 \<Longrightarrow> bus_step d s (set_interrupt e l s)"
  using pi_lines.raise_inv [of s e l]
  by (auto simp: bus_step_def dev_irq_other)

lemma bus_step_drop: "e div 4 = d div 4 \<Longrightarrow> bus_step d s (clr_interrupt e s)"
  using pi_lines.drop_inv [of e s]
  by (auto simp: bus_step_def dev_irq_other)

lemma sim_activate_pi:
  fixes s :: "'a pi_state_scheme"
  shows "pi_state.more (sim_activate u t s) = pi_state.more s" "PIE (sim_activate u t s) = PIE s"
    "PIR (sim_activate u t s) = PIR s" "PIH (sim_activate u t s) = PIH s"
    "pi_enable (sim_activate u t s) = pi_enable s" "pi_enc (sim_activate u t s) = pi_enc s"
    "parity_irq (sim_activate u t s) = parity_irq s" "xct_flag (sim_activate u t s) = xct_flag s"
    "dev_irq (sim_activate u t s) = dev_irq s" "IOB_PI (sim_activate u t s) = IOB_PI s"
    "pi_pending (sim_activate u t s) = pi_pending s" "stop_cpu (sim_activate u t s) = stop_cpu s"
  by (simp_all add: sim_activate_def update_sim_time_def Let_def split: list.split)

lemma sim_cancel_pi:
  fixes s :: "'a pi_state_scheme"
  shows "pi_state.more (sim_cancel u s) = pi_state.more s" "PIE (sim_cancel u s) = PIE s"
    "PIR (sim_cancel u s) = PIR s" "PIH (sim_cancel u s) = PIH s"
    "pi_enable (sim_cancel u s) = pi_enable s" "pi_enc (sim_cancel u s) = pi_enc s"
    "parity_irq (sim_cancel u s) = parity_irq s" "xct_flag (sim_cancel u s) = xct_flag s"
    "dev_irq (sim_cancel u s) = dev_irq s" "IOB_PI (sim_cancel u s) = IOB_PI s"
    "pi_pending (sim_cancel u s) = pi_pending s" "stop_cpu (sim_cancel u s) = stop_cpu s"
  by (simp_all add: sim_cancel_def update_sim_time_def set_wait_def Let_def split: list.split)

lemmas sim_queue_pi [simp] = sim_activate_pi sim_cancel_pi
lemmas sim_activate_apr = apr_more_frame [OF sim_activate_pi(1)]

lemma bus_step_activate: "bus_step d s (sim_activate u t s)"
  using bus_inv_cong [of "sim_activate u t s" s] by (simp add: bus_step_def)

lemma bus_step_cancel: "bus_step d s (sim_cancel u s)"
  using bus_inv_cong [of "sim_cancel u s" s] by (simp add: bus_step_def)

lemma bus_step_after: "bus_step d s (sim_activate_after tm u us s)"
  by (simp add: sim_activate_after_def bus_step_activate)

lemmas bus_steps = bus_step_raise bus_step_drop bus_step_activate bus_step_cancel bus_step_after

text \<open>The same steps as the tail of a sequence.\<close>

lemma bus_step_more [simp]:
  "bus_step d s t \<Longrightarrow> e div 4 = d div 4 \<Longrightarrow> bus_step d s (set_interrupt e l t)"
  "bus_step d s t \<Longrightarrow> e div 4 = d div 4 \<Longrightarrow> bus_step d s (clr_interrupt e t)"
  "bus_step d s t \<Longrightarrow> bus_step d s (sim_activate u w t)"
  "bus_step d s t \<Longrightarrow> bus_step d s (sim_cancel u t)"
  "bus_step d s t \<Longrightarrow> bus_step d s (sim_activate_after tm u us t)"
  "bus_step d s t \<Longrightarrow> bus_step d s (sim_clock_coschedule tm u n t)"
  unfolding sim_clock_coschedule_def by (blast intro: bus_step_trans bus_steps)+

text \<open>
  What a device may do to the event queue: schedule its own units for a later time, and cancel them.
\<close>

definition due :: "'a clock_scheme \<Rightarrow> int \<Rightarrow> nat" where
  \<comment> \<open>the number of events due at time \<open>t\<close>\<close>
  "due s t = length (filter (\<lambda>e. snd e \<le> t) (agenda s))"

definition queue_step :: "unit_id set \<Rightarrow> 'a clock_scheme \<Rightarrow> 'a clock_scheme \<Rightarrow> bool" where
  "queue_step U s t \<longleftrightarrow>
     (queue_ok s \<longrightarrow> queue_ok t \<and> (\<forall>v. v \<notin> U \<longrightarrow> sim_is_active v t = sim_is_active v s))
     \<and> (calm s \<longrightarrow> calm t \<and> sim_time t = sim_time s \<and> due t (sim_time s) \<le> due s (sim_time s))"

lemma queue_step_refl [simp]: "queue_step u s s"
  by (simp add: queue_step_def)

lemma queue_step_trans: "queue_step u s t \<Longrightarrow> queue_step u t v \<Longrightarrow> queue_step u s v"
  by (auto simp: queue_step_def)

lemma queue_step_subset: "queue_step U s t \<Longrightarrow> U \<subseteq> V \<Longrightarrow> queue_step V s t"
  by (auto simp: queue_step_def)

lemma calm_gtime: "calm s \<Longrightarrow> gtime s = sim_time s"
  by (simp add: calm_def gtime_def)

lemma queue_step_cong:
  assumes "clock_queue t = clock_queue s" "sim_interval t = sim_interval s"
    "noqueue_time t = noqueue_time s" "sim_time t = sim_time s"
  shows "queue_step u s t"
  using assms calm_cong [of t s] agenda_cong [of t s]
  by (simp add: queue_step_def due_def sim_is_active_def queue_ok_def)

lemma due_insert: "t < x \<Longrightarrow> filter (\<lambda>e. snd e \<le> t) (agenda_insert u x xs) = filter (\<lambda>e. snd e \<le> t) xs"
  by (induction xs) (auto simp: agenda_insert_def)

lemma length_filter_mono: "(\<And>x. P x \<Longrightarrow> Q x) \<Longrightarrow> length (filter P xs) \<le> length (filter Q xs)"
  by (induction xs) auto

lemma active_after_activate:
  "sim_is_active v (sim_activate u t s) \<longleftrightarrow> v = u \<or> sim_is_active v s"
  using update_active [of v s]
  by (auto simp: sim_activate_def Let_def sim_is_active_iff set_queue_insert)

lemma active_after_cancel:
  "queue_ok s \<Longrightarrow> sim_is_active v (sim_cancel u s) \<longleftrightarrow> v \<noteq> u \<and> sim_is_active v s"
proof -
  have a: "sim_is_active v r \<longleftrightarrow> v \<in> set (map fst (agenda r))" for r :: "'a clock_scheme"
    by (simp add: agenda_def sim_is_active_iff)
  assume "queue_ok s"
  then show ?thesis unfolding a cancel_agenda(1) [OF \<open>queue_ok s\<close>] by (force simp: image_iff)
qed

lemma queue_step_activate:
  assumes "0 < w" and "u \<in> U"
  shows "queue_step U s (sim_activate u w s)"
proof (cases "sim_is_active u s")
  case False
  show ?thesis
    unfolding queue_step_def
  proof (intro impI conjI)
    show "queue_ok s \<Longrightarrow> queue_ok (sim_activate u w s)" by (rule activate_ok)
    show "\<forall>v. v \<notin> U \<longrightarrow> sim_is_active v (sim_activate u w s) = sim_is_active v s"
      using assms(2) by (auto simp: active_after_activate)
    assume c: "calm s"
    then have q: "queue_ok s" by (simp add: calm_def)
    show c': "calm (sim_activate u w s)" using c assms by (simp add: activate_calm)
    show t: "sim_time (sim_activate u w s) = sim_time s"
      using calm_gtime [OF c] calm_gtime [OF c'] activate_idle(2) [OF False q] by simp
    show "due (sim_activate u w s) (sim_time s) \<le> due s (sim_time s)"
      using assms by (simp add: due_def activate_idle(1) [OF False q] calm_gtime [OF c] due_insert)
  qed
qed (simp add: activate_active)

lemma queue_step_cancel: "u \<in> U \<Longrightarrow> queue_step U s (sim_cancel u s)"
  unfolding queue_step_def
proof (intro impI conjI)
  assume u: "u \<in> U"
  show "queue_ok s \<Longrightarrow> queue_ok (sim_cancel u s)" by (rule cancel_agenda(3))
  show "queue_ok s \<Longrightarrow> \<forall>v. v \<notin> U \<longrightarrow> sim_is_active v (sim_cancel u s) = sim_is_active v s"
    using active_after_cancel u by auto
  assume c: "calm s"
  then have q: "queue_ok s" by (simp add: calm_def)
  show c': "calm (sim_cancel u s)" using c by (rule cancel_calm)
  show "sim_time (sim_cancel u s) = sim_time s"
    using calm_gtime [OF c] calm_gtime [OF c'] cancel_agenda(2) [OF q, of u] by simp
  show "due (sim_cancel u s) (sim_time s) \<le> due s (sim_time s)"
    by (simp add: due_def cancel_agenda(1) [OF q]) (rule length_filter_mono, simp)
qed

lemma queue_step_raise: "queue_step U s (set_interrupt e l s)"
  by (rule queue_step_cong) simp_all

lemma queue_step_drop: "queue_step U s (clr_interrupt e s)"
  by (rule queue_step_cong) simp_all

lemma queue_step_coschedule: "timer_ok tm \<Longrightarrow> u \<in> U \<Longrightarrow> queue_step U s (sim_clock_coschedule tm u n s)"
  by (simp add: sim_clock_coschedule_def timer_ok_def queue_step_activate)

lemma queue_step_more [simp]:
  "queue_step U s t \<Longrightarrow> queue_step U s (set_interrupt e l t)"
  "queue_step U s t \<Longrightarrow> queue_step U s (clr_interrupt e t)"
  "queue_step U s t \<Longrightarrow> 0 < w \<Longrightarrow> u \<in> U \<Longrightarrow> queue_step U s (sim_activate u w t)"
  "queue_step U s t \<Longrightarrow> u \<in> U \<Longrightarrow> queue_step U s (sim_cancel u t)"
  "queue_step U s t \<Longrightarrow> timer_ok tm \<Longrightarrow> u \<in> U \<Longrightarrow> queue_step U s (sim_clock_coschedule tm u n t)"
  by (erule queue_step_trans, blast intro: queue_step_raise queue_step_drop queue_step_activate
      queue_step_cancel queue_step_coschedule)+

section \<open>The contract\<close>

text \<open>What a device delivers is a 36-bit word.\<close>

definition half_word :: "u32 \<Rightarrow> bool" where
  "half_word x \<longleftrightarrow> (\<forall>n. bit x n \<longrightarrow> n < 18)"

lemma half_word_0 [simp]: "half_word 0"
  by (simp add: half_word_def)

lemma half_word_mask [simp]: "half_word (ucast ((w :: u64) AND 0x3FFFF))"
proof -
  have m: "(0x3FFFF :: u64) = mask 18" by (simp add: mask_eq_exp_minus_1)
  show ?thesis unfolding m by (auto simp: half_word_def bit_ucast_iff bit_and_iff bit_mask_iff)
qed

lemma wf36_register [simp]: "wf36 (ucast (x :: u32))"
  by (auto simp: wf36_bits bit_ucast_iff dest: bit_imp_le_length)

lemma wf36_left: "half_word x \<Longrightarrow> wf36 (push_bit 18 (ucast x))"
  by (force simp: wf36_bits half_word_def bit_push_bit_iff bit_ucast_iff)

lemma wf36_flags:
  "wf36 x \<Longrightarrow> wf36 (clr_bits x m)" "wf36 x \<Longrightarrow> wf36 m \<Longrightarrow> wf36 (set_if b m x)"
  "wf36 (numeral k) \<longleftrightarrow> numeral k \<le> (FMASK :: u64)"
proof -
  show "wf36 x \<Longrightarrow> wf36 (clr_bits x m)" by (simp only: clr_bits_def wf36_bitwise(1))
  show "wf36 x \<Longrightarrow> wf36 m \<Longrightarrow> wf36 (set_if b m x)" by (simp add: set_if_def wf36_bitwise(3))
qed (rule wf36_def)

lemmas word_intros = wf36_flags(1,2) wf36_left wf36_bitwise(3) wf36_register

definition wait_ok :: "'a unit_state_scheme \<Rightarrow> bool" where
  "wait_ok u \<longleftrightarrow> 0 < wait u"

type_synonym ('d, 'a) dev_routine =
  "u32 \<Rightarrow> u64 \<Rightarrow> 'd \<times> 'a pi_state_scheme \<Rightarrow> u64 \<times> 'd \<times> 'a pi_state_scheme"
type_synonym ('d, 'a) dev_service = "'d \<times> 'a pi_state_scheme \<Rightarrow> nat \<times> 'd \<times> 'a pi_state_scheme"

text \<open>
  One operation of a device: an I/O instruction or an event, with what the outside world answers
  to it.
\<close>

datatype 'e dev_op = Io u32 u64 | Event 'e

fun dev_run :: "('d, 'a) dev_routine \<Rightarrow> ('e \<Rightarrow> ('d, 'a) dev_service) \<Rightarrow> 'e dev_op list
    \<Rightarrow> 'd \<times> 'a pi_state_scheme \<Rightarrow> 'd \<times> 'a pi_state_scheme" where
  "dev_run io svc [] x = x"
| "dev_run io svc (Io f v # ops) x = dev_run io svc ops (snd (io f v x))"
| "dev_run io svc (Event e # ops) x = dev_run io svc ops (snd (svc e x))"

lemma dev_run_append [simp]:
  "dev_run io svc (xs @ ys) x = dev_run io svc ys (dev_run io svc xs x)"
  by (induction io svc xs x rule: dev_run.induct) simp_all

definition addresses :: "nat \<Rightarrow> u32 \<Rightarrow> bool" where
  \<comment> \<open>an I/O instruction for device number \<open>d\<close> (a multiple of 4) and some transfer function\<close>
  "addresses d f \<longleftrightarrow> unat f div 4 = d div 4"

definition ops_for :: "nat \<Rightarrow> 'e dev_op list \<Rightarrow> bool" where
  "ops_for d ops \<longleftrightarrow> list_all (\<lambda>a. case a of Io f v \<Rightarrow> addresses d f | Event e \<Rightarrow> True) ops"

locale io_device =
  fixes d :: nat and inv :: "'d \<Rightarrow> bool"
    and io :: "('d, 'a) dev_routine" and svc :: "'e \<Rightarrow> ('d, 'a) dev_service"
  assumes io_step: "inv x \<Longrightarrow> addresses d f \<Longrightarrow> bus_step d s (snd (snd (io f v (x, s))))"
    and io_inv: "inv x \<Longrightarrow> addresses d f \<Longrightarrow> inv (fst (snd (io f v (x, s))))"
    and svc_step: "inv x \<Longrightarrow> bus_step d s (snd (snd (svc e (x, s))))"
    and svc_inv: "inv x \<Longrightarrow> inv (fst (snd (svc e (x, s))))"
    and io_word: "inv x \<Longrightarrow> wf36 v \<Longrightarrow> wf36 (fst (io f v (x, s)))"
begin

lemma run_steps:
  "inv x \<Longrightarrow> ops_for d ops \<Longrightarrow>
     bus_step d s (snd (dev_run io svc ops (x, s))) \<and> inv (fst (dev_run io svc ops (x, s)))"
proof (induction ops arbitrary: x s)
  case (Cons a ops)
  show ?case
  proof (cases a)
    case (Io f v)
    obtain x' s' where r: "snd (io f v (x, s)) = (x', s')" by fastforce
    have "addresses d f" "ops_for d ops" using Cons.prems(2) Io by (simp_all add: ops_for_def)
    then have "bus_step d s s'" "inv x'" "ops_for d ops"
      using io_step [of x f s v] io_inv [of x f v s] r Cons.prems(1) by simp_all
    then show ?thesis
      using Cons.IH [of x' s'] r Io by (auto intro: bus_step_trans)
  next
    case (Event e)
    obtain x' s' where r: "snd (svc e (x, s)) = (x', s')" by fastforce
    have "bus_step d s s'" "inv x'" "ops_for d ops"
      using svc_step [of x s e] svc_inv [of x e s] r Cons.prems Event by (simp_all add: ops_for_def)
    then show ?thesis
      using Cons.IH [of x' s'] r Event by (auto intro: bus_step_trans)
  qed
qed simp

lemma requests_of_others:
  "inv x \<Longrightarrow> ops_for d ops \<Longrightarrow> i \<noteq> d div 4 \<Longrightarrow>
     irq_req (snd (dev_run io svc ops (x, s))) i n = irq_req s i n"
  using run_steps [of x ops s] by (simp add: bus_step_def irq_req_def)

lemma levels_in_service:
  "inv x \<Longrightarrow> ops_for d ops \<Longrightarrow> held_levels (snd (dev_run io svc ops (x, s))) = held_levels s"
  using run_steps [of x ops s]
  by (simp add: bus_step_def held_levels_def pi_held_def [abs_def])

end

text \<open>A device whose events are all in the future, and its own.\<close>

locale timed_device = io_device +
  fixes own :: "unit_id set"
  assumes io_queue: "inv x \<Longrightarrow> addresses d f \<Longrightarrow> queue_step own s (snd (snd (io f v (x, s))))"
    and svc_queue: "inv x \<Longrightarrow> queue_step own s (snd (snd (svc e (x, s))))"
begin

lemma run_queue:
  "inv x \<Longrightarrow> ops_for d ops \<Longrightarrow> queue_step own s (snd (dev_run io svc ops (x, s)))"
proof (induction ops arbitrary: x s)
  case (Cons a ops)
  show ?case
  proof (cases a)
    case (Io f v)
    obtain x' s' where r: "snd (io f v (x, s)) = (x', s')" by fastforce
    have "addresses d f" "ops_for d ops" using Cons.prems(2) Io by (simp_all add: ops_for_def)
    then have "queue_step own s s'" "inv x'" "ops_for d ops"
      using io_queue [of x f s v] io_inv [of x f v s] r Cons.prems(1) by simp_all
    then show ?thesis
      using Cons.IH [of x' s'] r Io by (auto intro: queue_step_trans)
  next
    case (Event e)
    obtain x' s' where r: "snd (svc e (x, s)) = (x', s')" by fastforce
    have "queue_step own s s'" "inv x'" "ops_for d ops"
      using svc_queue [of x s e] svc_inv [of x e s] r Cons.prems Event by (simp_all add: ops_for_def)
    then show ?thesis
      using Cons.IH [of x' s'] r Event by (auto intro: queue_step_trans)
  qed
qed simp

lemma run_calm:
  "inv x \<Longrightarrow> ops_for d ops \<Longrightarrow> calm s \<Longrightarrow> calm (snd (dev_run io svc ops (x, s)))"
  using run_queue [of x ops s] by (simp add: queue_step_def)

end

end
