(* ===== verification/Paper_Tape.thy ===== *)
theory Paper_Tape
  imports Io_Device Pager_Device
begin

text \<open>
  The paper-tape punch and reader of \<open>PDP10/kx10_pt.c\<close>: the I/O routines, the service
  routines, reset, attach and detach, and the boot from paper tape.

  A tape is a list of bytes: those punched so far for the punch, those still to be read for the
  reader. An access to the file fails only at the end of the tape.
\<close>

unbundle bit_operations_syntax

section \<open>State\<close>

record pt_unit = unit_state +
  CHR_REG :: u32
  CHL_REG :: u32
  tape :: "u8 list"

abbreviation (input) PP_DEVNUM :: nat where "PP_DEVNUM \<equiv> 0x40"
abbreviation (input) PR_DEVNUM :: nat where "PR_DEVNUM \<equiv> 0x44"
abbreviation (input) PI_DONE :: "'a::len word" where "PI_DONE \<equiv> 0x7"
abbreviation (input) DONE_FLG :: "'a::len word" where "DONE_FLG \<equiv> 0x8"
abbreviation (input) BUSY_FLG :: "'a::len word" where "BUSY_FLG \<equiv> 0x10"
abbreviation (input) BIN_FLG :: "'a::len word" where "BIN_FLG \<equiv> 0x20"
abbreviation (input) NO_TAPE_PP :: "'a::len word" where "NO_TAPE_PP \<equiv> 0x40"
abbreviation (input) TAPE_PR :: "'a::len word" where "TAPE_PR \<equiv> 0x100"

section \<open>Punch\<close>

definition ptp_cono :: "nat \<Rightarrow> u64 \<Rightarrow> pt_unit \<times> 'a pi_state_scheme \<Rightarrow> pt_unit \<times> 'a pi_state_scheme" where
  "ptp_cono dev v = (\<lambda>(u, s).
     let s = clr_interrupt dev s;
         u = u\<lparr>STATUS := (PI_DONE OR DONE_FLG OR BUSY_FLG OR BIN_FLG) AND ucast v\<rparr>;
         u = (if \<not> attached u then u\<lparr>STATUS := STATUS u OR NO_TAPE_PP\<rparr> else u);
         (u, s) = (if tst (STATUS u) BUSY_FLG
                   then (u\<lparr>CHR_REG := 0\<rparr>, sim_activate PTP_UNIT (wait u) s) else (u, s))
     in (u, if tst (STATUS u) DONE_FLG then set_interrupt dev (unat (STATUS u)) s else s))"

definition ptp_datao :: "nat \<Rightarrow> u64 \<Rightarrow> pt_unit \<times> 'a pi_state_scheme \<Rightarrow> pt_unit \<times> 'a pi_state_scheme" where
  "ptp_datao dev v = (\<lambda>(u, s).
     if \<not> tst (STATUS u) BUSY_FLG then
       (let c = ucast (v AND 0xFF);
            c = (if tst (STATUS u) BIN_FLG then c AND 0x3F OR 0x80 else c)
        in (u\<lparr>CHR_REG := c, STATUS := clr_bits (STATUS u OR BUSY_FLG) DONE_FLG\<rparr>,
            sim_activate PTP_UNIT (wait u) (clr_interrupt dev s)))
     else (u, s))"

definition ptp_devio :: "(pt_unit, 'a) dev_routine" where
  "ptp_devio dev v x =
     (let fn = dev AND 3
      in if fn = CONI then (ucast (STATUS (fst x)), x)
         else if fn = CONO then (v, ptp_cono (unat dev) v x)
         else if fn = DATAO then (v, ptp_datao (unat dev) v x)
         else (0, x))"

definition ptp_svc :: "(pt_unit, 'a) dev_service" where
  "ptp_svc = (\<lambda>(u, s).
     let u = u\<lparr>STATUS := clr_bits (STATUS u) BUSY_FLG OR DONE_FLG\<rparr>;
         s = set_interrupt PP_DEVNUM (unat (STATUS u AND 7)) s
     in (0, if \<not> attached u then u\<lparr>STATUS := STATUS u OR NO_TAPE_PP\<rparr>
            else u\<lparr>tape := tape u @ [ucast (CHR_REG u)]\<rparr>, s))"

definition ptp_reset :: "pt_unit \<times> 'a pi_state_scheme \<Rightarrow> pt_unit \<times> 'a pi_state_scheme" where
  "ptp_reset = (\<lambda>(u, s).
     (u\<lparr>CHR_REG := 0, CHL_REG := 0, STATUS := 0\<rparr>, sim_cancel PTP_UNIT (clr_interrupt PP_DEVNUM s)))"

definition ptp_attach :: "u8 list \<Rightarrow> pt_unit \<Rightarrow> pt_unit" where
  \<comment> \<open>to a file with these bytes, positioned behind them\<close>
  "ptp_attach f u = u\<lparr>attached := True, tape := f, STATUS := clr_bits (STATUS u) NO_TAPE_PP\<rparr>"

definition ptp_detach :: "pt_unit \<Rightarrow> pt_unit" where
  "ptp_detach u = u\<lparr>attached := False, STATUS := STATUS u OR NO_TAPE_PP\<rparr>"

section \<open>Reader\<close>

definition ptr_cono :: "nat \<Rightarrow> u64 \<Rightarrow> pt_unit \<times> 'a pi_state_scheme \<Rightarrow> pt_unit \<times> 'a pi_state_scheme" where
  "ptr_cono dev v = (\<lambda>(u, s).
     let s = clr_interrupt dev s;
         u = u\<lparr>STATUS := (PI_DONE OR DONE_FLG OR BUSY_FLG OR BIN_FLG) AND ucast v\<rparr>;
         u = (if attached u then u\<lparr>STATUS := STATUS u OR TAPE_PR\<rparr> else u);
         (u, s) = (if tst (STATUS u) BUSY_FLG
                   then (u\<lparr>CHR_REG := 0, CHL_REG := 0\<rparr>, sim_activate PTR_UNIT (wait u) s) else (u, s))
     in (u, if tst (STATUS u) DONE_FLG then set_interrupt dev (unat (STATUS u)) s else s))"

definition ptr_datai :: "nat \<Rightarrow> u64 \<Rightarrow> pt_unit \<times> 'a pi_state_scheme \<Rightarrow> u64 \<times> pt_unit \<times> 'a pi_state_scheme" where
  "ptr_datai dev v = (\<lambda>(u, s).
     let (v, u, s) =
       (if tst (STATUS u) DONE_FLG then
          (push_bit 18 (ucast (CHL_REG u)) OR ucast (CHR_REG u),
           u\<lparr>STATUS := clr_bits (STATUS u) DONE_FLG\<rparr>,
           sim_activate PTR_UNIT (wait u) (clr_interrupt dev s))
        else (v, u, s))
     in (v, u\<lparr>STATUS := STATUS u OR BUSY_FLG\<rparr>, s))"

definition ptr_devio :: "(pt_unit, 'a) dev_routine" where
  "ptr_devio dev v x =
     (let fn = dev AND 3
      in if fn = CONI then (ucast (STATUS (fst x)), x)
         else if fn = CONO then (v, ptr_cono (unat dev) v x)
         else if fn = DATAI then ptr_datai (unat dev) v x
         else (v, x))"

fun ptr_frames :: "bool \<Rightarrow> nat \<Rightarrow> u8 list \<Rightarrow> u64 \<Rightarrow> u64 \<times> u8 list \<times> bool" where
  \<comment> \<open>the \<open>while\<close> loop of \<open>ptr_svc\<close>: \<open>word\<close>, the rest of the tape and
      whether its end was met\<close>
  "ptr_frames bin 0 t word = (word, t, False)"
| "ptr_frames bin (Suc count) [] word = (word, [], True)"
| "ptr_frames bin (Suc count) (c # t) word =
     (if bin then
        (if tst c 0x80
         then ptr_frames bin count t (push_bit 6 word OR ucast (c AND 0x3F))
         else ptr_frames bin (Suc count) t word)
      else ptr_frames bin count t (word OR ucast c))"

definition ptr_svc :: "(pt_unit, 'a) dev_service" where
  "ptr_svc = (\<lambda>(u, s).
     let bin = tst (STATUS u) BIN_FLG;
         u = u\<lparr>STATUS := clr_bits (STATUS u) BUSY_FLG OR DONE_FLG\<rparr>;
         s = set_interrupt PR_DEVNUM (unat (STATUS u)) s
     in if \<not> attached u then (0, u, s)
        else
          (let (word, t, eof) = ptr_frames bin (if bin then 6 else 1) (tape u) 0;
               u = (if eof then u\<lparr>STATUS := clr_bits (STATUS u) TAPE_PR\<rparr> else u)
           in (0, u\<lparr>tape := t, CHL_REG := ucast (drop_bit 18 word AND 0x3FFFF),
                   CHR_REG := ucast (word AND 0x3FFFF)\<rparr>, s)))"

definition ptr_reset :: "pt_unit \<times> 'a pi_state_scheme \<Rightarrow> pt_unit \<times> 'a pi_state_scheme" where
  "ptr_reset = (\<lambda>(u, s).
     (u\<lparr>CHR_REG := 0, CHL_REG := 0, STATUS := 0\<rparr>, sim_cancel PTR_UNIT (clr_interrupt PR_DEVNUM s)))"

definition ptr_attach :: "u8 list \<Rightarrow> pt_unit \<Rightarrow> pt_unit" where
  "ptr_attach f u = u\<lparr>attached := True, tape := f, STATUS := STATUS u OR TAPE_PR\<rparr>"

definition ptr_detach :: "pt_unit \<Rightarrow> pt_unit" where
  "ptr_detach u = u\<lparr>attached := False, STATUS := clr_bits (STATUS u) TAPE_PR\<rparr>"

section \<open>Boot\<close>

fun ptr_read_word :: "nat \<Rightarrow> u8 list \<Rightarrow> u64 \<Rightarrow> u64 \<times> u8 list" where
  \<comment> \<open>\<open>n\<close> frames are still to come; the end of the tape returns what there is\<close>
  "ptr_read_word 0 t word = (word, t)"
| "ptr_read_word (Suc n) [] word = (word, [])"
| "ptr_read_word (Suc n) (ch # t) word =
     (if tst ch 0x80 then ptr_read_word n t (push_bit 6 word OR ucast (ch AND 0x3F))
      else ptr_read_word (Suc n) t word)"

definition boot_store :: "u32 \<Rightarrow> u64 \<Rightarrow> 'a mem_state_scheme \<Rightarrow> 'a mem_state_scheme" where
  "boot_store addr word s =
     (if addr < 0x10 then s\<lparr>FM := (FM s)(addr := word)\<rparr> else s\<lparr>M := (M s)(addr := word)\<rparr>)"

function boot_loop ::
    "nat \<Rightarrow> u32 \<Rightarrow> u64 \<Rightarrow> u8 list \<Rightarrow> 'a mem_state_scheme \<Rightarrow> u32 \<times> u64 \<times> u8 list \<times> 'a mem_state_scheme" where
  "boot_loop wc addr word t s =
     (if wc = 0 then (addr, word, t, s)
      else
        (let addr = (addr + 1) AND 0x3FFFF; (word, t) = ptr_read_word 6 t 0
         in boot_loop ((wc + 1) mod 0x40000) addr word t (boot_store addr word s)))"
  by pat_completeness auto
termination
  by (relation "measure (\<lambda>(wc, _). if wc = 0 then 0 else if wc < 0x40000 then 0x40000 - wc else 0x40001)")
    (auto simp: mod_Suc)

declare boot_loop.simps [simp del]

definition ptr_boot :: "pt_unit \<times> 'a mem_state_scheme \<Rightarrow> (u32 \<times> pt_unit \<times> 'a mem_state_scheme) option" where
  \<comment> \<open>\<open>None\<close> for \<open>SCPE_UNATT\<close>; the first component is the new \<open>PC\<close>\<close>
  "ptr_boot = (\<lambda>(u, s).
     if \<not> attached u then None
     else
       (let (word, t) = ptr_read_word 6 (tape u) 0;
            (addr, word, t, s) = boot_loop (unat (drop_bit 18 word AND 0x3FFFF))
                                   (ucast (word AND 0x3FFFF)) word t s;
            s = boot_store addr word s
        in Some (ucast (word AND 0x3FFFF),
             u\<lparr>tape := t, STATUS := BUSY_FLG OR BIN_FLG OR TAPE_PR, CHR_REG := 0, CHL_REG := 0\<rparr>,
             sim_activate PTR_UNIT (wait u) s)))"

section \<open>The contract with the processor\<close>

interpretation ptp_io: timed_device PP_DEVNUM wait_ok ptp_devio "\<lambda>_::unit. ptp_svc" "{PTP_UNIT}"
proof unfold_locales
  fix u :: pt_unit and f v and s :: "'a pi_state_scheme"
  assume "wait_ok u" and "addresses PP_DEVNUM f"
  then show "bus_step PP_DEVNUM s (snd (snd (ptp_devio f v (u, s))))"
    "wait_ok (fst (snd (ptp_devio f v (u, s))))"
    "queue_step {PTP_UNIT} s (snd (snd (ptp_devio f v (u, s))))"
    by (auto simp: ptp_devio_def ptp_cono_def ptp_datao_def wait_ok_def addresses_def Let_def)
next
  fix u :: pt_unit and s :: "'a pi_state_scheme"
  assume "wait_ok u"
  then show "bus_step PP_DEVNUM s (snd (snd (ptp_svc (u, s))))" "wait_ok (fst (snd (ptp_svc (u, s))))"
    "queue_step {PTP_UNIT} s (snd (snd (ptp_svc (u, s))))"
    by (auto simp: ptp_svc_def wait_ok_def Let_def case_prod_unfold)
next
  fix u :: pt_unit and f v and s :: "'a pi_state_scheme"
  assume "wf36 v"
  then show "wf36 (fst (ptp_devio f v (u, s)))" by (simp add: ptp_devio_def wf36_const Let_def)
qed

definition ptr_ok :: "pt_unit \<Rightarrow> bool" where
  "ptr_ok u \<longleftrightarrow> wait_ok u \<and> half_word (CHL_REG u) \<and> half_word (CHR_REG u)"

interpretation ptr_io: timed_device PR_DEVNUM ptr_ok ptr_devio "\<lambda>_::unit. ptr_svc" "{PTR_UNIT}"
proof unfold_locales
  fix u :: pt_unit and f v and s :: "'a pi_state_scheme"
  assume "ptr_ok u" and "addresses PR_DEVNUM f"
  then show "bus_step PR_DEVNUM s (snd (snd (ptr_devio f v (u, s))))"
    "ptr_ok (fst (snd (ptr_devio f v (u, s))))"
    "queue_step {PTR_UNIT} s (snd (snd (ptr_devio f v (u, s))))"
    by (auto simp: ptr_devio_def ptr_cono_def ptr_datai_def ptr_ok_def wait_ok_def addresses_def Let_def)
next
  fix u :: pt_unit and s :: "'a pi_state_scheme"
  assume "ptr_ok u"
  then show "bus_step PR_DEVNUM s (snd (snd (ptr_svc (u, s))))" "ptr_ok (fst (snd (ptr_svc (u, s))))"
    "queue_step {PTR_UNIT} s (snd (snd (ptr_svc (u, s))))"
    by (auto simp: ptr_svc_def ptr_ok_def wait_ok_def Let_def case_prod_unfold)
next
  fix u :: pt_unit and f v and s :: "'a pi_state_scheme"
  assume "ptr_ok u" and "wf36 v"
  then show "wf36 (fst (ptr_devio f v (u, s)))"
    by (auto simp: ptr_devio_def ptr_datai_def ptr_ok_def Let_def intro!: word_intros)
qed

section \<open>Words on tape\<close>

text \<open>A word in binary mode is six frames of six bits, the high ones first.\<close>

definition frame :: "u64 \<Rightarrow> nat \<Rightarrow> u8" where
  "frame w i = ucast (drop_bit (30 - 6 * i) w AND 0x3F) OR 0x80"

definition frames :: "u64 \<Rightarrow> u8 list" where
  "frames w = map (frame w) [0..<6]"

lemma tst_frame [simp]: "tst (frame w i) 0x80"
  by (auto simp: tst_def frame_def and_exp_eq_0_iff_not_bit [of _ 7, simplified] bit_simps)

lemma length_frames [simp]: "length (frames w) = 6"
  by (simp add: frames_def)

lemma six_bits: "bit (0x3F :: 'a::len word) n \<longleftrightarrow> n < 6 \<and> n < LENGTH('a)"
proof -
  have e: "0x3F = (mask 6 :: 'a word)" by (simp add: mask_eq_exp_minus_1)
  show ?thesis unfolding e by (auto simp: bit_mask_iff)
qed

lemma frame_bits: "bit (ucast (frame w i AND 0x3F) :: u64) n \<longleftrightarrow> n < 6 \<and> bit w (30 - 6 * i + n)"
proof -
  have b: "bit (0x80 :: u8) n \<longleftrightarrow> n = 7"
    using bit_exp_iff [of 7 n, where ?'a = u8] by auto
  show ?thesis
    unfolding frame_def
    by (simp only: bit_and_iff bit_or_iff bit_ucast_iff bit_drop_bit_eq six_bits b) auto
qed

lemma frames_word:
  assumes "wf36 w"
  shows "push_bit 6 (push_bit 6 (push_bit 6 (push_bit 6 (push_bit 6
      (ucast (frame w 0 AND 0x3F)) OR ucast (frame w 1 AND 0x3F)) OR ucast (frame w 2 AND 0x3F))
      OR ucast (frame w 3 AND 0x3F)) OR ucast (frame w 4 AND 0x3F)) OR ucast (frame w 5 AND 0x3F) = w"
    (is "?x = w")
proof (rule bit_word_eqI)
  fix n assume n: "n < LENGTH(64)"
  have w: "bit w n \<Longrightarrow> n < 36" using assms by (simp add: wf36_bitD)
  have "bit ?x n \<longleftrightarrow> n < 36 \<and> bit w n"
  proof -
    consider "n < 6" | "6 \<le> n" "n < 12" | "12 \<le> n" "n < 18" | "18 \<le> n" "n < 24"
      | "24 \<le> n" "n < 30" | "30 \<le> n" "n < 36" | "36 \<le> n" by linarith
    then show ?thesis
      by cases (use n in \<open>auto simp: bit_or_iff bit_push_bit_iff frame_bits\<close>)
  qed
  with w show "bit ?x n \<longleftrightarrow> bit w n" by auto
qed

lemma frames_unfold: "frames w = [frame w 0, frame w 1, frame w 2, frame w 3, frame w 4, frame w 5]"
  by (simp add: frames_def upt_rec eval_nat_numeral)

lemma frames_read:
  assumes "wf36 w"
  shows "ptr_frames True 6 (frames w @ t) 0 = (w, t, False)"
    and "ptr_read_word 6 (frames w @ t) 0 = (w, t)"
  using frames_word [OF assms] by (simp_all add: frames_unfold eval_nat_numeral)

text \<open>The image a boot tape leaves in memory.\<close>

fun boot_image :: "u32 \<Rightarrow> u64 list \<Rightarrow> 'a mem_state_scheme \<Rightarrow> 'a mem_state_scheme" where
  "boot_image a [] s = s"
| "boot_image a (w # ws) s =
     (let a = (a + 1) AND 0x3FFFF in boot_image a ws (boot_store a w s))"

lemma boot_loop_words:
  assumes "ws \<noteq> []" and "length ws < 0x40000" and "\<forall>w \<in> set ws. wf36 w"
  shows "\<exists>a'. boot_loop (0x40000 - length ws) a v (concat (map frames ws) @ t) s
    = (a', last ws, t, boot_image a ws s) \<and> boot_store a' (last ws) (boot_image a ws s) = boot_image a ws s"
  using assms
proof (induction ws arbitrary: a v s)
  case (Cons w ws)
  let ?a = "(a + 1) AND 0x3FFFF"
  have m: "(0x40000 - length (w # ws) + 1) mod 0x40000 = (if ws = [] then 0 else 0x40000 - length ws)"
    "0x40000 - length (w # ws) \<noteq> 0"
    using Cons.prems(2) by (cases ws; simp)+
  have b: "boot_loop (0x40000 - length (w # ws)) a v (concat (map frames (w # ws)) @ t) s
      = boot_loop (if ws = [] then 0 else 0x40000 - length ws) ?a w (concat (map frames ws) @ t) (boot_store ?a w s)"
    using Cons.prems(3) frames_read(2) [of w "concat (map frames ws) @ t"] m
    by (subst boot_loop.simps) (simp only: m if_False, simp add: Let_def)
  show ?case
  proof (cases "ws = []")
    case True
    then show ?thesis
      using b by (auto simp: boot_loop.simps [of 0] Let_def boot_store_def)
  next
    case False
    then show ?thesis
      using b Cons.IH [of ?a w "boot_store ?a w s"] Cons.prems by (simp add: Let_def)
  qed
qed simp

lemma next_address: "a + 1 < 0x40000 \<Longrightarrow> (of_nat a + 1 :: u32) AND 0x3FFFF = of_nat (a + 1)"
proof -
  assume a: "a + 1 < 0x40000"
  have "(of_nat a + 1 :: u32) AND 0x3FFFF = take_bit 18 (of_nat (a + 1))"
    by (simp add: take_bit_eq_mask mask_eq_exp_minus_1 add.commute)
  also have "\<dots> = of_nat (a + 1)"
    using a by (simp add: take_bit_nat_eq_self flip: of_nat_take_bit of_nat_Suc)
  finally show ?thesis .
qed

lemma boot_image_memory:
  "0xF \<le> a \<Longrightarrow> a + length ws < 0x40000 \<Longrightarrow>
     M (boot_image (of_nat a) ws s) x
      = (if a < unat x \<and> unat x \<le> a + length ws then ws ! (unat x - Suc a) else M s x)
   \<and> FM (boot_image (of_nat a) ws s) = FM s"
proof (induction ws arbitrary: a s)
  case (Cons w ws)
  have n: "(of_nat a + 1 :: u32) AND 0x3FFFF = of_nat (a + 1)"
    using Cons.prems by (intro next_address) simp
  have u: "unat (of_nat (a + 1) :: u32) = a + 1"
    using Cons.prems by (simp only: unat_of_nat) simp
  have l: "\<not> (of_nat (a + 1) :: u32) < 0x10"
    using u Cons.prems by (simp add: word_less_nat_alt)
  have b: "boot_image (of_nat a) (w # ws) s
      = boot_image (of_nat (a + 1)) ws (s\<lparr>M := (M s)(of_nat (a + 1) := w)\<rparr>)"
    using l by (simp only: boot_image.simps n Let_def boot_store_def if_False)
  have x: "x = of_nat (a + 1) \<longleftrightarrow> unat x = a + 1" using u by (metis word_unat_eq_iff)
  show ?case
    using Cons.IH [of "a + 1" "s\<lparr>M := (M s)(of_nat (a + 1) := w)\<rparr>"] Cons.prems x
    unfolding b by (auto simp: nth_Cons')
qed auto

section \<open>Boot and round trip\<close>

lemmas sim_activate_mem = mem_more_frame [OF sim_activate_apr(16)]

lemma join_halves:
  fixes x y :: u64
  assumes "take_bit 18 x = x" and "take_bit 18 y = y"
  shows "drop_bit 18 (push_bit 18 x OR y) AND 0x3FFFF = x"
    and "(push_bit 18 x OR y) AND 0x3FFFF = y" and "wf36 (push_bit 18 x OR y)"
proof -
  have x: "bit x i \<longleftrightarrow> i < 18 \<and> bit x i" and y: "bit y i \<longleftrightarrow> i < 18 \<and> bit y i" for i
    using assms bit_take_bit_iff [of 18 x i] bit_take_bit_iff [of 18 y i] by simp_all
  have h: "\<not> bit y (18 + i)" for i using y [of "18 + i"] by simp
  show "drop_bit 18 (push_bit 18 x OR y) AND 0x3FFFF = x"
  proof (rule bit_word_eqI)
    fix n
    show "bit (drop_bit 18 (push_bit 18 x OR y) AND 0x3FFFF) n = bit x n"
      using h x [of n] by (auto simp: mask_simps bit_take_bit_iff bit_drop_bit_eq bit_or_iff bit_push_bit_iff)
  qed
  show "(push_bit 18 x OR y) AND 0x3FFFF = y"
  proof (rule bit_word_eqI)
    fix n
    show "bit ((push_bit 18 x OR y) AND 0x3FFFF) n = bit y n"
      using y [of n] by (auto simp: mask_simps bit_take_bit_iff bit_or_iff bit_push_bit_iff)
  qed
  show "wf36 (push_bit 18 x OR y)"
    unfolding wf36_bits
  proof (intro allI impI)
    fix n assume "bit (push_bit 18 x OR y) n"
    then have "18 \<le> n \<and> bit x (n - 18) \<or> bit y n" by (auto simp: bit_or_iff bit_push_bit_iff)
    then show "n < 36" using x [of "n - 18"] y [of n] by auto
  qed
qed

lemma iowd_fields:
  assumes "n < 0x40000" and "a < 0x40000"
  shows "unat (drop_bit 18 (push_bit 18 (of_nat n) OR of_nat a :: u64) AND 0x3FFFF) = n"
    and "ucast ((push_bit 18 (of_nat n) OR of_nat a :: u64) AND 0x3FFFF) = (of_nat a :: u32)"
    and "wf36 (push_bit 18 (of_nat n) OR of_nat a)"
proof -
  have "take_bit 18 (of_nat n :: u64) = of_nat n" "take_bit 18 (of_nat a :: u64) = of_nat a"
    using assms by (simp_all add: take_bit_nat_eq_self flip: of_nat_take_bit)
  note j = join_halves [OF this]
  show "unat (drop_bit 18 (push_bit 18 (of_nat n) OR of_nat a :: u64) AND 0x3FFFF) = n"
    using assms unfolding j by (simp add: unat_of_nat)
  show "ucast ((push_bit 18 (of_nat n) OR of_nat a :: u64) AND 0x3FFFF) = (of_nat a :: u32)"
    unfolding j using assms by (intro word_unat_eq_iff [THEN iffD2]) (simp add: unsigned_ucast_eq unat_of_nat take_bit_nat_eq_self)
  show "wf36 (push_bit 18 (of_nat n) OR of_nat a)" by (rule j(3))
qed

lemma boot_tape:
  assumes "attached u" and "tape u = frames (push_bit 18 (of_nat (0x40000 - length ws)) OR of_nat a)
      @ concat (map frames ws) @ rest"
    and "ws \<noteq> []" and "\<forall>w \<in> set ws. wf36 w" and "0xF \<le> a" and "a + length ws < 0x40000"
  shows "\<exists>u'. ptr_boot (u, s) = Some (ucast (last ws AND 0x3FFFF), u',
      sim_activate PTR_UNIT (wait u) (boot_image (of_nat a) ws s)) \<and> tape u' = rest"
proof -
  have n: "0x40000 - length ws < 0x40000" "a < 0x40000" "length ws < 0x40000"
    using assms(3,6) by (auto simp: length_greater_0_conv)
  note w = iowd_fields [OF n(1,2)]
  obtain a' where "boot_loop (0x40000 - length ws) (of_nat a)
      (push_bit 18 (of_nat (0x40000 - length ws)) OR of_nat a) (concat (map frames ws) @ rest) s
      = (a', last ws, rest, boot_image (of_nat a) ws s)"
    "boot_store a' (last ws) (boot_image (of_nat a) ws s) = boot_image (of_nat a) ws s"
    using boot_loop_words [OF assms(3) n(3) assms(4)] by blast
  then show ?thesis
    using assms(1) w frames_read(2) [OF w(3)] by (simp add: ptr_boot_def assms(2) Let_def)
qed

text \<open>
  The programs that punch and read words in binary mode: for every frame of the punch a DATAO and
  the event that completes it, for every word of the reader the event that reads six frames and a
  DATAI.
\<close>

definition punch_word :: "u64 \<Rightarrow> unit dev_op list" where
  "punch_word w =
     concat (map (\<lambda>i. [Io (0x40 OR DATAO) (drop_bit (30 - 6 * i) w), Event ()]) [0..<6])"

fun read_words :: "nat \<Rightarrow> pt_unit \<times> 'a pi_state_scheme \<Rightarrow> u64 list \<times> pt_unit \<times> 'a pi_state_scheme" where
  "read_words 0 x = ([], x)"
| "read_words (Suc n) x =
     (let (v, x) = ptr_devio (0x44 OR DATAI) 0 (snd (ptr_svc x)); (vs, x) = read_words n x
      in (v # vs, x))"

definition punching :: "pt_unit \<Rightarrow> bool" where
  \<comment> \<open>attached, in binary mode and not busy\<close>
  "punching u \<longleftrightarrow> attached u \<and> tst (STATUS u) BIN_FLG \<and> \<not> tst (STATUS u) BUSY_FLG"

lemma tst_pt [tst_simps]:
  "tst (x :: u32) 0x8 = bit x 3" "tst (x :: u32) 0x10 = bit x 4" "tst (x :: u32) 0x20 = bit x 5"
  using tst_exp [of x 3] tst_exp [of x 4] tst_exp [of x 5] by simp_all

lemma bit_pt: "bit (0x8 :: u32) n \<longleftrightarrow> n = 3" "bit (0x10 :: u32) n \<longleftrightarrow> n = 4"
  using bit_exp_iff [of 3 n, where ?'a = u32] bit_exp_iff [of 4 n, where ?'a = u32] by auto

lemma punch_frame:
  assumes "punching u"
  shows "\<exists>u' s'. dev_run ptp_devio (\<lambda>_. ptp_svc) [Io (0x40 OR DATAO) (drop_bit (30 - 6 * i) w), Event ()] (u, s)
      = (u', s') \<and> punching u' \<and> tape u' = tape u @ [frame w i]"
proof -
  have c: "(ucast (ucast (drop_bit (30 - 6 * i) w AND 0xFF :: u64) AND 0x3F OR 0x80 :: u32) :: u8) = frame w i"
  proof (rule bit_word_eqI)
    have m: "(0xFF :: u64) = mask 8" by (simp add: mask_eq_exp_minus_1)
    have b: "bit (0x80 :: u32) n \<longleftrightarrow> n = 7" "bit (0x80 :: u8) n \<longleftrightarrow> n = 7" for n
      using bit_exp_iff [of 7 n, where ?'a = u32] bit_exp_iff [of 7 n, where ?'a = u8] by auto
    fix n assume "n < LENGTH(8)"
    then show "bit (ucast (ucast (drop_bit (30 - 6 * i) w AND 0xFF :: u64) AND 0x3F OR 0x80 :: u32) :: u8) n
        = bit (frame w i) n"
      unfolding frame_def m
      by (simp only: bit_and_iff bit_or_iff bit_ucast_iff bit_mask_iff bit_drop_bit_eq six_bits b) auto
  qed
  show ?thesis
    using assms c
    by (auto simp: ptp_devio_def ptp_datao_def ptp_svc_def Let_def io_functions punching_def
        tst_simps bit_clr_bits bit_or_iff bit_pt)
qed

lemma punch_word_tape:
  assumes "punching u"
  shows "\<exists>u' s'. dev_run ptp_devio (\<lambda>_. ptp_svc) (punch_word w) (u, s) = (u', s')
    \<and> punching u' \<and> tape u' = tape u @ frames w"
proof -
  have "\<exists>u' s'. dev_run ptp_devio (\<lambda>_. ptp_svc)
      (concat (map (\<lambda>i. [Io (0x40 OR DATAO) (drop_bit (30 - 6 * i) w), Event ()]) is)) (u, s) = (u', s')
      \<and> punching u' \<and> tape u' = tape u @ map (frame w) is" if "punching u" for "is" u and s :: "'a pi_state_scheme"
    using that
  proof (induction "is" arbitrary: u s)
    case (Cons i "is")
    obtain u' s' where "dev_run ptp_devio (\<lambda>_. ptp_svc) [Io (0x40 OR DATAO) (drop_bit (30 - 6 * i) w), Event ()] (u, s)
      = (u', s')" and u': "punching u'" "tape u' = tape u @ [frame w i]"
      using punch_frame [OF Cons.prems] by blast
    then show ?case
      using Cons.IH [OF u'(1), of s'] u'(2)
      unfolding list.map concat.simps dev_run_append by simp
  qed simp
  from this [OF assms, of "[0..<6]" s] show ?thesis by (simp only: punch_word_def frames_def)
qed

lemma punch_words_tape:
  "punching u \<Longrightarrow> \<exists>u' s'. dev_run ptp_devio (\<lambda>_. ptp_svc) (concat (map punch_word ws)) (u, s) = (u', s')
    \<and> punching u' \<and> tape u' = tape u @ concat (map frames ws)"
proof (induction ws arbitrary: u s)
  case (Cons w ws)
  obtain u' s' where "dev_run ptp_devio (\<lambda>_. ptp_svc) (punch_word w) (u, s) = (u', s')"
    and u': "punching u'" "tape u' = tape u @ frames w"
    using punch_word_tape [OF Cons.prems] by blast
  then show ?case using Cons.IH [OF u'(1), of s'] by simp
qed simp

lemma rejoin: "wf36 w \<Longrightarrow> push_bit 18 (ucast (ucast (drop_bit 18 w AND 0x3FFFF) :: u32))
    OR ucast (ucast (w AND 0x3FFFF) :: u32) = w"
  by (rule bit_word_eqI) (auto simp: mask_simps bit_simps dest: wf36_bitD)

lemma read_words_tape:
  assumes "\<forall>w \<in> set ws. wf36 w" and "attached r" and "tst (STATUS r) BIN_FLG"
    and "tape r = concat (map frames ws) @ t"
  shows "fst (read_words (length ws) (r, s)) = ws"
  using assms
proof (induction ws arbitrary: r s)
  case (Cons w ws)
  have w: "wf36 w" using Cons.prems(1) by simp
  obtain r' s' where e: "ptr_devio (0x44 OR DATAI) 0 (snd (ptr_svc (r, s))) = (w, r', s')"
    and r': "attached r'" "tst (STATUS r') BIN_FLG" "tape r' = concat (map frames ws) @ t"
    using Cons.prems(2-4) frames_read(1) [OF w, of "concat (map frames ws) @ t"] rejoin [OF w]
    by (simp add: ptr_devio_def ptr_datai_def ptr_svc_def Let_def io_functions
        tst_simps bit_clr_bits bit_or_iff bit_pt)
  then show ?case using Cons.IH [of r' s'] Cons.prems(1) by (simp add: case_prod_unfold)
qed simp

end
