(* ===== verification/Clock_Dk10.thy ===== *)
theory Clock_Dk10
  imports Io_Device
begin

text \<open>
  The DK10 interval timer of \<open>PDP10/kx10_dk.c\<close>, one unit: its counter, the register it is
  compared with, and the event scheduled for the moment they agree or the counter overflows. One
  count is ten microseconds.
\<close>

unbundle bit_operations_syntax

section \<open>State and operations\<close>

record dk_unit = unit_state +
  CLK_REG :: u32
  INT_REG :: u32
  CLK_TIM :: u32

abbreviation (input) DK_DEVNUM :: nat where "DK_DEVNUM \<equiv> 0x38"
abbreviation (input) CLK_CLR_FLG :: "'a::len word" where "CLK_CLR_FLG \<equiv> 0x8"
abbreviation (input) CLK_CLR_OVF :: "'a::len word" where "CLK_CLR_OVF \<equiv> 0x10"
abbreviation (input) CLK_SET_EN :: "'a::len word" where "CLK_SET_EN \<equiv> 0x20"
abbreviation (input) CLK_CLR_EN :: "'a::len word" where "CLK_CLR_EN \<equiv> 0x40"
abbreviation (input) CLK_SET_PI :: "'a::len word" where "CLK_SET_PI \<equiv> 0x80"
abbreviation (input) CLK_CLR_PI :: "'a::len word" where "CLK_CLR_PI \<equiv> 0x100"
abbreviation (input) CLK_GEN_CLR :: "'a::len word" where "CLK_GEN_CLR \<equiv> 0x200"
abbreviation (input) CLK_ADD_ONE :: "'a::len word" where "CLK_ADD_ONE \<equiv> 0x400"
abbreviation (input) CLK_SET_FLG :: "'a::len word" where "CLK_SET_FLG \<equiv> 0x800"
abbreviation (input) CLK_SET_OVF :: "'a::len word" where "CLK_SET_OVF \<equiv> 0x1000"
abbreviation (input) CLK_FLG :: "'a::len word" where "CLK_FLG \<equiv> 0x8"
abbreviation (input) CLK_OVF :: "'a::len word" where "CLK_OVF \<equiv> 0x10"
abbreviation (input) CLK_EN :: "'a::len word" where "CLK_EN \<equiv> 0x20"
abbreviation (input) CLK_PI :: "'a::len word" where "CLK_PI \<equiv> 0x80"

type_synonym 'a dk = "dk_unit \<times> 'a pi_state_scheme"

definition dk_arm :: "timer \<Rightarrow> 'a dk \<Rightarrow> 'a dk" where
  \<comment> \<open>start the event of an enabled clock\<close>
  "dk_arm tm = (\<lambda>(u, s).
     let u = u\<lparr>CLK_TIM := (if sint (INT_REG u) < sint (CLK_REG u) then 0x40000 else INT_REG u)\<rparr>;
         t = sint (CLK_TIM u - CLK_REG u)
     in (u, sim_activate_after tm (DK_UNIT 0) (t * 10) s))"

definition dk_test :: "timer \<Rightarrow> 'a dk \<Rightarrow> 'a dk" where
  "dk_test tm = (\<lambda>(u, s).
     let u = (if tst (CLK_REG u) (NOT 0x3FFFF) then u\<lparr>STATUS := STATUS u OR CLK_OVF\<rparr> else u);
         u = u\<lparr>CLK_REG := CLK_REG u AND 0x3FFFF\<rparr>;
         u = (if INT_REG u = CLK_REG u then u\<lparr>STATUS := STATUS u OR CLK_FLG, CLK_REG := 0\<rparr> else u);
         s = (if tst (STATUS u) (CLK_FLG OR CLK_OVF) then set_interrupt DK_DEVNUM (unat (STATUS u)) s
              else s)
     in if tst (STATUS u) CLK_EN then dk_arm tm (u, s) else (u, s))"

definition dk_svc :: "timer \<Rightarrow> (dk_unit, 'a) dev_service" where
  "dk_svc tm = (\<lambda>(u, s). (0, dk_test tm (u\<lparr>CLK_REG := CLK_TIM u\<rparr>, s)))"

definition dk_save :: "timer \<Rightarrow> 'a dk \<Rightarrow> 'a dk" where
  \<comment> \<open>\<open>Save current clock time\<close>\<close>
  "dk_save tm = (\<lambda>(u, s).
     if sim_is_active (DK_UNIT 0) s then
       (let us = sim_activate_time_usecs tm (DK_UNIT 0) s
        in (u\<lparr>CLK_REG := CLK_REG u + (CLK_TIM u - of_int (us div 10))\<rparr>, sim_cancel (DK_UNIT 0) s))
     else (u, s))"

definition dk_set_clock :: "timer \<Rightarrow> nat \<Rightarrow> 'a dk \<Rightarrow> 'a dk" where
  \<comment> \<open>the label \<open>set_clock\<close>\<close>
  "dk_set_clock tm dev x =
     (let (u, s) = dk_save tm x;
          (u, s) = (if INT_REG u = CLK_REG u then
                      (let u = u\<lparr>STATUS := STATUS u OR CLK_FLG\<rparr>
                       in (u, set_interrupt dev (unat (STATUS u)) s))
                    else (u, s))
      in if tst (STATUS u) CLK_EN then dk_arm tm (u, s) else (u, sim_cancel (DK_UNIT 0) s))"

definition dk_flags :: "u64 \<Rightarrow> dk_unit \<Rightarrow> dk_unit" where
  \<comment> \<open>the flag changes of CONO, in the order of the code\<close>
  "dk_flags v u =
     (let u = (if tst v CLK_SET_EN then u\<lparr>STATUS := STATUS u OR CLK_EN\<rparr> else u);
          u = (if tst v CLK_CLR_EN then u\<lparr>STATUS := clr_bits (STATUS u) CLK_EN\<rparr> else u);
          u = (if tst v CLK_SET_OVF then u\<lparr>STATUS := STATUS u OR CLK_OVF\<rparr> else u);
          u = (if tst v CLK_CLR_OVF then u\<lparr>STATUS := clr_bits (STATUS u) CLK_OVF\<rparr> else u);
          u = (if tst v CLK_SET_FLG then u\<lparr>STATUS := STATUS u OR CLK_FLG\<rparr> else u);
          u = (if tst v CLK_CLR_FLG then u\<lparr>STATUS := clr_bits (STATUS u) CLK_FLG\<rparr> else u);
          u = (if tst v CLK_SET_PI then u\<lparr>STATUS := STATUS u OR CLK_PI\<rparr> else u)
      in if tst v CLK_CLR_PI then u\<lparr>STATUS := clr_bits (STATUS u) CLK_PI\<rparr> else u)"

definition dk_cono :: "timer \<Rightarrow> nat \<Rightarrow> u64 \<Rightarrow> 'a dk \<Rightarrow> 'a dk" where
  "dk_cono tm dev v = (\<lambda>(u, s).
     let s = clr_interrupt dev s;
         u = u\<lparr>STATUS := clr_bits (STATUS u) 7\<rparr>;
         (u, s) = (if tst v CLK_GEN_CLR then (u\<lparr>CLK_REG := 0, STATUS := 0\<rparr>, sim_cancel (DK_UNIT 0) s)
                   else (u, s));
         u = u\<lparr>STATUS := STATUS u OR ucast (v AND 7)\<rparr>;
         (u, s) = (if tst v CLK_ADD_ONE \<and> \<not> tst (STATUS u) CLK_EN
                   then dk_test tm (u\<lparr>CLK_REG := CLK_REG u + 1\<rparr>, s) else (u, s));
         u = dk_flags v u;
         s = (if tst (STATUS u) CLK_EN \<and> tst (STATUS u) (CLK_FLG OR CLK_OVF)
              then set_interrupt dev (unat (STATUS u)) s else s)
     in dk_set_clock tm dev (u, s))"

definition dk_datao :: "timer \<Rightarrow> nat \<Rightarrow> u64 \<Rightarrow> 'a dk \<Rightarrow> 'a dk" where
  "dk_datao tm dev v = (\<lambda>(u, s). dk_set_clock tm dev (u\<lparr>INT_REG := ucast (v AND 0x3FFFF)\<rparr>, s))"

definition dk_datai :: "timer \<Rightarrow> nat \<Rightarrow> 'a dk \<Rightarrow> u64 \<times> 'a dk" where
  "dk_datai tm dev x =
     (let (u, s) = dk_save tm x in (ucast (CLK_REG u), dk_set_clock tm dev (u, s)))"

definition dk_devio :: "timer \<Rightarrow> (dk_unit, 'a) dev_routine" where
  "dk_devio tm dev v x =
     (let fn = dev AND 3
      in if drop_bit 2 (dev - 0x38) \<noteq> 0 then (v, x)
         else if fn = CONI then (ucast (STATUS (fst x)) OR push_bit 18 (ucast (INT_REG (fst x))), x)
         else if fn = CONO then (v, dk_cono tm (unat dev) v x)
         else if fn = DATAO then (v, dk_datao tm (unat dev) v x)
         else dk_datai tm (unat dev) x)"

section \<open>The contract with the processor\<close>

lemma dk_arm_step [simp]: "bus_step d s (snd x) \<Longrightarrow> bus_step d s (snd (dk_arm tm x))"
  by (simp add: dk_arm_def Let_def case_prod_unfold)

lemma dk_test_step [simp]: "bus_step DK_DEVNUM s (snd x) \<Longrightarrow> bus_step DK_DEVNUM s (snd (dk_test tm x))"
  by (simp add: dk_test_def Let_def case_prod_unfold)

lemma dk_save_step [simp]: "bus_step d s (snd x) \<Longrightarrow> bus_step d s (snd (dk_save tm x))"
  by (simp add: dk_save_def Let_def case_prod_unfold)

lemma dk_set_clock_step [simp]:
  "bus_step DK_DEVNUM s (snd x) \<Longrightarrow> dev div 4 = 14 \<Longrightarrow>
     bus_step DK_DEVNUM s (snd (dk_set_clock tm dev x))"
  using dk_save_step [of DK_DEVNUM s x tm] by (simp add: dk_set_clock_def Let_def case_prod_unfold)

lemma dk_cono_step [simp]:
  "dev div 4 = 14 \<Longrightarrow> bus_step DK_DEVNUM s (snd (dk_cono tm dev v (u, s)))"
  unfolding dk_cono_def Let_def case_prod_unfold
  by (intro dk_set_clock_step) simp_all

lemma dk_int_reg [simp]:
  "INT_REG (fst (dk_arm tm x)) = INT_REG (fst x)" "INT_REG (fst (dk_test tm x)) = INT_REG (fst x)"
  "INT_REG (fst (dk_save tm x)) = INT_REG (fst x)" "INT_REG (fst (dk_set_clock tm dev x)) = INT_REG (fst x)"
  "INT_REG (dk_flags v u) = INT_REG u"
proof -
  show a: "INT_REG (fst (dk_arm tm x)) = INT_REG (fst x)" for x :: "'a dk"
    by (simp add: dk_arm_def Let_def case_prod_unfold)
  then show "INT_REG (fst (dk_test tm x)) = INT_REG (fst x)"
    by (simp add: dk_test_def Let_def case_prod_unfold)
  show s: "INT_REG (fst (dk_save tm x)) = INT_REG (fst x)"
    by (simp add: dk_save_def Let_def case_prod_unfold)
  show "INT_REG (fst (dk_set_clock tm dev x)) = INT_REG (fst x)"
    using a s by (simp add: dk_set_clock_def Let_def case_prod_unfold)
  show "INT_REG (dk_flags v u) = INT_REG u" by (simp add: dk_flags_def Let_def)
qed

lemma dk_cono_int [simp]: "INT_REG (fst (dk_cono tm dev v (u, s))) = INT_REG u"
  by (simp add: dk_cono_def Let_def case_prod_unfold)

definition dk_ok :: "dk_unit \<Rightarrow> bool" where
  "dk_ok u \<longleftrightarrow> half_word (INT_REG u)"

interpretation dk_io: io_device DK_DEVNUM dk_ok "dk_devio tm" "\<lambda>_::unit. dk_svc tm" for tm
proof unfold_locales
  fix u :: dk_unit and f v and s :: "'a pi_state_scheme"
  assume "dk_ok u" and "addresses DK_DEVNUM f"
  then show "bus_step DK_DEVNUM s (snd (snd (dk_devio tm f v (u, s))))"
    "dk_ok (fst (snd (dk_devio tm f v (u, s))))"
    by (simp_all add: dk_devio_def dk_datao_def dk_datai_def dk_ok_def addresses_def Let_def case_prod_unfold)
next
  fix u :: dk_unit and s :: "'a pi_state_scheme"
  assume "dk_ok u"
  then show "bus_step DK_DEVNUM s (snd (snd (dk_svc tm (u, s))))" "dk_ok (fst (snd (dk_svc tm (u, s))))"
    by (simp_all add: dk_svc_def dk_ok_def)
next
  fix u :: dk_unit and f v and s :: "'a pi_state_scheme"
  assume "dk_ok u" and "wf36 v"
  then show "wf36 (fst (dk_devio tm f v (u, s)))"
    by (auto simp: dk_devio_def dk_datai_def dk_ok_def Let_def case_prod_unfold intro!: word_intros)
qed

section \<open>What the clock does\<close>

text \<open>
  The event of an enabled clock whose counter was below the comparison register: the counter has
  reached it, so the flag is raised, the request goes out on the assigned level, and the counter
  starts again from zero.
\<close>

lemma tst_dk [tst_simps]:
  "tst (x :: u32) 0x18 \<longleftrightarrow> bit x 3 \<or> bit x 4"
proof -
  have b: "bit (0x18 :: u32) n \<longleftrightarrow> n = 3 \<or> n = 4" for n
    using bit_or_iff [of "0x8 :: u32" "0x10" n] bit_exp_iff [of 3 n, where ?'a = u32]
      bit_exp_iff [of 4 n, where ?'a = u32] by auto
  have "x AND 0x18 = 0 \<longleftrightarrow> \<not> bit x 3 \<and> \<not> bit x 4"
    by (subst bit_eq_iff) (auto simp: bit_and_iff b simp del: bit_numeral_word_iff
        dest: spec [of _ 3] spec [of _ 4])
  then show ?thesis by (auto simp: tst_def)
qed

lemma level_mod: "unat (x :: u32) mod 8 = unat (take_bit 3 x)"
  by (simp only: unsigned_take_bit_eq) (simp add: take_bit_eq_mod)

lemma dk_arm_sel [simp]:
  "CLK_REG (fst (dk_arm tm x)) = CLK_REG (fst x)" "STATUS (fst (dk_arm tm x)) = STATUS (fst x)"
  "INT_REG (fst (dk_arm tm x)) = INT_REG (fst x)"
  "irq_req (snd (dk_arm tm x)) i n = irq_req (snd x) i n"
  by (simp_all add: dk_arm_def Let_def case_prod_unfold irq_req_def sim_activate_after_def)

lemma dk_svc_match:
  assumes "CLK_TIM u = INT_REG u" and m: "INT_REG u AND 0x3FFFF = INT_REG u"
  shows "fst (dk_svc tm (u, s)) = 0 \<and> CLK_REG (fst (snd (dk_svc tm (u, s)))) = 0
    \<and> bit (STATUS (fst (snd (dk_svc tm (u, s))))) 3
    \<and> (unat (STATUS u) mod 8 \<noteq> 0 \<longrightarrow>
         irq_req (snd (snd (dk_svc tm (u, s)))) (DK_DEVNUM div 4) (unat (STATUS u) mod 8))"
proof -
  have z: "\<not> tst (INT_REG u) (NOT 0x3FFFF)"
    using m by (metis tst_def word_bw_assocs(1) word_bw_comms(1) word_and_not and_zero_eq)
  have l: "unat (STATUS u OR 8) mod 8 = unat (STATUS u) mod 8"
    unfolding level_mod by (simp add: take_bit_or)
  have f: "tst (STATUS u OR 8) 0x18" "bit (STATUS u OR 8) 3"
    by (simp_all add: tst_dk bit_or_iff bit_exp_iff [of 3, where ?'a = u32, simplified])
  let ?s = "set_interrupt DK_DEVNUM (unat (STATUS u OR 8)) s"
  have "unat (STATUS u) mod 8 \<noteq> 0 \<longrightarrow> irq_req ?s (DK_DEVNUM div 4) (unat (STATUS u) mod 8)"
    using pi_lines.raise_req [of "unat (STATUS u OR 8)" DK_DEVNUM s] l by simp
  then show ?thesis
    using assms z f by (simp add: dk_svc_def dk_test_def Let_def)
qed

text \<open>
  A DATAI saves the counter by adding to it what has been counted since the event was scheduled for
  \<open>CLK_TIM\<close>. As the counter already holds where the counting began, that part is counted
  twice.
\<close>

lemma dk_reading:
  assumes "sim_is_active (DK_UNIT 0) s"
    and "sim_activate_time_usecs tm (DK_UNIT 0) s div 10 = uint (CLK_TIM u - CLK_REG u - e)"
  shows "fst (dk_datai tm dev (u, s)) = ucast (CLK_REG u + (CLK_REG u + e))"
  using assms by (simp add: dk_datai_def dk_save_def Let_def split: prod.splits)

end
