(* ===== verification/Console_Tty.thy ===== *)
theory Console_Tty
  imports Io_Device
begin

text \<open>
  The console terminal of \<open>PDP10/kx10_cty.c\<close>: its two units (output and input), the I/O
  routine and the two service routines.

  What the terminal answers is an argument of the service routines: the result of
  \<open>sim_putchar_s\<close> for the output, of \<open>sim_poll_kbd\<close> for the input. The conversion
  \<open>sim_tt_outcvt\<close> of \<open>sim_console.c\<close> is a parameter.
\<close>

unbundle bit_operations_syntax

section \<open>State and operations\<close>

record tty_unit = unit_state +
  DATA :: u32
  PIA :: u32
  screen :: "int list"

record cty =
  cty_out :: tty_unit
  cty_in :: tty_unit

abbreviation (input) TEL_RDY :: "'a::len word" where "TEL_RDY \<equiv> 0x8"
abbreviation (input) TEL_BSY :: "'a::len word" where "TEL_BSY \<equiv> 0x10"
abbreviation (input) KEY_RDY :: "'a::len word" where "KEY_RDY \<equiv> 0x20"
abbreviation (input) KEY_BSY :: "'a::len word" where "KEY_BSY \<equiv> 0x40"
abbreviation (input) KEY_TST :: "'a::len word" where "KEY_TST \<equiv> 0x800"
abbreviation (input) CTY_DEVNUM :: nat where "CTY_DEVNUM \<equiv> 0x50"
abbreviation (input) SCPE_STALL :: nat where "SCPE_STALL \<equiv> 105"
abbreviation (input) SCPE_KFLAG :: int where "SCPE_KFLAG \<equiv> 0x10000000"
abbreviation (input) SCPE_BREAK :: "32 word" where "SCPE_BREAK \<equiv> 0x20000000"

definition cty_coni :: "cty \<Rightarrow> u64" where
  "cty_coni c =
     ucast (PIA (cty_out c) OR (STATUS (cty_out c) AND (TEL_RDY OR TEL_BSY)))
     OR ucast (STATUS (cty_in c) AND (KEY_RDY OR KEY_BSY))
     OR ucast (STATUS (cty_out c) AND KEY_TST)"

definition cty_cono :: "nat \<Rightarrow> u64 \<Rightarrow> cty \<times> 'a pi_state_scheme \<Rightarrow> cty \<times> 'a pi_state_scheme" where
  "cty_cono dev res = (\<lambda>(c, s).
     let t = cty_out c; k = cty_in c;
         t = t\<lparr>PIA := ucast (res AND 7)\<rparr>;
         k = k\<lparr>PIA := ucast (res AND 7)\<rparr>;
         t = t\<lparr>PIA := clr_bits (PIA t) KEY_TST\<rparr>;
         t = t\<lparr>STATUS := clr_bits (STATUS t) (ucast (drop_bit 4 res AND (TEL_RDY OR TEL_BSY)))\<rparr>;
         t = t\<lparr>STATUS := STATUS t OR ucast (res AND (TEL_RDY OR TEL_BSY OR KEY_TST))\<rparr>;
         k = k\<lparr>STATUS := clr_bits (STATUS k) (ucast (drop_bit 4 res AND (KEY_RDY OR KEY_BSY)))\<rparr>;
         k = k\<lparr>STATUS := STATUS k OR ucast (res AND (KEY_RDY OR KEY_BSY))\<rparr>
     in (c\<lparr>cty_out := t, cty_in := k\<rparr>,
         if tst (STATUS t) TEL_RDY \<or> tst (STATUS k) KEY_RDY
         then set_interrupt dev (unat (PIA t)) s else clr_interrupt dev s))"

definition cty_datai :: "nat \<Rightarrow> cty \<times> 'a pi_state_scheme \<Rightarrow> u64 \<times> cty \<times> 'a pi_state_scheme" where
  "cty_datai dev = (\<lambda>(c, s).
     let k = cty_in c
     in (ucast (DATA k AND 0xFF),
         c\<lparr>cty_in := k\<lparr>STATUS := clr_bits (STATUS k) KEY_RDY\<rparr>\<rparr>,
         if \<not> tst (STATUS (cty_out c)) TEL_RDY then clr_interrupt dev s else s))"

definition cty_datao :: "nat \<Rightarrow> u64 \<Rightarrow> cty \<times> 'a pi_state_scheme \<Rightarrow> cty \<times> 'a pi_state_scheme" where
  "cty_datao dev v = (\<lambda>(c, s).
     let t = cty_out c;
         t = t\<lparr>DATA := ucast (v AND 0x7F), STATUS := clr_bits (STATUS t) TEL_RDY OR TEL_BSY\<rparr>;
         s = (if \<not> tst (STATUS (cty_in c)) KEY_RDY then clr_interrupt dev s else s)
     in (c\<lparr>cty_out := t\<rparr>, sim_activate CTYO_UNIT (wait t) s))"

definition cty_devio :: "(cty, 'a) dev_routine" where
  "cty_devio dev v x =
     (let fn = dev AND 3
      in if fn = CONI then (cty_coni (fst x), x)
         else if fn = CONO then (v, cty_cono (unat dev) v x)
         else if fn = DATAI then cty_datai (unat dev) x
         else (v, cty_datao (unat dev) v x))"

definition ctyo_svc :: "(u32 \<Rightarrow> int) \<Rightarrow> nat \<Rightarrow> (cty, 'a) dev_service" where
  \<comment> \<open>\<open>r\<close> is the result of \<open>sim_putchar_s\<close>, if it is called\<close>
  "ctyo_svc outcvt r = (\<lambda>(c, s).
     let t = cty_out c
     in if DATA t \<noteq> 0 \<and> r \<noteq> 0 then
          (if r = SCPE_STALL then 0 else r, c, sim_activate CTYO_UNIT (wait t) s)
        else
          (let t = (if DATA t \<noteq> 0 then t\<lparr>screen := screen t @ [outcvt (DATA t)]\<rparr> else t);
               t = t\<lparr>STATUS := clr_bits (STATUS t) TEL_BSY OR TEL_RDY\<rparr>
           in (0, c\<lparr>cty_out := t\<rparr>, set_interrupt CTY_DEVNUM (unat (PIA t)) s)))"

definition ctyi_svc :: "timer \<Rightarrow> int \<Rightarrow> int \<Rightarrow> (cty, 'a) dev_service" where
  \<comment> \<open>\<open>ch\<close> is the result of \<open>sim_poll_kbd\<close>, if it is called\<close>
  "ctyi_svc tm tmxr_poll ch = (\<lambda>(c, s).
     let s = sim_clock_coschedule tm CTYI_UNIT tmxr_poll s;
         k = cty_in c
     in if tst (STATUS k) KEY_RDY then (0, c, s)
        else if ch < SCPE_KFLAG then (nat ch, c, s)
        else if tst (of_int ch) SCPE_BREAK then (0, c, s)
        else
          (let k = k\<lparr>DATA := of_int ch AND 0x7F, STATUS := STATUS k OR KEY_RDY\<rparr>
           in (0, c\<lparr>cty_in := k\<rparr>, set_interrupt CTY_DEVNUM (unat (PIA k)) s)))"

definition cty_reset :: "timer \<Rightarrow> int \<Rightarrow> cty \<times> 'a pi_state_scheme \<Rightarrow> cty \<times> 'a pi_state_scheme" where
  "cty_reset tm tmxr_poll = (\<lambda>(c, s).
     let t = cty_out c; k = cty_in c
     in (c\<lparr>cty_out := t\<lparr>STATUS := clr_bits (STATUS t) (TEL_RDY OR TEL_BSY)\<rparr>,
           cty_in := k\<lparr>STATUS := clr_bits (STATUS k) (KEY_RDY OR KEY_BSY)\<rparr>\<rparr>,
         sim_clock_coschedule tm CTYI_UNIT tmxr_poll (clr_interrupt CTY_DEVNUM s)))"

section \<open>The contract with the processor\<close>

text \<open>An event of the terminal: the output unit's with the answer of the screen, or the poll.\<close>

datatype cty_event = Sent nat | Polled int

fun cty_svc :: "timer \<Rightarrow> int \<Rightarrow> (u32 \<Rightarrow> int) \<Rightarrow> cty_event \<Rightarrow> (cty, 'a) dev_service" where
  "cty_svc tm poll outcvt (Sent r) = ctyo_svc outcvt r"
| "cty_svc tm poll outcvt (Polled ch) = ctyi_svc tm poll ch"

definition cty_ok :: "cty \<Rightarrow> bool" where
  "cty_ok c \<longleftrightarrow> wait_ok (cty_out c)"

interpretation cty_io: io_device CTY_DEVNUM cty_ok cty_devio "cty_svc tm poll outcvt"
  for tm poll outcvt
proof unfold_locales
  fix c :: cty and f v and s :: "'a pi_state_scheme"
  assume "cty_ok c" and "addresses CTY_DEVNUM f"
  then show "bus_step CTY_DEVNUM s (snd (snd (cty_devio f v (c, s))))"
    "cty_ok (fst (snd (cty_devio f v (c, s))))"
    by (simp_all add: cty_devio_def cty_cono_def cty_datai_def cty_datao_def cty_ok_def wait_ok_def
        addresses_def Let_def)
next
  fix c :: cty and e and s :: "'a pi_state_scheme"
  assume "cty_ok c"
  then show "bus_step CTY_DEVNUM s (snd (snd (cty_svc tm poll outcvt e (c, s))))"
    "cty_ok (fst (snd (cty_svc tm poll outcvt e (c, s))))"
    by (cases e; simp add: ctyo_svc_def ctyi_svc_def cty_ok_def wait_ok_def Let_def)+
next
  fix c :: cty and f v and s :: "'a pi_state_scheme"
  assume "wf36 v"
  then show "wf36 (fst (cty_devio f v (c, s)))"
    by (auto simp: cty_devio_def cty_coni_def cty_datai_def Let_def intro!: word_intros)
qed

interpretation cty_clock: timed_device CTY_DEVNUM "\<lambda>c. cty_ok c \<and> timer_ok tm" cty_devio
    "cty_svc tm poll outcvt" "{CTYO_UNIT, CTYI_UNIT}" for tm poll outcvt
proof unfold_locales
  fix c :: cty and f v and s :: "'a pi_state_scheme"
  show "cty_ok c \<and> timer_ok tm \<Longrightarrow> wf36 v \<Longrightarrow> wf36 (fst (cty_devio f v (c, s)))"
    by (simp add: cty_io.io_word)
  assume c: "cty_ok c \<and> timer_ok tm" and f: "addresses CTY_DEVNUM f"
  then show "bus_step CTY_DEVNUM s (snd (snd (cty_devio f v (c, s))))"
    "cty_ok (fst (snd (cty_devio f v (c, s)))) \<and> timer_ok tm"
    using cty_io.io_step [of c f s v] cty_io.io_inv [of c f v s] by simp_all
  show "queue_step {CTYO_UNIT, CTYI_UNIT} s (snd (snd (cty_devio f v (c, s))))"
    using c by (simp add: cty_devio_def cty_cono_def cty_datai_def cty_datao_def cty_ok_def
        wait_ok_def Let_def)
next
  fix c :: cty and e and s :: "'a pi_state_scheme"
  assume c: "cty_ok c \<and> timer_ok tm"
  then show "bus_step CTY_DEVNUM s (snd (snd (cty_svc tm poll outcvt e (c, s))))"
    "cty_ok (fst (snd (cty_svc tm poll outcvt e (c, s)))) \<and> timer_ok tm"
    using cty_io.svc_step [of c s tm poll outcvt e] cty_io.svc_inv [of c tm poll outcvt e s] by simp_all
  show "queue_step {CTYO_UNIT, CTYI_UNIT} s (snd (snd (cty_svc tm poll outcvt e (c, s))))"
    using c by (cases e; simp add: ctyo_svc_def ctyi_svc_def cty_ok_def wait_ok_def Let_def)
qed

section \<open>The request line\<close>

text \<open>
  The terminal has one request line for both directions: it is up on the assigned level whenever a
  direction is ready, and only then.
\<close>

definition cty_ready :: "cty \<Rightarrow> bool" where
  "cty_ready c \<longleftrightarrow> bit (STATUS (cty_out c)) 3 \<or> bit (STATUS (cty_in c)) 5"

definition cty_level :: "cty \<Rightarrow> nat" where
  "cty_level c = unat (PIA (cty_out c)) mod 8"

definition cty_line :: "cty \<times> 'a pi_state_scheme \<Rightarrow> bool" where
  "cty_line = (\<lambda>(c, s).
     PIA (cty_in c) = PIA (cty_out c)
   \<and> (cty_ready c \<and> cty_level c \<noteq> 0 \<longrightarrow> irq_req s (CTY_DEVNUM div 4) (cty_level c))
   \<and> (\<forall>n. irq_req s (CTY_DEVNUM div 4) n \<longrightarrow> cty_ready c))"

lemma tst_cty [tst_simps]:
  "tst (x :: u32) 0x8 = bit x 3" "tst (x :: u32) 0x20 = bit x 5"
  using tst_exp [of x 3] tst_exp [of x 5] by simp_all

lemma bit_cty: "bit (0x8 :: u32) n \<longleftrightarrow> n = 3" "bit (0x20 :: u32) n \<longleftrightarrow> n = 5" "bit (0x10 :: u32) n \<longleftrightarrow> n = 4"
  using bit_exp_iff [of 3 n, where ?'a = u32] bit_exp_iff [of 5 n, where ?'a = u32]
    bit_exp_iff [of 4 n, where ?'a = u32] by auto

lemma irq_req_queue [simp]:
  "irq_req (sim_activate u w s) i n = irq_req s i n"
  "irq_req (sim_clock_coschedule tm u k s) i n = irq_req s i n"
  by (simp_all add: irq_req_def sim_clock_coschedule_def)

lemma irq_req_raise: "e div 4 = i \<Longrightarrow> irq_req (set_interrupt e l s) i n
    \<longleftrightarrow> (if l mod 8 = 0 then irq_req s i n else n = l mod 8)"
  using pi_lines.raise_req [of l e s n] pi_lines.raise_zero [of l e s] by auto

lemma irq_req_drop: "e div 4 = i \<Longrightarrow> \<not> irq_req (clr_interrupt e s) i n"
  using pi_lines.drop_req by blast

lemma clr_key_tst: "clr_bits (ucast (res AND 7 :: u64)) 0x800 = (ucast (res AND 7) :: u32)"
proof (rule bit_word_eqI)
  have b: "bit (7 :: u64) n \<longleftrightarrow> n < 3" "bit (0x800 :: u32) n \<longleftrightarrow> n = 11" for n
    using bit_mask_iff [of 3 n, where ?'a = u64] bit_exp_iff [of 11 n, where ?'a = u32]
    by (auto simp: mask_eq_exp_minus_1)
  fix n
  show "bit (clr_bits (ucast (res AND 7)) 0x800 :: u32) n = bit (ucast (res AND 7) :: u32) n"
    by (auto simp: bit_clr_bits bit_and_iff bit_ucast_iff b simp del: bit_numeral_word_iff)
qed

lemma cty_io_line:
  assumes "addresses CTY_DEVNUM f" and "cty_line (c, s)"
  shows "cty_line (snd (cty_devio f v (c, s)))"
proof -
  have f: "unat f div 4 = 20" using assms(1) by (simp add: addresses_def)
  have "cty_line (cty_cono (unat f) v (c, s))"
    using f by (auto simp: cty_line_def cty_cono_def cty_ready_def cty_level_def Let_def clr_key_tst
        tst_cty irq_req_raise irq_req_drop)
  moreover have "cty_line (snd (cty_datai (unat f) (c, s)))"
    using assms(2) f by (auto simp: cty_line_def cty_datai_def cty_ready_def cty_level_def Let_def
        tst_cty irq_req_drop bit_clr_bits bit_cty)
  moreover have "cty_line (cty_datao (unat f) v (c, s))"
    using assms(2) f by (auto simp: cty_line_def cty_datao_def cty_ready_def cty_level_def Let_def
        tst_cty irq_req_drop bit_clr_bits bit_or_iff bit_cty)
  ultimately show ?thesis using assms(2) by (simp add: cty_devio_def Let_def)
qed

lemma cty_svc_line:
  assumes "cty_line (c, s)"
  shows "cty_line (snd (cty_svc tm poll outcvt e (c, s)))"
  using assms
  by (cases e) (auto simp: cty_line_def ctyo_svc_def ctyi_svc_def cty_ready_def cty_level_def Let_def
      tst_cty irq_req_raise bit_clr_bits bit_or_iff bit_cty split: if_splits)

lemma cty_run_line:
  "ops_for CTY_DEVNUM ops \<Longrightarrow> cty_line x \<Longrightarrow> cty_line (dev_run cty_devio (cty_svc tm poll outcvt) ops x)"
proof (induction ops arbitrary: x)
  case (Cons a ops)
  obtain c s where x: "x = (c, s)" by fastforce
  show ?case
  proof (cases a)
    case (Io f v)
    then show ?thesis
      using Cons.IH [of "snd (cty_devio f v x)"] Cons.prems cty_io_line [of f c s v]
      by (simp add: x ops_for_def)
  next
    case (Event e)
    then show ?thesis
      using Cons.IH [of "snd (cty_svc tm poll outcvt e x)"] Cons.prems cty_svc_line [of c s tm poll outcvt e]
      by (simp add: x ops_for_def)
  qed
qed simp

end
