(* ===== verification/Line_Printer.thy ===== *)
theory Line_Printer
  imports Io_Device "HOL-Library.While_Combinator"
begin

text \<open>
  The LP10 line printer of \<open>PDP10/kx10_lp.c\<close>: the I/O routine, the buffer that collects a
  line, the control characters and the service routine that prints the five characters of a word.

  The line buffer is a function of its index, so that an access outside the 402 bytes of
  \<open>lpt_buffer\<close> can be seen: the loop that trims a line reads the byte before the buffer when
  nothing is left of it. The file the printer writes is the list of its bytes; a write does not fail.
\<close>

unbundle bit_operations_syntax

section \<open>State\<close>

record lpt_unit = unit_state +
  COL :: int
  POS :: int
  LINE :: int
  capac :: int
  UNIT_UC :: bool
  UNIT_UTF8 :: bool
  lpt_buffer :: "int \<Rightarrow> u8"
  lpt_chbuf :: "u8 list"
  printed :: "u8 list"

abbreviation (input) LP_DEVNUM :: nat where "LP_DEVNUM \<equiv> 0x54"
abbreviation (input) MARGIN :: int where "MARGIN \<equiv> 6"
abbreviation (input) LPT_DONE :: "'a::len word" where "LPT_DONE \<equiv> 0x40"
abbreviation (input) LPT_BUSY :: "'a::len word" where "LPT_BUSY \<equiv> 0x80"
abbreviation (input) ERR_FLG :: "'a::len word" where "ERR_FLG \<equiv> 0x100"
abbreviation (input) CLR_LPT :: "'a::len word" where "CLR_LPT \<equiv> 0x400"
abbreviation (input) C96 :: "'a::len word" where "C96 \<equiv> 0x400"
abbreviation (input) C128 :: "'a::len word" where "C128 \<equiv> 0x800"
abbreviation (input) DEL_FLG :: "'a::len word" where "DEL_FLG \<equiv> 0x8000"

section \<open>Lines\<close>

definition buffer_put :: "u8 \<Rightarrow> lpt_unit \<Rightarrow> lpt_unit" where
  \<comment> \<open>\<open>lpt_buffer[uptr->POS++] = c\<close>\<close>
  "buffer_put c u = u\<lparr>lpt_buffer := (lpt_buffer u)(POS u := c), POS := POS u + 1\<rparr>"

definition lpt_write :: "u8 list \<Rightarrow> lpt_unit \<Rightarrow> lpt_unit" where
  "lpt_write cs u = u\<lparr>printed := printed u @ cs\<rparr>"

function lpt_trim :: "bool \<Rightarrow> lpt_unit \<Rightarrow> bool \<times> lpt_unit" where
  \<comment> \<open>\<open>Trim off trailing blanks\<close>; the first component is \<open>trim\<close>\<close>
  "lpt_trim trim u =
     (if 0 \<le> COL u \<and> lpt_buffer u (POS u - 1) = 0x20
      then lpt_trim True (u\<lparr>COL := COL u - 1, POS := POS u - 1\<rparr>) else (trim, u))"
  by pat_completeness auto
termination
  by (relation "measure (\<lambda>(trim, u). nat (COL u + 1))") auto

declare lpt_trim.simps [simp del]

definition lpt_printline :: "int \<Rightarrow> lpt_unit \<Rightarrow> lpt_unit" where
  "lpt_printline nl u =
     (let (trim, u) = lpt_trim False u;
          u = u\<lparr>lpt_buffer := (lpt_buffer u)(POS u := 0)\<rparr>;
          u = (if COL u \<noteq> 0 \<or> trim then buffer_put 0x0D u else u);
          u = (if nl \<noteq> 0 then (buffer_put 0x0A u)\<lparr>LINE := LINE u + 1\<rparr> else u);
          u = (if 0 < nl \<and> capac u - MARGIN \<le> LINE u then (buffer_put 0x0C u)\<lparr>LINE := 0\<rparr>
               else if nl < 0 \<and> capac u \<le> LINE u then u\<lparr>LINE := 0\<rparr> else u)
      in (lpt_write (map (\<lambda>i. lpt_buffer u (int i)) [0..<nat (POS u)]) u)\<lparr>COL := 0, POS := 0\<rparr>)"

definition utf_code :: "u16 list" where
  "utf_code =
    [0x00B7, 0x2193, 0x03B1, 0x03B2, 0x039B, 0x2510, 0x03B5, 0x03D6,
     0x03BB, 0x03B3, 0x221D, 0x222B, 0x00B1, 0x2295, 0x221E, 0x2202,
     0x2282, 0x2283, 0x2229, 0x222A, 0x2200, 0x2203, 0x2295, 0x2194,
     0x2227, 0x2192, 0x2014, 0x2260, 0x2264, 0x2265, 0x2261, 0x2228]"

definition waits_code :: "u16 list" where
  "waits_code =
    [0x00B7, 0x2193, 0x03B1, 0x03B2, 0x2227, 0x00AC, 0x03B5, 0x03D6,
     0x03BB, 0x03B3, 0x03B4, 0x222B, 0x00B1, 0x2295, 0x221E, 0x2202,
     0x2282, 0x2283, 0x2229, 0x222A, 0x2200, 0x2203, 0x2295, 0x2194,
     0x2190, 0x2192, 0x2191, 0x2260, 0x2264, 0x2265, 0x2261, 0x2228]"

definition put_utf8 :: "u16 \<Rightarrow> lpt_unit \<Rightarrow> lpt_unit" where
  "put_utf8 w u =
     (if 0x7FF < w then
        buffer_put (0x80 + ucast (w AND 0x3F))
          (buffer_put (0x80 + ucast (drop_bit 6 w AND 0x3F))
            (buffer_put (0xE0 + ucast (drop_bit 12 w AND 0xF)) u))
      else if 0x7F < w then
        buffer_put (0x80 + ucast (w AND 0x3F)) (buffer_put (0xC0 + ucast (drop_bit 6 w AND 0x3F)) u)
      else buffer_put (ucast (w AND 0x7F)) u)"

definition next_col :: "lpt_unit \<Rightarrow> lpt_unit" where
  "next_col u = u\<lparr>COL := COL u + 1\<rparr>"

definition lpt_output :: "u8 \<Rightarrow> lpt_unit \<Rightarrow> lpt_unit" where
  "lpt_output c u =
     (if c = 0 then u
      else
        (let u = (if COL u = 132 then lpt_printline 1 u else u);
             c = (if UNIT_UC u \<and> \<not> UNIT_UTF8 u \<and> c AND 0x60 = 0x60 then c AND 0x5F else c)
         in if \<not> UNIT_UC u \<and> UNIT_UTF8 u \<and> c < 0x20
            then next_col (put_utf8 (utf_code ! unat (c AND 0x1F)) u)
            else if UNIT_UC u \<and> UNIT_UTF8 u
            then next_col (put_utf8 (if c < 0x20 then waits_code ! unat (c AND 0x1F)
                                     else if c = 0x5E then 0x2191 else ucast (c AND 0x7F)) u)
            else if 0x20 \<le> c \<and> c < 0x7F then next_col (buffer_put c u)
            else u))"

definition lpt_skip :: "int \<Rightarrow> lpt_unit \<Rightarrow> lpt_unit" where
  \<comment> \<open>the loops that space to a multiple of \<open>n\<close> lines\<close>
  "lpt_skip n u =
     while (\<lambda>u. LINE u mod n \<noteq> 0) (\<lambda>u. (lpt_write [0x0D, 0x0A] u)\<lparr>LINE := LINE u + 1\<rparr>) u"

definition lpt_tab :: "lpt_unit \<Rightarrow> lpt_unit" where
  "lpt_tab u = while (\<lambda>u. COL u mod 8 \<noteq> 0) (lpt_output 0x20) (lpt_output 0x20 u)"

definition lpt_control :: "u8 \<Rightarrow> lpt_unit \<Rightarrow> lpt_unit" where
  "lpt_control c u =
     (if c = 0x09 then lpt_tab u
      else if c = 0x0D then lpt_printline 0 u
      else if c = 0x0A then lpt_printline 1 u
      else if c = 0x0C then (lpt_write [0x0C] (lpt_printline 0 u))\<lparr>LINE := 0\<rparr>
      else if c = 0x0B then lpt_skip 20 (lpt_printline 1 u)
      else if c = 0x10 then lpt_skip 30 (lpt_printline 1 u)
      else if c = 0x11 then lpt_skip 2 (lpt_printline 1 u)
      else if c = 0x12 then lpt_skip 3 (lpt_printline 1 u)
      else if c = 0x13 then lpt_printline (- 1) u
      else u)"

definition lpt_char :: "u8 \<Rightarrow> lpt_unit \<Rightarrow> lpt_unit" where
  \<comment> \<open>the body of the loop of \<open>lpt_svc\<close>\<close>
  "lpt_char c u =
     (if tst (STATUS u) DEL_FLG
      then (let u = lpt_output c u in u\<lparr>STATUS := clr_bits (STATUS u) DEL_FLG\<rparr>)
      else if c = 0x7F then u\<lparr>STATUS := STATUS u OR DEL_FLG\<rparr>
      else if c < 0x20 then lpt_control c u
      else lpt_output c u)"

section \<open>The device\<close>

definition lpt_coni :: "lpt_unit \<Rightarrow> u64" where
  "lpt_coni u =
     (let d = ucast (STATUS u AND (7 OR 0x38 OR LPT_DONE OR LPT_BUSY OR ERR_FLG));
          d = set_if (\<not> UNIT_UC u) C96 d;
          d = set_if (UNIT_UTF8 u) C128 d
      in set_if (\<not> attached u) ERR_FLG d)"

definition lpt_cono :: "nat \<Rightarrow> u64 \<Rightarrow> lpt_unit \<times> 'a pi_state_scheme \<Rightarrow> lpt_unit \<times> 'a pi_state_scheme" where
  "lpt_cono dev v = (\<lambda>(u, s).
     let s = clr_interrupt dev s;
         u = u\<lparr>STATUS := clr_bits (STATUS u) 0x1FF\<rparr>;
         u = u\<lparr>STATUS := STATUS u OR ucast ((7 OR 0x38 OR LPT_DONE OR LPT_BUSY OR CLR_LPT) AND v)\<rparr>;
         (u, s) = (if tst v CLR_LPT
                   then (u\<lparr>STATUS := clr_bits (STATUS u) LPT_DONE OR LPT_BUSY\<rparr>,
                         sim_activate LPT_UNIT (wait u) s)
                   else (u, s));
         (u, s) = (if \<not> attached u
                   then (let u = u\<lparr>STATUS := STATUS u OR ERR_FLG\<rparr>
                         in (u, set_interrupt dev (unat (drop_bit 3 (STATUS u))) s))
                   else (u, s))
     in (u, if tst (STATUS u) LPT_DONE then set_interrupt dev (unat (STATUS u)) s else s))"

definition chbuf_of :: "u64 \<Rightarrow> u8 list" where
  \<comment> \<open>the five characters of a word\<close>
  "chbuf_of v = map (\<lambda>i. ucast (drop_bit i v) AND 0x7F) [29, 22, 15, 8, 1]"

definition lpt_datao :: "nat \<Rightarrow> u64 \<Rightarrow> lpt_unit \<times> 'a pi_state_scheme \<Rightarrow> lpt_unit \<times> 'a pi_state_scheme" where
  "lpt_datao dev v = (\<lambda>(u, s).
     if tst (STATUS u) LPT_DONE then
       (u\<lparr>lpt_chbuf := chbuf_of v, STATUS := clr_bits (STATUS u) LPT_DONE OR LPT_BUSY\<rparr>,
        sim_activate LPT_UNIT (wait u) (clr_interrupt dev s))
     else (u, s))"

definition lpt_devio :: "(lpt_unit, 'a) dev_routine" where
  "lpt_devio dev v x =
     (let fn = dev AND 3
      in if fn = CONI then (lpt_coni (fst x), x)
         else if fn = CONO then (v, lpt_cono (unat dev) v x)
         else if fn = DATAO then (v, lpt_datao (unat dev) v x)
         else (0, x))"

definition lpt_clear :: "lpt_unit \<Rightarrow> lpt_unit" where
  \<comment> \<open>the case \<open>CLR_LPT\<close> of \<open>lpt_svc\<close>\<close>
  "lpt_clear u =
     (let u = u\<lparr>lpt_buffer := (\<lambda>i. if 0 \<le> i \<and> i < COL u then 0x20 else lpt_buffer u i), POS := COL u\<rparr>;
          u = lpt_printline 0 u
      in u\<lparr>STATUS := clr_bits (STATUS u) (DEL_FLG OR ERR_FLG OR LPT_BUSY OR CLR_LPT) OR LPT_DONE\<rparr>)"

definition lpt_svc :: "(lpt_unit, 'a) dev_service" where
  \<comment> \<open>without the case of \<open>uptr->flags & DONE_FLG\<close>: that bit of the unit flags, the one
      for a buffered file, is never set in this unit\<close>
  "lpt_svc = (\<lambda>(u, s).
     if \<not> attached u then
       (let u = u\<lparr>STATUS := STATUS u OR ERR_FLG\<rparr>
        in (0, u, set_interrupt LP_DEVNUM (unat (drop_bit 3 (STATUS u))) s))
     else
       (let u = (if tst (STATUS u) CLR_LPT then lpt_clear u
                 else (let u = fold lpt_char (lpt_chbuf u) u
                       in u\<lparr>STATUS := clr_bits (STATUS u) LPT_BUSY OR LPT_DONE\<rparr>))
        in (0, u, set_interrupt LP_DEVNUM (unat (STATUS u)) s)))"

definition lpt_reset :: "lpt_unit \<times> 'a pi_state_scheme \<Rightarrow> lpt_unit \<times> 'a pi_state_scheme" where
  "lpt_reset = (\<lambda>(u, s).
     (u\<lparr>POS := 0, COL := 0, LINE := 1, STATUS := LPT_DONE\<rparr>,
      sim_cancel LPT_UNIT (clr_interrupt LP_DEVNUM s)))"

definition lpt_attach :: "u8 list \<Rightarrow> lpt_unit \<times> 'a pi_state_scheme \<Rightarrow> lpt_unit \<times> 'a pi_state_scheme" where
  "lpt_attach f = (\<lambda>(u, s).
     (u\<lparr>attached := True, printed := f, STATUS := clr_bits (STATUS u) ERR_FLG\<rparr>,
      clr_interrupt LP_DEVNUM s))"

definition lpt_detach :: "lpt_unit \<times> 'a pi_state_scheme \<Rightarrow> lpt_unit \<times> 'a pi_state_scheme" where
  "lpt_detach = (\<lambda>(u, s).
     let u = u\<lparr>STATUS := STATUS u OR ERR_FLG\<rparr>
     in (u\<lparr>attached := False\<rparr>, set_interrupt LP_DEVNUM (unat (drop_bit 3 (STATUS u))) s))"

definition lpt_setlpp :: "int \<Rightarrow> lpt_unit \<Rightarrow> lpt_unit" where
  \<comment> \<open>for a number the command line accepts, at most 100\<close>
  "lpt_setlpp i u = u\<lparr>capac := i, LINE := 0\<rparr>"

section \<open>The line buffer\<close>

text \<open>
  Column and position stay within the line, and no byte outside the 402 of \<open>lpt_buffer\<close> is
  written, provided the byte before it, which the trimming loop reads, is not a blank.
\<close>

definition lpt_ok :: "lpt_unit \<Rightarrow> bool" where
  "lpt_ok u \<longleftrightarrow> 0 \<le> COL u \<and> COL u \<le> 132 \<and> 0 \<le> POS u \<and> POS u \<le> 3 * COL u
     \<and> lpt_buffer u (- 1) \<noteq> 0x20"

definition lpt_step :: "lpt_unit \<Rightarrow> lpt_unit \<Rightarrow> bool" where
  "lpt_step u v \<longleftrightarrow> lpt_ok v \<and> (\<forall>i. i < 0 \<or> 402 \<le> i \<longrightarrow> lpt_buffer v i = lpt_buffer u i)
     \<and> wait v = wait u \<and> attached v = attached u \<and> UNIT_UC v = UNIT_UC u
     \<and> UNIT_UTF8 v = UNIT_UTF8 u \<and> capac v = capac u \<and> STATUS v = STATUS u"

lemma lpt_step_refl: "lpt_ok u \<Longrightarrow> lpt_step u u"
  by (simp add: lpt_step_def)

lemma lpt_step_trans: "lpt_step u v \<Longrightarrow> lpt_step v w \<Longrightarrow> lpt_step u w"
  by (simp add: lpt_step_def)

lemma lpt_step_ok: "lpt_step u v \<Longrightarrow> lpt_ok v"
  by (simp add: lpt_step_def)

lemma trim_bounds:
  assumes "0 \<le> POS u" and "lpt_buffer u (- 1) \<noteq> 0x20" and "lpt_trim b u = (b', v)"
  shows "0 \<le> POS v \<and> POS v \<le> POS u \<and> v = u\<lparr>COL := COL v, POS := POS v\<rparr>"
  using assms
proof (induction b u rule: lpt_trim.induct)
  case (1 b u)
  show ?case
  proof (cases "0 \<le> COL u \<and> lpt_buffer u (POS u - 1) = 0x20")
    case True
    then have "POS u \<noteq> 0" using "1.prems"(2) by auto
    then show ?thesis
      using "1.IH" [OF True] "1.prems" True by (simp add: lpt_trim.simps [of b u])
  next
    case False
    then have "lpt_trim b u = (b, u)" by (subst lpt_trim.simps) auto
    then show ?thesis using "1.prems" by simp
  qed
qed

text \<open>Up to the counters, a unit that differs from \<open>u\<close> within the buffer only.\<close>

definition in_buffer :: "lpt_unit \<Rightarrow> lpt_unit \<Rightarrow> bool" where
  "in_buffer u v \<longleftrightarrow> (\<forall>i. i < 0 \<or> 402 \<le> i \<longrightarrow> lpt_buffer v i = lpt_buffer u i)
     \<and> wait v = wait u \<and> attached v = attached u \<and> UNIT_UC v = UNIT_UC u
     \<and> UNIT_UTF8 v = UNIT_UTF8 u \<and> capac v = capac u \<and> STATUS v = STATUS u"

lemma in_buffer_put:
  "in_buffer u v \<Longrightarrow> 0 \<le> POS v \<Longrightarrow> POS v < 402 \<Longrightarrow>
     in_buffer u (buffer_put c v) \<and> POS (buffer_put c v) = POS v + 1"
  by (auto simp: in_buffer_def buffer_put_def)

lemma in_buffer_counters:
  "in_buffer u v \<Longrightarrow> in_buffer u (v\<lparr>LINE := l\<rparr>)" "in_buffer u v \<Longrightarrow> in_buffer u (v\<lparr>COL := c, POS := q\<rparr>)"
  "in_buffer u v \<Longrightarrow> in_buffer u (lpt_write cs v)"
  by (simp_all add: in_buffer_def lpt_write_def)

lemma printline_step:
  assumes "lpt_ok u"
  shows "lpt_step u (lpt_printline nl u)"
    and "COL (lpt_printline nl u) = 0" and "POS (lpt_printline nl u) = 0"
proof -
  obtain b c q where v: "lpt_trim False u = (b, u\<lparr>COL := c, POS := q\<rparr>)" and q: "0 \<le> q" "q \<le> 396"
    using trim_bounds [of u False] assms
    by (cases "lpt_trim False u") (force simp: lpt_ok_def)
  define w where "w = u\<lparr>COL := c, POS := q\<rparr>"
  define v0 where "v0 = w\<lparr>lpt_buffer := (lpt_buffer w)(POS w := 0)\<rparr>"
  define v1 where "v1 = (if COL v0 \<noteq> 0 \<or> b then buffer_put 0x0D v0 else v0)"
  define v2 where "v2 = (if nl \<noteq> 0 then (buffer_put 0x0A v1)\<lparr>LINE := LINE v1 + 1\<rparr> else v1)"
  define v3 where "v3 = (if 0 < nl \<and> capac v2 - MARGIN \<le> LINE v2 then (buffer_put 0x0C v2)\<lparr>LINE := 0\<rparr>
               else if nl < 0 \<and> capac v2 \<le> LINE v2 then v2\<lparr>LINE := 0\<rparr> else v2)"
  have e: "lpt_printline nl u = (lpt_write (map (\<lambda>i. lpt_buffer v3 (int i)) [0..<nat (POS v3)]) v3)\<lparr>COL := 0, POS := 0\<rparr>"
    unfolding lpt_printline_def v Let_def prod.case v3_def v2_def v1_def v0_def w_def ..
  have 0: "in_buffer u v0" "POS v0 = q" using q by (auto simp: v0_def w_def in_buffer_def)
  have 1: "in_buffer u v1 \<and> 0 \<le> POS v1 \<and> POS v1 \<le> 397"
    using 0 q in_buffer_put [of u v0 "0x0D"] by (simp add: v1_def)
  have 2: "in_buffer u v2 \<and> 0 \<le> POS v2 \<and> POS v2 \<le> 398"
    using 1 in_buffer_put [of u v1 "0x0A"] by (simp add: v2_def in_buffer_counters)
  have 3: "in_buffer u v3"
    using 2 in_buffer_put [of u v2 "0x0C"] by (simp add: v3_def in_buffer_counters)
  then have "in_buffer u (lpt_printline nl u)" unfolding e by (intro in_buffer_counters)
  moreover show c: "COL (lpt_printline nl u) = 0" "POS (lpt_printline nl u) = 0" by (simp_all add: e)
  ultimately show "lpt_step u (lpt_printline nl u)"
    using assms by (simp add: lpt_step_def lpt_ok_def in_buffer_def)
qed

lemma column_step:
  assumes "in_buffer u v" and "lpt_ok u" and "COL u \<noteq> 132" and "COL v = COL u"
    and "0 \<le> POS v" and "POS v \<le> POS u + 3"
  shows "lpt_step u (next_col v)"
proof -
  have "lpt_buffer v (- 1) = lpt_buffer u (- 1)" using assms(1) by (simp add: in_buffer_def)
  then have "lpt_ok (next_col v)" using assms(2-6) by (simp add: lpt_ok_def next_col_def)
  then show ?thesis using assms(1) unfolding lpt_step_def in_buffer_def by (simp add: next_col_def)
qed

lemma put_COL [simp]: "COL (buffer_put c v) = COL v" "POS (buffer_put c v) = POS v + 1"
  by (simp_all add: buffer_put_def)

lemma put_step:
  assumes "lpt_ok u" and "COL u \<noteq> 132"
  shows "lpt_step u (next_col (buffer_put c u))" and "lpt_step u (next_col (put_utf8 w u))"
proof -
  have p: "0 \<le> POS u" "POS u \<le> 393" using assms by (auto simp: lpt_ok_def)
  have 1: "in_buffer u (buffer_put c u)" for c
    using p in_buffer_put [of u u c] by (simp add: in_buffer_def)
  have 2: "in_buffer u (buffer_put d (buffer_put c u))" for c d
    using p 1 in_buffer_put [of u "buffer_put c u" d] by simp
  have 3: "in_buffer u (buffer_put e (buffer_put d (buffer_put c u)))" for c d e
    using p 2 in_buffer_put [of u "buffer_put d (buffer_put c u)" e] by simp
  show "lpt_step u (next_col (buffer_put c u))"
    using 1 assms p by (intro column_step) simp_all
  show "lpt_step u (next_col (put_utf8 w u))"
    unfolding put_utf8_def using 1 2 3 assms p by (simp add: column_step)
qed

lemma output_step:
  assumes "lpt_ok u"
  shows "lpt_step u (lpt_output c u)"
proof -
  define v where "v = (if COL u = 132 then lpt_printline 1 u else u)"
  have v: "lpt_step u v" "COL v \<noteq> 132"
    using printline_step [OF assms, of 1] assms by (auto simp: v_def lpt_step_refl)
  note s = put_step [OF lpt_step_ok [OF v(1)] v(2)]
  have p: "lpt_step u (next_col (buffer_put c u'))" "lpt_step u (next_col (put_utf8 w u'))" if "u' = v" for c w u'
    using s v(1) that by (blast intro: lpt_step_trans)+
  show ?thesis
    using v(1) lpt_step_refl [OF assms] unfolding lpt_output_def Let_def v_def [symmetric]
    by (simp add: p)
qed

text \<open>The loops of the control characters.\<close>

lemma neg_mod_step: "0 < n \<Longrightarrow> x mod n \<noteq> 0 \<Longrightarrow> (- (x + 1)) mod n = (- x) mod n - (1::int)"
proof -
  assume n: "0 < n" and x: "x mod n \<noteq> 0"
  have r: "0 < (- x) mod n" "(- x) mod n < n"
    using n x pos_mod_sign [OF n, of x] pos_mod_bound [OF n, of x] by (auto simp: zmod_zminus1_eq_if)
  have "- (x + 1) = n * ((- x) div n) + ((- x) mod n - 1)"
    using mult_div_mod_eq [of n "- x"] by linarith
  then have "(- (x + 1)) mod n = ((- x) mod n - 1) mod n" by (simp only: mod_mult_self4)
  also have "\<dots> = (- x) mod n - 1" using r by (intro mod_pos_pos_trivial) simp_all
  finally show ?thesis .
qed

lemma skip_lines:
  assumes "0 < n"
  shows "int k = (- LINE u) mod n \<Longrightarrow>
    lpt_skip n u = u\<lparr>printed := printed u @ concat (replicate k [0x0D, 0x0A]), LINE := LINE u + int k\<rparr>"
proof (induction k arbitrary: u)
  case 0
  then have "LINE u mod n = 0"
    using pos_mod_bound [OF assms, of "LINE u"] by (auto simp: zmod_zminus1_eq_if split: if_splits)
  then show ?case unfolding lpt_skip_def by (subst while_unfold) simp
next
  case (Suc k)
  then have m: "LINE u mod n \<noteq> 0" by (auto simp: zmod_zminus1_eq_if)
  let ?u = "(lpt_write [0x0D, 0x0A] u)\<lparr>LINE := LINE u + 1\<rparr>"
  have "int k = (- LINE ?u) mod n"
    using Suc.prems neg_mod_step [OF assms m] by (simp add: lpt_write_def)
  from Suc.IH [OF this] have "lpt_skip n ?u = ?u\<lparr>printed := printed ?u @ concat (replicate k [0x0D, 0x0A]),
      LINE := LINE ?u + int k\<rparr>" .
  moreover have "lpt_skip n u = lpt_skip n ?u"
    using m unfolding lpt_skip_def by (subst while_unfold) simp
  ultimately show ?case by (simp add: lpt_write_def)
qed

lemma skip_result:
  assumes "0 < n"
  shows "lpt_skip n u = u\<lparr>printed := printed u @ concat (replicate (nat ((- LINE u) mod n)) [0x0D, 0x0A]),
    LINE := LINE u + (- LINE u) mod n\<rparr>"
  using skip_lines [OF assms, of "nat ((- LINE u) mod n)" u] assms by simp

lemma skip_step: "0 < n \<Longrightarrow> lpt_ok u \<Longrightarrow> lpt_step u (lpt_skip n u)"
  by (simp add: skip_result lpt_step_def lpt_ok_def)

text \<open>A tab moves to the next column that is a multiple of 8, on the next line if there is none.\<close>

lemma blank_col:
  assumes "lpt_ok u"
  shows "COL (lpt_output 0x20 u) = (if COL u = 132 then 1 else COL u + 1)"
proof -
  define v where "v = (if COL u = 132 then lpt_printline 1 u else u)"
  have c: "COL v = (if COL u = 132 then 0 else COL u)"
    using printline_step(2) [OF assms, of 1] by (simp add: v_def)
  have "COL (lpt_output 0x20 u) = COL v + 1"
    unfolding lpt_output_def Let_def v_def [symmetric]
    by (simp add: next_col_def put_utf8_def buffer_put_def)
  then show ?thesis using c by simp
qed

lemma tab_step: 
  assumes "lpt_ok u"
  shows "lpt_step u (lpt_tab u) \<and> COL (lpt_tab u) mod 8 = 0"
  unfolding lpt_tab_def
proof (rule while_rule [where P = "lpt_step u"
      and r = "measure (\<lambda>v. nat (if 128 < COL v then 141 - COL v else (- COL v) mod 8))"])
  show "lpt_step u (lpt_output 0x20 u)" using assms by (rule output_step)
next
  fix v assume v: "lpt_step u v" and m: "COL v mod 8 \<noteq> 0"
  have ok: "lpt_ok v" using v by (rule lpt_step_ok)
  show "lpt_step u (lpt_output 0x20 v)" using v output_step [OF ok] by (rule lpt_step_trans)
  have "0 \<le> COL v" "COL v \<le> 132" using ok by (simp_all add: lpt_ok_def)
  then show "(lpt_output 0x20 v, v)
      \<in> measure (\<lambda>v. nat (if 128 < COL v then 141 - COL v else (- COL v) mod 8))"
  proof -
    assume c: "0 \<le> COL v" "COL v \<le> 132"
    have n: "(- (COL v + 1)) mod 8 = (- COL v) mod 8 - 1" using m by (intro neg_mod_step) simp_all
    have p: "0 \<le> (- (COL v + 1)) mod 8" by (rule pos_mod_sign) simp
    have "COL v \<noteq> 128" using m by auto
    then consider "COL v = 132" | "128 < COL v" "COL v < 132" | "COL v < 128" using c by linarith
    then show ?thesis
    proof cases
      case 3
      then show ?thesis using n p by (simp add: blank_col [OF ok] del: minus_add_distrib)
    qed (simp_all add: blank_col [OF ok])
  qed
qed auto

lemma lpt_step_write: "lpt_step u v \<Longrightarrow> lpt_step u ((lpt_write cs v)\<lparr>LINE := l\<rparr>)"
proof -
  have "lpt_ok ((lpt_write cs v)\<lparr>LINE := l\<rparr>) = lpt_ok v" by (simp add: lpt_ok_def lpt_write_def)
  then show "lpt_step u v \<Longrightarrow> ?thesis" by (simp add: lpt_step_def) (simp add: lpt_write_def)
qed

lemma char_step:
  assumes "lpt_ok u" and "\<not> tst (STATUS u) DEL_FLG" and "c \<noteq> 0x7F"
  shows "lpt_step u (lpt_char c u)"
proof -
  have k: "lpt_step u (lpt_skip n (lpt_printline 1 u))" if "0 < n" for n
    using printline_step(1) [OF assms(1)] skip_step [OF that] lpt_step_ok lpt_step_trans by blast
  have f: "lpt_step u ((lpt_write [0x0C] (lpt_printline 0 u))\<lparr>LINE := 0\<rparr>)"
    using printline_step(1) [OF assms(1), of 0] by (rule lpt_step_write)
  have "lpt_step u (lpt_control c u)"
    using k f printline_step(1) [OF assms(1)] tab_step [OF assms(1)] lpt_step_refl [OF assms(1)]
    by (simp add: lpt_control_def)
  then show ?thesis using assms output_step [OF assms(1)] by (simp add: lpt_char_def)
qed

section \<open>The contract with the processor\<close>

definition lpt_safe :: "lpt_unit \<Rightarrow> lpt_unit \<Rightarrow> bool" where
  "lpt_safe u v \<longleftrightarrow> lpt_ok v \<and> wait v = wait u
     \<and> (\<forall>i. i < 0 \<or> 402 \<le> i \<longrightarrow> lpt_buffer v i = lpt_buffer u i)"

lemma lpt_safe_trans: "lpt_safe u v \<Longrightarrow> lpt_safe v w \<Longrightarrow> lpt_safe u w"
  by (simp add: lpt_safe_def)

lemma lpt_safe_refl: "lpt_ok u \<Longrightarrow> lpt_safe u u"
  by (simp add: lpt_safe_def)

lemma lpt_step_safe: "lpt_step u v \<Longrightarrow> lpt_safe u v"
  by (simp add: lpt_step_def lpt_safe_def)

lemma lpt_ok_upd [simp]:
  "lpt_ok (u\<lparr>STATUS := x\<rparr>) = lpt_ok u" "lpt_ok (u\<lparr>lpt_chbuf := cs\<rparr>) = lpt_ok u"
  by (simp_all add: lpt_ok_def)

lemma lpt_safe_upd [simp]:
  "lpt_safe u (v\<lparr>STATUS := x\<rparr>) = lpt_safe u v" "lpt_safe u (v\<lparr>lpt_chbuf := cs\<rparr>) = lpt_safe u v"
  by (simp_all add: lpt_safe_def)

lemma char_safe: "lpt_ok u \<Longrightarrow> lpt_safe u (lpt_char c u)"
  using char_step [of u c] output_step [of u c]
  by (cases "tst (STATUS u) DEL_FLG \<or> c = 0x7F") (auto simp: lpt_char_def Let_def lpt_step_safe lpt_safe_refl)

lemma chars_safe: "lpt_ok u \<Longrightarrow> lpt_safe u (fold lpt_char cs u)"
proof (induction cs arbitrary: u)
  case (Cons c cs)
  have "lpt_safe u (lpt_char c u)" using Cons.prems by (rule char_safe)
  then show ?case
    using Cons.IH [of "lpt_char c u"] by (auto simp: lpt_safe_def)
qed (simp add: lpt_safe_refl)

lemma clear_safe: "lpt_ok u \<Longrightarrow> lpt_safe u (lpt_clear u)"
proof -
  assume u: "lpt_ok u"
  define v where "v = u\<lparr>lpt_buffer := (\<lambda>i. if 0 \<le> i \<and> i < COL u then 0x20 else lpt_buffer u i), POS := COL u\<rparr>"
  have v: "lpt_ok v" using u by (simp add: v_def lpt_ok_def)
  have "lpt_safe u v" using u v by (simp add: lpt_safe_def) (simp add: v_def lpt_ok_def)
  then have "lpt_safe u (lpt_printline 0 v)"
    using lpt_step_safe [OF printline_step(1) [OF v, of 0]] by (rule lpt_safe_trans)
  then show ?thesis unfolding lpt_clear_def Let_def v_def [symmetric] by simp
qed

lemma lpt_io_safe: "lpt_ok u \<Longrightarrow> lpt_safe u (fst (snd (lpt_devio f v (u, s))))"
  by (simp add: lpt_devio_def lpt_cono_def lpt_datao_def lpt_safe_refl Let_def)

lemma lpt_svc_safe: "lpt_ok u \<Longrightarrow> lpt_safe u (fst (snd (lpt_svc (u, s))))"
  by (simp add: lpt_svc_def lpt_safe_refl clear_safe chars_safe Let_def)

interpretation lpt_io: timed_device LP_DEVNUM "\<lambda>u. wait_ok u \<and> lpt_ok u" lpt_devio
    "\<lambda>_::unit. lpt_svc" "{LPT_UNIT}"
proof unfold_locales
  fix u :: lpt_unit and f v and s :: "'a pi_state_scheme"
  assume u: "wait_ok u \<and> lpt_ok u" and f: "addresses LP_DEVNUM f"
  show "wait_ok (fst (snd (lpt_devio f v (u, s)))) \<and> lpt_ok (fst (snd (lpt_devio f v (u, s))))"
    using u lpt_io_safe [of u f v s] by (simp add: lpt_safe_def wait_ok_def)
  show "bus_step LP_DEVNUM s (snd (snd (lpt_devio f v (u, s))))"
    "queue_step {LPT_UNIT} s (snd (snd (lpt_devio f v (u, s))))"
    using u f by (simp_all add: lpt_devio_def lpt_cono_def lpt_datao_def addresses_def wait_ok_def Let_def)
next
  fix u :: lpt_unit and s :: "'a pi_state_scheme"
  assume u: "wait_ok u \<and> lpt_ok u"
  show "wait_ok (fst (snd (lpt_svc (u, s)))) \<and> lpt_ok (fst (snd (lpt_svc (u, s))))"
    using u lpt_svc_safe [of u s] by (simp add: lpt_safe_def wait_ok_def)
  show "bus_step LP_DEVNUM s (snd (snd (lpt_svc (u, s))))"
    "queue_step {LPT_UNIT} s (snd (snd (lpt_svc (u, s))))"
    by (simp_all add: lpt_svc_def Let_def)
next
  fix u :: lpt_unit and f v and s :: "'a pi_state_scheme"
  assume "wf36 v"
  then show "wf36 (fst (lpt_devio f v (u, s)))"
    by (auto simp: lpt_devio_def lpt_coni_def wf36_const Let_def wf36_flags(3) intro!: word_intros)
qed

lemma lpt_run_safe:
  "lpt_ok u \<Longrightarrow> lpt_safe u (fst (dev_run lpt_devio (\<lambda>_::unit. lpt_svc) ops (u, s)))"
proof (induction ops arbitrary: u s)
  case (Cons a ops)
  have n: "lpt_safe u (fst (snd (lpt_devio f v (u, s))))" "lpt_safe u (fst (snd (lpt_svc (u, s))))" for f v
    using Cons.prems by (rule lpt_io_safe lpt_svc_safe)+
  show ?case
  proof (cases a)
    case (Io f v)
    obtain u' s' where r: "snd (lpt_devio f v (u, s)) = (u', s')" by fastforce
    then have "lpt_safe u u'" using n(1) [of f v] by simp
    then show ?thesis
      using Cons.IH [of u' s'] r Io by (auto simp: lpt_safe_def)
  next
    case (Event e)
    obtain u' s' where r: "snd (lpt_svc (u, s)) = (u', s')" by fastforce
    then have "lpt_safe u u'" using n(2) by simp
    then show ?thesis
      using Cons.IH [of u' s'] r Event by (auto simp: lpt_safe_def)
  qed
qed (simp add: lpt_safe_refl)

section \<open>Printing a line\<close>

definition plain_mode :: "lpt_unit \<Rightarrow> bool" where
  \<comment> \<open>lower case, and the last character was not a delete\<close>
  "plain_mode u \<longleftrightarrow> \<not> UNIT_UC u \<and> \<not> UNIT_UTF8 u \<and> \<not> tst (STATUS u) DEL_FLG"

definition graphic :: "u8 \<Rightarrow> bool" where
  "graphic c \<longleftrightarrow> 0x20 \<le> c \<and> c < 0x7F"

lemma plain_char:
  assumes "plain_mode u" and "graphic c" and "COL u < 132"
  shows "lpt_char c u = next_col (buffer_put c u)"
proof -
  have "c \<noteq> 0" "c \<noteq> 0x7F" "\<not> c < 0x20"
    using assms(2) by (auto simp: graphic_def)
  then show ?thesis
    using assms by (simp add: lpt_char_def lpt_output_def plain_mode_def graphic_def Let_def)
qed

lemma plain_text:
  "plain_mode u \<Longrightarrow> list_all graphic cs \<Longrightarrow> COL u + int (length cs) \<le> 132 \<Longrightarrow>
     fold lpt_char cs u = u\<lparr>COL := COL u + int (length cs), POS := POS u + int (length cs),
       lpt_buffer := (\<lambda>i. if POS u \<le> i \<and> i < POS u + int (length cs) then cs ! nat (i - POS u)
                          else lpt_buffer u i)\<rparr>"
proof (induction cs arbitrary: u)
  case (Cons c cs)
  define v where "v = next_col (buffer_put c u)"
  have v: "COL v = COL u + 1" "POS v = POS u + 1" "lpt_buffer v = (lpt_buffer u)(POS u := c)"
    "v\<lparr>COL := x, POS := y, lpt_buffer := z\<rparr> = u\<lparr>COL := x, POS := y, lpt_buffer := z\<rparr>" for x y z
    by (simp_all add: v_def next_col_def buffer_put_def)
  have c: "lpt_char c u = v"
    unfolding v_def using Cons.prems by (intro plain_char) simp_all
  have p: "plain_mode v"
    using Cons.prems(1) by (simp add: v_def plain_mode_def next_col_def buffer_put_def)
  have "nat (i - POS u) = Suc (nat (i - (POS u + 1)))" if "POS u + 1 \<le> i" for i using that by linarith
  then have b: "(\<lambda>i. if POS u + 1 \<le> i \<and> i < POS u + 1 + int (length cs) then cs ! nat (i - (POS u + 1))
        else ((lpt_buffer u)(POS u := c)) i)
      = (\<lambda>i. if POS u \<le> i \<and> i < POS u + int (length (c # cs)) then (c # cs) ! nat (i - POS u)
        else lpt_buffer u i)"
    by (auto simp: fun_eq_iff)
  have "COL v + int (length cs) \<le> 132" "list_all graphic cs" using Cons.prems by (simp_all add: v)
  from Cons.IH [OF p this(2,1), unfolded v b] show ?case by (simp add: c algebra_simps)
next
  case Nil
  have "(\<lambda>i. if POS u \<le> i \<and> i < POS u + int (length []) then [] ! nat (i - POS u) else lpt_buffer u i)
    = lpt_buffer u" by (rule ext) auto
  then show ?case by simp
qed

lemma trim_blanks:
  "int k \<le> COL u \<Longrightarrow> (\<And>i. POS u - int k \<le> i \<Longrightarrow> i < POS u \<Longrightarrow> lpt_buffer u i = 0x20) \<Longrightarrow>
   lpt_buffer u (POS u - int k - 1) \<noteq> 0x20 \<Longrightarrow>
     lpt_trim b u = (b \<or> 0 < k, u\<lparr>COL := COL u - int k, POS := POS u - int k\<rparr>)"
proof (induction k arbitrary: b u)
  case 0
  then show ?case by (subst lpt_trim.simps) simp
next
  case (Suc k)
  have "lpt_trim b u = lpt_trim True (u\<lparr>COL := COL u - 1, POS := POS u - 1\<rparr>)"
    using Suc.prems(1) Suc.prems(2) [of "POS u - 1"] by (subst lpt_trim.simps) simp
  also have "\<dots> = (True, u\<lparr>COL := COL u - int (Suc k), POS := POS u - int (Suc k)\<rparr>)"
    using Suc.prems by (subst Suc.IH) (auto simp: algebra_simps)
  finally show ?case by simp
qed

lemma text_printed:
  assumes "plain_mode u" and "COL u = 0" and "POS u = 0" and "lpt_buffer u (- 1) \<noteq> 0x20"
    and "list_all graphic cs" and "cs \<noteq> []" and "last cs \<noteq> 0x20" and "length cs + k \<le> 132"
  shows "\<exists>b. fold lpt_char (cs @ replicate k 0x20 @ [0x0D]) u
    = u\<lparr>lpt_buffer := b, printed := printed u @ cs @ [0x0D]\<rparr> \<and> b (- 1) = lpt_buffer u (- 1)"
proof -
  let ?n = "int (length cs)" and ?t = "cs @ replicate k 0x20"
  let ?b = "\<lambda>i. if 0 \<le> i \<and> i < ?n + int k then ?t ! nat i else lpt_buffer u i"
  have g: "list_all graphic ?t" using assms(5) by (auto simp: list_all_iff graphic_def)
  have f: "fold lpt_char ?t u = u\<lparr>COL := ?n + int k, POS := ?n + int k, lpt_buffer := ?b\<rparr>"
    using plain_text [OF assms(1) g, unfolded assms(2,3) diff_zero add_0] assms(8) by simp
  let ?u = "u\<lparr>COL := ?n + int k, POS := ?n + int k, lpt_buffer := ?b\<rparr>"
  have tr: "lpt_trim False ?u = (0 < k, u\<lparr>COL := ?n, POS := ?n, lpt_buffer := ?b\<rparr>)"
  proof (subst trim_blanks [of k])
    fix i assume "POS ?u - int k \<le> i" "i < POS ?u"
    then have "?n \<le> i" "i < ?n + int k" by simp_all
    then have "\<not> nat i < length cs" "nat i - length cs < k" by linarith+
    then show "lpt_buffer ?u i = 0x20" using \<open>?n \<le> i\<close> \<open>i < ?n + int k\<close> by (simp add: nth_append)
  next
    have "nat (?n - 1) < length cs" "nat (?n - 1) = length cs - 1" using assms(6) by (cases cs; simp)+
    then show "lpt_buffer ?u (POS ?u - int k - 1) \<noteq> 0x20"
      using assms(6,7) by (simp add: nth_append last_conv_nth)
  qed simp_all
  have m: "map (\<lambda>i. (?b(?n := 0, ?n := 0x0D)) (int i)) [0..<Suc (length cs)] = cs @ [0x0D]"
    by (rule nth_equalityI) (auto simp: nth_append less_Suc_eq)
  have n: "?n \<noteq> 0" "nat (?n + 1) = Suc (length cs)" using assms(6) by (auto simp: nat_add_distrib)
  have cr: "lpt_char 0x0D v = lpt_printline 0 v" if "plain_mode v" for v
    using that by (simp add: lpt_char_def lpt_control_def plain_mode_def)
  have pl: "plain_mode ?u" using assms(1) by (simp add: plain_mode_def)
  have "fold lpt_char (cs @ replicate k 0x20 @ [0x0D]) u = lpt_char 0x0D (fold lpt_char ?t u)" by simp
  also have "\<dots> = lpt_printline 0 ?u" unfolding f by (rule cr [OF pl])
  also have "\<dots> = u\<lparr>lpt_buffer := ?b(?n := 0, ?n := 0x0D), printed := printed u @ cs @ [0x0D]\<rparr>"
    unfolding lpt_printline_def tr Let_def prod.case
    using n assms(2,3) m by (simp add: buffer_put_def lpt_write_def del: upt_Suc)
  finally show ?thesis by (intro exI [of _ "?b(?n := 0, ?n := 0x0D)"]) simp
qed

lemma feed_printed:
  assumes "plain_mode u" and "COL u = 0" and "POS u = 0" and "lpt_buffer u (- 1) \<noteq> 0x20"
  shows "printed (lpt_char 0x0A u) = printed u @ 0x0A # (if capac u - 6 \<le> LINE u + 1 then [0x0C] else [])"
    and "LINE (lpt_char 0x0A u) = (if capac u - 6 \<le> LINE u + 1 then 0 else LINE u + 1)"
proof -
  have tr: "lpt_trim False u = (False, u)" using assms by (subst lpt_trim.simps) simp
  define w where "w = (buffer_put 0x0A (u\<lparr>lpt_buffer := (lpt_buffer u)(0 := 0)\<rparr>))\<lparr>LINE := LINE u + 1\<rparr>"
  define v where "v = (if capac w - 6 \<le> LINE w then (buffer_put 0x0C w)\<lparr>LINE := 0\<rparr> else w)"
  have w: "LINE w = LINE u + 1" "capac w = capac u" "printed w = printed u" "POS w = 1" "lpt_buffer w 0 = 0x0A"
    using assms(3) by (simp_all add: w_def buffer_put_def)
  have m: "map (\<lambda>i. lpt_buffer v (int i)) [0..<nat (POS v)]
      = 0x0A # (if capac u - 6 \<le> LINE u + 1 then [0x0C] else [])"
    using w by (simp add: v_def buffer_put_def numeral_2_eq_2)
  have "lpt_char 0x0A u = lpt_printline 1 u"
    using assms(1) by (simp add: lpt_char_def lpt_control_def plain_mode_def)
  also have "\<dots> = (lpt_write (map (\<lambda>i. lpt_buffer v (int i)) [0..<nat (POS v)]) v)\<lparr>COL := 0, POS := 0\<rparr>"
    unfolding lpt_printline_def tr Let_def prod.case v_def w_def using assms(2,3) by simp
  finally have e: "lpt_char 0x0A u
    = (lpt_write (0x0A # (if capac u - 6 \<le> LINE u + 1 then [0x0C] else [])) v)\<lparr>COL := 0, POS := 0\<rparr>"
    unfolding m .
  have "printed v = printed u" "LINE v = (if capac u - 6 \<le> LINE u + 1 then 0 else LINE u + 1)"
    using w by (simp_all add: v_def buffer_put_def)
  then show "printed (lpt_char 0x0A u) = printed u @ 0x0A # (if capac u - 6 \<le> LINE u + 1 then [0x0C] else [])"
    "LINE (lpt_char 0x0A u) = (if capac u - 6 \<le> LINE u + 1 then 0 else LINE u + 1)"
    unfolding e by (simp_all add: lpt_write_def)
qed

end
