(* ===== verification/Cards.thy ===== *)
theory Cards
  imports Io_Device
begin

text \<open>
  The card reader (\<open>PDP10/kx10_cr.c\<close>) and the card punch (\<open>PDP10/kx10_cp.c\<close>), with the
  hopper functions of \<open>sim_card.c\<close> they call: \<open>sim_card_input_hopper_count\<close>,
  \<open>sim_card_eof\<close>, \<open>sim_read_card\<close> and what \<open>sim_punch_card\<close> does to the image.

  A card is the list of its 80 columns, twelve rows each, with the two flags above them that
  \<open>sim_card.c\<close> keeps in the first. The encodings of card files are left out: a deck is the list
  of its cards. The punch's image is a function of the column, so that a column outside the card
  can be seen.
\<close>

unbundle bit_operations_syntax

section \<open>The hopper\<close>

datatype card_result = CDSE_OK | CDSE_EOF | CDSE_EMPTY | CDSE_ERROR

abbreviation (input) CARD_EOF :: u16 where "CARD_EOF \<equiv> 0x1000"
abbreviation (input) CARD_ERR :: u16 where "CARD_ERR \<equiv> 0x2000"

record cr_unit = unit_state +
  card_col :: nat
  card_data :: u32
  cr_buffer :: "u16 list"
  images :: "u16 list list"
  card_pos :: nat

definition sim_card_input_hopper_count :: "cr_unit \<Rightarrow> nat" where
  "sim_card_input_hopper_count u =
     (if length (images u) \<le> card_pos u then 0
      else length (images u) - card_pos u - (if tst (hd (last (images u))) CARD_EOF then 1 else 0))"

definition sim_card_eof :: "cr_unit \<Rightarrow> bool" where
  \<comment> \<open>the result is 1\<close>
  "sim_card_eof u \<longleftrightarrow> card_pos u < length (images u) \<and> tst (hd (images u ! card_pos u)) CARD_EOF"

definition CARD_RDY :: "cr_unit \<Rightarrow> bool" where
  "CARD_RDY u \<longleftrightarrow> 0 < sim_card_input_hopper_count u \<or> sim_card_eof u"

definition sim_read_card :: "cr_unit \<Rightarrow> card_result \<times> cr_unit" where
  "sim_read_card u =
     (if \<not> attached u \<or> length (images u) \<le> card_pos u then (CDSE_EMPTY, u)
      else
        (let img = images u ! card_pos u
         in (if tst (hd img) CARD_EOF then CDSE_EOF else if tst (hd img) CARD_ERR then CDSE_ERROR
             else CDSE_OK,
             u\<lparr>card_pos := card_pos u + 1, cr_buffer := img[0 := hd img AND 0xFFF]\<rparr>)))"

section \<open>Card reader\<close>

abbreviation (input) CR_DEVNUM :: nat where "CR_DEVNUM \<equiv> 0x68"
abbreviation (input) DATA_RDY :: "'a::len word" where "DATA_RDY \<equiv> 0x8"
abbreviation (input) CR_END_CARD :: "'a::len word" where "CR_END_CARD \<equiv> 0x10"
abbreviation (input) END_FILE :: "'a::len word" where "END_FILE \<equiv> 0x20"
abbreviation (input) RDY_READ :: "'a::len word" where "RDY_READ \<equiv> 0x40"
abbreviation (input) DATA_MISS :: "'a::len word" where "DATA_MISS \<equiv> 0x80"
abbreviation (input) CR_TROUBLE :: "'a::len word" where "CR_TROUBLE \<equiv> 0x100"
abbreviation (input) READING :: "'a::len word" where "READING \<equiv> 0x200"
abbreviation (input) HOPPER_EMPTY :: "'a::len word" where "HOPPER_EMPTY \<equiv> 0x400"
abbreviation (input) CARD_IN_READ :: "'a::len word" where "CARD_IN_READ \<equiv> 0x800"
abbreviation (input) CR_STOP :: "'a::len word" where "CR_STOP \<equiv> 0x1000"
abbreviation (input) CELL_ERROR :: "'a::len word" where "CELL_ERROR \<equiv> 0x4000"
abbreviation (input) PICK_ERROR :: "'a::len word" where "PICK_ERROR \<equiv> 0x8000"
abbreviation (input) RDY_READ_EN :: "'a::len word" where "RDY_READ_EN \<equiv> 0x10000"
abbreviation (input) CR_TROUBLE_EN :: "'a::len word" where "CR_TROUBLE_EN \<equiv> 0x20000"
abbreviation (input) RSIGN :: "'a::len word" where "RSIGN \<equiv> 0x20000"

definition cr_coni :: "cr_unit \<Rightarrow> u64 \<times> cr_unit" where
  "cr_coni u =
     (let u = (if attached u \<and> STATUS u AND (CR_TROUBLE OR READING OR CARD_IN_READ OR CR_END_CARD) = 0
                  \<and> CARD_RDY u
               then u\<lparr>STATUS := STATUS u OR RDY_READ\<rparr> else u)
      in (ucast (STATUS u), u))"

definition cr_cono :: "nat \<Rightarrow> u64 \<Rightarrow> cr_unit \<times> 'a pi_state_scheme \<Rightarrow> cr_unit \<times> 'a pi_state_scheme" where
  "cr_cono dev v = (\<lambda>(u, s).
     let s = clr_interrupt dev s
     in if tst v 0x1000 then
          (u\<lparr>STATUS := (if CARD_RDY u then 0 else END_FILE)\<rparr>, sim_cancel CR_UNIT s)
        else
          (let u = u\<lparr>STATUS := clr_bits (STATUS u) 7 OR ucast (v AND 7)\<rparr>;
               u = u\<lparr>STATUS := clr_bits (STATUS u) (ucast (v AND (0x8 OR 0x10 OR 0x20 OR 0x80)))\<rparr>;
               u = (if tst v 0x100 then u\<lparr>STATUS := STATUS u OR CR_TROUBLE_EN\<rparr> else u);
               u = (if tst v 0x40 then u\<lparr>STATUS := STATUS u OR RDY_READ_EN\<rparr> else u)
           in if attached u \<and> tst v 0x200 then
                (u\<lparr>STATUS := clr_bits (STATUS u OR READING) (CARD_IN_READ OR RDY_READ OR DATA_RDY),
                   card_col := 0\<rparr>,
                 sim_activate CR_UNIT (wait u) s)
              else
                (let u = u\<lparr>STATUS := STATUS u OR (if CARD_RDY u then RDY_READ else CR_STOP)\<rparr>;
                     s = (if tst (STATUS u) RDY_READ_EN \<and> tst (STATUS u) RDY_READ
                          then set_interrupt dev (unat (STATUS u)) s else s);
                     s = (if tst (STATUS u) CR_TROUBLE_EN \<and> tst (STATUS u) CR_TROUBLE
                          then set_interrupt dev (unat (STATUS u)) s else s)
                 in (u, s))))"

definition cr_datai :: "nat \<Rightarrow> cr_unit \<times> 'a pi_state_scheme \<Rightarrow> u64 \<times> cr_unit \<times> 'a pi_state_scheme" where
  "cr_datai dev = (\<lambda>(u, s).
     let s = clr_interrupt dev s
     in if tst (STATUS u) DATA_RDY then
          (set_if (tst (card_data u) RSIGN) SMASK (clr_bits (ucast (card_data u)) RSIGN),
           u\<lparr>STATUS := clr_bits (STATUS u) DATA_RDY\<rparr>, s)
        else (0, u, s))"

definition cr_devio :: "(cr_unit, 'a) dev_routine" where
  "cr_devio dev v x =
     (let fn = dev AND 3
      in if fn = CONI then (let (d, u) = cr_coni (fst x) in (d, u, snd x))
         else if fn = CONO then (v, cr_cono (unat dev) v x)
         else if fn = DATAI then cr_datai (unat dev) x
         else (v, x))"

fun punch_digits :: "nat \<Rightarrow> u32 \<Rightarrow> u32 \<Rightarrow> u32" where
  \<comment> \<open>the loop over the rows one to seven: \<open>n\<close> rows are left, \<open>w\<close> is \<open>DATA\<close>\<close>
  "punch_digits 0 data w = w"
| "punch_digits (Suc n) data w =
     (if tst data 0x100 then
        (if tst w 0x1C0000 then w OR RSIGN
         else punch_digits n (push_bit 1 data) (w OR push_bit 18 (of_nat (7 - n))))
      else punch_digits n (push_bit 1 data) w)"

definition column_word :: "u16 \<Rightarrow> u32" where
  "column_word c =
     (let data = ucast c
      in punch_digits 7 data
           (data OR (push_bit 25 (data AND 1) OR push_bit 13 (data AND 0xE00) OR push_bit 20 (data AND 2))))"

definition cr_pick :: "cr_unit \<times> 'a pi_state_scheme \<Rightarrow> cr_unit \<times> 'a pi_state_scheme" where
  \<comment> \<open>a new card\<close>
  "cr_pick = (\<lambda>(u, s).
     let u = u\<lparr>STATUS := clr_bits (STATUS u) (CR_END_CARD OR RDY_READ)\<rparr>;
         (r, u) = sim_read_card u
     in case r of
          CDSE_EOF \<Rightarrow>
            (let u = u\<lparr>STATUS := clr_bits (STATUS u) (CARD_IN_READ OR READING) OR END_FILE\<rparr>;
                 s = (if sim_card_input_hopper_count u \<noteq> 0 then sim_activate CR_UNIT (wait u) s else s)
             in (u, set_interrupt CR_DEVNUM (unat (STATUS u)) s))
        | CDSE_EMPTY \<Rightarrow>
            (let u = u\<lparr>STATUS := clr_bits (STATUS u) (CARD_IN_READ OR READING) OR (HOPPER_EMPTY OR CR_TROUBLE)\<rparr>
             in (u, if tst (STATUS u) CR_TROUBLE_EN then set_interrupt CR_DEVNUM (unat (STATUS u)) s else s))
        | CDSE_ERROR \<Rightarrow>
            (let u = u\<lparr>STATUS := clr_bits (STATUS u) (CARD_IN_READ OR READING)
                         OR (CR_TROUBLE OR PICK_ERROR OR CR_STOP)\<rparr>
             in (u, if tst (STATUS u) CR_TROUBLE_EN then set_interrupt CR_DEVNUM (unat (STATUS u)) s else s))
        | CDSE_OK \<Rightarrow>
            (u\<lparr>STATUS := STATUS u OR CARD_IN_READ, card_col := 0\<rparr>, sim_activate CR_UNIT (wait u) s))"

definition cr_column :: "cr_unit \<times> 'a pi_state_scheme \<Rightarrow> cr_unit \<times> 'a pi_state_scheme" where
  \<comment> \<open>\<open>Copy next column over\<close>\<close>
  "cr_column = (\<lambda>(u, s).
     if 80 \<le> card_col u then
       (let u = u\<lparr>STATUS := clr_bits (STATUS u) (CARD_IN_READ OR READING)\<rparr>;
            u = (if sim_card_input_hopper_count u = 0
                 then u\<lparr>STATUS := STATUS u OR HOPPER_EMPTY\<rparr> else u);
            u = u\<lparr>STATUS := STATUS u OR CR_END_CARD\<rparr>
        in (u, sim_activate CR_UNIT (wait u) (set_interrupt CR_DEVNUM (unat (STATUS u)) s)))
     else
       (let u = u\<lparr>card_data := column_word (cr_buffer u ! card_col u), card_col := card_col u + 1\<rparr>;
            u = (if tst (STATUS u) DATA_RDY then u\<lparr>STATUS := STATUS u OR DATA_MISS\<rparr> else u);
            u = u\<lparr>STATUS := STATUS u OR DATA_RDY\<rparr>
        in (u, sim_activate CR_UNIT (wait u) (set_interrupt CR_DEVNUM (unat (STATUS u)) s))))"

definition cr_srv :: "(cr_unit, 'a) dev_service" where
  "cr_srv = (\<lambda>(u, s).
     (0, if attached u \<and> STATUS u AND (READING OR CARD_IN_READ OR RDY_READ) = 0 \<and> CARD_RDY u then
           (let u = u\<lparr>STATUS := STATUS u OR RDY_READ\<rparr>
            in (u, if tst (STATUS u) RDY_READ_EN then set_interrupt CR_DEVNUM (unat (STATUS u)) s else s))
         else if STATUS u AND (READING OR CARD_IN_READ) = READING then cr_pick (u, s)
         else if tst (STATUS u) CARD_IN_READ then cr_column (u, s)
         else (u, s)))"

definition cr_attach :: "u16 list list \<Rightarrow> cr_unit \<times> 'a pi_state_scheme \<Rightarrow> cr_unit \<times> 'a pi_state_scheme" where
  \<comment> \<open>a new deck in an empty hopper, as \<open>sim_card_attach\<close> reads it\<close>
  "cr_attach deck = (\<lambda>(u, s).
     let u = u\<lparr>attached := True, images := deck, card_pos := 0\<rparr>
     in if STATUS u AND (READING OR CARD_IN_READ) = 0 then
          (let u = u\<lparr>STATUS := clr_bits (STATUS u OR RDY_READ)
                       (HOPPER_EMPTY OR CR_STOP OR CR_TROUBLE OR CELL_ERROR OR PICK_ERROR)\<rparr>
           in (u, if tst (STATUS u) RDY_READ_EN then set_interrupt CR_DEVNUM (unat (STATUS u)) s else s))
        else (u, s))"

definition cr_detach :: "cr_unit \<times> 'a pi_state_scheme \<Rightarrow> cr_unit \<times> 'a pi_state_scheme" where
  "cr_detach = (\<lambda>(u, s).
     let (u, s) = (if attached u then
                     (let u = u\<lparr>STATUS := STATUS u OR (CR_TROUBLE OR HOPPER_EMPTY)\<rparr>
                      in (u, if tst (STATUS u) CR_TROUBLE_EN
                             then set_interrupt CR_DEVNUM (unat (STATUS u)) s else s))
                   else (u, s))
     in (u\<lparr>STATUS := clr_bits (STATUS u) RDY_READ, attached := False, images := [], card_pos := 0\<rparr>, s))"

section \<open>Card punch\<close>

record cp_unit = unit_state +
  punch_col :: nat
  cp_buffer :: "nat \<Rightarrow> u16"
  punched :: "u16 list list"

abbreviation (input) CP_DEVNUM :: nat where "CP_DEVNUM \<equiv> 0x48"
abbreviation (input) DATA_REQ :: "'a::len word" where "DATA_REQ \<equiv> 0x8"
abbreviation (input) PUNCH_ON :: "'a::len word" where "PUNCH_ON \<equiv> 0x20"
abbreviation (input) CP_END_CARD :: "'a::len word" where "CP_END_CARD \<equiv> 0x40"
abbreviation (input) END_CARD_EN :: "'a::len word" where "END_CARD_EN \<equiv> 0x80"
abbreviation (input) CARD_IN_PUNCH :: "'a::len word" where "CARD_IN_PUNCH \<equiv> 0x100"
abbreviation (input) CP_ERROR :: "'a::len word" where "CP_ERROR \<equiv> 0x200"
abbreviation (input) CP_TROUBLE_EN :: "'a::len word" where "CP_TROUBLE_EN \<equiv> 0x400"
abbreviation (input) CP_TROUBLE :: "'a::len word" where "CP_TROUBLE \<equiv> 0x800"
abbreviation (input) PICK_FAIL :: "'a::len word" where "PICK_FAIL \<equiv> 0x2000"

definition sim_punch_card :: "cp_unit \<Rightarrow> card_result \<times> cp_unit" where
  "sim_punch_card u =
     (if \<not> attached u then (CDSE_EMPTY, u)
      else (CDSE_OK, u\<lparr>punched := punched u @ [map (cp_buffer u) [0..<80]],
                       cp_buffer := (\<lambda>i. if i < 80 then 0 else cp_buffer u i)\<rparr>))"

definition both :: "u32 \<Rightarrow> u32 \<Rightarrow> bool" where
  "both m x \<longleftrightarrow> x AND m = m"

definition cp_flags :: "u64 \<Rightarrow> cp_unit \<Rightarrow> cp_unit" where
  \<comment> \<open>the flag changes of CONO behind \<open>SET_DATA_REQ\<close>, in the order of the code\<close>
  "cp_flags v u =
     (let u = (if tst v 0x10 then u\<lparr>STATUS := clr_bits (STATUS u) DATA_REQ\<rparr> else u);
          u = (if tst v 0x40 then u\<lparr>STATUS := clr_bits (STATUS u) CP_END_CARD\<rparr> else u);
          u = (if tst v 0x80 then u\<lparr>STATUS := STATUS u OR END_CARD_EN\<rparr> else u);
          u = (if tst v 0x100 then u\<lparr>STATUS := clr_bits (STATUS u) END_CARD_EN\<rparr> else u);
          u = (if tst v 0x400 then u\<lparr>STATUS := STATUS u OR CP_TROUBLE_EN\<rparr> else u)
      in if tst v 0x800 then u\<lparr>STATUS := clr_bits (STATUS u) CP_TROUBLE_EN\<rparr> else u)"

definition cp_cono :: "nat \<Rightarrow> u64 \<Rightarrow> cp_unit \<times> 'a pi_state_scheme \<Rightarrow> cp_unit \<times> 'a pi_state_scheme" where
  "cp_cono dev v = (\<lambda>(u, s).
     let s = clr_interrupt dev s;
         u = u\<lparr>STATUS := clr_bits (STATUS u) 7 OR ucast (v AND 7)\<rparr>
     in if tst v 0x8000 then
          (u\<lparr>STATUS := clr_bits (STATUS u)
               (CP_TROUBLE OR CP_ERROR OR CP_END_CARD OR END_CARD_EN OR CP_TROUBLE_EN)\<rparr>, s)
        else
          (let (u, s) = (if tst v 0x8 then
                           (let u = u\<lparr>STATUS := STATUS u OR DATA_REQ\<rparr>
                            in (u, set_interrupt dev (unat (STATUS u)) s))
                         else (u, s));
               u = cp_flags v u;
               (u, s) = (if tst v 0x1000 \<and> tst (STATUS u) CARD_IN_PUNCH
                         then (u\<lparr>punch_col := 80, STATUS := clr_bits (STATUS u) DATA_REQ\<rparr>,
                               sim_activate CP_UNIT (wait u) s)
                         else (u, s));
               s = (if both (CP_TROUBLE OR CP_TROUBLE_EN) (STATUS u)
                    then set_interrupt CP_DEVNUM (unat (STATUS u)) s else s);
               s = (if both (CP_END_CARD OR END_CARD_EN) (STATUS u)
                    then set_interrupt CP_DEVNUM (unat (STATUS u)) s else s)
           in if tst v PUNCH_ON
              then (u\<lparr>STATUS := STATUS u OR PUNCH_ON\<rparr>, sim_activate CP_UNIT (wait u) s)
              else (u, s)))"

definition cp_datao :: "nat \<Rightarrow> u64 \<Rightarrow> cp_unit \<times> 'a pi_state_scheme \<Rightarrow> cp_unit \<times> 'a pi_state_scheme" where
  "cp_datao dev v = (\<lambda>(u, s).
     (u\<lparr>cp_buffer := (cp_buffer u)(punch_col u := ucast (v AND 0xFFF)), punch_col := punch_col u + 1,
        STATUS := clr_bits (STATUS u) DATA_REQ\<rparr>,
      sim_activate CP_UNIT (wait u) (clr_interrupt dev s)))"

definition cp_devio :: "(cp_unit, 'a) dev_routine" where
  "cp_devio dev v x =
     (let fn = dev AND 3
      in if fn = CONI then (ucast (STATUS (fst x)), x)
         else if fn = CONO then (v, cp_cono (unat dev) v x)
         else if fn = DATAI then (0, x)
         else (v, cp_datao (unat dev) v x))"

definition cp_eject :: "cp_unit \<times> 'a pi_state_scheme \<Rightarrow> cp_unit \<times> 'a pi_state_scheme" where
  \<comment> \<open>the end of \<open>cp_srv\<close>: column 80 is reached\<close>
  "cp_eject = (\<lambda>(u, s).
     let u = u\<lparr>punch_col := 0,
               STATUS := clr_bits (STATUS u) (PUNCH_ON OR CARD_IN_PUNCH) OR CP_END_CARD\<rparr>;
         (r, u) = sim_punch_card u;
         u = (case r of
                CDSE_OK \<Rightarrow> u
              | CDSE_ERROR \<Rightarrow> u\<lparr>STATUS := STATUS u OR (0x1000 OR CP_TROUBLE)\<rparr>
              | _ \<Rightarrow> u\<lparr>STATUS := STATUS u OR (PICK_FAIL OR CP_TROUBLE)\<rparr>);
         s = (if both (CP_TROUBLE OR CP_TROUBLE_EN) (STATUS u)
              then set_interrupt CP_DEVNUM (unat (STATUS u)) s else s);
         s = (if tst (STATUS u) END_CARD_EN then set_interrupt CP_DEVNUM (unat (STATUS u)) s else s)
     in (u, s))"

definition cp_srv :: "(cp_unit, 'a) dev_service" where
  "cp_srv = (\<lambda>(u, s).
     (0, if \<not> tst (STATUS u) PUNCH_ON then (u, s)
         else
           (let u = u\<lparr>STATUS := STATUS u OR CARD_IN_PUNCH\<rparr>
            in if tst (STATUS u) DATA_REQ then (u, sim_activate CP_UNIT (wait u) s)
               else if punch_col u < 80 then
                 (let u = u\<lparr>STATUS := STATUS u OR DATA_REQ\<rparr>
                  in (u, sim_activate CP_UNIT (wait u) (set_interrupt CP_DEVNUM (unat (STATUS u)) s)))
               else cp_eject (u, s))))"

definition cp_attach :: "cp_unit \<Rightarrow> cp_unit" where
  "cp_attach u = u\<lparr>attached := True\<rparr>"

definition cp_detach :: "cp_unit \<Rightarrow> cp_unit" where
  "cp_detach u =
     (let u = (if tst (STATUS u) CARD_IN_PUNCH then snd (sim_punch_card u) else u)
      in u\<lparr>attached := False\<rparr>)"

section \<open>The contract with the processor\<close>

lemma read_card_wait [simp]: "wait (snd (sim_read_card u)) = wait u"
  by (simp add: sim_read_card_def Let_def)

interpretation cr_io: timed_device CR_DEVNUM wait_ok cr_devio "\<lambda>_::unit. cr_srv" "{CR_UNIT}"
proof unfold_locales
  fix u :: cr_unit and f v and s :: "'a pi_state_scheme"
  assume u: "wait_ok u" and f: "addresses CR_DEVNUM f"
  have c: "bus_step CR_DEVNUM s (snd (cr_cono (unat f) v (u, s)))"
    "wait (fst (cr_cono (unat f) v (u, s))) = wait u"
    "queue_step {CR_UNIT} s (snd (cr_cono (unat f) v (u, s)))"
    using u f by (simp_all add: cr_cono_def addresses_def wait_ok_def Let_def)
  show "bus_step CR_DEVNUM s (snd (snd (cr_devio f v (u, s))))"
    "wait_ok (fst (snd (cr_devio f v (u, s))))"
    "queue_step {CR_UNIT} s (snd (snd (cr_devio f v (u, s))))"
    using u f c by (simp_all add: cr_devio_def cr_coni_def cr_datai_def wait_ok_def addresses_def Let_def)
next
  fix u :: cr_unit and s :: "'a pi_state_scheme"
  assume u: "wait_ok u"
  obtain r u' where r: "sim_read_card (u\<lparr>STATUS := clr_bits (STATUS u) (CR_END_CARD OR RDY_READ)\<rparr>) = (r, u')"
    by fastforce
  then have "wait u' = wait u"
    using read_card_wait [of "u\<lparr>STATUS := clr_bits (STATUS u) (CR_END_CARD OR RDY_READ)\<rparr>"] by simp
  with u r have p: "bus_step CR_DEVNUM s (snd (cr_pick (u, s)))" "wait_ok (fst (cr_pick (u, s)))"
    "queue_step {CR_UNIT} s (snd (cr_pick (u, s)))"
    by (cases r; simp add: cr_pick_def wait_ok_def Let_def)+
  show "bus_step CR_DEVNUM s (snd (snd (cr_srv (u, s))))" "wait_ok (fst (snd (cr_srv (u, s))))"
    "queue_step {CR_UNIT} s (snd (snd (cr_srv (u, s))))"
    using u p by (auto simp: cr_srv_def cr_column_def wait_ok_def Let_def)
next
  fix u :: cr_unit and f v and s :: "'a pi_state_scheme"
  assume "wf36 v"
  then show "wf36 (fst (cr_devio f v (u, s)))"
    by (auto simp: cr_devio_def cr_coni_def cr_datai_def wf36_const Let_def case_prod_unfold intro!: word_intros)
qed

lemma cp_flags_wait [simp]: "wait (cp_flags v u) = wait u"
  by (simp add: cp_flags_def Let_def)

interpretation cp_io: timed_device CP_DEVNUM wait_ok cp_devio "\<lambda>_::unit. cp_srv" "{CP_UNIT}"
proof unfold_locales
  fix u :: cp_unit and f v and s :: "'a pi_state_scheme"
  assume u: "wait_ok u" and f: "addresses CP_DEVNUM f"
  have c: "bus_step CP_DEVNUM s (snd (cp_cono (unat f) v (u, s)))"
    "wait (fst (cp_cono (unat f) v (u, s))) = wait u"
    "queue_step {CP_UNIT} s (snd (cp_cono (unat f) v (u, s)))"
    using u f by (simp_all add: cp_cono_def addresses_def wait_ok_def Let_def)
  show "bus_step CP_DEVNUM s (snd (snd (cp_devio f v (u, s))))"
    "wait_ok (fst (snd (cp_devio f v (u, s))))"
    "queue_step {CP_UNIT} s (snd (snd (cp_devio f v (u, s))))"
    using u f c by (simp_all add: cp_devio_def cp_datao_def wait_ok_def addresses_def Let_def)
next
  fix u :: cp_unit and s :: "'a pi_state_scheme"
  assume u: "wait_ok u"
  have "bus_step CP_DEVNUM s (snd (cp_eject (v, s)))" "wait (fst (cp_eject (v, s))) = wait v"
    "queue_step {CP_UNIT} s (snd (cp_eject (v, s)))" for v
    by (simp_all add: cp_eject_def sim_punch_card_def Let_def)
  then show "bus_step CP_DEVNUM s (snd (snd (cp_srv (u, s))))" "wait_ok (fst (snd (cp_srv (u, s))))"
    "queue_step {CP_UNIT} s (snd (snd (cp_srv (u, s))))"
    using u by (auto simp: cp_srv_def wait_ok_def Let_def)
next
  fix u :: cp_unit and f v and s :: "'a pi_state_scheme"
  assume "wf36 v"
  then show "wf36 (fst (cp_devio f v (u, s)))"
    by (auto simp: cp_devio_def  wf36_const Let_def case_prod_unfold intro!: word_intros)
qed

section \<open>Reading a card\<close>

text \<open>
  A program reads a card with a CONO that starts it and, for each column, the event that brings it
  and a DATAI. The twelve low bits of the word are the rows of the column.
\<close>

fun read_columns :: "nat \<Rightarrow> cr_unit \<times> 'a pi_state_scheme \<Rightarrow> u64 list \<times> cr_unit \<times> 'a pi_state_scheme" where
  "read_columns 0 x = ([], x)"
| "read_columns (Suc n) x =
     (let (v, x) = cr_devio (0x68 OR DATAI) 0 (snd (cr_srv x)); (vs, x) = read_columns n x
      in (v # vs, x))"

definition rows :: "u64 \<Rightarrow> u16" where
  "rows v = ucast (v AND 0xFFF)"

lemma bit_one_place: "m = 2 ^ k \<Longrightarrow> k < LENGTH('a) \<Longrightarrow> bit (m :: 'a::len word) n \<longleftrightarrow> n = k"
  by (auto simp: bit_exp_iff)

lemma bit_card:
  "bit (0x8 :: u32) n \<longleftrightarrow> n = 3" "bit (0x10 :: u32) n \<longleftrightarrow> n = 4" "bit (0x20 :: u32) n \<longleftrightarrow> n = 5"
  "bit (0x40 :: u32) n \<longleftrightarrow> n = 6" "bit (0x80 :: u32) n \<longleftrightarrow> n = 7" "bit (0x100 :: u32) n \<longleftrightarrow> n = 8"
  "bit (0x200 :: u32) n \<longleftrightarrow> n = 9" "bit (0x800 :: u32) n \<longleftrightarrow> n = 11"
  "bit (0x20000 :: u32) n \<longleftrightarrow> n = 17" "bit (0x20000 :: u64) n \<longleftrightarrow> n = 17"
  "bit (0x800000000 :: u64) n \<longleftrightarrow> n = 35"
  by (rule bit_one_place; simp)+

lemma tst_card [tst_simps]:
  "tst (x :: u32) 0x8 = bit x 3" "tst (x :: u32) 0x20 = bit x 5" "tst (x :: u32) 0x40 = bit x 6"
  "tst (x :: u32) 0x100 = bit x 8" "tst (x :: u32) 0x800 = bit x 11"
  using tst_exp [of x 3] tst_exp [of x 5] tst_exp [of x 6] tst_exp [of x 8] tst_exp [of x 11] by simp_all

lemma low_rows: "bit (0xFFF :: u64) n \<longleftrightarrow> n < 12" "bit (0xFFF :: u16) n \<longleftrightarrow> n < 12"
proof -
  have m: "(0xFFF :: u64) = mask 12" "(0xFFF :: u16) = mask 12" by (simp_all add: mask_eq_exp_minus_1)
  show "bit (0xFFF :: u64) n \<longleftrightarrow> n < 12" "bit (0xFFF :: u16) n \<longleftrightarrow> n < 12"
    unfolding m by (auto simp: bit_mask_iff)
qed

lemma digits_low: "m < 17 \<Longrightarrow> bit (punch_digits n d w) m = bit w m"
  by (induction n d w rule: punch_digits.induct)
    (simp_all add: bit_or_iff bit_card bit_push_bit_iff del: bit_numeral_word_iff)

lemma column_low: "m < 12 \<Longrightarrow> bit (column_word c) m = bit c m"
  by (simp add: column_word_def Let_def digits_low bit_or_iff bit_and_iff bit_push_bit_iff bit_ucast_iff
      del: bit_numeral_word_iff)

lemma column_datai:
  assumes "c < 0x1000" and "bit (STATUS u) 3" and "card_data u = column_word c"
  shows "rows (fst (cr_datai d (u, s))) = c"
proof (rule bit_word_eqI)
  have "uint c < 2 ^ 12" using assms(1) by (simp add: word_less_def)
  then have "take_bit 12 (uint c) = uint c" by (simp add: take_bit_int_eq_self)
  then have c: "\<not> bit c n" if "12 \<le> n" for n
    using that by (metis bit_take_bit_iff bit_uint_iff bit_imp_le_length not_le)
  fix n
  show "bit (rows (fst (cr_datai d (u, s)))) n = bit c n"
    using assms(2,3) c [of n] column_low [of n c]
    by (cases "n < 12") (auto simp: rows_def cr_datai_def Let_def tst_simps set_if_def bit_ucast_iff
        bit_and_iff bit_or_iff bit_clr_bits low_rows bit_card simp del: bit_numeral_word_iff)
qed

lemma in_card:
  assumes "bit (x :: u32) 11"
  shows "x AND 0xA40 \<noteq> 0" and "x AND 0xA00 \<noteq> 0x200"
proof -
  have b: "bit (x AND 0xA40) 11" "bit (x AND 0xA00) 11" "\<not> bit (0x200 :: u32) 11"
    using assms by (simp_all add: bit_and_iff)
  show "x AND 0xA40 \<noteq> 0" using b(1) by (metis bit_0_eq bot_apply bot_bool_def)
  show "x AND 0xA00 \<noteq> 0x200" using b(2,3) by metis
qed

definition same_deck :: "cr_unit \<Rightarrow> cr_unit \<Rightarrow> bool" where
  "same_deck v u \<longleftrightarrow> attached v = attached u \<and> images v = images u \<and> card_pos v = card_pos u"

lemma column_event:
  assumes "bit (STATUS u) 11" and "card_col u < 80"
  shows "\<exists>u' s'. snd (cr_srv (u, s)) = (u', s') \<and> bit (STATUS u') 11 \<and> bit (STATUS u') 3
    \<and> card_col u' = card_col u + 1 \<and> cr_buffer u' = cr_buffer u
    \<and> card_data u' = column_word (cr_buffer u ! card_col u) \<and> same_deck u' u"
  using assms in_card [OF assms(1)]
  by (auto simp: cr_srv_def cr_column_def Let_def tst_simps bit_or_iff bit_card same_deck_def
      simp del: bit_numeral_word_iff)

lemma read_columns_rows:
  "bit (STATUS u) 11 \<Longrightarrow> card_col u + n \<le> 80 \<Longrightarrow> length (cr_buffer u) = 80 \<Longrightarrow>
   \<forall>c \<in> set (cr_buffer u). c < 0x1000 \<Longrightarrow>
     map rows (fst (read_columns n (u, s))) = take n (drop (card_col u) (cr_buffer u))
   \<and> same_deck (fst (snd (read_columns n (u, s)))) u"
proof (induction n arbitrary: u s)
  case (Suc n)
  let ?i = "card_col u"
  have i: "?i < 80" using Suc.prems(2) by simp
  obtain u' s' where e: "snd (cr_srv (u, s)) = (u', s')" and u': "bit (STATUS u') 11" "bit (STATUS u') 3"
    "card_col u' = ?i + 1" "cr_buffer u' = cr_buffer u" "card_data u' = column_word (cr_buffer u ! ?i)"
    "same_deck u' u"
    using column_event [OF Suc.prems(1) i, of s] by blast
  have "cr_buffer u ! ?i < 0x1000" using Suc.prems(3,4) i by simp
  then have r: "rows (fst (cr_datai 0x68 (u', s'))) = cr_buffer u ! ?i"
    using column_datai u'(2,5) by blast
  let ?u = "u'\<lparr>STATUS := clr_bits (STATUS u') DATA_RDY\<rparr>"
  have d: "cr_devio (0x68 OR DATAI) 0 (u', s') = (fst (cr_datai 0x68 (u', s')), ?u, clr_interrupt 0x68 s')"
    using u'(2) by (simp add: cr_devio_def io_functions cr_datai_def Let_def tst_simps)
  have "bit (STATUS ?u) 11" using u'(1) by (simp add: bit_clr_bits bit_card del: bit_numeral_word_iff)
  then have "map rows (fst (read_columns n (?u, clr_interrupt 0x68 s'))) = take n (drop (?i + 1) (cr_buffer u))
      \<and> same_deck (fst (snd (read_columns n (?u, clr_interrupt 0x68 s')))) u"
    using Suc.IH [of ?u "clr_interrupt 0x68 s'"] Suc.prems u'(3,4,6) by (simp add: same_deck_def)
  moreover have "take (Suc n) (drop ?i (cr_buffer u)) = cr_buffer u ! ?i # take n (drop (?i + 1) (cr_buffer u))"
    using Suc.prems(3) i by (simp flip: Cons_nth_drop_Suc)
  ultimately show ?case by (simp add: e d r case_prod_unfold Let_def)
qed (simp add: same_deck_def)

lemma pick_card:
  assumes "attached u" and "card_pos u < length (images u)" and "images u ! card_pos u = img"
    and "length img = 80" and "\<forall>c \<in> set img. c < 0x1000"
    and "tst v 0x200" and "\<not> tst v 0x1000"
  shows "\<exists>u' s'. snd (cr_srv (snd (cr_devio (0x68 OR CONO) v (u, s)))) = (u', s')
    \<and> bit (STATUS u') 11 \<and> card_col u' = 0 \<and> cr_buffer u' = img
    \<and> attached u' \<and> images u' = images u \<and> card_pos u' = card_pos u + 1"
proof -
  define u1 where "u1 = fst (cr_cono 0x6B v (u, s))"
  obtain s1 where c: "cr_devio (0x68 OR CONO) v (u, s) = (v, u1, s1)"
    by (cases "cr_cono 0x6B v (u, s)") (simp add: cr_devio_def io_functions u1_def)
  have k: "\<not> bit (0x848 :: u32) 9" "bit (0x848 :: u32) 11" by simp_all
  have u1: "bit (STATUS u1) 9" "\<not> bit (STATUS u1) 11" "attached u1" "card_pos u1 = card_pos u" "images u1 = images u"
    using assms(1,6,7) by (simp_all add: u1_def cr_cono_def Let_def bit_clr_bits bit_or_iff bit_card k
        del: bit_numeral_word_iff)
  have m: "STATUS u1 AND 0xA00 = 0x200"
  proof (rule bit_word_eqI)
    have b: "bit (0xA00 :: u32) n \<longleftrightarrow> n = 9 \<or> n = 11" for n
      using bit_or_iff [of "0x200 :: u32" "0x800" n] by (simp add: bit_card del: bit_numeral_word_iff)
    fix n show "bit (STATUS u1 AND 0xA00) n = bit (0x200 :: u32) n"
      using u1(1,2) by (auto simp: bit_and_iff b bit_card simp del: bit_numeral_word_iff)
  qed
  have z: "STATUS u1 AND 0xA40 \<noteq> 0"
  proof
    have "bit (STATUS u1 AND 0xA40) 9" using u1(1) by (simp add: bit_and_iff)
    moreover assume "STATUS u1 AND 0xA40 = 0"
    ultimately show False by simp
  qed
  have h: "hd img < 0x1000" "hd img \<in> set img" using assms(4,5) by (cases img; simp)+
  have f: "\<not> tst (hd img) 0x1000" "\<not> tst (hd img) 0x2000" "img[0 := hd img AND 0xFFF] = img"
  proof -
    have "uint (hd img) < 2 ^ 12" using h(1) by (simp add: word_less_def)
    then have t: "take_bit 12 (hd img) = hd img"
      by (metis take_bit_int_eq_self_iff unsigned_take_bit_eq uint_ge_0 word_uint_eq_iff
          take_bit_int_eq_self)
    have n: "\<not> bit (hd img) 12" "\<not> bit (hd img) 13" by (subst t [symmetric], simp add: bit_take_bit_iff)+
    show "\<not> tst (hd img) 0x1000" "\<not> tst (hd img) 0x2000"
      using n tst_exp [of "hd img" 12] tst_exp [of "hd img" 13] by simp_all
    have "hd img AND 0xFFF = take_bit 12 (hd img)" by (simp add: take_bit_eq_mask mask_eq_exp_minus_1)
    then show "img[0 := hd img AND 0xFFF] = img" using t assms(4) by (cases img) simp_all
  qed
  show ?thesis
    using u1 m z f assms(2,3)
    by (auto simp: c cr_srv_def cr_pick_def sim_read_card_def Let_def bit_or_iff bit_card
        simp del: bit_numeral_word_iff)
qed

fun read_deck :: "nat \<Rightarrow> cr_unit \<times> 'a pi_state_scheme \<Rightarrow> u16 list list" where
  \<comment> \<open>start a card, wait for it, take its 80 columns, \<open>n\<close> times\<close>
  "read_deck 0 x = []"
| "read_deck (Suc n) x =
     (let (vs, x) = read_columns 80 (snd (cr_srv (snd (cr_devio (0x68 OR CONO) 0x200 x))))
      in map rows vs # read_deck n x)"

definition card_ok :: "u16 list \<Rightarrow> bool" where
  "card_ok cs \<longleftrightarrow> length cs = 80 \<and> (\<forall>c \<in> set cs. c < 0x1000)"

lemma card_read:
  assumes "attached u" and "card_pos u < length (images u)" and "card_ok (images u ! card_pos u)"
  shows "\<exists>vs u' s'. read_columns 80 (snd (cr_srv (snd (cr_devio (0x68 OR CONO) 0x200 (u, s))))) = (vs, u', s')
    \<and> map rows vs = images u ! card_pos u
    \<and> attached u' \<and> images u' = images u \<and> card_pos u' = card_pos u + 1"
proof -
  have c: "tst (0x200 :: u64) 0x200" "\<not> tst (0x200 :: u64) 0x1000" by (simp_all add: tst_def)
  obtain u' s' where u': "snd (cr_srv (snd (cr_devio (0x68 OR CONO) 0x200 (u, s)))) = (u', s')"
    "bit (STATUS u') 11" "card_col u' = 0" "cr_buffer u' = images u ! card_pos u"
    "attached u'" "images u' = images u" "card_pos u' = card_pos u + 1"
    using pick_card [OF assms(1,2) refl _ _ c, of s] assms(3) unfolding card_ok_def by blast
  then show ?thesis
    using read_columns_rows [of u' 80 s'] assms(3)
    by (cases "read_columns 80 (u', s')") (auto simp: card_ok_def same_deck_def)
qed

lemma deck_read:
  "attached u \<Longrightarrow> card_pos u + n \<le> length (images u) \<Longrightarrow> \<forall>cs \<in> set (images u). card_ok cs \<Longrightarrow>
     read_deck n (u, s) = take n (drop (card_pos u) (images u))"
proof (induction n arbitrary: u s)
  case (Suc n)
  let ?i = "card_pos u"
  have i: "?i < length (images u)" using Suc.prems(2) by simp
  then have "card_ok (images u ! ?i)" using Suc.prems(3) by simp
  then obtain vs u' s' where
    e: "read_columns 80 (snd (cr_srv (snd (cr_devio (0x68 OR CONO) 0x200 (u, s))))) = (vs, u', s')"
    and u': "map rows vs = images u ! ?i" "attached u'" "images u' = images u" "card_pos u' = ?i + 1"
    using card_read [OF Suc.prems(1) i, of s] by blast
  have "read_deck n (u', s') = take n (drop (?i + 1) (images u))"
    using Suc.IH [of u' s'] Suc.prems u'(2-4) by simp
  moreover have "take (Suc n) (drop ?i (images u)) = images u ! ?i # take n (drop (?i + 1) (images u))"
    using i by (simp flip: Cons_nth_drop_Suc)
  ultimately show ?case by (simp add: e u'(1))
qed simp

section \<open>Punching a card\<close>

definition punch_card :: "u16 list \<Rightarrow> unit dev_op list" where
  \<comment> \<open>the program: start the punch, then for each column wait for the request and send it\<close>
  "punch_card cs = Io (0x48 OR CONO) 0x20 # Event ()
     # concat (map (\<lambda>c. [Io (0x48 OR DATAO) (ucast c), Event ()]) cs)"

lemma punch_column:
  assumes "bit (STATUS u) 5" and "attached u" and "c < 0x1000" and "punch_col u < 80"
  shows "\<exists>u' s'. dev_run cp_devio (\<lambda>_. cp_srv) [Io (0x48 OR DATAO) (ucast c), Event ()] (u, s) = (u', s')
    \<and> attached u' \<and>
    (if punch_col u < 79 then bit (STATUS u') 5 \<and> punch_col u' = punch_col u + 1
        \<and> cp_buffer u' = (cp_buffer u)(punch_col u := c) \<and> punched u' = punched u
     else punch_col u' = 0 \<and> punched u' = punched u @ [map ((cp_buffer u)(79 := c)) [0..<80]]
        \<and> \<not> bit (STATUS u') 3)"
proof -
  have "uint c < 2 ^ 12" using assms(3) by (simp add: word_less_def)
  then have t: "take_bit 12 c = c"
    by (metis take_bit_int_eq_self_iff unsigned_take_bit_eq uint_ge_0 word_uint_eq_iff
        take_bit_int_eq_self)
  have "(ucast (ucast c AND 0xFFF :: u64) :: u16) = take_bit 12 c"
    by (rule bit_word_eqI) (auto simp: bit_ucast_iff bit_and_iff low_rows bit_take_bit_iff
        simp del: bit_numeral_word_iff)
  then have c: "(ucast (ucast c AND 0xFFF :: u64) :: u16) = c" using t by simp
  have "punch_col u < 79 \<or> punch_col u = 79" using assms(4) by linarith
  then show ?thesis
    using assms(1,2)
    by (auto simp: cp_devio_def io_functions cp_datao_def cp_srv_def cp_eject_def sim_punch_card_def
        Let_def tst_simps bit_or_iff bit_clr_bits bit_card c simp del: bit_numeral_word_iff upt_Suc)
qed

lemma punch_columns:
  "bit (STATUS u) 5 \<Longrightarrow> attached u \<Longrightarrow> \<forall>c \<in> set cs. c < 0x1000 \<Longrightarrow> punch_col u + length cs \<le> 79 \<Longrightarrow>
   \<exists>u' s'. dev_run cp_devio (\<lambda>_. cp_srv) (concat (map (\<lambda>c. [Io (0x48 OR DATAO) (ucast c), Event ()]) cs)) (u, s)
       = (u', s') \<and> bit (STATUS u') 5 \<and> attached u' \<and> punch_col u' = punch_col u + length cs
     \<and> punched u' = punched u \<and> (\<forall>i < length cs. cp_buffer u' (punch_col u + i) = cs ! i)
     \<and> (\<forall>i < punch_col u. cp_buffer u' i = cp_buffer u i)"
proof (induction cs arbitrary: u s)
  case (Cons c cs)
  obtain u1 s1 where e: "dev_run cp_devio (\<lambda>_. cp_srv) [Io (0x48 OR DATAO) (ucast c), Event ()] (u, s) = (u1, s1)"
    and u1: "bit (STATUS u1) 5" "attached u1" "punch_col u1 = punch_col u + 1"
      "cp_buffer u1 = (cp_buffer u)(punch_col u := c)" "punched u1 = punched u"
    using punch_column [OF Cons.prems(1,2), of c s] Cons.prems(3,4) by auto
  obtain u' s' where r: "dev_run cp_devio (\<lambda>_. cp_srv)
      (concat (map (\<lambda>c. [Io (0x48 OR DATAO) (ucast c), Event ()]) cs)) (u1, s1) = (u', s')"
    and u': "bit (STATUS u') 5" "attached u'" "punch_col u' = punch_col u1 + length cs" "punched u' = punched u1"
      "\<forall>i < length cs. cp_buffer u' (punch_col u1 + i) = cs ! i" "\<forall>i < punch_col u1. cp_buffer u' i = cp_buffer u1 i"
    using Cons.IH [OF u1(1,2), of s1] Cons.prems(3,4) u1(3) by auto
  have "cp_buffer u' (punch_col u + i) = (c # cs) ! i" if "i < length (c # cs)" for i
    using that u'(5,6) u1(3,4) by (cases i) auto
  moreover have "\<forall>i < punch_col u. cp_buffer u' i = cp_buffer u i" using u'(6) u1(3,4) by auto
  moreover have "dev_run cp_devio (\<lambda>_. cp_srv)
      (concat (map (\<lambda>c. [Io (0x48 OR DATAO) (ucast c), Event ()]) (c # cs))) (u, s) = (u', s')"
    unfolding list.map concat.simps dev_run_append e r ..
  ultimately show ?case using u' u1 by (intro exI [of _ u'] exI [of _ s']) simp
qed simp

lemma card_punched:
  assumes "attached u" and "\<not> bit (STATUS u) 3" and "punch_col u = 0"
    and "length cs = 80" and "\<forall>c \<in> set cs. c < 0x1000"
  shows "\<exists>u' s'. dev_run cp_devio (\<lambda>_. cp_srv) (punch_card cs) (u, s) = (u', s')
    \<and> punched u' = punched u @ [cs] \<and> attached u' \<and> \<not> bit (STATUS u') 3 \<and> punch_col u' = 0"
proof -
  let ?cols = "\<lambda>cs. concat (map (\<lambda>c. [Io (0x48 OR DATAO) (ucast (c :: u16)), Event ()]) cs)"
  obtain u1 s1 where e1: "dev_run cp_devio (\<lambda>_. cp_srv) [Io (0x48 OR CONO) 0x20, Event ()] (u, s) = (u1, s1)"
    and u1: "bit (STATUS u1) 5" "attached u1" "punch_col u1 = 0" "punched u1 = punched u"
  proof -
    define u0 where "u0 = fst (cp_cono 0x4B 0x20 (u, s))"
    obtain s0 where c: "cp_devio (0x48 OR CONO) 0x20 (u, s) = (0x20, u0, s0)"
      by (cases "cp_cono 0x4B 0x20 (u, s)") (simp add: cp_devio_def io_functions u0_def)
    have u0: "bit (STATUS u0) 5" "\<not> bit (STATUS u0) 3" "attached u0" "punch_col u0 = 0" "punched u0 = punched u"
      using assms(1-3) by (simp_all add: u0_def cp_cono_def cp_flags_def Let_def tst_def bit_clr_bits bit_or_iff
          bit_card del: bit_numeral_word_iff)
    then show thesis
      using that [of "fst (snd (cp_srv (u0, s0)))" "snd (snd (cp_srv (u0, s0)))"]
      by (simp add: c cp_srv_def Let_def tst_simps bit_or_iff bit_card del: bit_numeral_word_iff)
  qed
  obtain ds d where cs: "cs = ds @ [d]" "length ds = 79" using assms(4) by (cases cs rule: rev_cases) auto
  obtain u2 s2 where e2: "dev_run cp_devio (\<lambda>_. cp_srv) (?cols ds) (u1, s1) = (u2, s2)"
    and u2: "bit (STATUS u2) 5" "attached u2" "punch_col u2 = 79" "punched u2 = punched u"
      "\<forall>i < 79. cp_buffer u2 i = ds ! i"
    using punch_columns [OF u1(1,2), of ds s1] assms(5) cs u1(3,4) by auto
  obtain u3 s3 where e3: "dev_run cp_devio (\<lambda>_. cp_srv) [Io (0x48 OR DATAO) (ucast d), Event ()] (u2, s2) = (u3, s3)"
    and u3: "attached u3" "punch_col u3 = 0" "\<not> bit (STATUS u3) 3"
      "punched u3 = punched u @ [map ((cp_buffer u2)(79 := d)) [0..<80]]"
    using punch_column [OF u2(1,2), of d s2] assms(5) cs(1) u2(3,4) by auto
  have "map ((cp_buffer u2)(79 := d)) [0..<80] = cs"
    using u2(5) cs by (intro nth_equalityI) (auto simp: nth_append less_Suc_eq simp del: upt_Suc)
  moreover have "punch_card cs = [Io (0x48 OR CONO) 0x20, Event ()] @ ?cols ds
      @ [Io (0x48 OR DATAO) (ucast d), Event ()]"
    unfolding punch_card_def cs(1) by simp
  then have "dev_run cp_devio (\<lambda>_. cp_srv) (punch_card cs) (u, s) = (u3, s3)"
    by (simp only: dev_run_append e1 e2 e3)
  ultimately show ?thesis using u3 by auto
qed

lemma deck_punched:
  "attached u \<Longrightarrow> \<not> bit (STATUS u) 3 \<Longrightarrow> punch_col u = 0 \<Longrightarrow> \<forall>cs \<in> set deck. card_ok cs \<Longrightarrow>
     punched (fst (dev_run cp_devio (\<lambda>_. cp_srv) (concat (map punch_card deck)) (u, s))) = punched u @ deck"
proof (induction deck arbitrary: u s)
  case (Cons cs deck)
  obtain u' s' where e: "dev_run cp_devio (\<lambda>_. cp_srv) (punch_card cs) (u, s) = (u', s')"
    and u': "punched u' = punched u @ [cs]" "attached u'" "\<not> bit (STATUS u') 3" "punch_col u' = 0"
    using card_punched [OF Cons.prems(1-3), of cs s] Cons.prems(4) by (auto simp: card_ok_def)
  then show ?case using Cons.IH [OF u'(2-4), of s'] Cons.prems(4) by simp
qed simp

text \<open>
  Nothing stops a program that does not wait for the requests: each DATAO writes one column
  further, past the end of the image.
\<close>

lemma punch_overrun:
  "\<exists>u' s'. dev_run cp_devio (\<lambda>_::unit. cp_srv) (replicate n (Io (0x48 OR DATAO) v)) (u, s) = (u', s')
    \<and> punch_col u' = punch_col u + n
    \<and> (\<forall>i < n. cp_buffer u' (punch_col u + i) = ucast (v AND 0xFFF))
    \<and> (\<forall>i < punch_col u. cp_buffer u' i = cp_buffer u i)"
proof (induction n arbitrary: u s)
  case (Suc n)
  obtain u1 s1 where e: "snd (cp_devio (0x48 OR DATAO) v (u, s)) = (u1, s1)"
    and u1: "punch_col u1 = punch_col u + 1" "cp_buffer u1 = (cp_buffer u)(punch_col u := ucast (v AND 0xFFF))"
    by (simp add: cp_devio_def io_functions cp_datao_def)
  obtain u' s' where r: "dev_run cp_devio (\<lambda>_::unit. cp_srv) (replicate n (Io (0x48 OR DATAO) v)) (u1, s1) = (u', s')"
    and u': "punch_col u' = punch_col u1 + n" "\<forall>i < n. cp_buffer u' (punch_col u1 + i) = ucast (v AND 0xFFF)"
      "\<forall>i < punch_col u1. cp_buffer u' i = cp_buffer u1 i"
    using Suc.IH by blast
  have "cp_buffer u' (punch_col u + i) = ucast (v AND 0xFFF)" if "i < Suc n" for i
    using that u'(2,3) u1 by (cases i) auto
  then show ?case using e r u' u1 by simp
qed simp

end
