(* ===== verification/Peripherals.thy ===== *)
theory Peripherals
  imports Paper_Tape Clock_Dk10 Console_Tty Line_Printer Cards
begin

text \<open>
  The state of the peripherals of one machine, and its value before the program runs: the
  static initialisers of the \<open>UNIT\<close> tables.
\<close>

record io_units =
  ptp_state :: pt_unit
  ptr_state :: pt_unit
  lpt_state :: lpt_unit
  cty_state :: cty
  cr_state :: cr_unit
  cp_state :: cp_unit
  dk_state :: dk_unit
  tmxr_poll :: int

definition idle_tape :: pt_unit where
  "idle_tape = \<lparr>STATUS = 0, attached = False, wait = 10000, CHR_REG = 0, CHL_REG = 0, tape = []\<rparr>"

definition idle_printer :: lpt_unit where
  "idle_printer = \<lparr>STATUS = 0, attached = False, wait = 100, COL = 0, POS = 0, LINE = 0, capac = 66,
     UNIT_UC = False, UNIT_UTF8 = False, lpt_buffer = (\<lambda>_. 0), lpt_chbuf = [0, 0, 0, 0, 0], printed = []\<rparr>"

definition idle_terminal :: cty where
  "idle_terminal =
     \<lparr>cty_out = \<lparr>STATUS = 0, attached = False, wait = 10000, DATA = 0, PIA = 0, screen = []\<rparr>,
      cty_in = \<lparr>STATUS = 0, attached = False, wait = 0, DATA = 0, PIA = 0, screen = []\<rparr>\<rparr>"

definition idle_reader :: cr_unit where
  "idle_reader = \<lparr>STATUS = 0, attached = False, wait = 2000, card_col = 0, card_data = 0,
     cr_buffer = replicate 80 0, images = [], card_pos = 0\<rparr>"

definition idle_punch :: cp_unit where
  "idle_punch = \<lparr>STATUS = 0, attached = False, wait = 2000, punch_col = 0, cp_buffer = (\<lambda>_. 0), punched = []\<rparr>"

definition idle_clock :: dk_unit where
  "idle_clock = \<lparr>STATUS = 0, attached = False, wait = 0, CLK_REG = 0, INT_REG = 0, CLK_TIM = 0\<rparr>"

definition idle_units :: io_units where
  "idle_units = \<lparr>ptp_state = idle_tape, ptr_state = idle_tape, lpt_state = idle_printer,
     cty_state = idle_terminal, cr_state = idle_reader, cp_state = idle_punch, dk_state = idle_clock,
     tmxr_poll = 10000\<rparr>"

end
