(* ===== verification/Cpu_State.thy ===== *)
theory Cpu_State
  imports Pager_Device Arith36 Peripherals
begin

text \<open>
  The state of the processor of \<open>PDP10/kx10_cpu.c\<close> (KI10 build) and what every
  instruction shares: the word macros (\<open>CM\<close>, \<open>CCM\<close>, \<open>SWAP_AR\<close>,
  \<open>AOB\<close>, \<open>SOB\<close>, \<open>NEG\<close>), the setting of flags, and memory operands.

  An instruction is a function from \<open>cpu\<close> to \<open>cpu\<close>, from the switch on
  \<open>IR\<close> to the label \<open>last\<close>. An access that faults leaves for \<open>last\<close> at
  once: \<open>mem_rd\<close> and \<open>mem_wr\<close> take the rest of the instruction as their
  last argument and drop it on a fault. The registers \<open>AD\<close>, \<open>MQ\<close>,
  \<open>ARX\<close>, \<open>BRX\<close>, \<open>ADX\<close>, \<open>FE\<close> and the
  flags \<open>flag1\<close>, \<open>flag3\<close>, \<open>nrf\<close>, which every instruction writes before
  it reads them, are local to the definitions that use them. \<open>AR\<close> and \<open>BR\<close> are
  inputs of an instruction: the fetch cycle loads \<open>AR\<close> with the instruction word and
  \<open>BR\<close> with the accumulator before every instruction, so what an instruction leaves
  in them is not part of its result. \<open>SC\<close> and \<open>SCAD\<close> are local too, but for the
  byte instructions, whose second half uses what the first half left there.
\<close>

unbundle bit_operations_syntax

section \<open>State\<close>

record cpu = mem_state +
  AR :: u64
  BR :: u64
  PC :: u32
  IR :: u32
  AC :: u32
  BYF5 :: bool
  uuo_cycle :: bool
  pi_cycle :: bool
  pi_rq :: bool
  pi_ov :: bool
  pi_hold :: bool
  pi_vect :: u32
  pi_restore :: bool
  maoff :: u32
  trap_flag :: u32
  f_load_pc :: bool
  f_inst_fetch :: bool
  f_pc_inh :: bool
  prog_stop :: bool
  instr_count :: int
  reason :: nat
  SC :: nat
  SCAD :: nat
  devices :: io_units

section \<open>Flags and operands\<close>

definition or_flags :: "bool \<Rightarrow> u32 \<Rightarrow> cpu \<Rightarrow> cpu" where
  \<comment> \<open>\<open>if (c) FLAGS |= m\<close>\<close>
  "or_flags c m s = (if c then s\<lparr>FLAGS := FLAGS s OR m\<rparr> else s)"

definition mem_rd :: "bool \<Rightarrow> bool \<Rightarrow> bool \<Rightarrow> bool \<Rightarrow> cpu \<Rightarrow> (cpu \<Rightarrow> cpu) \<Rightarrow> cpu" where
  \<comment> \<open>\<open>if (Mem_read(flag, cur, fetch, mod)) goto last;\<close> and the rest\<close>
  "mem_rd flg cur fetch md s k =
     (let (fault, s) = Mem_read flg cur fetch md s in if fault then s else k s)"

definition mem_wr :: "bool \<Rightarrow> bool \<Rightarrow> cpu \<Rightarrow> (cpu \<Rightarrow> cpu) \<Rightarrow> cpu" where
  \<comment> \<open>\<open>if (Mem_write(flag, cur)) goto last;\<close> and the rest\<close>
  "mem_wr flg cur s k =
     (let (fault, s) = Mem_write flg cur s in if fault then s else k s)"

abbreviation (input) rd_ea :: "cpu \<Rightarrow> (cpu \<Rightarrow> cpu) \<Rightarrow> cpu" where
  "rd_ea \<equiv> mem_rd False False False False"

abbreviation (input) rd_mod_ea :: "cpu \<Rightarrow> (cpu \<Rightarrow> cpu) \<Rightarrow> cpu" where
  "rd_mod_ea \<equiv> mem_rd False False False True"

abbreviation (input) wr_ea :: "cpu \<Rightarrow> (cpu \<Rightarrow> cpu) \<Rightarrow> cpu" where
  "wr_ea \<equiv> mem_wr False False"

definition get_ac :: "cpu \<Rightarrow> u64" where
  "get_ac s = get_reg (AC s) s"

definition set_ac :: "u64 \<Rightarrow> cpu \<Rightarrow> cpu" where
  "set_ac v s = set_reg (AC s) v s"

definition get_ac1 :: "cpu \<Rightarrow> u64" where
  "get_ac1 s = get_reg (AC s + 1) s"

definition set_ac1 :: "u64 \<Rightarrow> cpu \<Rightarrow> cpu" where
  "set_ac1 v s = set_reg (AC s + 1) v s"

definition set_ac_nz :: "u64 \<Rightarrow> cpu \<Rightarrow> cpu" where
  \<comment> \<open>\<open>if (AC != 0) set_reg(AC, v)\<close>\<close>
  "set_ac_nz v s = (if AC s \<noteq> 0 then set_ac v s else s)"

definition jump :: "u32 \<Rightarrow> cpu \<Rightarrow> cpu" where
  \<comment> \<open>\<open>PC = a; f_pc_inh = 1\<close>\<close>
  "jump a s = s\<lparr>PC := a, f_pc_inh := True\<rparr>"

definition neg_of :: "u64 \<Rightarrow> cpu \<Rightarrow> u64 \<times> cpu" where
  \<comment> \<open>the macro \<open>NEG\<close> applied to the value \<open>v\<close> of \<open>AR\<close>, with the test for
      the most negative number that follows it at every use\<close>
  "neg_of v s =
     (let AD = CM v + 1;
          flag1 = tst (CCM v + 1) SMASK;
          flag3 = tst AD C1;
          s = or_flags flag1 CRY1 s;
          s = or_flags flag3 CRY0 s;
          s = or_flags (flag1 \<noteq> flag3 \<and> \<not> pi_cycle s) (OVR OR TRP1) s;
          AR = AD AND FMASK;
          s = or_flags (AR = SMASK \<and> \<not> pi_cycle s) TRP1 s
      in (AR, s))"

section \<open>Frames\<close>

lemma or_flags_sel [simp]:
  "M (or_flags c m s) = M s" "FM (or_flags c m s) = FM s" "AB (or_flags c m s) = AB s"
  "MB (or_flags c m s) = MB s" "AR (or_flags c m s) = AR s" "BR (or_flags c m s) = BR s"
  "PC (or_flags c m s) = PC s" "IR (or_flags c m s) = IR s" "AC (or_flags c m s) = AC s"
  "pi_cycle (or_flags c m s) = pi_cycle s" "fm_sel (or_flags c m s) = fm_sel s"
  "f_pc_inh (or_flags c m s) = f_pc_inh s" "MEMSIZE (or_flags c m s) = MEMSIZE s"
  "xct_flag (or_flags c m s) = xct_flag s" "modify (or_flags c m s) = modify s"
  "page_fault (or_flags c m s) = page_fault s" "last_addr (or_flags c m s) = last_addr s"
  by (simp_all add: or_flags_def)

lemma or_flags_FLAGS: "FLAGS (or_flags c m s) = set_if c m (FLAGS s)"
  by (simp add: or_flags_def)

lemma bit_or_flags: "bit (FLAGS (or_flags c m s)) n \<longleftrightarrow> bit (FLAGS s) n \<or> c \<and> bit m n"
  by (simp add: or_flags_FLAGS bit_set_if)

lemma set_reg_cpu [simp]:
  "AR (set_reg r v s) = AR s" "BR (set_reg r v s) = BR s" "PC (set_reg r v s) = PC s"
  "IR (set_reg r v s) = IR s" "AC (set_reg r v s) = AC s" "pi_cycle (set_reg r v s) = pi_cycle s"
  "f_pc_inh (set_reg r v s) = f_pc_inh s" "xct_flag (set_reg r v s) = xct_flag s"
  for s :: cpu
  by (simp_all add: set_reg_def)

lemma set_ac_cpu [simp]:
  "AR (set_ac v s) = AR s" "BR (set_ac v s) = BR s" "PC (set_ac v s) = PC s"
  "IR (set_ac v s) = IR s" "AC (set_ac v s) = AC s" "pi_cycle (set_ac v s) = pi_cycle s"
  "FLAGS (set_ac v s) = FLAGS s" "M (set_ac v s) = M s" "f_pc_inh (set_ac v s) = f_pc_inh s"
  "MB (set_ac v s) = MB s" "AB (set_ac v s) = AB s" "fm_sel (set_ac v s) = fm_sel s"
  by (simp_all add: set_ac_def)

lemma set_ac1_cpu [simp]:
  "AR (set_ac1 v s) = AR s" "BR (set_ac1 v s) = BR s" "PC (set_ac1 v s) = PC s"
  "IR (set_ac1 v s) = IR s" "AC (set_ac1 v s) = AC s" "pi_cycle (set_ac1 v s) = pi_cycle s"
  "FLAGS (set_ac1 v s) = FLAGS s" "M (set_ac1 v s) = M s" "f_pc_inh (set_ac1 v s) = f_pc_inh s"
  "MB (set_ac1 v s) = MB s" "AB (set_ac1 v s) = AB s" "fm_sel (set_ac1 v s) = fm_sel s"
  by (simp_all add: set_ac1_def)

lemma get_set_reg: "get_reg r (set_reg q v s) = (if r AND 0xF = q AND 0xF then v else get_reg r s)"
  if "fm_sel s AND 0xF = 0"
proof -
  have fm: "bit (fm_sel s) n \<Longrightarrow> 4 \<le> n" for n
  proof (rule ccontr)
    assume b: "bit (fm_sel s) n" and "\<not> 4 \<le> n"
    then have "bit (fm_sel s AND mask 4) n" by (simp add: bit_and_iff bit_mask_iff bit_imp_le_length)
    moreover have "(0xF :: u8) = mask 4" by (simp add: mask_eq_exp_minus_1)
    ultimately show False using that by simp
  qed
  have inj: "ucast (fm_sel s) OR (r AND 0xF) = ucast (fm_sel s) OR (q AND 0xF :: u32) \<longleftrightarrow>
      r AND 0xF = q AND 0xF"
  proof
    assume e: "ucast (fm_sel s) OR (r AND 0xF) = ucast (fm_sel s) OR (q AND 0xF :: u32)"
    show "r AND 0xF = q AND 0xF"
    proof (rule bit_word_eqI)
      fix n
      have "bit (ucast (fm_sel s) OR (r AND 0xF)) n = bit (ucast (fm_sel s) OR (q AND 0xF :: u32)) n"
        using e by simp
      then show "bit (r AND 0xF) n = bit (q AND 0xF) n"
        using fm [of n] by (auto simp: and_masks32 bit_simps)
    qed
  qed simp
  show ?thesis
    using inj by (auto simp: get_reg_def set_reg_def)
qed

section \<open>What a read leaves alone\<close>

definition wf_store :: "'a mem_state_scheme \<Rightarrow> bool" where
  \<comment> \<open>memory, accumulators and the memory buffer hold 36-bit words\<close>
  "wf_store s \<longleftrightarrow> (\<forall>a. wf36 (M s a)) \<and> (\<forall>r. wf36 (FM s r)) \<and> wf36 (MB s)"

lemma cpu_more_frame:
  fixes s t :: cpu
  assumes "mem_state.more s = mem_state.more t"
  shows "AR s = AR t" "BR s = BR t" "PC s = PC t" "IR s = IR t" "AC s = AC t"
    "pi_cycle s = pi_cycle t" "f_pc_inh s = f_pc_inh t" "f_load_pc s = f_load_pc t"
    "trap_flag s = trap_flag t" "BYF5 s = BYF5 t" "uuo_cycle s = uuo_cycle t"
    "maoff s = maoff t" "pi_restore s = pi_restore t" "f_inst_fetch s = f_inst_fetch t"
  using assms by (cases s; cases t; simp)+

definition read_only :: "cpu \<Rightarrow> cpu \<Rightarrow> bool" where
  \<comment> \<open>\<open>t\<close> follows from \<open>s\<close> by a read: the memory buffer, the pager and the
      interrupt lines may differ\<close>
  "read_only t s \<longleftrightarrow> M t = M s \<and> FM t = FM s \<and> MEMSIZE t = MEMSIZE s \<and> AB t = AB s
     \<and> fm_sel t = fm_sel s \<and> (\<forall>r. get_reg r t = get_reg r s)
     \<and> mem_state.more t = mem_state.more s \<and> (wf_store s \<longrightarrow> wf_store t)"

lemma bit_PUBLIC_USER: "tst (f OR PUBLIC) USER = tst f USER"
proof -
  have "tst (f OR 0x20) (2 ^ 7) = tst f (2 ^ 7)" by (simp only: tst_exp bit_or_iff) (simp add: bit_const32)
  then show ?thesis by simp
qed

lemma check_apr_irq_read_only: "read_only (check_apr_irq s) s"
  by (simp add: read_only_def get_reg_def wf_store_def)

lemma checked_USER:
  "tst (FLAGS (snd (lookup_checked a f w fe u p pg d s))) USER = tst (FLAGS s) USER"
  by (simp add: lookup_checked_def Let_def set_fault_def bit_PUBLIC_USER)

lemma direct_USER: "FLAGS (snd (lookup_direct a f w fe u p pg s)) = FLAGS s"
  by (simp add: lookup_direct_def set_fault_def)

lemma lookup_USER: "tst (FLAGS (snd (page_lookup a f w c fe md s))) USER = tst (FLAGS s) USER"
  by (simp add: page_lookup_def Let_def case_prod_unfold checked_USER direct_USER set_fault_def
      del: drop_bit_and)

lemma page_lookup_read_only:
  assumes "page_lookup a f w c fe md s = (r, t)"
  shows "read_only t s"
  using page_lookup_store [of a f w c fe md s] lookup_USER [of a f w c fe md s] assms
  by (simp add: read_only_def same_store_def get_reg_def wf_store_def)

lemma read_only_trans: "read_only t s \<Longrightarrow> read_only u t \<Longrightarrow> read_only u s"
  by (simp add: read_only_def)

lemma get_reg_wf: "wf_store s \<Longrightarrow> wf36 (get_reg r s)"
  by (simp add: wf_store_def get_reg_def)

lemma get_reg_upd [simp]:
  "get_reg r (s\<lparr>MB := v\<rparr>) = get_reg r s"
  "get_reg r (s\<lparr>sim_interval := i, MB := v\<rparr>) = get_reg r s"
  "get_reg r (s\<lparr>MB := v, sim_interval := i\<rparr>) = get_reg r s"
  by (simp_all add: get_reg_def)

lemma read_only_reg:
  "read_only (s\<lparr>MB := get_reg r s\<rparr>) s"
  "read_only (s\<lparr>sim_interval := i, MB := get_reg r s\<rparr>) s"
  by (simp_all add: read_only_def wf_store_def) (simp_all add: get_reg_def)

lemma read_only_nxm: "nxm s = (r, t) \<Longrightarrow> read_only t s"
  by (auto simp: nxm_def read_only_def get_reg_def wf_store_def)

lemma read_core_read_only:
  assumes "read_core f c fe md s = (r, t)"
  shows "read_only t s"
proof -
  obtain a u where p: "page_lookup (AB s) f False c fe md s = (a, u)" by fastforce
  note u = page_lookup_read_only [OF p]
  show ?thesis
  proof (cases a)
    case None
    then show ?thesis using assms u p by (simp add: read_core_def)
  next
    case (Some b)
    show ?thesis
    proof (cases "MEMSIZE u \<le> b")
      case True
      then have "nxm u = (r, t)" using assms p Some by (simp add: read_core_def)
      then show ?thesis using u by (blast intro: read_only_trans read_only_nxm)
    next
      case False
      then have "read_only t u"
        using assms p Some by (auto simp: read_core_def read_only_def get_reg_def wf_store_def)
      then show ?thesis using u by (rule read_only_trans [rotated])
    qed
  qed
qed

lemma Mem_read_read_only:
  assumes "Mem_read f c fe md s = (r, t)"
  shows "read_only t s"
  using assms read_core_read_only [of f c fe md s r t]
  by (auto simp: Mem_read_def Let_def read_only_reg split: if_splits)

lemma mem_rd_cong:
  assumes "\<And>t. read_only t s \<Longrightarrow> k t = k' t"
  shows "mem_rd f c fe md s k = mem_rd f c fe md s k'"
proof -
  obtain r t where "Mem_read f c fe md s = (r, t)" by fastforce
  then show ?thesis using assms [OF Mem_read_read_only] by (simp add: mem_rd_def)
qed

lemma read_onlyD:
  assumes "read_only t s"
  shows "BR t = BR s" "AR t = AR s" "AC t = AC s" "IR t = IR s" "PC t = PC s" "AB t = AB s"
    "pi_cycle t = pi_cycle s" "get_ac t = get_ac s" "get_ac1 t = get_ac1 s" "M t = M s"
    "FM t = FM s" "fm_sel t = fm_sel s" "MEMSIZE t = MEMSIZE s" "f_pc_inh t = f_pc_inh s"
    "trap_flag t = trap_flag s"
  using assms cpu_more_frame [of t s]
  by (simp_all add: read_only_def get_ac_def get_ac1_def)

end
