(* ===== verification/Power_On.thy ===== *)
theory Power_On
  imports Cpu_State
begin

text \<open>
  The state of the C program's zero-initialised globals (memory of 256K words, no breakpoints),
  the concrete state at which the properties are instantiated, and variants of it.
\<close>

unbundle bit_operations_syntax

definition zero_cpu :: cpu where
  "zero_cpu =
     \<lparr>clock_queue = [], sim_interval = 0, noqueue_time = 0, sim_time = 0, sim_rtime = 0,
      stop_cpu = False, dev_irq = (\<lambda>_. 0), IOB_PI = 0, PIR = 0, PIH = 0, PIE = 0, pi_enc = 0, pi_enable = False,
      pi_pending = False, parity_irq = False, xct_flag = 0,
      RUN = False, nxm_stop = False, nxm_flag = False, adr_flag = False, inout_fail = False,
      apr_irq = 0, clk_en = False, clk_flg = False, clk_irq = 0, timer_irq = False,
      timer_flg = False, SW = 0, MI = 0, MI_flag = False, MI_disable = False,
      M = (\<lambda>_. 0), FM = (\<lambda>_. 0), MEMSIZE = 0x40000, FLAGS = 0, AB = 0, MB = 0, ub_ptr = 0,
      eb_ptr = 0, e_tlb = (\<lambda>_. 0), u_tlb = (\<lambda>_. 0), ac_stack = 0, fm_sel = 0,
      small_user = False, user_addr_cmp = False, page_enable = False, page_fault = False,
      fault_data = 0, pag_reload = 0, last_page = 0, apr_serial = -1, adr_cond = 0, AS = 0,
      watch_stop = False, modify = False, last_addr = 0,
      brk_R = (\<lambda>_. False), brk_W = (\<lambda>_. False),
      AR = 0, BR = 0, PC = 0, IR = 0, AC = 0, BYF5 = False, uuo_cycle = False, pi_cycle = False,
      pi_rq = False, pi_ov = False, pi_hold = False, pi_vect = 0, pi_restore = False, maoff = 0,
      trap_flag = 0, f_load_pc = False, f_inst_fetch = False, f_pc_inh = False,
      prog_stop = False, instr_count = 0, reason = 0, SC = 0, SCAD = 0,
      devices = idle_units\<rparr>"

lemma zero_bus_inv: "bus_inv zero_cpu"
  by (simp add: bus_inv_def zero_cpu_def)

end
