(* ===== verification/Df10.thy ===== *)
theory Df10
  imports Pager_Device
begin

text \<open>
  The DF10 data channel of \<open>PDP10/kx10_df.c\<close>: the chain of control words, the word
  transfers and the completion of an operation. The channel reaches memory through
  \<open>Mem_read_word\<close> and \<open>Mem_write_word\<close> (the locale \<open>mem_port\<close>) and the
  processor through \<open>set_interrupt\<close> (the locale \<open>irq_lines\<close>).

  \<open>df10_fetch\<close> follows jump words in a loop that a cyclic chain of two or more jumps
  never leaves; it is a \<open>partial_function (option)\<close>, \<open>None\<close> when it does not
  return.
\<close>

unbundle bit_operations_syntax

section \<open>State and operations\<close>

record df10 =
  status :: u32
  cia :: u32
  ccw :: u32
  wcr :: u32
  cda :: u32
  devnum :: u32
  buf :: u64
  nxmerr :: u8
  amask :: u64
  wmask :: u64
  cshift :: nat

abbreviation (input) PI_ENABLE :: u32 where "PI_ENABLE \<equiv> 0x8"
abbreviation (input) BUSY :: u32 where "BUSY \<equiv> 0x10"
abbreviation (input) ICWA :: u32 where "ICWA \<equiv> 0x1FE"

type_synonym 'a chan = "df10 \<times> 'a mem_state_scheme"

definition df10_setirq :: "'a chan \<Rightarrow> 'a chan" where
  "df10_setirq = (\<lambda>(df, s).
     let df = df\<lparr>status := status df OR PI_ENABLE\<rparr>
     in (df, set_interrupt (unat (devnum df)) (unat (status df)) s))"

definition df10_cw :: "df10 \<Rightarrow> u64" where
  \<comment> \<open>the termination control word\<close>
  "df10_cw df =
     push_bit (cshift df) (ucast (ccw df) AND wmask df) OR (ucast (cda df) AND amask df)"

definition df10_writecw :: "'a chan \<Rightarrow> 'a chan" where
  "df10_writecw = (\<lambda>(df, s).
     let df = (if wcr df \<noteq> 0 then df\<lparr>cda := cda df + 1\<rparr> else df)
     in (df, case Mem_write_word (cia df OR 1) (df10_cw df) False s of
               None \<Rightarrow> s | Some s' \<Rightarrow> s'))"

definition df10_finish_op :: "u32 \<Rightarrow> 'a chan \<Rightarrow> 'a chan" where
  "df10_finish_op flags = (\<lambda>(df, s).
     df10_setirq (df10_writecw
       (df\<lparr>status := clr_bits (status df) BUSY OR flags\<rparr>, s)))"

definition df10_setup :: "u32 \<Rightarrow> df10 \<Rightarrow> df10" where
  "df10_setup addr df =
     df\<lparr>cia := addr AND ICWA, ccw := addr AND ICWA, wcr := 0, status := status df OR BUSY\<rparr>"

definition nxm_bit :: "df10 \<Rightarrow> u32" where
  "nxm_bit df = push_bit (unat (nxmerr df)) 1"

definition df10_load :: "u64 \<Rightarrow> df10 \<Rightarrow> df10" where
  \<comment> \<open>the tail of \<open>df10_fetch\<close>: a transfer word has been found\<close>
  "df10_load data df =
     df\<lparr>wcr := ucast (drop_bit (cshift df) data AND wmask df),
        cda := ucast (data AND amask df),
        ccw := ucast (ucast (ccw df + 1) AND amask df)\<rparr>"

partial_function (option) df10_chain ::
    "u64 \<Rightarrow> 'a chan \<Rightarrow> (bool \<times> 'a chan) option" where
  \<comment> \<open>the \<open>while\<close> loop of \<open>df10_fetch\<close> and what follows it\<close>
  "df10_chain data c =
     (let (df, s) = c in
      if data AND push_bit (cshift df) (wmask df) \<noteq> 0 then Some (True, df10_load data df, s)
      else if data AND amask df = 0 \<or> ucast (data AND amask df) = ccw df
      then Some (False, df10_finish_op 0 (df, s))
      else (let df = df\<lparr>ccw := ucast (data AND amask df)\<rparr>
            in case Mem_read_word (ccw df) False s of
                 None \<Rightarrow> Some (False, df10_finish_op (nxm_bit df) (df, s))
               | Some data \<Rightarrow> df10_chain data (df, s)))"

definition df10_fetch :: "'a chan \<Rightarrow> (bool \<times> 'a chan) option" where
  "df10_fetch c =
     (let (df, s) = c
      in case Mem_read_word (ccw df) False s of
           None \<Rightarrow> Some (False, df10_finish_op (ucast (nxmerr df)) (df, s))
         | Some data \<Rightarrow> df10_chain data (df, s))"

definition df10_count :: "df10 \<Rightarrow> df10" where
  \<comment> \<open>\<open>df->wcr = (uint32)((df->wcr + 1) & df->wmask)\<close>\<close>
  "df10_count df = df\<lparr>wcr := ucast (ucast (wcr df + 1) AND wmask df)\<rparr>"

definition df10_next_cda :: "df10 \<Rightarrow> df10" where
  "df10_next_cda df = df\<lparr>cda := ucast (ucast (cda df + 1) AND amask df)\<rparr>"

definition df10_more :: "'a chan \<Rightarrow> (bool \<times> 'a chan) option" where
  \<comment> \<open>\<open>if (df->wcr == 0) return df10_fetch(df)\<close>, at both ends of a word transfer\<close>
  "df10_more c = (if wcr (fst c) = 0 then df10_fetch c else Some (True, c))"

definition df10_fail :: "'a chan \<Rightarrow> (bool \<times> 'a chan) option" where
  "df10_fail c = Some (False, df10_finish_op (nxm_bit (fst c)) c)"

definition df10_read :: "'a chan \<Rightarrow> (bool \<times> 'a chan) option" where
  "df10_read c =
     (case df10_more c of
        None \<Rightarrow> None
      | Some (False, c) \<Rightarrow> Some (False, c)
      | Some (True, (df, s)) \<Rightarrow>
          (let df = df10_count df
           in if cda df \<noteq> 0 then
                if MEMSIZE s < cda df then df10_fail (df, s)
                else (let df = df10_next_cda df
                      in case Mem_read_word (cda df) False s of
                           None \<Rightarrow> df10_fail (df, s)
                         | Some data \<Rightarrow> df10_more (df\<lparr>buf := data\<rparr>, s))
              else df10_more (df\<lparr>buf := 0\<rparr>, s)))"

definition df10_write :: "'a chan \<Rightarrow> (bool \<times> 'a chan) option" where
  "df10_write c =
     (case df10_more c of
        None \<Rightarrow> None
      | Some (False, c) \<Rightarrow> Some (False, c)
      | Some (True, (df, s)) \<Rightarrow>
          (let df = df10_count df
           in if cda df \<noteq> 0 then
                if MEMSIZE s < cda df then df10_fail (df, s)
                else (let df = df10_next_cda df
                      in case Mem_write_word (cda df) (buf df) False s of
                           None \<Rightarrow> df10_fail (df, s)
                         | Some s \<Rightarrow> df10_more (df, s))
              else df10_more (df, s)))"

definition df10_init :: "bool \<Rightarrow> u32 \<Rightarrow> u8 \<Rightarrow> df10 \<Rightarrow> df10" where
  \<comment> \<open>\<open>df10c\<close>: the processor's \<open>UNIT_DF10C\<close> flag, the 22-bit channel\<close>
  "df10_init df10c dev_num nxm_b df =
     (let df = df\<lparr>status := 0, devnum := dev_num, nxmerr := nxm_b\<rparr>
      in if df10c then df\<lparr>amask := 0x3FFFFF, wmask := 0x3FFF, cshift := 22\<rparr>
         else df\<lparr>amask := RMASK, wmask := RMASK, cshift := 18\<rparr>)"

section \<open>The chain of control words\<close>

definition cw_transfer :: "df10 \<Rightarrow> u64 \<Rightarrow> bool" where
  \<comment> \<open>a control word with a word count\<close>
  "cw_transfer df d \<longleftrightarrow> d AND push_bit (cshift df) (wmask df) \<noteq> 0"

definition cw_jump :: "df10 \<Rightarrow> 'a mem_state_scheme \<Rightarrow> u32 \<Rightarrow> u32 option" where
  \<comment> \<open>the target, when the word at the address is a jump the channel follows\<close>
  "cw_jump df s a =
     (case Mem_read_word a False s of
        None \<Rightarrow> None
      | Some d \<Rightarrow> if cw_transfer df d \<or> d AND amask df = 0 \<or> ucast (d AND amask df) = a
                  then None else Some (ucast (d AND amask df)))"

fun cw_path :: "nat \<Rightarrow> df10 \<Rightarrow> 'a mem_state_scheme \<Rightarrow> u32 \<Rightarrow> u32 option" where
  \<comment> \<open>the address after \<open>n\<close> jumps\<close>
  "cw_path 0 df s a = Some a"
| "cw_path (Suc n) df s a =
     (case cw_jump df s a of None \<Rightarrow> None | Some b \<Rightarrow> cw_path n df s b)"

lemma cw_transfer_ccw [simp]: "cw_transfer (df\<lparr>ccw := a\<rparr>) d = cw_transfer df d"
  by (simp add: cw_transfer_def)

lemma cw_jump_ccw [simp]: "cw_jump (df\<lparr>ccw := a\<rparr>) s b = cw_jump df s b"
  by (simp add: cw_jump_def split: option.split)

lemma cw_path_ccw [simp]: "cw_path n (df\<lparr>ccw := a\<rparr>) s b = cw_path n df s b"
  by (induction n arbitrary: b) (auto split: option.split)

lemma df10_chain_transfer:
  "cw_transfer df d \<Longrightarrow> df10_chain d (df, s) = Some (True, df10_load d df, s)"
  by (subst df10_chain.simps) (simp add: cw_transfer_def)

lemma df10_chain_jump:
  assumes "\<not> cw_transfer df d" and "d AND amask df \<noteq> 0" and "ucast (d AND amask df) \<noteq> ccw df"
  shows "df10_chain d (df, s) =
    (let df = df\<lparr>ccw := ucast (d AND amask df)\<rparr>
     in case Mem_read_word (ccw df) False s of
          None \<Rightarrow> Some (False, df10_finish_op (nxm_bit df) (df, s))
        | Some d \<Rightarrow> df10_chain d (df, s))"
  using assms by (subst df10_chain.simps) (simp add: cw_transfer_def Let_def)

lemma df10_chain_stop:
  "\<not> cw_transfer df d \<Longrightarrow> d AND amask df = 0 \<or> ucast (d AND amask df) = ccw df \<Longrightarrow>
   df10_chain d (df, s) = Some (False, df10_finish_op 0 (df, s))"
  by (subst df10_chain.simps, unfold Let_def prod.case cw_transfer_def)
    (simp only: simp_thms if_True if_False)

lemma cw_jumpE:
  assumes "cw_jump df s a = Some b"
  obtains d where "Mem_read_word a False s = Some d" "\<not> cw_transfer df d" "d AND amask df \<noteq> 0"
    "ucast (d AND amask df) \<noteq> a" "b = ucast (d AND amask df)"
proof (cases "Mem_read_word a False s")
  case None
  then show ?thesis using assms by (simp add: cw_jump_def)
next
  case (Some d)
  have "\<not> (cw_transfer df d \<or> d AND amask df = 0 \<or> ucast (d AND amask df) = a)
    \<and> b = ucast (d AND amask df)"
    using assms unfolding cw_jump_def Some option.case
    by (metis option.distinct(1) option.inject)
  then show ?thesis using that [OF Some] by blast
qed

lemma df10_fetch_jump:
  assumes "cw_jump df s (ccw df) = Some b"
  shows "df10_fetch (df, s) =
    (case Mem_read_word b False s of
       None \<Rightarrow> Some (False, df10_finish_op (nxm_bit df) (df\<lparr>ccw := b\<rparr>, s))
     | Some d \<Rightarrow> df10_fetch (df\<lparr>ccw := b\<rparr>, s))"
proof -
  obtain d where d: "Mem_read_word (ccw df) False s = Some d" "\<not> cw_transfer df d"
      "d AND amask df \<noteq> 0" "ucast (d AND amask df) \<noteq> ccw df" "b = ucast (d AND amask df)"
    using assms by (rule cw_jumpE)
  have "df10_fetch (df, s) = df10_chain d (df, s)"
    using d(1) by (simp add: df10_fetch_def)
  also have "\<dots> = (case Mem_read_word b False s of
       None \<Rightarrow> Some (False, df10_finish_op (nxm_bit df) (df\<lparr>ccw := b\<rparr>, s))
     | Some d \<Rightarrow> df10_chain d (df\<lparr>ccw := b\<rparr>, s))"
    unfolding df10_chain_jump [OF d(2,3,4)] d(5) by (simp add: nxm_bit_def Let_def split: option.split)
  also have "\<dots> = (case Mem_read_word b False s of
       None \<Rightarrow> Some (False, df10_finish_op (nxm_bit df) (df\<lparr>ccw := b\<rparr>, s))
     | Some d \<Rightarrow> df10_fetch (df\<lparr>ccw := b\<rparr>, s))"
    by (simp add: df10_fetch_def split: option.split)
  finally show ?thesis .
qed

lemma df10_fetch_no_jump:
  "cw_jump df s (ccw df) = None \<Longrightarrow> df10_fetch (df, s) \<noteq> None"
proof (cases "Mem_read_word (ccw df) False s")
  case (Some d)
  assume "cw_jump df s (ccw df) = None"
  then have "cw_transfer df d \<or> d AND amask df = 0 \<or> ucast (d AND amask df) = ccw df"
    unfolding cw_jump_def Some option.case by (metis option.distinct(1))
  then have "df10_chain d (df, s) \<noteq> None"
    using df10_chain_transfer df10_chain_stop by (metis option.distinct(1))
  then show ?thesis by (simp add: df10_fetch_def Some)
qed (simp add: df10_fetch_def)

lemma df10_fetch_here:
  "Mem_read_word (ccw df) False s = Some d \<Longrightarrow> cw_transfer df d \<Longrightarrow>
   df10_fetch (df, s) = Some (True, df10_load d df, s)"
  by (simp add: df10_fetch_def df10_chain_transfer)

text \<open>The channel finds the first transfer word on the chain, however many jumps away.\<close>

lemma df10_fetch_finds:
  "cw_path n df s (ccw df) = Some a \<Longrightarrow> Mem_read_word a False s = Some d \<Longrightarrow>
   cw_transfer df d \<Longrightarrow>
   df10_fetch (df, s) = Some (True, df10_load d (df\<lparr>ccw := a\<rparr>), s)"
proof (induction n arbitrary: df)
  case 0
  then show ?case using df10_fetch_here by (metis cw_path.simps(1) df10.surjective df10.update_convs(3) option.inject)
next
  case (Suc n)
  then obtain b where b: "cw_jump df s (ccw df) = Some b" "cw_path n df s b = Some a"
    by (auto split: option.splits)
  have "Mem_read_word b False s \<noteq> None"
    using b(2) Suc.prems(2) by (cases n) (auto simp: cw_jump_def split: option.splits)
  then have "df10_fetch (df, s) = df10_fetch (df\<lparr>ccw := b\<rparr>, s)"
    using df10_fetch_jump [OF b(1)] by auto
  also have "\<dots> = Some (True, df10_load d (df\<lparr>ccw := b, ccw := a\<rparr>), s)"
    using Suc.IH [of "df\<lparr>ccw := b\<rparr>"] b(2) Suc.prems by simp
  finally show ?case by simp
qed

lemma df10_chain_returns:
  "df10_chain d c = Some r \<Longrightarrow> case c of (df, s) \<Rightarrow>
     Mem_read_word (ccw df) False s = Some d \<longrightarrow> (\<exists>n. cw_path n df s (ccw df) = None)"
proof (induction rule: df10_chain.raw_induct [rotated, consumes 1])
  case (1 rec d c r)
  obtain df s where c: "c = (df, s)" by fastforce
  show ?case
  proof (cases "cw_jump df s (ccw df)")
    case None
    then have "cw_path (Suc 0) df s (ccw df) = None" by simp
    then show ?thesis unfolding c by blast
  next
    case (Some b)
    show ?thesis
    proof (cases "Mem_read_word b False s")
      case None
      then have "cw_path (Suc (Suc 0)) df s (ccw df) = None" using Some by (simp add: cw_jump_def)
      then show ?thesis unfolding c by blast
    next
      case (Some e)
      show ?thesis unfolding c
      proof (clarsimp)
        assume m: "Mem_read_word (ccw df) False s = Some d"
        then have b: "b = ucast (d AND amask df)" "\<not> cw_transfer df d"
            "d AND amask df \<noteq> 0" "b \<noteq> ccw df"
          using \<open>cw_jump df s (ccw df) = Some b\<close> by (auto simp: cw_jump_def split: if_splits)
        then have "rec e (df\<lparr>ccw := b\<rparr>, s) = Some r"
          using 1(2) Some unfolding c by (simp add: cw_transfer_def Let_def)
        from 1(1) [OF this] obtain n where "cw_path n df s b = None" using Some by auto
        then have "cw_path (Suc n) df s (ccw df) = None"
          using \<open>cw_jump df s (ccw df) = Some b\<close> by simp
        then show "\<exists>n. cw_path n df s (ccw df) = None" by blast
      qed
    qed
  qed
qed

lemma cw_path_ends:
  "cw_path n df s (ccw df) = None \<Longrightarrow> df10_fetch (df, s) \<noteq> None"
proof (induction n arbitrary: df)
  case (Suc n)
  show ?case
  proof (cases "cw_jump df s (ccw df)")
    case None
    then show ?thesis by (rule df10_fetch_no_jump)
  next
    case (Some b)
    then show ?thesis
      using Suc.IH [of "df\<lparr>ccw := b\<rparr>"] Suc.prems
      by (auto simp: df10_fetch_jump [OF Some] split: option.split)
  qed
qed simp

text \<open>\<open>df10_fetch\<close> returns exactly when the jumps of the chain come to an end.\<close>

lemma df10_fetch_returns:
  "df10_fetch (df, s) \<noteq> None \<longleftrightarrow> (\<exists>n. cw_path n df s (ccw df) = None)"
proof
  assume r: "df10_fetch (df, s) \<noteq> None"
  show "\<exists>n. cw_path n df s (ccw df) = None"
  proof (cases "Mem_read_word (ccw df) False s")
    case None
    then have "cw_path (Suc 0) df s (ccw df) = None" by (simp add: cw_jump_def)
    then show ?thesis by blast
  next
    case (Some d)
    then obtain x where "df10_chain d (df, s) = Some x" using r by (auto simp: df10_fetch_def)
    from df10_chain_returns [OF this] show ?thesis using Some by simp
  qed
qed (use cw_path_ends in blast)

section \<open>Word transfers\<close>

definition df10_ok :: "df10 \<Rightarrow> bool" where
  \<comment> \<open>the two configurations \<open>df10_init\<close> sets up\<close>
  "df10_ok df \<longleftrightarrow> amask df = RMASK \<and> wmask df = RMASK \<and> cshift df = 18
     \<or> amask df = 0x3FFFFF \<and> wmask df = 0x3FFF \<and> cshift df = 22"

definition df10_room :: "nat \<Rightarrow> 'a chan \<Rightarrow> bool" where
  \<comment> \<open>\<open>n\<close> more words fit under the current control word, in memory, without running
      out of count\<close>
  "df10_room n = (\<lambda>(df, s). wcr df \<noteq> 0 \<and> cda df \<noteq> 0 \<and> int n + uint (wcr df) \<le> uint (wmask df)
     \<and> int n + uint (cda df) \<le> uint (amask df) \<and> int n + uint (cda df) < uint (MEMSIZE s))"

lemma df10_init_ok: "df10_ok (df10_init c d n df)"
  by (simp add: df10_init_def df10_ok_def Let_def)

lemma masked_step:
  assumes "uint (a :: u32) + 1 \<le> uint (m :: u64)" and "m = mask k" and "k < 32"
  shows "ucast (ucast (a + 1) AND m) = a + 1" "uint (a + 1) = uint a + 1"
proof -
  have m: "uint m = 2 ^ k - 1"
    using assms(2,3) uint_mask_eq [where 'a = 64, of k] by (simp add: mask_eq_exp_minus_1)
  have k: "(2 :: int) ^ k \<le> 2 ^ 31" using assms(3) by (intro power_increasing) auto
  show u: "uint (a + 1) = uint a + 1"
    using assms(1) k m by (simp only: uint_word_ariths) (auto intro!: mod_pos_pos_trivial)
  have t: "take_bit k (a + 1) = a + 1"
    using assms(1) m u
    by (simp only: word_uint_eq_iff unsigned_take_bit_eq take_bit_int_eq_self_iff)
      (simp add: add_increasing2)
  have "ucast (ucast (a + 1) AND m) = take_bit k (a + 1)"
    unfolding assms(2) using assms(3)
    by (intro bit_word_eqI) (auto simp: bit_ucast_iff bit_and_iff bit_mask_iff bit_take_bit_iff)
  then show "ucast (ucast (a + 1) AND m) = a + 1"
    using t by simp
qed

lemma df10_ok_masks: "df10_ok df \<Longrightarrow> \<exists>k l. amask df = mask k \<and> k < 32 \<and> wmask df = mask l \<and> l < 32"
proof -
  have "(0x3FFFF :: u64) = mask 18" "(0x3FFFFF :: u64) = mask 22" "(0x3FFF :: u64) = mask 14"
    by (simp_all add: mask_eq_exp_minus_1)
  moreover assume "df10_ok df"
  ultimately show ?thesis
    unfolding df10_ok_def
    by (elim disjE; simp only:; rule_tac exI conjI; (rule exI)?) (rule exI conjI refl | simp)+
qed

lemma room_step:
  assumes "df10_ok df" and "df10_room (Suc n) (df, s)"
  shows "df10_next_cda (df10_count df) = df\<lparr>wcr := wcr df + 1, cda := cda df + 1\<rparr>"
    "wcr df + 1 \<noteq> 0" "cda df + 1 \<noteq> 0" "cda df + 1 < MEMSIZE s" "cda df < MEMSIZE s"
    "uint (cda df + 1) = uint (cda df) + 1"
    "df10_ok (df\<lparr>wcr := wcr df + 1, cda := cda df + 1, buf := b\<rparr>)"
    "M s' = m \<Longrightarrow> MEMSIZE s' = MEMSIZE s \<Longrightarrow>
     df10_room n (df\<lparr>wcr := wcr df + 1, cda := cda df + 1, buf := b\<rparr>, s')"
proof -
  obtain k l where kl: "amask df = mask k" "k < 32" "wmask df = mask l" "l < 32"
    using df10_ok_masks [OF assms(1)] by blast
  have r: "uint (wcr df) + 1 \<le> uint (wmask df)" "uint (cda df) + 1 \<le> uint (amask df)"
      "uint (cda df) + 1 < uint (MEMSIZE s)"
    using assms(2) by (auto simp: df10_room_def)
  note w = masked_step [OF r(1) kl(3,4)] and c = masked_step [OF r(2) kl(1,2)]
  show "df10_next_cda (df10_count df) = df\<lparr>wcr := wcr df + 1, cda := cda df + 1\<rparr>"
    by (simp add: df10_next_cda_def df10_count_def w(1) c(1))
  show nz: "wcr df + 1 \<noteq> 0" "cda df + 1 \<noteq> 0"
    using w(2) c(2) by (metis unsigned_0 add_nonneg_eq_0_iff uint_ge_0 zero_neq_one zero_le_one)+
  show "uint (cda df + 1) = uint (cda df) + 1" by (rule c(2))
  show "cda df + 1 < MEMSIZE s" "cda df < MEMSIZE s" using r(3) c(2) by (auto simp: word_less_def)
  show "df10_ok (df\<lparr>wcr := wcr df + 1, cda := cda df + 1, buf := b\<rparr>)"
    using assms(1) by (simp add: df10_ok_def)
  show "MEMSIZE s' = MEMSIZE s \<Longrightarrow>
     df10_room n (df\<lparr>wcr := wcr df + 1, cda := cda df + 1, buf := b\<rparr>, s')"
    using assms(2) nz w(2) c(2) by (simp add: df10_room_def)
qed

lemma df10_write_step:
  assumes "df10_ok df" and "df10_room (Suc n) (df, s)"
  shows "df10_write (df, s) = Some (True, df\<lparr>wcr := wcr df + 1, cda := cda df + 1\<rparr>,
     s\<lparr>M := (M s)(cda df + 1 := buf df)\<rparr>)"
proof -
  note r = room_step [OF assms]
  have le: "\<not> MEMSIZE s < cda df" "\<not> MEMSIZE s \<le> cda df + 1"
    using r(4,5) by (simp_all add: not_less not_le)
  have nz: "wcr df \<noteq> 0" "cda df \<noteq> 0" using assms(2) by (simp_all add: df10_room_def)
  have cnt: "cda (df10_count df) = cda df" by (simp add: df10_count_def)
  have more: "df10_more (df, s) = Some (True, df, s)" using nz by (simp add: df10_more_def)
  show ?thesis
    using nz(2) r(2) le unfolding df10_write_def more
    by (simp add: Let_def cnt r(1) Mem_write_word_def df10_more_def)
qed

lemma df10_read_step:
  assumes "df10_ok df" and "df10_room (Suc n) (df, s)"
  shows "df10_read (df, s) = Some (True, df\<lparr>wcr := wcr df + 1, cda := cda df + 1,
     buf := M s (cda df + 1)\<rparr>, s)"
proof -
  note r = room_step [OF assms]
  have le: "\<not> MEMSIZE s < cda df" "\<not> MEMSIZE s \<le> cda df + 1"
    using r(4,5) by (simp_all add: not_less not_le)
  have nz: "wcr df \<noteq> 0" "cda df \<noteq> 0" using assms(2) by (simp_all add: df10_room_def)
  have cnt: "cda (df10_count df) = cda df" by (simp add: df10_count_def)
  have more: "df10_more (df, s) = Some (True, df, s)" using nz by (simp add: df10_more_def)
  show ?thesis
    using nz(2) r(2) le unfolding df10_read_def more
    by (simp add: Let_def cnt r(1) Mem_read_word_def df10_more_def)
qed

text \<open>A device's use of the channel: one call a word.\<close>

fun df10_feed :: "u64 list \<Rightarrow> 'a chan \<Rightarrow> (bool \<times> 'a chan) option" where
  "df10_feed [] c = Some (True, c)"
| "df10_feed (w # ws) c =
     (case df10_write (fst c\<lparr>buf := w\<rparr>, snd c) of
        Some (True, c) \<Rightarrow> df10_feed ws c
      | r \<Rightarrow> r)"

fun df10_drain :: "nat \<Rightarrow> 'a chan \<Rightarrow> (u64 list \<times> 'a chan) option" where
  \<comment> \<open>\<open>n\<close> words read, or fewer when the channel stops\<close>
  "df10_drain 0 c = Some ([], c)"
| "df10_drain (Suc n) c =
     (case df10_read c of
        Some (True, c) \<Rightarrow> map_option (apfst ((#) (buf (fst c)))) (df10_drain n c)
      | Some (False, c) \<Rightarrow> Some ([], c)
      | None \<Rightarrow> None)"

fun store_words :: "u32 \<Rightarrow> u64 list \<Rightarrow> (u32 \<Rightarrow> u64) \<Rightarrow> (u32 \<Rightarrow> u64)" where
  "store_words a [] m = m"
| "store_words a (w # ws) m = store_words (a + 1) ws (m(a := w))"

fun load_words :: "u32 \<Rightarrow> nat \<Rightarrow> (u32 \<Rightarrow> u64) \<Rightarrow> u64 list" where
  "load_words a 0 m = []"
| "load_words a (Suc n) m = m a # load_words (a + 1) n m"

lemma df10_room_buf [simp]: "df10_room n (df\<lparr>buf := w\<rparr>, s) = df10_room n (df, s)"
  by (simp add: df10_room_def)

lemma df10_ok_buf [simp]: "df10_ok (df\<lparr>buf := w\<rparr>) = df10_ok df"
  by (simp add: df10_ok_def)

text \<open>A block handed to the channel arrives in consecutive words of memory, and nowhere else.\<close>

lemma df10_feed_block:
  "df10_ok df \<Longrightarrow> df10_room (length ws) (df, s) \<Longrightarrow>
   \<exists>df'. df10_feed ws (df, s) = Some (True, df', s\<lparr>M := store_words (cda df + 1) ws (M s)\<rparr>)
     \<and> cda df' = cda df + of_nat (length ws) \<and> wcr df' = wcr df + of_nat (length ws)"
proof (induction ws arbitrary: df s)
  case (Cons w ws)
  define df1 where "df1 = df\<lparr>wcr := wcr df + 1, cda := cda df + 1, buf := w\<rparr>"
  define s1 where "s1 = s\<lparr>M := (M s)(cda df + 1 := w)\<rparr>"
  have r: "df10_room (Suc (length ws)) (df\<lparr>buf := w\<rparr>, s)" "df10_ok (df\<lparr>buf := w\<rparr>)"
    using Cons.prems by simp_all
  have step: "df10_write (df\<lparr>buf := w\<rparr>, s) = Some (True, df1, s1)"
    using df10_write_step [OF r(2,1)] by (simp add: df1_def s1_def)
  have "df10_ok df1" "df10_room (length ws) (df1, s1)"
    using room_step(7) [OF r(2,1), of w] room_step(8) [OF r(2,1), of s1 "M s1" w]
    by (simp_all add: df1_def s1_def)
  from Cons.IH [OF this] show ?case
    by (auto simp: step df1_def s1_def add.assoc fun_upd_def)
qed simp

lemma df10_drain_block:
  "df10_ok df \<Longrightarrow> df10_room n (df, s) \<Longrightarrow>
   \<exists>df'. df10_drain n (df, s) = Some (load_words (cda df + 1) n (M s), df', s)
     \<and> cda df' = cda df + of_nat n \<and> wcr df' = wcr df + of_nat n"
proof (induction n arbitrary: df)
  case (Suc n)
  define df1 where "df1 = df\<lparr>wcr := wcr df + 1, cda := cda df + 1, buf := M s (cda df + 1)\<rparr>"
  have step: "df10_read (df, s) = Some (True, df1, s)"
    using df10_read_step [OF Suc.prems] by (simp add: df1_def)
  have "df10_ok df1" "df10_room n (df1, s)"
    using room_step(7) [OF Suc.prems, of "M s (cda df + 1)"]
      room_step(8) [OF Suc.prems, of s "M s" "M s (cda df + 1)"]
    by (simp_all add: df1_def)
  from Suc.IH [OF this] show ?case
    by (auto simp: step df1_def add.assoc)
qed simp

lemma store_words_other:
  "uint a + int (length ws) \<le> 2 ^ 32 \<Longrightarrow> \<not> (uint a \<le> uint b \<and> uint b < uint a + int (length ws))
   \<Longrightarrow> store_words a ws m b = m b"
proof (induction ws arbitrary: a m)
  case (Cons w ws)
  show ?case
  proof (cases "ws = []")
    case True
    then show ?thesis using Cons.prems by auto
  next
    case False
    then have "uint a + 1 < 2 ^ 32" using Cons.prems(1) by (cases ws) auto
    then have "uint (a + 1) = uint a + 1"
      by (simp only: uint_word_ariths) (auto intro!: mod_pos_pos_trivial)
    then have "store_words (a + 1) ws (m(a := w)) b = (m(a := w)) b"
      using Cons.prems by (intro Cons.IH) auto
    then show ?thesis using Cons.prems by auto
  qed
qed simp

lemma load_store_words:
  "uint a + int (length ws) \<le> 2 ^ 32 \<Longrightarrow> load_words a (length ws) (store_words a ws m) = ws"
proof (induction ws arbitrary: a m)
  case (Cons w ws)
  show ?case
  proof (cases "ws = []")
    case False
    then have "uint a + 1 < 2 ^ 32" using Cons.prems(1) by (cases ws) auto
    then have u: "uint (a + 1) = uint a + 1"
      by (simp only: uint_word_ariths) (auto intro!: mod_pos_pos_trivial)
    have "store_words (a + 1) ws (m(a := w)) a = w"
      using store_words_other [of "a + 1" ws a "m(a := w)"] u Cons.prems by simp
    then show ?thesis using Cons u by simp
  qed simp
qed simp

text \<open>What the channel wrote under a control word it reads back under the same word.\<close>

lemma df10_feed_drain:
  assumes "df10_ok df" and "df10_room (length ws) (df, s)"
    and fed: "df10_feed ws (df, s) = Some (True, df', s')"
  shows "\<exists>df''. df10_drain (length ws) (df, s') = Some (ws, df'', s')"
proof -
  have s': "s' = s\<lparr>M := store_words (cda df + 1) ws (M s)\<rparr>"
    using df10_feed_block [OF assms(1,2)] fed by auto
  then have "df10_room (length ws) (df, s')" using assms(2) by (simp add: df10_room_def)
  from df10_drain_block [OF assms(1) this] obtain df'' where
    d: "df10_drain (length ws) (df, s') = Some (load_words (cda df + 1) (length ws) (M s'), df'', s')"
    by blast
  have "uint (cda df + 1) + int (length ws) \<le> 2 ^ 32"
  proof (cases "length ws")
    case 0
    then show ?thesis using uint_lt2p [of "cda df + 1"] by simp
  next
    case (Suc n)
    have "uint (cda df + 1) = uint (cda df) + 1"
      using room_step(6) [OF assms(1)] assms(2) unfolding Suc by blast
    then show ?thesis using assms(2) uint_lt2p [of "MEMSIZE s"] by (simp add: df10_room_def)
  qed
  then show ?thesis using d load_store_words by (simp add: s')
qed

section \<open>Completion\<close>

lemma df10_writecw_frame [simp]:
  "dev_irq (snd (df10_writecw (df, s))) = dev_irq s"
  "IOB_PI (snd (df10_writecw (df, s))) = IOB_PI s"
  "status (fst (df10_writecw (df, s))) = status df"
  "devnum (fst (df10_writecw (df, s))) = devnum df"
  "cia (fst (df10_writecw (df, s))) = cia df"
  "MEMSIZE (snd (df10_writecw (df, s))) = MEMSIZE s"
  by (auto simp: df10_writecw_def Let_def Mem_write_word_def split: option.split if_splits)

lemma df10_writecw_bus: "bus_inv s \<Longrightarrow> bus_inv (snd (df10_writecw (df, s)))"
  by (simp add: bus_inv_def)

lemma df10_finish_shape:
  "df10_finish_op flags (df, s) =
     (let df1 = df\<lparr>status := clr_bits (status df) BUSY OR flags\<rparr>;
          (df2, s2) = df10_writecw (df1, s);
          st = clr_bits (status df) BUSY OR flags OR PI_ENABLE
      in (df2\<lparr>status := st\<rparr>, set_interrupt (unat (devnum df)) (unat st) s2))"
  using df10_writecw_frame [of "df\<lparr>status := clr_bits (status df) BUSY OR flags\<rparr>" s]
  by (simp add: df10_finish_op_def df10_setirq_def Let_def case_prod_unfold or.assoc)

lemma df10_finish_status:
  "\<not> bit flags 4 \<Longrightarrow> \<not> tst (status (fst (df10_finish_op flags (df, s)))) BUSY"
  "tst (status (fst (df10_finish_op flags (df, s)))) PI_ENABLE"
proof -
  have e: "(0x10 :: u32) = 2 ^ 4" "(0x8 :: u32) = 2 ^ 3" by simp_all
  show "\<not> bit flags 4 \<Longrightarrow> \<not> tst (status (fst (df10_finish_op flags (df, s)))) BUSY"
    "tst (status (fst (df10_finish_op flags (df, s)))) PI_ENABLE"
    unfolding df10_finish_shape e tst_exp
    by (simp_all add: Let_def case_prod_unfold bit_or_iff bit_clr_bits)
qed

definition df10_level :: "u32 \<Rightarrow> df10 \<Rightarrow> nat" where
  \<comment> \<open>the interrupt level assigned to the device\<close>
  "df10_level flags df = unat (status df OR flags) mod 8"

lemma mod8: "unat (x :: u32) mod 8 = unat (take_bit 3 x)"
  by (simp only: unsigned_take_bit_eq) (simp add: take_bit_eq_mod)

lemma df10_level_eq:
  "unat (clr_bits (status df) BUSY OR flags OR PI_ENABLE) mod 8 = df10_level flags df"
proof -
  have e: "(0x10 :: u32) = 2 ^ 4" "(0x8 :: u32) = 2 ^ 3" by simp_all
  have b: "bit (0x10 :: u32) n \<longleftrightarrow> n = 4" "bit (0x8 :: u32) n \<longleftrightarrow> n = 3" for n
    unfolding e bit_exp_iff by (auto simp: possible_bit_word)
  have "take_bit 3 (clr_bits (status df) BUSY OR flags OR PI_ENABLE) = take_bit 3 (status df OR flags)"
  proof (rule bit_word_eqI)
    fix n show "bit (take_bit 3 (clr_bits (status df) BUSY OR flags OR PI_ENABLE)) n
      = bit (take_bit 3 (status df OR flags)) n"
      using b [of n] unfolding bit_take_bit_iff bit_or_iff bit_clr_bits by auto
  qed
  then show ?thesis by (simp add: df10_level_def mod8)
qed

text \<open>A finished operation requests an interrupt on the device's level.\<close>

lemma df10_finish_interrupts:
  assumes "bus_inv s" and "unat (devnum df) < 512" and "df10_level flags df \<noteq> 0"
  shows "irq_on_bus (snd (df10_finish_op flags (df, s))) (df10_level flags df)"
proof -
  define df1 where "df1 = df\<lparr>status := clr_bits (status df) BUSY OR flags\<rparr>"
  define st where "st = clr_bits (status df) BUSY OR flags OR PI_ENABLE"
  have lvl: "unat st mod 8 = df10_level flags df" unfolding st_def by (rule df10_level_eq)
  have "irq_on_bus (set_interrupt (unat (devnum df)) (unat st) (snd (df10_writecw (df1, s))))
          (unat st mod 8)"
    using assms(2,3) lvl
    by (intro pi_lines.raised_on_bus df10_writecw_bus assms(1)) simp_all
  then show ?thesis
    unfolding lvl df10_finish_shape df1_def [symmetric] st_def [symmetric] Let_def case_prod_unfold
    by simp
qed

text \<open>The termination word the channel leaves holds the control-word address and the data address.\<close>

lemma df10_cw_fields:
  assumes "df10_ok df" and "uint (ccw df) \<le> uint (wmask df)" and "uint (cda df) \<le> uint (amask df)"
  shows "drop_bit (cshift df) (df10_cw df) = ucast (ccw df)"
    and "df10_cw df AND amask df = ucast (cda df)"
proof -
  have k: "(0x3FFFF :: u64) = mask 18" "(0x3FFFFF :: u64) = mask 22" "(0x3FFF :: u64) = mask 14"
    by (simp_all add: mask_eq_exp_minus_1)
  obtain w a where wa: "wmask df = mask w" "amask df = mask a" "cshift df = a" "w + a = 36"
      "w \<le> 18" "a \<le> 22"
    using assms(1) unfolding df10_ok_def k by (elim disjE conjE) simp_all
  have le: "uint (ccw df) < 2 ^ w" "uint (cda df) < 2 ^ a"
    using assms(2,3) wa uint_mask_eq [where 'a = 64, of w] uint_mask_eq [where 'a = 64, of a]
    by (simp_all add: mask_eq_exp_minus_1)
  note b = uint_less_bits [OF le(1)] uint_less_bits [OF le(2)]
  have b2: "bit (ccw df) n \<Longrightarrow> a + n < 64" for n using b(1) [of n] wa(4) by simp
  show "drop_bit (cshift df) (df10_cw df) = ucast (ccw df)"
    unfolding df10_cw_def wa(1,2,3) using wa(4-6) b b2
    by (intro bit_word_eqI)
      (auto simp: bit_drop_bit_eq bit_or_iff bit_push_bit_iff bit_and_iff bit_mask_iff bit_ucast_iff)
  show "df10_cw df AND amask df = ucast (cda df)"
    unfolding df10_cw_def wa(1,2,3) using wa(4-6) b
    by (intro bit_word_eqI)
      (auto simp: bit_drop_bit_eq bit_or_iff bit_push_bit_iff bit_and_iff bit_mask_iff bit_ucast_iff)
qed

end
