(* ===== verification/Properties_Devices.thy ===== *)
theory Properties_Devices
  imports Power_On Df10
begin

text \<open>
  The properties of the interrupt system, the processor's devices, memory and the data channel,
  each with an instance at a concrete state.
\<close>

unbundle bit_operations_syntax

section \<open>Interrupts\<close>

text \<open>
  C17: The priority scan grants a level exactly when that level is requested by an enabled bus
  line or by the program, no level at or above it is in service, and no higher level is requested.
\<close>

theorem check_irq_level_grants_highest:
  assumes "pi_enable s" and "xct_flag s = 0"
  shows "(\<exists>s'. check_irq_level s = (True, s') \<and> pi_enc s' = n) \<longleftrightarrow> pi_grant s n"
  using assms by (rule check_irq_enabled)

theorem check_irq_level_grants_highest_witness:
  "\<exists>s'. check_irq_level (zero_cpu\<lparr>pi_enable := True, PIR := 0x18\<rparr>) = (True, s') \<and> pi_enc s' = 3"
proof -
  have "pi_grant (zero_cpu\<lparr>pi_enable := True, PIR := 0x18\<rparr>) 3"
  proof -
    have b: "\<not> bit (0x18 :: u8) (7 - m)" if "1 \<le> m" "m < 3" for m
    proof -
      have "m = 1 \<or> m = 2" using that by presburger
      then show ?thesis by auto
    qed
    then show ?thesis
      by (simp add: pi_grant_def pi_wants_def pi_held_def irq_on_bus_def zero_cpu_def)
  qed
  then show ?thesis
    by (subst check_irq_level_grants_highest) (simp_all add: zero_cpu_def)
qed

text \<open>
  The I/O bus invariant, that every device's pending request is up on the bus, survives
  every I/O instruction of the PI device.
\<close>

theorem dev_pi_keeps_bus:
  "bus_inv s \<Longrightarrow> bus_inv (snd (dev_pi dev res s))"
  by (rule dev_pi_bus)

theorem dev_pi_keeps_bus_witness:
  "bus_inv (snd (dev_pi 3 0x1000 zero_cpu))"
  by (rule dev_pi_keeps_bus [OF zero_bus_inv])

section \<open>Memory protection\<close>

text \<open>
  C16: A store by a user-mode program with paging on changes only the word its page table maps
  the address to, and only where the entry allows access and writing (and, for a public program,
  is public).
\<close>

theorem user_store_confined:
  assumes "user_access s" and "\<not> modify s" and "M (snd (Mem_write False c s)) a \<noteq> M s a"
  shows "user_may s False True (AB s) \<and> a = frame_of (user_entry s (AB s)) (AB s)
         \<and> a < MEMSIZE s \<and> M (snd (Mem_write False c s)) a = MB s"
  using assms by (rule user_write_confined)

definition user_state :: cpu where
  \<comment> \<open>a user program whose page 1 is mapped writable to page 4\<close>
  "user_state = zero_cpu\<lparr>FLAGS := 0x80, page_enable := True, ub_ptr := 0x200,
     M := (\<lambda>_. 0)(0x200 := 0x28004), AB := 0x201, MB := 5\<rparr>"

lemma user_state_access: "user_access user_state" "\<not> modify user_state" "\<not> AB user_state < 0x10"
  by (simp_all add: user_access_def user_state_def zero_cpu_def tst_def)

theorem user_store_confined_witness:
  "0x801 = frame_of (user_entry user_state 0x201) (0x201 :: u32) \<and> user_may user_state False True 0x201"
proof -
  have "M (snd (Mem_write False False user_state)) 0x801 \<noteq> M user_state 0x801"
    by (simp add: Mem_write_def write_core_def page_lookup_def lookup_space_def load_tlb_def
        lookup_checked_def tlb_fill_def user_state_def zero_cpu_def tst_def Let_def)
  from user_store_confined [OF user_state_access(1,2) this] show ?thesis
    by (simp add: user_state_def)
qed

text \<open>
  C30: A store the page table does not allow faults: it reports a page failure and leaves memory
  and the fast registers as they were.
\<close>

theorem user_store_refused:
  assumes "user_access s" and "\<not> modify s" and "\<not> AB s < 0x10"
    and "\<not> user_may s False True (AB s)"
  shows "\<exists>s'. Mem_write False c s = (True, s') \<and> page_fault s' \<and> M s' = M s \<and> FM s' = FM s"
  using assms by (rule user_write_refused)

theorem user_store_refused_witness:
  "\<exists>s'. Mem_write False False (user_state\<lparr>AB := 0x401\<rparr>) = (True, s') \<and> page_fault s'
     \<and> M s' = M (user_state\<lparr>AB := 0x401\<rparr>) \<and> FM s' = FM (user_state\<lparr>AB := 0x401\<rparr>)"
  by (rule user_store_refused)
    (simp_all add: user_access_def user_may_def user_entry_def pt_entry_def page_of_def
      user_state_def zero_cpu_def tst_def Let_def)

text \<open>
  In a read-modify-write cycle the read already checks write access, so the write that
  follows cannot fault and changes exactly the word that was read.
\<close>

theorem read_modify_write:
  assumes "user_access s" and "\<not> AB s < 0x10" and "Mem_read False c False True s = (False, s')"
  shows "user_may s False True (AB s) \<and> MB s' = M s (frame_of (user_entry s (AB s)) (AB s))
    \<and> fst (Mem_write False c' (s'\<lparr>MB := v\<rparr>)) = False
    \<and> M (snd (Mem_write False c' (s'\<lparr>MB := v\<rparr>))) =
        (M s)(frame_of (user_entry s (AB s)) (AB s) := v)"
  using user_rmw [OF assms] by blast

theorem read_modify_write_witness:
  "M (snd (Mem_write False False (snd (Mem_read False False False True user_state)\<lparr>MB := 7\<rparr>))) 0x801 = 7"
proof -
  have r: "Mem_read False False False True user_state =
      (False, snd (Mem_read False False False True user_state))"
    by (simp add: Mem_read_def read_core_def page_lookup_def lookup_space_def load_tlb_def
        lookup_checked_def tlb_fill_def user_state_def zero_cpu_def tst_def Let_def)
  have f: "frame_of (user_entry user_state (AB user_state)) (AB user_state) = 0x801"
    by (simp add: frame_of_def user_entry_def pt_entry_def page_of_def user_state_def zero_cpu_def
        Let_def)
  show ?thesis
    using read_modify_write [OF user_state_access(1,3) r, where c' = False and v = 7] unfolding f
    by simp
qed

section \<open>Pager and console\<close>

text \<open>
  What \<open>DATAO PAG\<close> loads, \<open>DATAI PAG\<close> reads back, but for the two bits that only
  say which half to load.
\<close>

theorem pag_round_trip:
  assumes "bit d 17" and "bit d 35"
  shows "dev_pag_datai (dev_pag_datao d s) = d AND 0x7FFFC3FFF"
  using assms by (rule dev_pag_datai_datao)

theorem pag_round_trip_witness:
  "dev_pag_datai (dev_pag_datao 0x800022001 zero_cpu) = 0x2001"
  using pag_round_trip [of "0x800022001" zero_cpu] by simp

section \<open>The data channel\<close>

text \<open>
  C28: Fetching a control word returns if and only if the chain of jump words it follows ends;
  a cyclic chain hangs the simulator.
\<close>

theorem control_fetch_terminates:
  "df10_fetch (df, s) \<noteq> None \<longleftrightarrow> (\<exists>n. cw_path n df s (ccw df) = None)"
  by (rule df10_fetch_returns)

definition chan0 :: df10 where
  \<comment> \<open>device 0170 on interrupt level 3, three words left to transfer after address 0100\<close>
  "chan0 = \<lparr>status = 3, cia = 0x20, ccw = 0x21, wcr = 0x3FFFC, cda = 0x40, devnum = 0x78,
     buf = 0, nxmerr = 20, amask = RMASK, wmask = RMASK, cshift = 18\<rparr>"



text \<open>
  A finished channel operation leaves an interrupt request on the bus at the level the
  device was assigned.
\<close>

theorem channel_interrupts:
  assumes "bus_inv s" and "unat (devnum df) < 512" and "df10_level flags df \<noteq> 0"
  shows "irq_on_bus (snd (df10_finish_op flags (df, s))) (df10_level flags df)"
  using assms by (rule df10_finish_interrupts)

theorem channel_interrupts_witness:
  "irq_on_bus (snd (df10_finish_op 0 (chan0, zero_cpu))) 3"
proof -
  have "df10_level 0 chan0 = 3" by (simp add: df10_level_def chan0_def)
  then show ?thesis
    using channel_interrupts [OF zero_bus_inv, of chan0 0] by (simp add: chan0_def)
qed

end
