(* ===== verification/Add_Sub.thy ===== *)
theory Add_Sub
  imports Cpu_State
begin

text \<open>
  Fixed-point addition and what is built on it (\<open>PDP10/kx10_cpu.c\<close>): ADD and SUB,
  the comparisons CAI and CAM, the tests JUMP and SKIP, and the counting instructions AOJ,
  SOJ, AOS and SOS with the shared tails \<open>jump_op\<close> and \<open>skip_op\<close>. The theorems
  give every result modulo \<open>2 ^ 36\<close>, the two carries and the overflow exactly, and the
  jump and skip conditions as comparisons of two's-complement numbers.
\<close>

unbundle bit_operations_syntax

section \<open>Addition and subtraction\<close>

definition fetch_opr :: "cpu \<Rightarrow> (u64 \<Rightarrow> cpu \<Rightarrow> cpu) \<Rightarrow> cpu" where
  \<comment> \<open>\<open>switch (IR & 3)\<close> at the head of ADD and SUB: the operand that replaces \<open>AR\<close>\<close>
  "fetch_opr s k =
     (let m = IR s AND 3
      in if m = 0 then rd_ea s (\<lambda>s. k (MB s) s)
         else if m = 1 then k (AR s AND RMASK) s
         else rd_mod_ea s (\<lambda>s. k (MB s) s))"

definition store_opr :: "u64 \<Rightarrow> cpu \<Rightarrow> cpu" where
  \<comment> \<open>their common tail: memory when \<open>IR & 2\<close>, the accumulator unless \<open>(IR & 3) == 2\<close>\<close>
  "store_opr v s =
     (let ac = (\<lambda>s. if IR s AND 3 \<noteq> 2 then set_ac v s else s)
      in if IR s AND 2 = 2 then wr_ea (s\<lparr>MB := v\<rparr>) ac else ac s)"

definition add_of :: "u64 \<Rightarrow> u64 \<Rightarrow> cpu \<Rightarrow> u64 \<times> cpu" where
  "add_of a b s =
     (let flag1 = tst ((a AND CMASK) + (b AND CMASK)) SMASK;
          s = or_flags flag1 CRY1 s;
          r = a + b;
          flag3 = tst r C1;
          s = or_flags (flag3 \<and> \<not> pi_cycle s) CRY0 s;
          s = or_flags (flag1 \<noteq> flag3 \<and> \<not> pi_cycle s) (OVR OR TRP1) s
      in (r AND FMASK, s))"

definition sub_of :: "u64 \<Rightarrow> u64 \<Rightarrow> cpu \<Rightarrow> u64 \<times> cpu" where
  \<comment> \<open>\<open>b\<close> (\<open>BR\<close>) minus \<open>a\<close> (\<open>AR\<close>)\<close>
  "sub_of a b s =
     (let flag1 = tst (CCM a + (b AND CMASK) + 1) SMASK;
          s = or_flags flag1 CRY1 s;
          r = CM a + b + 1;
          flag3 = tst r C1;
          s = or_flags (flag3 \<and> \<not> pi_cycle s) CRY0 s;
          s = or_flags (flag1 \<noteq> flag3 \<and> \<not> pi_cycle s) (OVR OR TRP1) s
      in (r AND FMASK, s))"

definition exec_add :: "cpu \<Rightarrow> cpu" where
  "exec_add s = fetch_opr s (\<lambda>v s. let (r, s) = add_of v (BR s) s in store_opr r s)"

definition exec_sub :: "cpu \<Rightarrow> cpu" where
  "exec_sub s = fetch_opr s (\<lambda>v s. let (r, s) = sub_of v (BR s) s in store_opr r s)"

section \<open>Comparison, test and count\<close>

definition cond_met :: "u32 \<Rightarrow> bool \<Rightarrow> u64 \<Rightarrow> bool" where
  \<comment> \<open>\<open>f |= ((AR == 0) << 1); f = f & IR; ((IR & 04) != 0) == (f == 0)\<close>\<close>
  "cond_met ir neg v =
     (let f = (set_if (v = 0) 2 (if neg then 1 else 0)) AND ir
      in (ir AND 4 \<noteq> 0) = (f = 0))"

definition jump_op :: "u64 \<Rightarrow> bool \<Rightarrow> cpu \<Rightarrow> cpu" where
  "jump_op ad f s =
     (let ar = ad AND FMASK;
          s = (if cond_met (IR s) f ar then jump (AB s) s else s)
      in if tst (IR s) 0x20 then set_ac ar s else s)"

definition skip_op :: "u64 \<Rightarrow> bool \<Rightarrow> cpu \<Rightarrow> cpu" where
  "skip_op ad f s =
     (let ar = ad AND FMASK;
          s = (if cond_met (IR s) f ar then s\<lparr>PC := (PC s + 1) AND 0x3FFFF\<rparr>
               else if trap_flag s = 0 \<and> pi_cycle s then s\<lparr>pi_ov := True, pi_hold := True\<rparr>
               else s);
          s = (if tst (IR s) 0x30 then set_ac_nz ar s else s)
      in if tst (IR s) 0x20 then wr_ea (s\<lparr>MB := ar\<rparr>) (\<lambda>s. s) else s)"

definition compare_op :: "u64 \<Rightarrow> cpu \<Rightarrow> cpu" where
  \<comment> \<open>the common part of CAI and CAM\<close>
  "compare_op a s =
     (let b = BR s;
          ad = CM a + b + 1;
          f = (tst b SMASK \<and> \<not> tst a SMASK
               \<or> (b AND SMASK = a AND SMASK) \<and> tst ad SMASK)
      in skip_op ad f s)"

definition exec_cai :: "cpu \<Rightarrow> cpu" where
  "exec_cai s = compare_op (AR s AND RMASK) s"

definition exec_cam :: "cpu \<Rightarrow> cpu" where
  "exec_cam s = rd_ea s (\<lambda>s. compare_op (MB s) s)"

definition exec_jump :: "cpu \<Rightarrow> cpu" where
  "exec_jump s = jump_op (BR s) (tst (BR s) SMASK) s"

definition exec_skip :: "cpu \<Rightarrow> cpu" where
  "exec_skip s = rd_ea s (\<lambda>s. skip_op (MB s) (tst (MB s) SMASK) s)"

definition count_of :: "u64 \<Rightarrow> cpu \<Rightarrow> u64 \<times> cpu" where
  \<comment> \<open>add one, or minus one when \<open>IR & 020\<close>; the first component is \<open>AD\<close>,
      not yet cut to 36 bits\<close>
  "count_of v s =
     (let d = (if tst (IR s) 0x10 then FMASK else 1);
          flag1 = tst ((v AND CMASK) + (d AND CMASK)) SMASK;
          s = or_flags (flag1 \<and> \<not> pi_cycle s) CRY1 s;
          ad = v + d;
          flag3 = tst ad C1;
          s = or_flags (flag3 \<and> \<not> pi_cycle s) CRY0 s;
          s = or_flags (flag1 \<noteq> flag3 \<and> \<not> pi_cycle s) (OVR OR TRP1) s
      in (ad, s))"

definition exec_aoj_soj :: "cpu \<Rightarrow> cpu" where
  "exec_aoj_soj s = (let (ad, s) = count_of (BR s) s in jump_op ad (tst ad SMASK) s)"

definition exec_aos_sos :: "cpu \<Rightarrow> cpu" where
  "exec_aos_sos s = rd_mod_ea s (\<lambda>s. let (ad, s) = count_of (MB s) s
     in skip_op ad (tst ad SMASK) s)"

section \<open>Sums with carries\<close>

lemma split36: "wf36 a \<Longrightarrow> uint a = uint a mod 2 ^ 35 + 2 ^ 35 * of_bool (bit a 35)"
proof -
  assume w: "wf36 a"
  show ?thesis
  proof (cases "bit a 35")
    case True
    then have "2 ^ 35 \<le> uint a" "uint a < 2 ^ 36" using w sign_iff by (auto simp: wf36_uint)
    then have "uint a mod 2 ^ 35 = (uint a - 2 ^ 35) mod 2 ^ 35" by simp
    also have "\<dots> = uint a - 2 ^ 35"
      using \<open>2 ^ 35 \<le> uint a\<close> \<open>uint a < 2 ^ 36\<close> by (intro mod_pos_pos_trivial) simp_all
    finally show ?thesis using True by simp
  next
    case False
    then show ?thesis using w sign_iff [OF w] by simp
  qed
qed

text \<open>The two carries of a sum, and the overflow they signal.\<close>

lemma carries:
  fixes c :: int
  assumes "wf36 a" "wf36 b" "0 \<le> c" "c \<le> 1"
  shows "(2 ^ 35 \<le> uint a mod 2 ^ 35 + uint b mod 2 ^ 35 + c) \<noteq> (2 ^ 36 \<le> uint a + uint b + c)
    \<longleftrightarrow> \<not> fits36 (sval a + sval b + c)"
proof -
  define x y where "x = uint a mod 2 ^ 35" and "y = uint b mod 2 ^ 35"
  have xy: "0 \<le> x" "x < 2 ^ 35" "0 \<le> y" "y < 2 ^ 35" by (simp_all add: x_def y_def)
  have "uint a = x + 2 ^ 35 * of_bool (bit a 35)" "uint b = y + 2 ^ 35 * of_bool (bit b 35)"
    using split36 assms(1,2) by (simp_all only: x_def y_def)
  then show ?thesis
    unfolding x_def [symmetric] y_def [symmetric] fits36_def sval_uint
    using xy assms(3,4) by (cases "bit a 35"; cases "bit b 35") auto
qed

lemma tst_carry: "uint x < 2 ^ 37 \<Longrightarrow> tst x C1 \<longleftrightarrow> 2 ^ 36 \<le> uint x" for x :: u64
proof -
  assume b: "uint x < 2 ^ 37"
  have "bit x 36 \<longleftrightarrow> odd (uint x div 2 ^ 36)"
    by (metis bit_iff_odd bit_uint_iff bit_imp_le_length)
  also have "\<dots> \<longleftrightarrow> 2 ^ 36 \<le> uint x"
  proof (cases "2 ^ 36 \<le> uint x")
    case True
    then have "uint x div 2 ^ 36 = 1" using b by (intro int_div_pos_eq [where r = "uint x - 2 ^ 36"]) simp_all
    then show ?thesis using True by simp
  next
    case False
    then have "uint x div 2 ^ 36 = 0" by (intro div_pos_pos_trivial) simp_all
    then show ?thesis using False by simp
  qed
  finally show ?thesis by (simp add: tst_simps)
qed

lemma tst_sign35: "uint x < 2 ^ 36 \<Longrightarrow> tst x SMASK \<longleftrightarrow> 2 ^ 35 \<le> uint x" for x :: u64
  using sign_iff [of x] by (simp add: tst_simps wf36_uint)

lemma mod35: "0 \<le> (i :: int) mod 2 ^ 35" "i mod 2 ^ 35 < 2 ^ 35"
  by simp_all

lemma uint_add_bits:
  assumes "wf36 a" "wf36 b"
  shows "uint (a + b) = uint a + uint b"
    "uint ((a AND CMASK) + (b AND CMASK)) = uint a mod 2 ^ 35 + uint b mod 2 ^ 35"
proof -
  show "uint (a + b) = uint a + uint b"
    using assms by (intro uint_add64) (simp add: wf36_uint)
  have "uint (a AND CMASK) + uint (b AND CMASK) < 2 ^ 64"
    using mod35 [of "uint a"] mod35 [of "uint b"] unfolding uint_cmask by simp
  then show "uint ((a AND CMASK) + (b AND CMASK)) = uint a mod 2 ^ 35 + uint b mod 2 ^ 35"
    by (simp only: uint_add64 uint_cmask)
qed

definition carry0 :: "u64 \<Rightarrow> u64 \<Rightarrow> int \<Rightarrow> bool" where
  \<comment> \<open>the carry out of the sign bit in \<open>a + b + c\<close>\<close>
  "carry0 a b c \<longleftrightarrow> 2 ^ 36 \<le> uint a + uint b + c"

definition carry1 :: "u64 \<Rightarrow> u64 \<Rightarrow> int \<Rightarrow> bool" where
  \<comment> \<open>the carry into the sign bit\<close>
  "carry1 a b c \<longleftrightarrow> 2 ^ 35 \<le> uint a mod 2 ^ 35 + uint b mod 2 ^ 35 + c"

lemma carries_fit:
  "wf36 a \<Longrightarrow> wf36 b \<Longrightarrow> 0 \<le> c \<Longrightarrow> c \<le> 1 \<Longrightarrow> carry1 a b c \<noteq> carry0 a b c \<longleftrightarrow>
   \<not> fits36 (sval a + sval b + c)"
  unfolding carry0_def carry1_def by (rule carries)

lemma add_tests:
  assumes "wf36 a" "wf36 b"
  shows "tst ((a AND CMASK) + (b AND CMASK)) SMASK \<longleftrightarrow> carry1 a b 0"
    "tst (a + b) C1 \<longleftrightarrow> carry0 a b 0"
    "(a + b) AND FMASK = wrap36 (sval a + sval b)"
proof -
  note u = uint_add_bits [OF assms]
  have "uint ((a AND CMASK) + (b AND CMASK)) < 2 ^ 36"
    unfolding u using mod35 [of "uint a"] mod35 [of "uint b"] by simp
  then show "tst ((a AND CMASK) + (b AND CMASK)) SMASK \<longleftrightarrow> carry1 a b 0"
    by (simp only: tst_sign35 u carry1_def add_0_right)
  have "uint (a + b) < 2 ^ 37" unfolding u using assms by (simp add: wf36_uint)
  then show "tst (a + b) C1 \<longleftrightarrow> carry0 a b 0"
    by (simp only: tst_carry u carry0_def add_0_right)
  show "(a + b) AND FMASK = wrap36 (sval a + sval b)"
    by (simp only: fmask_wrap u wrap36_sval_lin)
qed

definition sum_flags :: "bool \<Rightarrow> u64 \<Rightarrow> u64 \<Rightarrow> int \<Rightarrow> cpu \<Rightarrow> cpu" where
  \<comment> \<open>what a sum does to the flags; \<open>g\<close>: carry 1 is recorded in PI cycles too\<close>
  "sum_flags g a b c s =
     (let s = or_flags (carry1 a b c \<and> (g \<or> \<not> pi_cycle s)) CRY1 s;
          s = or_flags (carry0 a b c \<and> \<not> pi_cycle s) CRY0 s
      in or_flags (\<not> fits36 (sval a + sval b + c) \<and> \<not> pi_cycle s) (OVR OR TRP1) s)"

text \<open>
  ADD, SUB and the counting instructions: the exact sum modulo \<open>2 ^ 36\<close>, carry 0 and
  carry 1, and overflow exactly when the two's-complement result does not fit.
\<close>

lemma add_of_spec:
  "wf36 a \<Longrightarrow> wf36 b \<Longrightarrow>
   add_of a b s = (wrap36 (sval a + sval b), sum_flags True a b 0 s)"
  using carries_fit [of a b 0]
  by (simp add: add_of_def sum_flags_def Let_def add_tests del: or_flags_FLAGS)

lemma CM_split: "wf36 a \<Longrightarrow> CCM a = CM a AND CMASK"
  by (intro bit_word_eqI) (auto simp: CM_def CCM_def bit_simps)

lemma sval_CM: "wf36 a \<Longrightarrow> sval (CM a) = - sval a - 1"
proof -
  assume w: "wf36 a"
  have "bit (CM a) 35 \<longleftrightarrow> \<not> bit a 35" by (auto simp: CM_def bit_simps)
  then show ?thesis by (cases "bit a 35") (simp_all add: sval_uint uint_CM w)
qed

lemma sub_tests:
  assumes "wf36 a" "wf36 b"
  shows "tst (CCM a + (b AND CMASK) + 1) SMASK \<longleftrightarrow> carry1 (CM a) b 1"
    "tst (CM a + b + 1) C1 \<longleftrightarrow> carry0 (CM a) b 1"
    "(CM a + b + 1) AND FMASK = wrap36 (sval b - sval a)"
proof -
  have w: "wf36 (CM a)" using assms by (simp add: wf36_intros)
  note u = uint_add_bits [OF w assms(2)]
  have lt: "uint (CM a) mod 2 ^ 35 + uint b mod 2 ^ 35 + 1 < 2 ^ 36"
    using mod35 [of "uint (CM a)"] mod35 [of "uint b"] by simp
  then have "uint ((CM a AND CMASK) + (b AND CMASK)) + uint (1 :: u64) < 2 ^ 64"
    unfolding u unsigned_1 by simp
  then have u1: "uint ((CM a AND CMASK) + (b AND CMASK) + 1)
      = uint (CM a) mod 2 ^ 35 + uint b mod 2 ^ 35 + 1"
    by (simp only: uint_add64 u unsigned_1)
  have lt2: "uint (CM a) + uint b + 1 < 2 ^ 37"
    using w assms(2) by (simp add: wf36_uint)
  then have "uint (CM a + b) + uint (1 :: u64) < 2 ^ 64" unfolding u unsigned_1 by simp
  then have u2: "uint (CM a + b + 1) = uint (CM a) + uint b + 1"
    by (simp only: uint_add64 u unsigned_1)
  show "tst (CCM a + (b AND CMASK) + 1) SMASK \<longleftrightarrow> carry1 (CM a) b 1"
    unfolding CM_split [OF assms(1)] using lt by (simp only: tst_sign35 u1 carry1_def)
  show "tst (CM a + b + 1) C1 \<longleftrightarrow> carry0 (CM a) b 1"
    using lt2 by (simp only: tst_carry u2 carry0_def)
  have "(CM a + b + 1) AND FMASK = wrap36 (sval (CM a) + sval b + 1)"
    unfolding fmask_wrap u2
    using wrap36_sval_lin(1) [of "CM a" "sval b + 1"] wrap36_sval_lin(2) [of "uint (CM a) + 1" b]
    by (simp add: algebra_simps)
  then show "(CM a + b + 1) AND FMASK = wrap36 (sval b - sval a)"
    by (simp add: sval_CM assms(1) algebra_simps)
qed

lemma sub_of_spec:
  "wf36 a \<Longrightarrow> wf36 b \<Longrightarrow>
   sub_of a b s = (wrap36 (sval b - sval a), sum_flags True (CM a) b 1 s)"
  using carries_fit [of "CM a" b 1]
  by (simp add: sub_of_def sum_flags_def Let_def sub_tests wf36_intros del: or_flags_FLAGS)

lemma sum_flags_overflow:
  "\<not> pi_cycle s \<Longrightarrow> \<not> tst (FLAGS s) OVR \<Longrightarrow>
   tst (FLAGS (sum_flags g a b c s)) OVR \<longleftrightarrow> \<not> fits36 (sval a + sval b + c)"
proof -
  have e: "tst (x :: u32) 0x1000 = bit x 12" for x using tst_exp [of x 12] by simp
  assume "\<not> pi_cycle s" "\<not> tst (FLAGS s) OVR"
  then show ?thesis
    unfolding sum_flags_def Let_def e by (simp add: bit_or_flags)
qed

lemma count_of_spec:
  "wf36 v \<Longrightarrow> count_of v s =
   (v + (if tst (IR s) 0x10 then FMASK else 1),
    sum_flags False v (if tst (IR s) 0x10 then FMASK else 1) 0 s)"
  using carries_fit [of v "if tst (IR s) 0x10 then FMASK else 1" 0]
  by (simp add: count_of_def sum_flags_def Let_def add_tests wf36_intros del: or_flags_FLAGS)

section \<open>Conditions\<close>

definition cmp_holds :: "nat \<Rightarrow> int \<Rightarrow> int \<Rightarrow> bool" where
  \<comment> \<open>the condition \<open>n\<close> (the low three bits of the opcode) on \<open>x\<close> against
      \<open>y\<close>: never, less, equal, not greater, always, not less, unequal, greater\<close>
  "cmp_holds n x y =
     (if n = 1 then x < y else if n = 2 then x = y else if n = 3 then x \<le> y
      else if n = 4 then True else if n = 5 then y \<le> x else if n = 6 then x \<noteq> y
      else if n = 7 then y < x else False)"

lemma low3_cases:
  "(ir :: u32) AND 7 \<in> {0, 1, 2, 3, 4, 5, 6, 7}"
proof -
  have "ir AND 7 = take_bit 3 ir" by (simp add: take_bit_eq_mask mask_eq_exp_minus_1)
  moreover have "take_bit 3 (unat ir) < 8" using take_bit_nat_less_exp [of 3 "unat ir"] by simp
  ultimately have "unat (ir AND 7) < 8" by (simp only: unsigned_take_bit_eq)
  then have "unat (ir AND 7) \<in> {0, 1, 2, 3, 4, 5, 6, 7}" by auto
  then show ?thesis by (auto simp: word_unat_eq_iff)
qed

lemma low3_and: "m AND 7 = m \<Longrightarrow> m AND (ir :: u32) = m AND (ir AND 7)"
  by (metis and.assoc and.commute)

text \<open>The code's skip and jump test is the comparison its opcode names.\<close>

lemma cond_met_iff:
  assumes "neg \<longleftrightarrow> x < y" and "v = 0 \<longleftrightarrow> x = y"
  shows "cond_met ir neg v \<longleftrightarrow> cmp_holds (unat (ir AND 7)) x y"
proof -
  define k where "k = ir AND 7"
  have m: "1 AND ir = 1 AND k" "2 AND ir = 2 AND k" "ir AND 4 = 4 AND k"
    using low3_and [of 1 ir] low3_and [of 2 ir] low3_and [of 4 ir] and.commute [of ir 4]
    by (simp_all add: k_def)
  have c: "cond_met ir neg v \<longleftrightarrow>
      (4 AND k \<noteq> 0) = ((if x = y then 2 AND k else if x < y then 1 AND k else 0) = 0)"
    unfolding cond_met_def Let_def m(3) m(1,2) [symmetric] using assms by (auto simp: set_if_def)
  have "k \<in> {0, 1, 2, 3, 4, 5, 6, 7}" using low3_cases by (simp only: k_def)
  then show ?thesis
    unfolding c k_def [symmetric] insert_iff empty_iff
    by (elim disjE) (auto simp: cmp_holds_def)
qed

lemma cond_met_sval: "wf36 v \<Longrightarrow>
  cond_met ir (tst v SMASK) v \<longleftrightarrow> cmp_holds (unat (ir AND 7)) (sval v) 0"
proof (rule cond_met_iff)
  assume w: "wf36 v"
  then show "tst v SMASK \<longleftrightarrow> sval v < 0" by (simp add: sval_neg_iff tst_simps)
  have "sval 0 = 0" by (simp add: sval_def)
  then show "v = 0 \<longleftrightarrow> sval v = 0" using sval_inj [OF w wf36_const(1)] by metis
qed

text \<open>
  CAI and CAM: the test is the signed comparison of the accumulator with the operand, also
  where their difference overflows.
\<close>

definition compare_less :: "u64 \<Rightarrow> u64 \<Rightarrow> bool" where
  "compare_less a b \<longleftrightarrow> tst b SMASK \<and> \<not> tst a SMASK
     \<or> (b AND SMASK = a AND SMASK) \<and> tst (CM a + b + 1) SMASK"

lemma and_smask: "x AND SMASK = (if bit x 35 then SMASK else 0)" for x :: u64
proof -
  have "x AND 2 ^ 35 = (if bit x 35 then 2 ^ 35 else 0)"
    by (rule bit_word_eqI) (auto simp: bit_simps)
  then show ?thesis by simp
qed

lemma compare_less_sval:
  assumes "wf36 a" "wf36 b"
  shows "compare_less a b \<longleftrightarrow> sval b < sval a"
proof -
  have s: "(b AND SMASK = a AND SMASK) \<longleftrightarrow> bit b 35 = bit a 35"
    by (simp add: and_smask)
  have d: "tst (CM a + b + 1) SMASK \<longleftrightarrow> bit (wrap36 (sval b - sval a)) 35"
    unfolding sub_tests(3) [OF assms, symmetric] by (simp add: tst_simps bit_and_iff)
  have r: "- (2 ^ 35) \<le> sval a" "sval a < 2 ^ 35" "- (2 ^ 35) \<le> sval b" "sval b < 2 ^ 35"
    using sval_range assms by blast+
  note n = sval_neg_iff [OF assms(1), symmetric] sval_neg_iff [OF assms(2), symmetric]
  show ?thesis
  proof (cases "bit b 35 = bit a 35")
    case True
    then have f: "fits36 (sval b - sval a)" using r n by (auto simp: fits36_def)
    have "tst (CM a + b + 1) SMASK \<longleftrightarrow> sval b - sval a < 0"
      unfolding d sval_neg_iff [OF wf36_wrap, symmetric] sval_wrap36 [OF f] ..
    then show ?thesis using True by (simp add: compare_less_def s tst_simps)
  next
    case False
    then show ?thesis using n by (auto simp: compare_less_def s tst_simps)
  qed
qed

lemma sval_eq: "wf36 a \<Longrightarrow> wf36 b \<Longrightarrow> wrap36 (sval b - sval a) = 0 \<longleftrightarrow> sval b = sval a"
proof
  assume w: "wf36 a" "wf36 b" and z: "wrap36 (sval b - sval a) = 0"
  have "(sval b - sval a) mod 2 ^ 36 = 0" using z uint_wrap36 [of "sval b - sval a"] by simp
  then have "uint b = uint a"
    by (metis sval_mod w mod_eq_dvd_iff mod_0_imp_dvd)
  then have "b = a" by (simp only: word_uint_eq_iff)
  then show "sval b = sval a" by simp
qed (simp add: wrap36_def)

lemma compare_cond:
  assumes "wf36 a" "wf36 b"
  shows "cond_met ir (compare_less a b) ((CM a + b + 1) AND FMASK)
    \<longleftrightarrow> cmp_holds (unat (ir AND 7)) (sval b) (sval a)"
  by (rule cond_met_iff)
    (simp_all only: compare_less_sval [OF assms] sub_tests [OF assms] sval_eq [OF assms])

lemma compare_op_shape: "compare_op a s = skip_op (CM a + BR s + 1) (compare_less a (BR s)) s"
  by (simp add: compare_op_def compare_less_def Let_def)

end
