(* ===== verification/Mul_Div.thy ===== *)
theory Mul_Div
  imports Add_Sub "HOL-Library.Signed_Division"
begin

text \<open>
  Fixed-point multiplication and division (\<open>PDP10/kx10_cpu.c\<close>, opcodes 220 to 237):
  IMUL and MUL by magnitudes in 18-bit pieces, IDIV, and DIV by a nonrestoring loop of 35
  steps. The theorems give the product, the quotient and the remainder as integers, and the
  exact conditions of overflow and no divide.
\<close>

unbundle bit_operations_syntax

section \<open>Multiplication\<close>

definition fetch_mul :: "cpu \<Rightarrow> (u64 \<Rightarrow> cpu \<Rightarrow> cpu) \<Rightarrow> cpu" where
  \<comment> \<open>\<open>switch (IR & 07)\<close> at the head of the multiplications\<close>
  "fetch_mul s k =
     (let m = IR s AND 7
      in if m = 1 \<or> m = 5 then k (AR s AND RMASK) s
         else if m = 0 \<or> m = 4 then rd_ea s (\<lambda>s. k (MB s) s)
         else rd_mod_ea s (\<lambda>s. k (MB s) s))"

definition abs36 :: "u64 \<Rightarrow> u64" where
  \<comment> \<open>\<open>if (x & SMASK) x = (CM(x) + 1) & FMASK\<close>\<close>
  "abs36 x = (if tst x SMASK then neg36 x else x)"

definition mul_mag :: "u64 \<Rightarrow> u64 \<Rightarrow> u64 \<times> u64" where
  \<comment> \<open>the 70-bit product of two magnitudes: high and low part\<close>
  "mul_mag ar br =
     (let mq = ar * (br AND RMASK);
          ar = ar * (drop_bit 18 br AND RMASK);
          mq = mq + (push_bit 18 ar AND LMASK);
          ar = drop_bit 18 ar;
          ar = push_bit 1 ar + drop_bit 35 mq
      in (ar, mq AND CMASK))"

definition mul_of :: "bool \<Rightarrow> u64 \<Rightarrow> u64 \<Rightarrow> cpu \<Rightarrow> u64 \<times> u64 \<times> cpu" where
  \<comment> \<open>from the signs to the label \<open>mul_done\<close>; \<open>imul\<close> is
      \<open>(IR & 4) == 0\<close>; the results are \<open>AR\<close> and \<open>MQ\<close>\<close>
  "mul_of imul ar br s =
     (let flag3 = (tst ar SMASK \<noteq> tst br SMASK);
          ar = abs36 ar;
          br = abs36 br
      in if ar = 0 \<or> br = 0 then (0, 0, s)
         else
           (let (ar, mq) = mul_mag ar br
            in if imul then
                 (let s = or_flags (ar > (if flag3 then 1 else 0) \<and> \<not> pi_cycle s) (OVR OR TRP1) s;
                      mq = (if flag3 then ((mq XOR CMASK) + 1) OR SMASK else mq)
                  in (mq, mq, s))
               else
                 (let s = or_flags (tst ar SMASK \<and> \<not> pi_cycle s) (OVR OR TRP1) s;
                      (ar, mq) =
                        (if flag3 then
                           (let ar = ar XOR FMASK;
                                mq = (mq XOR CMASK) + 1
                            in if tst mq SMASK then (ar + 1, mq AND CMASK) else (ar, mq))
                         else (ar, mq));
                      ar = ar AND FMASK;
                      mq = clr_bits mq SMASK OR (ar AND SMASK)
                  in (ar, mq, s))))"

definition store_mul :: "u64 \<Rightarrow> u64 \<Rightarrow> cpu \<Rightarrow> cpu" where
  \<comment> \<open>\<open>mul_done\<close>\<close>
  "store_mul ar mq s =
     (let m = IR s AND 7
      in if m = 7 then wr_ea (s\<lparr>MB := ar\<rparr>) (\<lambda>s. set_ac ar (set_ac1 mq s))
         else if m = 5 \<or> m = 4 then set_ac ar (set_ac1 mq s)
         else if m = 1 \<or> m = 0 then set_ac ar s
         else if m = 2 \<or> m = 6 then wr_ea (s\<lparr>MB := ar\<rparr>) (\<lambda>s. s)
         else wr_ea (s\<lparr>MB := ar\<rparr>) (set_ac ar))"

definition exec_mul :: "cpu \<Rightarrow> cpu" where
  "exec_mul s = fetch_mul s (\<lambda>v s.
     let (ar, mq, s) = mul_of (IR s AND 4 = 0) v (BR s) s in store_mul ar mq s)"

section \<open>Integer division\<close>

definition fetch_div :: "cpu \<Rightarrow> (u64 \<Rightarrow> u64 \<Rightarrow> cpu \<Rightarrow> cpu) \<Rightarrow> cpu" where
  \<comment> \<open>\<open>switch (IR & 03)\<close> at the head of IDIV and DIV: the dividend from the
      accumulator and the divisor\<close>
  "fetch_div s k =
     (let m = IR s AND 3
      in if m = 0 then rd_ea s (\<lambda>s. k (BR s) (MB s) s)
         else if m = 1 then k (BR s) (AR s AND RMASK) s
         else rd_mod_ea s (\<lambda>s. k (BR s) (MB s) s))"

definition store_div :: "u64 \<Rightarrow> u64 \<Rightarrow> cpu \<Rightarrow> cpu" where
  "store_div ar mq s =
     (let m = IR s AND 3
      in if m = 3 then wr_ea (s\<lparr>MB := ar\<rparr>) (\<lambda>s. set_ac1 mq (set_ac ar s))
         else if m = 2 then wr_ea (s\<lparr>MB := ar\<rparr>) (\<lambda>s. s)
         else set_ac1 mq (set_ac ar s))"

definition idiv_of :: "u64 \<Rightarrow> u64 \<Rightarrow> (u64 \<times> u64) option" where
  \<comment> \<open>quotient and remainder; \<open>None\<close> where the code sets No Divide\<close>
  "idiv_of ar br =
     (let flag1 = tst br SMASK;
          br = abs36 br
      in if br = 0 then None
         else if ar = SMASK \<and> br = 1 then None
         else
           (let flag3 = tst ar SMASK;
                flag1 = (flag1 \<noteq> flag3);
                ar = abs36 ar;
                mq = ar mod br;
                ar = ar div br;
                ar = (if flag1 then neg36 ar else ar);
                mq = (if flag3 then neg36 mq else mq)
            in Some (ar, mq)))"

definition no_divide :: "cpu \<Rightarrow> cpu" where
  "no_divide s = or_flags True (OVR OR NODIV OR TRP1) s"

definition exec_idiv :: "cpu \<Rightarrow> cpu" where
  "exec_idiv s = fetch_div s (\<lambda>ar br s.
     case idiv_of ar br of None \<Rightarrow> no_divide s | Some (q, r) \<Rightarrow> store_div q r s)"

section \<open>Long division\<close>

definition div_step :: "u64 \<Rightarrow> u64 \<Rightarrow> u64 \<Rightarrow> u64" where
  \<comment> \<open>\<open>AD\<close>: the divisor added or subtracted as the last quotient bit in
      \<open>MQ\<close> says\<close>
  "div_step br ar mq =
     (if tst br SMASK \<noteq> tst mq 1 then ar + CM br + 1 else ar + br)"

fun div_loop :: "nat \<Rightarrow> u64 \<Rightarrow> u64 \<Rightarrow> u64 \<Rightarrow> u64 \<times> u64" where
  \<comment> \<open>\<open>while (SC != 0)\<close>\<close>
  "div_loop 0 br ar mq = (ar, mq)"
| "div_loop (Suc sc) br ar mq =
     (let ad = div_step br ar mq;
          ar = (push_bit 1 ad OR (if tst mq SMASK then 1 else 0)) AND FMASK;
          mq = set_if (\<not> tst ad SMASK) 1 (push_bit 1 mq AND FMASK)
      in div_loop sc br ar mq)"

definition div_neg :: "u64 \<Rightarrow> u64 \<Rightarrow> u64 \<times> u64" where
  \<comment> \<open>the double-length negation of a negative dividend\<close>
  "div_neg ar mq =
     (let mq_n = neg36 mq;
          ar_n = CM ar AND FMASK
      in (if mq_n AND CMASK = 0 then (ar_n + 1) AND FMASK else ar_n, mq_n))"

definition div_of :: "u64 \<Rightarrow> u64 \<Rightarrow> u64 \<Rightarrow> (u64 \<times> u64) option" where
  \<comment> \<open>\<open>AR,MQ\<close> divided by \<open>BR\<close>: quotient and remainder\<close>
  "div_of ar mq br =
     (let flag1 = tst ar SMASK;
          (ar, mq) = (if flag1 then div_neg ar mq else (ar, mq));
          ad = (if tst br SMASK then ar + br else ar + CM br + 1) AND FMASK;
          mq = set_if (tst ad SMASK) 1 (push_bit 1 mq AND FMASK)
      in if \<not> tst ad SMASK then None
         else
           (let (ar, mq) = div_loop 35 br ar mq;
                ad = div_step br ar mq;
                ar = ad AND FMASK;
                mq = set_if (\<not> tst ad SMASK) 1 (push_bit 1 mq AND FMASK);
                ar = (if tst ar SMASK
                      then (if tst br SMASK then ar + CM br + 1 else ar + br) AND FMASK
                      else ar);
                ar = (if flag1 then neg36 ar else ar)
            in if flag1 \<noteq> tst br SMASK then Some (neg36 mq, ar) else Some (mq, ar)))"

definition exec_div :: "cpu \<Rightarrow> cpu" where
  "exec_div s = fetch_div s (\<lambda>ar br s.
     case div_of ar (get_ac1 s) br of
       None \<Rightarrow> no_divide s | Some (q, r) \<Rightarrow> store_div q r s)"

section \<open>Magnitudes\<close>

lemma uint_abs36: "wf36 x \<Longrightarrow> uint (abs36 x) = \<bar>sval x\<bar>"
proof -
  assume w: "wf36 x"
  show ?thesis
  proof (cases "bit x 35")
    case True
    then have b: "2 ^ 35 \<le> uint x" "uint x < 2 ^ 36" using w sign_iff by (auto simp: wf36_uint)
    have "uint (neg36 x) = (2 ^ 36 - uint x) mod 2 ^ 36"
      by (simp only: neg36_def uint_fmask uint_CM1 w)
    also have "\<dots> = 2 ^ 36 - uint x" using b by (intro mod_pos_pos_trivial) simp_all
    finally show ?thesis using True b by (simp add: abs36_def tst_simps sval_def)
  next
    case False
    then show ?thesis by (simp add: abs36_def tst_simps sval_def)
  qed
qed

lemma abs36_bound: "wf36 x \<Longrightarrow> uint (abs36 x) \<le> 2 ^ 35"
  using sval_range [of x] by (simp add: uint_abs36 abs_le_iff)

lemma mul_mag_spec:
  assumes a: "uint a \<le> 2 ^ 35" and b: "uint b \<le> 2 ^ 35"
  shows "uint (fst (mul_mag a b)) = uint a * uint b div 2 ^ 35"
    "uint (snd (mul_mag a b)) = uint a * uint b mod 2 ^ 35"
proof -
  define A lo hi where "A = uint a" and "lo = uint b mod 2 ^ 18" and "hi = uint b div 2 ^ 18"
  have lo: "0 \<le> lo" "lo < 2 ^ 18" by (simp_all add: lo_def)
  have hi: "0 \<le> hi" "hi \<le> 2 ^ 17" using b by (auto simp: hi_def pos_imp_zdiv_nonneg_iff)
  have A: "0 \<le> A" "A \<le> 2 ^ 35" using a by (simp_all add: A_def)
  have bs: "uint b = hi * 2 ^ 18 + lo" by (simp add: lo_def hi_def)
  have lo_w: "uint (b AND RMASK) = lo" by (simp only: uint_rmask lo_def)
  have hi_w: "uint (drop_bit 18 b AND RMASK) = hi"
    unfolding uint_rmask uint_drop64 hi_def [symmetric] using hi by simp
  have Alo: "0 \<le> A * lo" "A * lo \<le> 2 ^ 35 * 2 ^ 18" "0 \<le> A * hi" "A * hi \<le> 2 ^ 35 * 2 ^ 17"
    using A lo hi mult_mono [of A "2 ^ 35" lo "2 ^ 18"] mult_mono [of A "2 ^ 35" hi "2 ^ 17"]
    by simp_all
  have mq1: "uint (a * (b AND RMASK)) = A * lo"
    using Alo by (subst uint_mult64) (simp_all add: lo_w A_def)
  have ar1: "uint (a * (drop_bit 18 b AND RMASK)) = A * hi"
    using Alo by (subst uint_mult64) (simp_all add: hi_w A_def)
  define x y where "x = A * hi div 2 ^ 18" and "y = A * hi mod 2 ^ 18"
  have xy: "A * hi = x * 2 ^ 18 + y" "0 \<le> y" "y < 2 ^ 18" "0 \<le> x" "x \<le> 2 ^ 34"
    using Alo by (simp_all add: x_def y_def)
  define mq where "mq = A * lo + y * 2 ^ 18"
  have mq: "0 \<le> mq" "mq < 2 ^ 54" using Alo xy by (simp_all add: mq_def)
  have P: "uint a * uint b = mq + x * 2 ^ 36"
    unfolding A_def [symmetric] bs using xy(1) by (simp add: mq_def algebra_simps)
  have mq2: "uint (a * (b AND RMASK) + (push_bit 18 (a * (drop_bit 18 b AND RMASK)) AND LMASK)) = mq"
    by (subst uint_add64) (use mq in \<open>simp_all only: mq1 uint_push_lmask ar1 y_def [symmetric] mq_def, simp\<close>)
  have ar2: "uint (push_bit 1 (drop_bit 18 (a * (drop_bit 18 b AND RMASK)))) = x * 2"
    by (subst uint_push64) (use xy in \<open>simp_all add: uint_drop64 ar1 x_def [symmetric]\<close>)
  have ar3: "uint (fst (mul_mag a b)) = x * 2 + mq div 2 ^ 35"
    unfolding mul_mag_def Let_def fst_conv
    by (subst uint_add64) (use xy mq in \<open>simp_all only: ar2 uint_drop64 mq2, simp\<close>)
  have mq3: "uint (snd (mul_mag a b)) = mq mod 2 ^ 35"
    unfolding mul_mag_def Let_def snd_conv uint_cmask mq2 ..
  have e: "mq + x * 2 ^ 36 = mq + (x * 2) * 2 ^ 35" by simp
  show "uint (fst (mul_mag a b)) = uint a * uint b div 2 ^ 35"
    unfolding ar3 P e by simp
  show "uint (snd (mul_mag a b)) = uint a * uint b mod 2 ^ 35"
    unfolding mq3 P e by (simp only: mod_mult_self1)
qed

lemma abs36_zero: "wf36 x \<Longrightarrow> abs36 x = 0 \<longleftrightarrow> sval x = 0"
  using uint_abs36 [of x] by (simp add: word_uint_eq_iff)

lemma low_neg:
  assumes "uint m < 2 ^ 35"
  shows "uint ((m XOR CMASK) + 1) = 2 ^ 35 - uint m"
proof -
  have w: "wf36 m" "take_bit 35 m = m"
    using assms by (simp_all add: wf36_uint word_uint_eq_iff uint_take)
  have "m XOR CMASK = CCM m"
    using w(2) by (intro bit_word_eqI) (auto simp: CCM_def bit_simps bit_eq_iff)
  moreover have "uint (CCM m) = 2 ^ 35 - 1 - uint m"
    using CCM_uint [OF w(1)] assms by simp
  ultimately have u: "uint (m XOR CMASK) = 2 ^ 35 - 1 - uint m" by simp
  have "uint (m XOR CMASK) + uint (1 :: u64) < 2 ^ 64"
    unfolding u unsigned_1 by (simp, insert uint_ge_0 [of m], linarith)
  then show ?thesis by (simp only: uint_add64 u unsigned_1)
qed

lemma or_smask: "uint x < 2 ^ 35 \<Longrightarrow> uint (x OR SMASK) = uint x + 2 ^ 35" for x :: u64
proof -
  assume a: "uint x < 2 ^ 35"
  then have "take_bit 35 x = x" by (simp add: word_uint_eq_iff uint_take)
  then have "x AND SMASK = 0"
    by (metis and_smask bit_take_bit_iff order_less_irrefl)
  then have "x OR SMASK = x + SMASK" by (simp only: disjunctive_add_eq_or)
  then show ?thesis using a by (simp only:) (subst uint_add64, simp_all)
qed

lemma sign_abs:
  assumes "wf36 a" "wf36 b" "sval a \<noteq> 0" "sval b \<noteq> 0"
  shows "sval a * sval b =
    (if tst a SMASK \<noteq> tst b SMASK then - (\<bar>sval a\<bar> * \<bar>sval b\<bar>) else \<bar>sval a\<bar> * \<bar>sval b\<bar>)"
  using sval_neg_iff [OF assms(1)] sval_neg_iff [OF assms(2)] assms(3,4)
  by (auto simp: tst_simps abs_if)

lemma prod_split:
  assumes "wf36 a" "wf36 b"
  shows "uint (fst (mul_mag (abs36 a) (abs36 b))) = \<bar>sval a * sval b\<bar> div 2 ^ 35"
    "uint (snd (mul_mag (abs36 a) (abs36 b))) = \<bar>sval a * sval b\<bar> mod 2 ^ 35"
  using mul_mag_spec [OF abs36_bound abs36_bound, OF assms] uint_abs36 assms
  by (simp_all add: abs_mult)

lemma mul_of_zero:
  assumes "wf36 a" "wf36 b" "sval a = 0 \<or> sval b = 0"
  shows "mul_of i a b s = (0, 0, s)"
proof -
  have "abs36 a = 0 \<or> abs36 b = 0" using assms abs36_zero by blast
  then show ?thesis unfolding mul_of_def Let_def by (simp only: if_True)
qed

definition imul_overflow :: "u64 \<Rightarrow> u64 \<Rightarrow> bool" where
  \<comment> \<open>the products the code reports\<close>
  "imul_overflow a b \<longleftrightarrow> 2 ^ 35 \<le> sval a * sval b \<or> sval a * sval b \<le> - (2 ^ 36)"

text \<open>
  IMUL: a product that fits in 36 bits is delivered exactly and without overflow. The
  overflow test reports the products listed in \<open>imul_overflow\<close>: those between
  \<open>- 2 ^ 36\<close> and \<open>- 2 ^ 35\<close>, which do not fit, it misses.
\<close>

lemma imul_flags:
  assumes w: "wf36 a" "wf36 b"
  shows "snd (snd (mul_of True a b s)) =
    or_flags (imul_overflow a b \<and> \<not> pi_cycle s) (OVR OR TRP1) s"
proof (cases "sval a = 0 \<or> sval b = 0")
  case True
  then have z: "sval a * sval b = 0" by auto
  show ?thesis
    unfolding mul_of_zero [OF w True] imul_overflow_def z by (simp add: or_flags_def)
next
  case False
  define P where "P = \<bar>sval a * sval b\<bar>"
  define f where "f \<longleftrightarrow> tst a SMASK \<noteq> tst b SMASK"
  have p: "sval a * sval b = (if f then - P else P)"
    using sign_abs [OF w] False by (simp add: P_def f_def abs_mult)
  have P: "0 \<le> P" by (simp add: P_def)
  have ar: "fst (mul_mag (abs36 a) (abs36 b)) > (if f then 1 else 0) \<longleftrightarrow>
      (if f then 1 else 0) < P div 2 ^ 35"
    unfolding word_less_def prod_split(1) [OF w] P_def [symmetric] by simp
  have d: "(1 < P div 2 ^ 35) = (2 ^ 36 \<le> P)" "(0 < P div 2 ^ 35) = (2 ^ 35 \<le> P)"
  proof -
    have "(1 < x) = (2 \<le> x)" "(0 < x) = (1 \<le> x)" for x :: int by auto
    then show "(1 < P div 2 ^ 35) = (2 ^ 36 \<le> P)" "(0 < P div 2 ^ 35) = (2 ^ 35 \<le> P)"
      using le_div_pow [of 2 P 35] le_div_pow [of 1 P 35] by simp_all
  qed
  have ov: "imul_overflow a b \<longleftrightarrow> (if f then 1 else 0) < P div 2 ^ 35"
    using P unfolding imul_overflow_def p by (cases f) (simp_all only: d if_True if_False, auto)
  have "snd (snd (mul_of True a b s)) = or_flags
      (fst (mul_mag (abs36 a) (abs36 b)) > (if f then 1 else 0) \<and> \<not> pi_cycle s) (OVR OR TRP1) s"
    using False abs36_zero [OF w(1)] abs36_zero [OF w(2)]
    by (simp add: mul_of_def Let_def case_prod_unfold f_def)
  then show ?thesis by (simp only: ar ov)
qed

lemma imul_result:
  assumes w: "wf36 a" "wf36 b" and fit: "fits36 (sval a * sval b)"
  shows "fst (mul_of True a b s) = wrap36 (sval a * sval b)"
proof (cases "sval a = 0 \<or> sval b = 0")
  case True
  then have z: "sval a * sval b = 0" by auto
  show ?thesis unfolding mul_of_zero [OF w True] z by (simp add: wrap36_def)
next
  case False
  define P where "P = \<bar>sval a * sval b\<bar>"
  define f where "f \<longleftrightarrow> tst a SMASK \<noteq> tst b SMASK"
  define m where "m = snd (mul_mag (abs36 a) (abs36 b))"
  have p: "sval a * sval b = (if f then - P else P)"
    using sign_abs [OF w] False by (simp add: P_def f_def abs_mult)
  have P: "0 < P" using False by (simp add: P_def)
  have m: "uint m = P mod 2 ^ 35" unfolding m_def prod_split(2) [OF w] P_def ..
  have r: "fst (mul_of True a b s) = (if f then ((m XOR CMASK) + 1) OR SMASK else m)"
    using False abs36_zero [OF w(1)] abs36_zero [OF w(2)]
    by (simp add: mul_of_def Let_def case_prod_unfold f_def m_def)
  have m35: "uint m < 2 ^ 35" unfolding m by simp
  show ?thesis
  proof (cases f)
    case False
    then have "P < 2 ^ 35" using fit p by (simp add: fits36_def)
    then show ?thesis using False P m p r by (simp add: word_uint_eq_iff uint_wrap36)
  next
    case True
    then have P35: "P \<le> 2 ^ 35" using fit p by (simp add: fits36_def)
    note u = low_neg [OF m35]
    have neg: "- P mod 2 ^ 36 = 2 ^ 36 - P"
      using P P35 by (simp add: zmod_zminus1_eq_if)
    show ?thesis
    proof (cases "P = 2 ^ 35")
      case True
      then have z: "m = 0" using m by (simp add: word_uint_eq_iff)
      then show ?thesis
        using \<open>f\<close> True p neg unfolding r z by (simp add: word_uint_eq_iff uint_wrap36)
    next
      case False
      then have mP: "uint m = P" using P P35 m by simp
      then have "uint ((m XOR CMASK) + 1) < 2 ^ 35" using u P by simp
      from or_smask [OF this] show ?thesis
        using \<open>f\<close> p neg u mP by (simp add: r word_uint_eq_iff uint_wrap36)
    qed
  qed
qed

definition mul_long :: "bool \<Rightarrow> u64 \<Rightarrow> u64 \<Rightarrow> u64 \<times> u64" where
  \<comment> \<open>the sign correction of MUL on the magnitude \<open>H, m\<close>\<close>
  "mul_long f H m =
     (let (ar, mq) =
        (if f then
           (let ar = H XOR FMASK;
                mq = (m XOR CMASK) + 1
            in if tst mq SMASK then (ar + 1, mq AND CMASK) else (ar, mq))
         else (H, m));
          ar = ar AND FMASK
      in (ar, clr_bits mq SMASK OR (ar AND SMASK)))"

lemma mul_of_long:
  assumes "wf36 a" "wf36 b" "sval a \<noteq> 0" "sval b \<noteq> 0"
  defines "H \<equiv> fst (mul_mag (abs36 a) (abs36 b))" and "m \<equiv> snd (mul_mag (abs36 a) (abs36 b))"
    and "f \<equiv> tst a SMASK \<noteq> tst b SMASK"
  shows "mul_of False a b s =
    (fst (mul_long f H m), snd (mul_long f H m),
     or_flags (tst H SMASK \<and> \<not> pi_cycle s) (OVR OR TRP1) s)"
proof -
  have "\<not> (abs36 a = 0 \<or> abs36 b = 0)" using assms(1-4) abs36_zero by blast
  then show ?thesis
    unfolding mul_of_def mul_long_def Let_def case_prod_unfold H_def m_def f_def
    by (simp only: if_False fst_conv snd_conv)
qed

lemma clr_low: "uint m < 2 ^ 35 \<Longrightarrow> clr_bits m SMASK = m" for m :: u64
  using uint_less_bits [of m 35] by (intro bit_word_eqI) (auto simp: bit_clr_bits bit_single)

lemma clr_smask: "x AND SMASK = SMASK \<Longrightarrow> uint m < 2 ^ 35 \<Longrightarrow>
    uint (clr_bits m SMASK OR (x AND SMASK)) = uint m + 2 ^ 35" for x m :: u64
  by (simp add: clr_low or_smask)

definition long_is :: "u64 \<times> u64 \<Rightarrow> int \<Rightarrow> bool" where
  \<comment> \<open>a double-length number: high word, and low word with the sign repeated\<close>
  "long_is r i \<longleftrightarrow> wf36 (fst r) \<and> wf36 (snd r) \<and> bit (snd r) 35 = bit (fst r) 35
     \<and> sval (fst r) * 2 ^ 35 + uint (snd r) mod 2 ^ 35 = i"

lemma low_bit35: "uint m < 2 ^ 35 \<Longrightarrow> \<not> bit m 35" for m :: u64
  using uint_less_bits [of m 35] by blast

lemma mul_long_pos:
  assumes H: "uint H < 2 ^ 35" and m: "uint m < 2 ^ 35"
  shows "long_is (mul_long False H m) (uint H * 2 ^ 35 + uint m)"
proof -
  have "H AND FMASK = H" using H by (simp add: word_uint_eq_iff uint_fmask)
  then have "mul_long False H m = (H, m)"
    using low_bit35 [OF H] by (simp add: mul_long_def and_smask clr_low [OF m])
  then show ?thesis
    using H m low_bit35 [OF H] low_bit35 [OF m] by (simp add: long_is_def wf36_uint sval_nonneg)
qed

lemma mul_long_neg0:
  assumes H: "uint H < 2 ^ 35" "H \<noteq> 0"
  shows "long_is (mul_long True H 0) (- (uint H * 2 ^ 35))"
proof -
  have wH: "wf36 H" using H by (simp add: wf36_uint)
  have pos: "0 < uint H" using H(2) uint_ge_0 [of H] by (simp add: less_le uint_0_iff)
  have cH: "H XOR FMASK = CM H" by (simp add: CM_def xor.commute)
  have Hs: "H \<noteq> SMASK" using H by auto
  have nH: "sval (neg36 H) = - uint H"
    using sval_neg36 [OF wH Hs] sval_nonneg [OF low_bit35 [OF H(1)]] by simp
  have wn: "wf36 (neg36 H)" by (simp add: neg36_def wf36_mask)
  have bn: "bit (neg36 H) 35" using sval_neg_iff [OF wn] nH pos by simp
  have "((0 :: u64) XOR CMASK) + 1 = SMASK" "tst SMASK SMASK" "SMASK AND CMASK = 0"
    by (simp_all add: tst_def)
  then have "mul_long True H 0 = (neg36 H, SMASK)"
    using bn unfolding mul_long_def Let_def cH
    by (simp add: neg36_def [symmetric] and_smask clr_bits_def)
  then show ?thesis
    using wn bn nH by (simp add: long_is_def wf36_const bit_single)
qed

lemma neg_mod35: "0 < x \<Longrightarrow> x < 2 ^ 35 \<Longrightarrow> (2 ^ 36 - x) mod 2 ^ 35 = 2 ^ 35 - (x :: int)"
  using mod_mult_self1 [of "2 ^ 35 - x" 1 "2 ^ 35"] by (simp add: zmod_zminus1_eq_if)

lemma mul_long_neg:
  assumes H: "uint H < 2 ^ 35" and m: "uint m < 2 ^ 35" "m \<noteq> 0"
  shows "long_is (mul_long True H m) (- (uint H * 2 ^ 35 + uint m))"
proof -
  define k where "k = (m XOR CMASK) + 1"
  have wH: "wf36 H" using H by (simp add: wf36_uint)
  have mpos: "0 < uint m" using m(2) uint_ge_0 [of m] by (simp add: less_le uint_0_iff)
  have ku: "uint k = 2 ^ 35 - uint m" unfolding k_def by (rule low_neg [OF m(1)])
  then have kl: "uint k < 2 ^ 35" using mpos by simp
  have cH: "H XOR FMASK = CM H" by (simp add: CM_def xor.commute)
  have cf: "CM H AND FMASK = CM H" using wf36_CM [OF wH] by (simp add: wf36_take mask_simps)
  have sH: "sval (CM H) = - 1 - uint H"
    using sval_CM [OF wH] sval_nonneg [OF low_bit35 [OF H]] by simp
  have "sval (CM H) < 0" unfolding sH using uint_ge_0 [of H] by linarith
  then have bH: "bit (CM H) 35" by (simp only: sval_neg_iff [OF wf36_CM [OF wH]])
  have s: "CM H AND SMASK = SMASK" using bH by (simp add: and_smask)
  have r: "mul_long True H m = (CM H, clr_bits k SMASK OR (CM H AND SMASK))"
    using low_bit35 [OF kl] unfolding mul_long_def Let_def k_def [symmetric] cH
    by (simp add: tst_simps cf)
  define l where "l = clr_bits k SMASK OR (CM H AND SMASK)"
  have u: "uint l = 2 ^ 36 - uint m"
    unfolding l_def clr_smask [OF s kl] ku by simp
  have w2: "wf36 l" using u mpos by (simp add: wf36_uint)
  have b2: "bit l 35" using sign_iff [OF w2] u m by simp
  have md: "uint l mod 2 ^ 35 = 2 ^ 35 - uint m"
    unfolding u by (rule neg_mod35 [OF mpos m(1)])
  show ?thesis
    unfolding r l_def [symmetric] long_is_def fst_conv snd_conv md sH
    using w2 b2 bH wf36_CM [OF wH] by simp
qed

text \<open>MUL: the exact double-length product, except for the square of the most negative number.\<close>

lemma mul_long_product:
  assumes w: "wf36 a" "wf36 b" and nov: "\<not> (a = SMASK \<and> b = SMASK)"
  shows "long_is (fst (mul_of False a b s), fst (snd (mul_of False a b s))) (sval a * sval b)"
    "snd (snd (mul_of False a b s)) = s"
proof -
  have "long_is (fst (mul_of False a b s), fst (snd (mul_of False a b s))) (sval a * sval b)
    \<and> snd (snd (mul_of False a b s)) = s"
  proof (cases "sval a = 0 \<or> sval b = 0")
    case True
    then have z: "sval a * sval b = 0" by auto
    show ?thesis
      unfolding mul_of_zero [OF w True] z by (simp add: long_is_def wf36_const sval_def)
  next
    case False
    define H m f where "H = fst (mul_mag (abs36 a) (abs36 b))"
      and "m = snd (mul_mag (abs36 a) (abs36 b))" and "f = (tst a SMASK \<noteq> tst b SMASK)"
    define P where "P = \<bar>sval a * sval b\<bar>"
    have H: "uint H = P div 2 ^ 35" and m: "uint m = P mod 2 ^ 35"
      unfolding H_def m_def P_def by (rule prod_split [OF w])+
    have r: "mul_of False a b s = (fst (mul_long f H m), snd (mul_long f H m),
       or_flags (tst H SMASK \<and> \<not> pi_cycle s) (OVR OR TRP1) s)"
      unfolding H_def m_def f_def using mul_of_long [OF w] False by blast
    have pos: "0 < P" using False by (simp add: P_def)
    have split: "P = uint H * 2 ^ 35 + uint m" by (simp add: H m)
    have m35: "uint m < 2 ^ 35" by (simp add: m)
    have "P < 2 ^ 70"
    proof -
      have r: "\<bar>sval a\<bar> \<le> 2 ^ 35" "\<bar>sval b\<bar> \<le> 2 ^ 35"
        using sval_range [OF w(1)] sval_range [OF w(2)] by (simp_all add: abs_le_iff)
      have "\<bar>sval a\<bar> < 2 ^ 35 \<or> \<bar>sval b\<bar> < 2 ^ 35"
      proof (rule ccontr)
        assume "\<not> ?thesis"
        then have "\<bar>sval a\<bar> = 2 ^ 35" "\<bar>sval b\<bar> = 2 ^ 35" using r by linarith+
        then have "sval a = - (2 ^ 35)" "sval b = - (2 ^ 35)"
          using sval_range [OF w(1)] sval_range [OF w(2)] by (auto simp: abs_if split: if_splits)
        then show False using nov w sval_smask sval_inj wf36_const(6) by metis
      qed
      then have "\<bar>sval a\<bar> * \<bar>sval b\<bar> < 2 ^ 35 * 2 ^ 35"
        using r False mult_less_le_imp_less [of "\<bar>sval a\<bar>" "2 ^ 35" "\<bar>sval b\<bar>" "2 ^ 35"]
          mult_le_less_imp_less [of "\<bar>sval a\<bar>" "2 ^ 35" "\<bar>sval b\<bar>" "2 ^ 35"]
        by auto
      then show ?thesis by (simp add: P_def abs_mult)
    qed
    then have H35: "uint H < 2 ^ 35"
      using le_div_pow [of "2 ^ 35" P 35] unfolding H by (simp add: not_le [symmetric])
    have p: "sval a * sval b = (if f then - P else P)"
      using sign_abs [OF w] False by (simp add: P_def f_def abs_mult)
    have "long_is (mul_long f H m) (if f then - P else P)"
    proof (cases f)
      case False
      then show ?thesis using mul_long_pos [OF H35 m35] by (simp add: split)
    next
      case True
      show ?thesis
      proof (cases "m = 0")
        case True
        then have "H \<noteq> 0" using pos split by auto
        then show ?thesis using mul_long_neg0 [OF H35] \<open>f\<close> True split by simp
      next
        case False
        then show ?thesis using mul_long_neg [OF H35 m35 False] \<open>f\<close> split by simp
      qed
    qed
    moreover have "\<not> tst H SMASK" using low_bit35 [OF H35] by (simp add: tst_simps)
    ultimately show ?thesis unfolding r p by (simp add: or_flags_def)
  qed
  then show "long_is (fst (mul_of False a b s), fst (snd (mul_of False a b s))) (sval a * sval b)"
    "snd (snd (mul_of False a b s)) = s" by blast+
qed

section \<open>Integer division is truncated division\<close>

lemma neg_if:
  assumes "uint x < 2 ^ 35"
  shows "sval (if c then neg36 x else x) = (if c then - uint x else uint x)"
    "wf36 (if c then neg36 x else x)"
proof -
  have w: "wf36 x" "x \<noteq> SMASK" using assms by (auto simp: wf36_uint)
  show "sval (if c then neg36 x else x) = (if c then - uint x else uint x)"
    using sval_neg36 [OF w] sval_nonneg [OF low_bit35 [OF assms]] by simp
  show "wf36 (if c then neg36 x else x)" using w by (simp add: neg36_def wf36_mask)
qed

lemma uint_div64: "uint (x div y) = uint x div uint y" "uint (x mod y) = uint x mod uint y" for x y :: u64
  by (simp_all add: uint_div_distrib uint_mod_distrib)

lemma abs36_one: "wf36 b \<Longrightarrow> abs36 b = 1 \<longleftrightarrow> \<bar>sval b\<bar> = 1"
  using uint_abs36 [of b] by (simp add: word_uint_eq_iff)

lemma smask_iff: "wf36 a \<Longrightarrow> a = SMASK \<longleftrightarrow> sval a = - (2 ^ 35)"
  using sval_smask sval_inj [OF _ wf36_const(6)] by metis

text \<open>
  IDIV: the quotient truncated toward zero and the remainder with the sign of the dividend;
  no divide exactly for a zero divisor, and for the most negative dividend with divisor plus
  or minus one.
\<close>

lemma idiv_of_none:
  assumes w: "wf36 a" "wf36 b"
  shows "idiv_of a b = None \<longleftrightarrow> sval b = 0 \<or> sval a = - (2 ^ 35) \<and> \<bar>sval b\<bar> = 1"
  unfolding idiv_of_def Let_def abs36_zero [OF w(2)] abs36_one [OF w(2)] smask_iff [OF w(1)]
  by (simp only: option.distinct split: if_splits) blast

lemma sgn_quot:
  "a \<noteq> 0 \<Longrightarrow> b \<noteq> 0 \<Longrightarrow> a sdiv b = (if (a < 0) \<noteq> (b < 0) then - (\<bar>a\<bar> div \<bar>b\<bar>) else \<bar>a\<bar> div \<bar>b\<bar>)"
  "a smod b = (if a < 0 then - (\<bar>a\<bar> mod \<bar>b\<bar>) else \<bar>a\<bar> mod \<bar>b\<bar>)" for a b :: int
  by (auto simp: signed_divide_int_def signed_modulo_int_def sgn_if)

lemma idiv_of_some:
  assumes w: "wf36 a" "wf36 b" and some: "idiv_of a b = Some (q, r)"
  shows "sval q = sval a sdiv sval b \<and> sval r = sval a smod sval b \<and> wf36 q \<and> wf36 r"
proof -
  define x y where "x = abs36 a" and "y = abs36 b"
  define f where "f = (tst b SMASK \<noteq> tst a SMASK)"
  have nn: "sval b \<noteq> 0" "\<not> (sval a = - (2 ^ 35) \<and> \<bar>sval b\<bar> = 1)"
    using some idiv_of_none [OF w] by auto
  have qr: "q = (if f then neg36 (x div y) else x div y)"
      "r = (if tst a SMASK then neg36 (x mod y) else x mod y)"
    using some unfolding idiv_of_def Let_def x_def y_def f_def by (auto split: if_splits)
  have u: "uint (x div y) = \<bar>sval a\<bar> div \<bar>sval b\<bar>" "uint (x mod y) = \<bar>sval a\<bar> mod \<bar>sval b\<bar>"
    unfolding x_def y_def uint_div64 uint_abs36 [OF w(1)] uint_abs36 [OF w(2)] by (rule refl)+
  have ra: "\<bar>sval a\<bar> \<le> 2 ^ 35" "\<bar>sval b\<bar> \<le> 2 ^ 35" "0 < \<bar>sval b\<bar>"
    using sval_range [OF w(1)] sval_range [OF w(2)] nn by (simp_all add: abs_le_iff)
  have rb: "uint (x mod y) < 2 ^ 35"
    unfolding u using pos_mod_bound [OF ra(3), of "\<bar>sval a\<bar>"] ra(2) by linarith
  have qb: "uint (x div y) < 2 ^ 35"
  proof (cases "\<bar>sval b\<bar> = 1")
    case True
    then have "\<bar>sval a\<bar> \<noteq> 2 ^ 35" using nn sval_range [OF w(1)] by (auto simp: abs_if split: if_splits)
    then show ?thesis unfolding u True using ra(1) by simp
  next
    case False
    then have "\<bar>sval a\<bar> div \<bar>sval b\<bar> \<le> \<bar>sval a\<bar> div 2" using ra by (intro zdiv_mono2) auto
    also have "\<dots> \<le> 2 ^ 35 div 2" using ra(1) by (rule zdiv_mono1) simp
    finally show ?thesis unfolding u by simp
  qed
  have sg: "tst a SMASK \<longleftrightarrow> sval a < 0" "tst b SMASK \<longleftrightarrow> sval b < 0"
    using sval_neg_iff w by (simp_all add: tst_simps)
  have "sval q = sval a sdiv sval b"
  proof (cases "sval a = 0")
    case True
    then show ?thesis using neg_if(1) [OF qb, of f] unfolding qr u by (simp add: signed_divide_int_def)
  next
    case False
    then show ?thesis
      unfolding qr neg_if(1) [OF qb] sgn_quot(1) [OF False nn(1)] u f_def sg by auto
  qed
  moreover have "sval r = sval a smod sval b"
    unfolding qr neg_if(1) [OF rb] sgn_quot(2) u sg ..
  ultimately show ?thesis unfolding qr using neg_if(2) [OF qb] neg_if(2) [OF rb] by blast
qed

end
