(* ===== verification/Long_Div.thy ===== *)
theory Long_Div
  imports Mul_Div
begin

text \<open>
  The correctness of DIV, the nonrestoring division of \<open>PDP10/kx10_cpu.c\<close>
  (\<open>div_of\<close> of the theory Mul_Div): 35 passes of its loop divide a 70-bit dividend
  exactly. The loop invariant relates the partial remainder, which may be negative, to the
  quotient bits already shifted into \<open>MQ\<close>.
\<close>

unbundle bit_operations_syntax

section \<open>Words that hold an integer modulo \<open>2 ^ 36\<close>\<close>

definition holds36 :: "u64 \<Rightarrow> int \<Rightarrow> bool" where
  \<comment> \<open>the low 36 bits of \<open>x\<close> are those of \<open>i\<close>; the bits above are free\<close>
  "holds36 x i \<longleftrightarrow> x AND FMASK = wrap36 i"

lemma holds36_iff: "holds36 x i \<longleftrightarrow> uint x mod 2 ^ 36 = i mod 2 ^ 36"
  by (simp only: holds36_def fmask_wrap word_uint_eq_iff uint_wrap36)

lemma holds36_uint: "holds36 x (uint x)"
  by (simp add: holds36_iff)

lemma holds36_sval: "wf36 x \<Longrightarrow> holds36 x (sval x)"
  unfolding holds36_iff by (simp only: sval_mod) (simp add: wf36_uint)

lemma holds36_wrap: "holds36 (wrap36 i) i"
  by (simp only: holds36_iff uint_wrap36 mod_mod_trivial)

lemma holds36_mask: "holds36 (x AND FMASK) i \<longleftrightarrow> holds36 x i"
  by (simp only: holds36_iff uint_fmask mod_mod_trivial)

lemma uint_add_mod: "uint (x + y) mod 2 ^ 36 = (uint x + uint y) mod 2 ^ 36" for x y :: u64
  by (simp only: uint_word_ariths) (rule mod_mod_cancel, simp)

lemma holds36_add: "holds36 x i \<Longrightarrow> holds36 y j \<Longrightarrow> holds36 (x + y) (i + j)"
  unfolding holds36_iff uint_add_mod by (rule mod_add_cong)

lemma holds36_neg: "wf36 x \<Longrightarrow> holds36 (CM x + 1) (- sval x)"
  using neg36_wrap by (simp add: holds36_def neg36_def)

lemma holds36_cong: "holds36 x i \<Longrightarrow> i = j \<Longrightarrow> holds36 x j"
  by simp

lemma holds36_unique: "holds36 x i \<Longrightarrow> x AND FMASK = wrap36 i"
  by (simp add: holds36_def)

lemma holds36_sign: "holds36 x i \<Longrightarrow> fits36 i \<Longrightarrow> tst x SMASK \<longleftrightarrow> i < 0"
proof -
  assume h: "holds36 x i" and f: "fits36 i"
  have "tst x SMASK \<longleftrightarrow> bit (x AND FMASK) 35" by (simp add: tst_simps bit_and_iff)
  also have "\<dots> \<longleftrightarrow> sval (wrap36 i) < 0"
    unfolding holds36_unique [OF h] by (rule sval_neg_iff [OF wf36_wrap, symmetric])
  finally show ?thesis by (simp only: sval_wrap36 [OF f])
qed

section \<open>One step\<close>

definition by_sign :: "bool \<Rightarrow> int \<Rightarrow> int" where
  \<comment> \<open>subtract after a quotient bit 1, add after a 0\<close>
  "by_sign l D = (if l then - D else D)"

lemma div_step_holds:
  assumes "wf36 BRv" and "holds36 ar i"
  shows "holds36 (div_step BRv ar mq) (i + by_sign (tst mq 1) \<bar>sval BRv\<bar>)"
proof -
  have n: "tst BRv SMASK \<longleftrightarrow> sval BRv < 0"
    using sval_neg_iff [OF assms(1)] by (simp add: tst_simps)
  have p: "holds36 (ar + BRv) (i + sval BRv)"
    by (rule holds36_add [OF assms(2) holds36_sval [OF assms(1)]])
  have m: "holds36 (ar + CM BRv + 1) (i - sval BRv)"
    using holds36_add [OF assms(2) holds36_neg [OF assms(1)]] by (simp add: add.assoc)
  show ?thesis
    unfolding div_step_def n by_sign_def
    using p m by (cases "sval BRv < 0"; cases "tst mq 1") simp_all
qed

lemma tst_one: "tst (x :: u64) 1 \<longleftrightarrow> odd (uint x)"
  using tst_exp [of x 0] bit_uint_iff [of x 0] by (simp add: bit_0)

lemma or_low_bit: "\<not> bit x 0 \<Longrightarrow> x OR (if c then 1 else 0) = x + of_bool c" for x :: u64
proof -
  assume "\<not> bit x 0"
  then have "x AND 1 = 0" by (intro bit_word_eqI) (metis bit_0_eq bit_1_iff bit_and_iff bot_apply bot_bool_def)
  then show ?thesis by (cases c) (simp_all add: disjunctive_add_eq_or)
qed

lemma shift_in_ar:
  assumes "holds36 ad A"
  shows "holds36 (push_bit 1 ad OR (if c then 1 else 0)) (2 * A + of_bool c)"
proof -
  define x where "x = push_bit 1 ad"
  have "\<not> bit x 0" unfolding x_def bit_push_bit_iff by simp
  then have e: "x OR (if c then 1 else 0) = x + of_bool c" by (rule or_low_bit)
  have x: "x = ad + ad" by (simp add: x_def push_bit_eq_mult)
  have "holds36 x (2 * A)" using holds36_add [OF assms assms] unfolding x by (simp only: mult_2)
  moreover have "holds36 (of_bool c) (of_bool c)"
    using holds36_uint [of "of_bool c"] by (cases c) simp_all
  ultimately show ?thesis unfolding x_def [symmetric] e by (rule holds36_add)
qed

lemma shift_in_mq:
  fixes r c k t :: int
  assumes mq: "uint mq = (of_bool b * p + r) * c + t" and p: "p * c = 2 ^ 35"
    and r: "0 \<le> r" "r < p" and t: "0 \<le> t" "t < c"
  shows "tst mq SMASK \<longleftrightarrow> b"
    and "uint (set_if q 1 (push_bit 1 mq AND FMASK)) = r * (2 * c) + (2 * t + of_bool q)"
proof -
  define l where "l = r * c + t"
  have "r * c \<le> (p - 1) * c" using r t by (intro mult_right_mono) linarith+
  then have l: "0 \<le> l" "l < 2 ^ 35" using p r t by (simp_all add: l_def algebra_simps)
  have mq: "uint mq = of_bool b * 2 ^ 35 + l" using mq p by (simp add: l_def algebra_simps)
  then have w: "uint mq < 2 ^ 36" using l by (cases b) simp_all
  then show "tst mq SMASK \<longleftrightarrow> b"
    using l mq by (simp add: tst_sign35)
  have "uint (push_bit 1 mq) = uint mq * 2 ^ 1" using w by (intro uint_push64) simp
  then have "uint (push_bit 1 mq AND FMASK) = (2 * l + of_bool b * 2 ^ 36) mod 2 ^ 36"
    using mq by (simp add: uint_fmask mult.commute add.commute)
  also have "\<dots> = 2 * l mod 2 ^ 36" by (rule mod_mult_self1)
  also have "\<dots> = 2 * l" using l by simp
  finally have u: "uint (push_bit 1 mq AND FMASK) = 2 * l" .
  then have "\<not> bit (push_bit 1 mq AND FMASK) 0"
    using tst_one [of "push_bit 1 mq AND FMASK"] tst_exp [of "push_bit 1 mq AND FMASK" 0]
    by (simp only: power_0) simp
  then have "set_if q 1 (push_bit 1 mq AND FMASK) = (push_bit 1 mq AND FMASK) + of_bool q"
    using or_low_bit [of _ True] by (cases q) (simp_all only: set_if_simps if_True of_bool_eq add_0_right)
  moreover have "uint (push_bit 1 mq AND FMASK) + uint (of_bool q :: u64) < 2 ^ 64"
    unfolding u using l by (cases q) simp_all
  ultimately have "uint (set_if q 1 (push_bit 1 mq AND FMASK)) = 2 * l + of_bool q"
    by (simp only: uint_add64 u) simp
  then show "uint (set_if q 1 (push_bit 1 mq AND FMASK)) = r * (2 * c) + (2 * t + of_bool q)"
    by (simp add: l_def algebra_simps)
qed

section \<open>The loop\<close>

definition div_inv :: "int \<Rightarrow> nat \<Rightarrow> int \<Rightarrow> u64 \<Rightarrow> u64 \<Rightarrow> int \<Rightarrow> int \<Rightarrow> int \<Rightarrow> bool" where
  \<comment> \<open>\<open>n\<close> passes to go, \<open>c = 2 ^ (36 - n)\<close>: \<open>MQ\<close> holds the dividend bits
      \<open>r\<close> above the marker and quotient bits \<open>t\<close>; the next difference is \<open>A\<close>\<close>
  "div_inv D n c ar mq r t A \<longleftrightarrow>
     2 ^ n * c = 2 ^ 36 \<and> uint mq = r * c + t \<and> 0 \<le> r \<and> r < 2 ^ n \<and> 0 \<le> t \<and> t < c
     \<and> - D \<le> A \<and> A < D \<and> holds36 ar (A - by_sign (odd t) D)"

lemma div_inv_odd: "div_inv D n c ar mq r t A \<Longrightarrow> n \<le> 35 \<Longrightarrow> tst mq 1 \<longleftrightarrow> odd t"
proof -
  assume i: "div_inv D n c ar mq r t A" and "n \<le> 35"
  then have "2 ^ n * c = 2 ^ n * 2 ^ (36 - n)"
    by (simp add: div_inv_def flip: power_add)
  then have "c = 2 ^ (36 - n)" by simp
  then have "even c" using \<open>n \<le> 35\<close> by simp
  then show ?thesis using i by (simp add: tst_one div_inv_def)
qed

lemma div_diff:
  assumes "wf36 BRv" and "div_inv \<bar>sval BRv\<bar> n c ar mq r t A" and "n \<le> 35"
  shows "holds36 (div_step BRv ar mq) A" "fits36 A"
proof -
  have "holds36 ar (A - by_sign (odd t) \<bar>sval BRv\<bar>)" using assms(2) by (simp add: div_inv_def)
  from div_step_holds [OF assms(1) this, of mq]
  show "holds36 (div_step BRv ar mq) A"
    using div_inv_odd [OF assms(2,3)] by simp
  show "fits36 A"
    using assms(2) sval_range [OF assms(1)] by (auto simp: div_inv_def fits36_def)
qed

lemma div_inv_step:
  assumes w: "wf36 BRv" and i: "div_inv \<bar>sval BRv\<bar> (Suc n) c ar mq r t A" and n: "Suc n \<le> 35"
  defines "ad \<equiv> div_step BRv ar mq"
  defines "ar' \<equiv> (push_bit 1 ad OR (if tst mq SMASK then 1 else 0)) AND FMASK"
    and "mq' \<equiv> set_if (\<not> tst ad SMASK) 1 (push_bit 1 mq AND FMASK)"
  shows "\<exists>r' t' A'. div_inv \<bar>sval BRv\<bar> n (2 * c) ar' mq' r' t' A'
    \<and> (A' + \<bar>sval BRv\<bar> * (2 * t' + 1)) * 2 ^ n + r'
      = (A + \<bar>sval BRv\<bar> * (2 * t + 1)) * 2 ^ Suc n + r"
proof -
  define D where "D = \<bar>sval BRv\<bar>"
  define b where "b \<longleftrightarrow> 2 ^ n \<le> r"
  define r' where "r' = r - of_bool b * 2 ^ n"
  define q where "q \<longleftrightarrow> 0 \<le> A"
  define A' where "A' = 2 * A + of_bool b + by_sign q D"
  have ad: "holds36 ad A" and sg: "tst ad SMASK \<longleftrightarrow> A < 0"
    using div_diff [OF w i n] holds36_sign by (simp_all add: ad_def)
  have i': "2 ^ Suc n * c = 2 ^ 36" "uint mq = r * c + t" "0 \<le> r" "r < 2 ^ Suc n" "0 \<le> t" "t < c"
      "- D \<le> A" "A < D"
    using i by (simp_all add: div_inv_def D_def)
  have r': "0 \<le> r'" "r' < 2 ^ n" using i'(3,4) by (auto simp: r'_def b_def)
  have p: "2 ^ n * c = 2 ^ 35" using i'(1) by (simp add: mult.commute)
  have "uint mq = (of_bool b * 2 ^ n + r') * c + t" using i'(2) by (simp add: r'_def)
  note mq = shift_in_mq [OF this p r' i'(5,6)]
  have "holds36 ar' (2 * A + of_bool b)"
    unfolding ar'_def holds36_mask mq(1) by (rule shift_in_ar [OF ad])
  then have ar': "holds36 ar' (A' - by_sign (odd (2 * t + of_bool q)) D)"
    by (simp add: A'_def)
  have A': "- D \<le> A'" "A' < D" using i'(7,8) by (auto simp: A'_def by_sign_def q_def)
  have "uint mq' = r' * (2 * c) + (2 * t + of_bool q)"
    unfolding mq'_def sg using mq(2) [of "\<not> A < 0"] by (simp add: q_def not_less)
  then have "div_inv D n (2 * c) ar' mq' r' (2 * t + of_bool q) A'"
    unfolding div_inv_def using p r' i'(5,6) A' ar' by (simp add: mult.commute [of c])
  moreover have "(A' + D * (2 * (2 * t + of_bool q) + 1)) * 2 ^ n + r'
      = (A + D * (2 * t + 1)) * 2 ^ Suc n + r"
  proof -
    define V where "V = A + D * (2 * t + 1)"
    have "A' + D * (2 * (2 * t + of_bool q) + 1) = 2 * V + of_bool b"
      by (cases q) (simp_all add: V_def A'_def by_sign_def algebra_simps)
    then show ?thesis unfolding V_def [symmetric] by (simp add: r'_def algebra_simps)
  qed
  ultimately show ?thesis unfolding D_def by blast
qed

lemma div_loop_inv:
  assumes w: "wf36 BRv"
  shows "div_inv \<bar>sval BRv\<bar> n c ar mq r t A \<Longrightarrow> n \<le> 35 \<Longrightarrow>
    \<exists>r' t' A'. div_inv \<bar>sval BRv\<bar> 0 (2 ^ 36) (fst (div_loop n BRv ar mq)) (snd (div_loop n BRv ar mq)) r' t' A'
      \<and> A' + \<bar>sval BRv\<bar> * (2 * t' + 1) = (A + \<bar>sval BRv\<bar> * (2 * t + 1)) * 2 ^ n + r"
proof (induction n arbitrary: c ar mq r t A)
  case 0
  then have "c = 2 ^ 36" "r = 0" by (auto simp: div_inv_def)
  then show ?case using 0 by (intro exI [of _ r] exI [of _ t] exI [of _ A]) simp
next
  case (Suc n)
  from div_inv_step [OF w Suc.prems] obtain r1 t1 A1 where
    s: "div_inv \<bar>sval BRv\<bar> n (2 * c)
        ((push_bit 1 (div_step BRv ar mq) OR (if tst mq SMASK then 1 else 0)) AND FMASK)
        (set_if (\<not> tst (div_step BRv ar mq) SMASK) 1 (push_bit 1 mq AND FMASK)) r1 t1 A1"
    and e: "(A1 + \<bar>sval BRv\<bar> * (2 * t1 + 1)) * 2 ^ n + r1
      = (A + \<bar>sval BRv\<bar> * (2 * t + 1)) * 2 ^ Suc n + r"
    by blast
  from Suc.IH [OF s] Suc.prems(2) show ?case unfolding e [symmetric] by (simp add: Let_def)
qed

section \<open>The division\<close>

definition long_value :: "u64 \<Rightarrow> u64 \<Rightarrow> int" where
  \<comment> \<open>the 70-bit dividend: the sign bit of the low word is ignored\<close>
  "long_value hi lo = sval hi * 2 ^ 35 + uint lo mod 2 ^ 35"

lemma div_neg_value:
  assumes "wf36 hi" "wf36 lo" "sval hi < 0"
  defines "H \<equiv> uint (fst (div_neg hi lo))" and "m \<equiv> uint (snd (div_neg hi lo)) mod 2 ^ 35"
  shows "H * 2 ^ 35 + m = - long_value hi lo \<and> H \<le> 2 ^ 35"
proof -
  define u where "u = uint lo mod 2 ^ 35"
  have u: "0 \<le> u" "u < 2 ^ 35" by (simp_all add: u_def)
  have nl: "uint (neg36 lo) mod 2 ^ 35 = (- u) mod 2 ^ 35"
  proof -
    have "uint (neg36 lo) = (2 ^ 36 - uint lo) mod 2 ^ 36"
      by (simp only: neg36_def uint_fmask uint_CM1 assms(2))
    then have "uint (neg36 lo) mod 2 ^ 35 = (2 ^ 36 - uint lo) mod 2 ^ 35"
      by (simp only:) (rule mod_mod_cancel, simp)
    also have "\<dots> = (- uint lo + 2 * 2 ^ 35) mod 2 ^ 35" by simp
    also have "\<dots> = (- uint lo) mod 2 ^ 35" by (rule mod_mult_self1)
    also have "\<dots> = (- u) mod 2 ^ 35" unfolding u_def by (simp only: mod_minus_eq)
    finally show ?thesis .
  qed
  have z: "neg36 lo AND CMASK = 0 \<longleftrightarrow> u = 0"
    unfolding word_uint_eq_iff uint_cmask nl using u by (auto simp: zmod_zminus1_eq_if)
  have cm: "CM hi AND FMASK = CM hi"
    using wf36_CM [OF assms(1)] by (simp add: wf36_take mask_simps)
  have hb: "uint hi = sval hi + 2 ^ 36" "- (2 ^ 35) \<le> sval hi"
    using assms(1,3) sval_neg_iff [OF assms(1)] sval_range [OF assms(1)] by (simp_all add: sval_uint)
  have c: "uint (CM hi) = - 1 - sval hi" "uint (CM hi + 1) = - sval hi"
    unfolding uint_CM [OF assms(1)] uint_CM1 [OF assms(1)] hb(1) by simp_all
  show ?thesis
  proof (cases "u = 0")
    case True
    have "uint ((CM hi + 1) AND FMASK) = - sval hi"
      unfolding uint_fmask c using assms(3) hb(2) by (intro mod_pos_pos_trivial) simp_all
    then have "H = - sval hi" using z True cm by (simp add: H_def div_neg_def Let_def)
    moreover have "m = 0" using True nl by (simp add: m_def div_neg_def Let_def)
    ultimately show ?thesis
      using True hb(2) unfolding long_value_def u_def [symmetric] by simp
  next
    case False
    then have "H = - 1 - sval hi" using z cm c by (simp add: H_def div_neg_def Let_def)
    moreover have "m = 2 ^ 35 - u"
      using False u nl by (simp add: m_def div_neg_def Let_def zmod_zminus1_eq_if)
    ultimately show ?thesis
      using hb(2) unfolding long_value_def u_def [symmetric] by (simp add: algebra_simps)
  qed
qed

definition div_core :: "u64 \<Rightarrow> u64 \<Rightarrow> u64 \<Rightarrow> u64 \<times> u64" where
  \<comment> \<open>loop, last difference and correction of the remainder: remainder and quotient of
      magnitudes\<close>
  "div_core BRv ar mq =
     (let (ar, mq) = div_loop 35 BRv ar mq;
          ad = div_step BRv ar mq;
          ar = ad AND FMASK;
          mq = set_if (\<not> tst ad SMASK) 1 (push_bit 1 mq AND FMASK)
      in (if tst ar SMASK
          then (if tst BRv SMASK then ar + CM BRv + 1 else ar + BRv) AND FMASK
          else ar, mq))"

lemma div_of_core:
  "div_of ar0 mq0 br =
     (let flag1 = tst ar0 SMASK;
          ar = (if flag1 then fst (div_neg ar0 mq0) else ar0);
          mq = (if flag1 then snd (div_neg ar0 mq0) else mq0);
          ad = (if tst br SMASK then ar + br else ar + CM br + 1) AND FMASK;
          mq = set_if (tst ad SMASK) 1 (push_bit 1 mq AND FMASK)
      in if \<not> tst ad SMASK then None
         else let r = (if flag1 then neg36 (fst (div_core br ar mq)) else fst (div_core br ar mq));
                  q = snd (div_core br ar mq)
              in if flag1 \<noteq> tst br SMASK then Some (neg36 q, r) else Some (q, r))"
  unfolding div_of_def div_core_def Let_def case_prod_unfold by (simp cong: if_cong)

lemma div_core_value:
  assumes w: "wf36 BRv" and D: "D = \<bar>sval BRv\<bar>" and H: "0 \<le> H" "H < D" and Hw: "uint ar = H"
    and m: "0 \<le> m" "m < 2 ^ 35" and mq: "uint mq = 2 * m + 1"
  shows "uint (snd (div_core BRv ar mq)) = (H * 2 ^ 35 + m) div D"
    "uint (fst (div_core BRv ar mq)) = (H * 2 ^ 35 + m) mod D"
proof -
  have D35: "D \<le> 2 ^ 35" using sval_range [OF w] by (simp add: D abs_le_iff)
  have "holds36 ar (H - D - by_sign (odd (1 :: int)) D)"
    using holds36_uint [of ar] Hw by (simp add: by_sign_def)
  then have "div_inv D 35 2 ar mq m 1 (H - D)"
    using m mq H by (simp add: div_inv_def)
  from div_loop_inv [OF w this [unfolded D]] obtain r' t' A where
    i: "div_inv D 0 (2 ^ 36) (fst (div_loop 35 BRv ar mq)) (snd (div_loop 35 BRv ar mq)) r' t' A"
    and e: "A + D * (2 * t' + 1) = (H - D + D * 3) * 2 ^ 35 + m"
    by (auto simp: D)
  define a q0 where "a = fst (div_loop 35 BRv ar mq)" and "q0 = snd (div_loop 35 BRv ar mq)"
  define N where "N = H * 2 ^ 35 + m"
  have A: "- D \<le> A" "A < D" and q0: "uint q0 = t'" "0 \<le> t'" "t' < 2 ^ 36"
    using i by (auto simp: div_inv_def q0_def)
  note d = div_diff [OF w i [unfolded D]]
  have ad: "holds36 (div_step BRv a q0) A" "fits36 A" using d by (simp_all add: a_def q0_def)
  have sg: "tst (div_step BRv a q0) SMASK \<longleftrightarrow> A < 0" by (rule holds36_sign [OF ad])
  have arv: "div_step BRv a q0 AND FMASK = wrap36 A" by (rule holds36_unique [OF ad(1)])
  have sg2: "tst (wrap36 A) SMASK \<longleftrightarrow> A < 0" by (rule holds36_sign [OF holds36_wrap ad(2)])
  define Q where "Q = 2 * t' + of_bool (0 \<le> A) - 2 ^ 36"
  define R where "R = (if A < 0 then A + D else A)"
  have NQ: "N = D * Q + R"
    using e by (auto simp: N_def Q_def R_def algebra_simps)
  have R: "0 \<le> R" "R < D" using A by (auto simp: R_def)
  have QR: "N div D = Q" "N mod D = R"
    using R NQ by (auto intro!: int_div_pos_eq int_mod_pos_eq)
  have "N < D * 2 ^ 35"
  proof -
    have "N < (H + 1) * 2 ^ 35" using m by (simp add: N_def algebra_simps)
    also have "\<dots> \<le> D * 2 ^ 35" using H by (intro mult_right_mono) simp_all
    finally show ?thesis .
  qed
  moreover have "0 \<le> N" using H m by (simp add: N_def)
  ultimately have Q: "0 \<le> Q" "Q < 2 ^ 35"
  proof -
    assume N: "N < D * 2 ^ 35" "0 \<le> N"
    have "N div D < 2 ^ 35"
    proof (rule ccontr)
      assume "\<not> N div D < 2 ^ 35"
      then have "D * 2 ^ 35 \<le> D * (N div D)" using H by (intro mult_left_mono) simp_all
      also have "\<dots> \<le> N" using R NQ QR by simp
      finally show False using N by simp
    qed
    then show "0 \<le> Q" "Q < 2 ^ 35"
      unfolding QR(1) [symmetric] using H N by (simp_all add: pos_imp_zdiv_nonneg_iff)
  qed
  have qw: "snd (div_core BRv ar mq) = set_if (\<not> A < 0) 1 (push_bit 1 q0 AND FMASK)"
    unfolding div_core_def Let_def case_prod_unfold a_def [symmetric] q0_def [symmetric] sg by simp
  have rw: "fst (div_core BRv ar mq) = (if A < 0
      then (if tst BRv SMASK then wrap36 A + CM BRv + 1 else wrap36 A + BRv) AND FMASK
      else wrap36 A)"
    unfolding div_core_def Let_def case_prod_unfold a_def [symmetric] q0_def [symmetric] arv sg2
    by simp
  have t35: "2 ^ 35 \<le> t'" using Q(1) by (cases "0 \<le> A") (auto simp: Q_def)
  have "uint q0 = (of_bool True * 1 + 0) * 2 ^ 35 + (t' - 2 ^ 35)" using q0 by simp
  from shift_in_mq(2) [OF this, of "\<not> A < 0"] t35 q0(3)
  have "uint (snd (div_core BRv ar mq)) = 2 * (t' - 2 ^ 35) + of_bool (\<not> A < 0)"
    unfolding qw by simp
  also have "\<dots> = Q" by (simp add: Q_def not_less)
  finally show "uint (snd (div_core BRv ar mq)) = (H * 2 ^ 35 + m) div D"
    unfolding N_def [symmetric] QR .
  have n: "tst BRv SMASK \<longleftrightarrow> sval BRv < 0"
    using sval_neg_iff [OF w] by (simp add: tst_simps)
  have "holds36 (if tst BRv SMASK then wrap36 A + CM BRv + 1 else wrap36 A + BRv) (A + D)"
    unfolding n D
    using holds36_add [OF holds36_wrap holds36_neg [OF w], of A]
      holds36_add [OF holds36_wrap holds36_sval [OF w], of A]
    by (cases "sval BRv < 0") (simp_all add: add.assoc)
  from holds36_unique [OF this] have "fst (div_core BRv ar mq) = wrap36 R"
    unfolding rw R_def by simp
  then have "uint (fst (div_core BRv ar mq)) = R mod 2 ^ 36" by (simp only: uint_wrap36)
  also have "\<dots> = R" using R D35 by simp
  finally show "uint (fst (div_core BRv ar mq)) = (H * 2 ^ 35 + m) mod D"
    unfolding N_def [symmetric] QR .
qed

text \<open>
  DIV: when the quotient fits, the exact truncated quotient and the remainder with the sign
  of the dividend; otherwise no divide. One case the code misses: a divisor of zero under the
  dividend \<open>- 2 ^ 70\<close>.
\<close>

lemma div_of_spec:
  assumes w: "wf36 hi" "wf36 lo" "wf36 br"
    and corner: "sval br \<noteq> 0 \<or> long_value hi lo \<noteq> - (2 ^ 70)"
  shows "if \<bar>sval br\<bar> * 2 ^ 35 \<le> \<bar>long_value hi lo\<bar> then div_of hi lo br = None
    else \<exists>q r. div_of hi lo br = Some (q, r) \<and> wf36 q \<and> wf36 r
      \<and> sval q = long_value hi lo sdiv sval br \<and> sval r = long_value hi lo smod sval br"
proof -
  define N D where "N = long_value hi lo" and "D = \<bar>sval br\<bar>"
  define f where "f \<longleftrightarrow> tst hi SMASK"
  define ar mq where "ar = (if f then fst (div_neg hi lo) else hi)"
    and "mq = (if f then snd (div_neg hi lo) else lo)"
  define H m where "H = uint ar" and "m = uint mq mod 2 ^ 35"
  have fs: "f \<longleftrightarrow> sval hi < 0" using sval_neg_iff [OF w(1)] by (simp add: f_def tst_simps)
  have m: "0 \<le> m" "m < 2 ^ 35" by (simp_all add: m_def)
  have HN: "H * 2 ^ 35 + m = (if f then - N else N) \<and> H \<le> 2 ^ 35"
  proof (cases f)
    case True
    then show ?thesis
      using div_neg_value [OF w(1,2)] fs by (simp add: H_def m_def ar_def mq_def N_def)
  next
    case False
    then have "sval hi = uint hi" using fs sval_neg_iff [OF w(1)] sval_nonneg by blast
    then show ?thesis
      using False sval_range [OF w(1)]
      by (simp add: H_def m_def ar_def mq_def N_def long_value_def)
  qed
  have H0: "0 \<le> H" by (simp add: H_def)
  have Nabs: "\<bar>N\<bar> = H * 2 ^ 35 + m" and Nneg: "f \<Longrightarrow> N \<le> 0" "\<not> f \<Longrightarrow> 0 \<le> N"
  proof -
    have "0 \<le> H * 2 ^ 35 + m" using H0 m by simp
    then show "\<bar>N\<bar> = H * 2 ^ 35 + m" "f \<Longrightarrow> N \<le> 0" "\<not> f \<Longrightarrow> 0 \<le> N"
      using HN by (cases f; simp)+
  qed
  have D: "0 \<le> D" "D \<le> 2 ^ 35" using sval_range [OF w(3)] by (simp_all add: D_def abs_le_iff)
  have le: "D * 2 ^ 35 \<le> \<bar>N\<bar> \<longleftrightarrow> D \<le> H"
  proof -
    have "D \<le> (H * 2 ^ 35 + m) div 2 ^ 35 \<longleftrightarrow> D * 2 ^ 35 \<le> H * 2 ^ 35 + m" by (rule le_div_pow)
    then show ?thesis unfolding Nabs using m by simp
  qed
  define ad where "ad = (if tst br SMASK then ar + br else ar + CM br + 1) AND FMASK"
  have n: "tst br SMASK \<longleftrightarrow> sval br < 0"
    using sval_neg_iff [OF w(3)] by (simp add: tst_simps)
  have "holds36 ad (H - D)"
    unfolding ad_def holds36_mask n H_def D_def
    using holds36_add [OF holds36_uint holds36_neg [OF w(3)], of ar]
      holds36_add [OF holds36_uint holds36_sval [OF w(3)], of ar]
    by (cases "sval br < 0") (simp_all add: add.assoc)
  moreover have "fits36 (H - D)"
  proof -
    have "H - D \<noteq> 2 ^ 35"
    proof
      assume "H - D = 2 ^ 35"
      then have "D = 0" "H = 2 ^ 35" using HN D by auto
      then have s: "sval br = 0" by (simp add: D_def)
      have "2 ^ 70 \<le> \<bar>N\<bar>" unfolding Nabs \<open>H = 2 ^ 35\<close> using m by simp
      moreover have "- (2 ^ 70) \<le> N" "N < 2 ^ 70"
        using sval_range [OF w(1)] mod35 [of "uint lo"] by (auto simp: N_def long_value_def)
      ultimately have "N = - (2 ^ 70)" by (auto simp: abs_if split: if_splits)
      then show False using corner s by (simp add: N_def)
    qed
    then show ?thesis using HN H0 D by (auto simp: fits36_def)
  qed
  ultimately have sg: "tst ad SMASK \<longleftrightarrow> H < D" using holds36_sign by simp
  have core: "div_of hi lo br =
     (if \<not> tst ad SMASK then None
      else let mq1 = set_if (tst ad SMASK) 1 (push_bit 1 mq AND FMASK);
               r = (if f then neg36 (fst (div_core br ar mq1)) else fst (div_core br ar mq1));
               q = snd (div_core br ar mq1)
           in if f \<noteq> tst br SMASK then Some (neg36 q, r) else Some (q, r))"
    unfolding div_of_core Let_def f_def ar_def mq_def ad_def by simp
  show ?thesis
  proof (cases "H < D")
    case False
    then have "div_of hi lo br = None" unfolding core sg by simp
    then show ?thesis using False le unfolding N_def [symmetric] D_def [symmetric] by simp
  next
    case True
    define mq1 where "mq1 = set_if True 1 (push_bit 1 mq AND FMASK)"
    define Q R where "Q = snd (div_core br ar mq1)" and "R = fst (div_core br ar mq1)"
    have mq1: "uint mq1 = 2 * m + 1"
    proof -
      define b where "b \<longleftrightarrow> bit mq 35"
      have "mq AND FMASK = mq"
        using w by (auto simp: mq_def div_neg_def Let_def neg36_def and.assoc wf36_take mask_simps)
      then have "wf36 mq" by (simp add: wf36_take mask_simps)
      then have "uint mq = (of_bool b * 2 ^ 35 + m) * 1 + 0"
        unfolding m_def b_def using split36 [of mq] by simp
      from shift_in_mq(2) [OF this _ m, of True] show ?thesis by (simp add: mq1_def)
    qed
    note v = div_core_value [OF w(3) D_def H0 True H_def [symmetric] m mq1]
    have Q: "uint Q = \<bar>N\<bar> div D" and R: "uint R = \<bar>N\<bar> mod D"
      using v unfolding Q_def R_def Nabs by simp_all
    have Dp: "0 < D" using True H0 by simp
    have R35: "uint R < 2 ^ 35" unfolding R using pos_mod_bound [OF Dp, of "\<bar>N\<bar>"] D by linarith
    have Q35: "uint Q < 2 ^ 35"
    proof (rule ccontr)
      assume "\<not> ?thesis"
      then have "D * 2 ^ 35 \<le> D * (\<bar>N\<bar> div D)" unfolding Q using D by (intro mult_left_mono) simp_all
      also have "\<dots> \<le> \<bar>N\<bar>" using pos_mod_sign [OF Dp, of "\<bar>N\<bar>"] mult_div_mod_eq [of D "\<bar>N\<bar>"] by linarith
      finally show False using le True by simp
    qed
    have some: "div_of hi lo br =
        Some (if f \<noteq> tst br SMASK then neg36 Q else Q, if f then neg36 R else R)"
      unfolding core sg Q_def R_def mq1_def using True by (simp add: Let_def)
    have br0: "sval br \<noteq> 0" using Dp by (auto simp: D_def)
    have "sval (if f \<noteq> tst br SMASK then neg36 Q else Q) = N sdiv sval br"
    proof (cases "N = 0")
      case True
      then have "uint Q = 0" by (simp add: Q)
      then show ?thesis using neg_if(1) [OF Q35] True by (simp add: signed_divide_int_def)
    next
      case False
      then have "f \<longleftrightarrow> N < 0" using Nneg by (cases f) auto
      then show ?thesis
        unfolding neg_if(1) [OF Q35] sgn_quot(1) [OF False br0] Q n D_def by simp
    qed
    moreover have "sval (if f then neg36 R else R) = N smod sval br"
    proof (cases "N = 0")
      case True
      then have "uint R = 0" by (simp add: R)
      then show ?thesis using neg_if(1) [OF R35] True by (simp add: signed_modulo_int_def)
    next
      case False
      then have "f \<longleftrightarrow> N < 0" using Nneg by (cases f) auto
      then show ?thesis
        unfolding neg_if(1) [OF R35] sgn_quot(2) R D_def by simp
    qed
    ultimately show ?thesis
      using True le some neg_if(2) [OF Q35] neg_if(2) [OF R35]
      unfolding N_def [symmetric] D_def [symmetric] by auto
  qed
qed

end
