(* ===== verification/Shifts.thy ===== *)
theory Shifts
  imports Cpu_State
begin

text \<open>
  The shift instructions of \<open>PDP10/kx10_cpu.c\<close> (opcodes 240 to 246): ASH, ROT, LSH,
  JFFO and the double-length ASHC, ROTC, LSHC, each a function of the effective address and
  the accumulators. The theorems are stated over the signed shift amount the address encodes.

  The C code shifts 64-bit words by counts that can reach 255 in ASH and 70 in ASHC. Where
  a count is 64 or more the C expression is undefined; \<open>push_bit\<close> gives 0 there, and no
  theorem below relies on it.
\<close>

unbundle bit_operations_syntax

section \<open>Shift counts\<close>

definition shift_count :: "u32 \<Rightarrow> nat" where
  \<comment> \<open>\<open>((AB & RSIGN) ? (0377 ^ AB) + 1 : AB) & 0377\<close>\<close>
  "shift_count ab = unat ((if tst ab 0x20000 then (0xFF XOR ab) + 1 else ab) AND 0xFF)"

definition rotate_count :: "u32 \<Rightarrow> nat" where
  \<comment> \<open>\<open>(AB & RSIGN) ? ((AB & 0377) ? (((0377 ^ AB) + 1) & 0377) : 0400) : (AB & 0377)\<close>\<close>
  "rotate_count ab =
     (if tst ab 0x20000
      then if ab AND 0xFF \<noteq> 0 then unat (((0xFF XOR ab) + 1) AND 0xFF) else 256
      else unat (ab AND 0xFF))"

section \<open>Single-length shifts\<close>

definition ash_of :: "u32 \<Rightarrow> u64 \<Rightarrow> bool \<times> u64" where
  \<comment> \<open>overflow, and the new accumulator\<close>
  "ash_of ab br =
     (let sc = shift_count ab;
          ad = (if tst br SMASK then FMASK else 0)
      in if sc = 0 then (False, br)
         else if tst ab 0x20000 then
           (False, if sc < 35 then (drop_bit sc br OR push_bit (36 - sc) ad) AND FMASK else ad)
         else
           (clr_bits (push_bit sc ad) CMASK \<noteq> clr_bits (push_bit sc br) CMASK,
            (push_bit sc br AND CMASK) OR (br AND SMASK)))"

definition rot_of :: "u32 \<Rightarrow> u64 \<Rightarrow> u64" where
  "rot_of ab br =
     (let sc = rotate_count ab
      in if sc = 0 then br
         else (let sc = sc mod 36;
                   sc = (if tst ab 0x20000 then 36 - sc else sc)
               in (push_bit sc br OR drop_bit (36 - sc) br) AND FMASK))"

definition lsh_of :: "u32 \<Rightarrow> u64 \<Rightarrow> u64" where
  "lsh_of ab br =
     (let sc = shift_count ab
      in if sc = 0 then br
         else if 36 < sc then 0
         else if tst ab 0x20000 then drop_bit sc br
         else push_bit sc br AND FMASK)"

definition nl_step :: "nat \<Rightarrow> u64 \<Rightarrow> nat \<times> u64 \<Rightarrow> nat \<times> u64" where
  \<comment> \<open>\<open>if ((w & m) == 0) { n += k; w <<= k; }\<close>\<close>
  "nl_step k m = (\<lambda>(n, w). if w AND m = 0 then (n + k, push_bit k w) else (n, w))"

definition nlzero :: "u64 \<Rightarrow> nat" where
  "nlzero w =
     (if w = 0 then 36
      else fst (nl_step 1 SMASK (nl_step 1 0xC00000000 (nl_step 3 0xE00000000
             (nl_step 6 0xFC0000000 (nl_step 9 0xFF8000000 (nl_step 18 LMASK (0, w))))))))"

definition exec_ash :: "cpu \<Rightarrow> cpu" where
  "exec_ash s =
     (let (ov, v) = ash_of (AB s) (BR s)
      in if shift_count (AB s) = 0 then s else set_ac v (or_flags ov (OVR OR TRP1) s))"

definition exec_rot :: "cpu \<Rightarrow> cpu" where
  "exec_rot s = (if rotate_count (AB s) = 0 then s else set_ac (rot_of (AB s) (BR s)) s)"

definition exec_lsh :: "cpu \<Rightarrow> cpu" where
  "exec_lsh s = set_ac (lsh_of (AB s) (BR s)) s"

definition exec_jffo :: "cpu \<Rightarrow> cpu" where
  "exec_jffo s =
     (if BR s \<noteq> 0 then set_ac1 (of_nat (nlzero (BR s))) (jump (AB s) s) else set_ac1 0 s)"

section \<open>Double-length shifts\<close>

definition ashc_of :: "u32 \<Rightarrow> u64 \<Rightarrow> u64 \<Rightarrow> bool \<times> u64 \<times> u64" where
  "ashc_of ab br mq0 =
     (let sc = (if shift_count ab > 70 then 70 else shift_count ab);
          ad = (if tst br SMASK then FMASK else 0);
          ar = br AND CMASK;
          mq = mq0 AND CMASK
      in if sc = 0 then (False, br, mq0)
         else if tst ab 0x20000 then
           (if 35 \<le> sc then
              (False, ad, (drop_bit (sc - 35) ar OR push_bit (70 - sc) ad) AND FMASK)
            else
              (False, ((ad AND SMASK) OR (drop_bit sc ar OR push_bit (35 - sc) ad)) AND FMASK,
               (ad AND SMASK) OR drop_bit sc mq OR (push_bit (35 - sc) ar AND CMASK)))
         else
           (if 35 \<le> sc then
              (clr_bits (push_bit sc ad) CMASK \<noteq> clr_bits (push_bit sc ar) CMASK,
               (ad AND SMASK) OR (push_bit (sc - 35) mq AND CMASK), ad AND SMASK)
            else
              (clr_bits (push_bit sc (ad AND CMASK)) CMASK \<noteq> clr_bits (push_bit sc ar) CMASK,
               (ad AND SMASK) OR (push_bit sc ar AND CMASK) OR drop_bit (35 - sc) mq,
               (ad AND SMASK) OR (push_bit sc mq AND CMASK))))"

definition rotc_of :: "u32 \<Rightarrow> u64 \<Rightarrow> u64 \<Rightarrow> u64 \<times> u64" where
  "rotc_of ab ar mq =
     (let sc = rotate_count ab
      in if sc = 0 then (ar, mq)
         else
           (let sc = sc mod 72;
                sc = (if tst ab 0x20000 then 72 - sc else sc);
                (ar, mq, sc) = (if 36 \<le> sc then (mq, ar, sc - 36) else (ar, mq, sc))
            in ((push_bit sc ar OR drop_bit (36 - sc) mq) AND FMASK,
                (push_bit sc mq OR drop_bit (36 - sc) ar) AND FMASK)))"

definition lshc_of :: "u32 \<Rightarrow> u64 \<Rightarrow> u64 \<Rightarrow> u64 \<times> u64" where
  "lshc_of ab ar mq =
     (let sc = shift_count ab;
          left = (\<not> tst ab 0x20000)
      in if sc = 0 then (ar, mq)
         else if 71 < sc then (0, 0)
         else
           (let (ar, mq, sc) =
                  (if 36 < sc then if left then (mq, 0, sc - 36) else (0, ar, sc - 36)
                   else (ar, mq, sc))
            in if left then
                 ((push_bit sc ar OR drop_bit (36 - sc) mq) AND FMASK, push_bit sc mq AND FMASK)
               else
                 (drop_bit sc ar, (drop_bit sc mq OR push_bit (36 - sc) ar) AND FMASK)))"

definition exec_ashc :: "cpu \<Rightarrow> cpu" where
  "exec_ashc s =
     (let (ov, ar, mq) = ashc_of (AB s) (BR s) (get_ac1 s)
      in if shift_count (AB s) = 0 then s
         else set_ac1 mq (set_ac ar (or_flags ov (OVR OR TRP1) s)))"

definition exec_rotc :: "cpu \<Rightarrow> cpu" where
  "exec_rotc s =
     (let (ar, mq) = rotc_of (AB s) (BR s) (get_ac1 s)
      in if rotate_count (AB s) = 0 then s else set_ac1 mq (set_ac ar s))"

definition exec_lshc :: "cpu \<Rightarrow> cpu" where
  "exec_lshc s =
     (let (ar, mq) = lshc_of (AB s) (BR s) (get_ac1 s)
      in if shift_count (AB s) = 0 then s else set_ac1 mq (set_ac ar s))"

section \<open>The shift amount\<close>

definition amount :: "u32 \<Rightarrow> int" where
  \<comment> \<open>the signed shift of an effective address: its sign and its low eight bits\<close>
  "amount ab = uint (ab AND 0xFF) - (if tst ab 0x20000 then 256 else 0)"

lemma low8: "uint ((ab :: u32) AND 0xFF) = uint ab mod 256"
proof -
  have "ab AND 0xFF = take_bit 8 ab" by (simp add: take_bit_eq_mask mask_eq_exp_minus_1)
  moreover have "uint (take_bit 8 ab) = uint ab mod 2 ^ 8"
    by (metis unsigned_take_bit_eq take_bit_eq_mod)
  ultimately show ?thesis by simp
qed

lemma uint_add256: "uint (a + b) mod 256 = (uint a + uint b) mod 256" for a b :: u32
  by (simp only: uint_word_ariths) (rule mod_mod_cancel, simp)

lemma low8_neg: "uint (((0xFF XOR ab) + 1) AND 0xFF) = (- uint (ab :: u32)) mod 256"
proof -
  have "(0xFF XOR ab) AND 0xFF = NOT ab AND 0xFF"
  proof -
    have "(0xFF :: u32) = mask 8" by (simp add: mask_eq_exp_minus_1)
    then show ?thesis by (simp only:) (rule bit_word_eqI, auto simp: bit_simps)
  qed
  then have "uint (0xFF XOR ab) mod 256 = uint (NOT ab) mod 256"
    using low8 [of "0xFF XOR ab"] low8 [of "NOT ab"] by simp
  moreover have "uint (NOT ab) mod 256 = (- uint ab - 1) mod 256"
  proof -
    have "NOT ab = - ab - 1" by (simp add: not_eq_complement)
    then have "uint (NOT ab) = (- uint ab - 1) mod 2 ^ 32"
      by (simp only: uint_word_ariths) (simp add: mod_simps)
    then show ?thesis by (simp only:) (rule mod_mod_cancel, simp)
  qed
  moreover have "uint ((0xFF XOR ab) + 1) mod 256 = (uint (0xFF XOR ab) + 1) mod 256"
    using uint_add256 [of "0xFF XOR ab" 1] by simp
  ultimately show ?thesis unfolding low8 by (metis mod_add_left_eq diff_add_cancel)
qed

lemma shift_count_amount: "amount ab \<noteq> - 256 \<Longrightarrow> int (shift_count ab) = \<bar>amount ab\<bar>"
proof -
  assume a: "amount ab \<noteq> - 256"
  show ?thesis
  proof (cases "tst ab 0x20000")
    case True
    then have "uint ab mod 256 \<noteq> 0" using a by (simp add: amount_def low8)
    then have "(- uint ab) mod 256 = 256 - uint ab mod 256" by (simp add: zmod_zminus1_eq_if)
    moreover have "int (shift_count ab) = uint (((0xFF XOR ab) + 1) AND 0xFF)"
      using True by (simp add: shift_count_def)
    moreover have "amount ab = uint ab mod 256 - 256" using True by (simp add: amount_def low8)
    moreover have "uint ab mod 256 < 256" by simp
    ultimately show ?thesis unfolding low8_neg by linarith
  next
    case False
    then show ?thesis by (simp add: shift_count_def amount_def low8)
  qed
qed

lemma rotate_count_amount: "int (rotate_count ab) = \<bar>amount ab\<bar>"
proof (cases "amount ab = - 256")
  case True
  have "0 \<le> uint ab mod 256" by simp
  then have t: "tst ab 0x20000" "uint ab mod 256 = 0"
    using True by (auto simp: amount_def low8 split: if_splits)
  then have "ab AND 0xFF = 0" using low8 [of ab] by (simp only: word_uint_eq_iff unsigned_0)
  then show ?thesis using t True by (simp add: rotate_count_def)
next
  case False
  have "uint ab mod 256 \<noteq> 0 \<Longrightarrow> ab AND 0xFF \<noteq> 0" using low8 [of ab] by fastforce
  then have "rotate_count ab = shift_count ab"
    using False by (auto simp: rotate_count_def shift_count_def amount_def low8)
  then show ?thesis using shift_count_amount [OF False] by simp
qed

lemma amount_sign: "tst ab 0x20000 \<longleftrightarrow> amount ab < 0"
  and amount_range: "- 256 \<le> amount ab" "amount ab < 256"
proof -
  have "0 \<le> uint ab mod 256" "uint ab mod 256 < 256" by simp_all
  then show "tst ab 0x20000 \<longleftrightarrow> amount ab < 0" "- 256 \<le> amount ab" "amount ab < 256"
    unfolding amount_def low8 by auto
qed

lemma counts_nat:
  "amount ab \<noteq> - 256 \<Longrightarrow> shift_count ab = nat \<bar>amount ab\<bar>"
  "rotate_count ab = nat \<bar>amount ab\<bar>"
  using shift_count_amount [of ab] rotate_count_amount [of ab] by simp_all

section \<open>Logical shifts and rotations, bit by bit\<close>

text \<open>Bit \<open>j\<close> here counts from the right, as in the 64-bit container.\<close>

lemma lsh_of_bits:
  assumes w: "wf36 x" and a: "amount ab \<noteq> - 256"
  shows "bit (lsh_of ab x) j \<longleftrightarrow>
    j < 36 \<and> amount ab \<le> int j \<and> bit x (nat (int j - amount ab))"
proof -
  define e where "e = amount ab"
  note h = wf36_bitD [OF w]
  have r: "lsh_of ab x = (if e = 0 then x else if 36 < \<bar>e\<bar> then 0
      else if e < 0 then drop_bit (nat (- e)) x else push_bit (nat e) x AND FMASK)"
    unfolding lsh_of_def Let_def counts_nat(1) [OF a] amount_sign e_def [symmetric] by auto
  consider "e = 0" | "36 < e" | "e < - 36" | "- 36 \<le> e" "e < 0" | "0 < e" "e \<le> 36" by linarith
  then show ?thesis
  proof cases
    case 1
    then show ?thesis using h unfolding e_def [symmetric] r by auto
  next
    case 2
    then show ?thesis using h unfolding e_def [symmetric] r by auto
  next
    case 3
    have "\<not> bit x (nat (int j - e))" using 3 h [of "nat (int j - e)"] by auto
    then show ?thesis using 3 unfolding e_def [symmetric] r by simp
  next
    case 4
    have n: "nat (- e) + j = nat (int j - e)" using 4 by linarith
    have "bit x (nat (int j - e)) \<Longrightarrow> j < 36" using h [of "nat (int j - e)"] 4 by linarith
    then show ?thesis using 4 n unfolding e_def [symmetric] r by (auto simp: bit_drop_bit_eq)
  next
    case 5
    have n: "nat e \<le> j \<longleftrightarrow> e \<le> int j" "e \<le> int j \<Longrightarrow> j - nat e = nat (int j - e)"
      using 5 by linarith+
    show ?thesis using 5 n unfolding e_def [symmetric] r
      by (auto simp: bit_and_iff bit_push_bit_iff)
  qed
qed

definition dbl_bit :: "u64 \<times> u64 \<Rightarrow> nat \<Rightarrow> bool" where
  \<comment> \<open>bit \<open>j\<close> of the 72-bit register pair, high word first\<close>
  "dbl_bit p j \<longleftrightarrow> (if j < 36 then bit (snd p) j else j < 72 \<and> bit (fst p) (j - 36))"

lemma rot_bits:
  assumes "wf36 x" and "k \<le> 36" and "j < 36"
  shows "bit ((push_bit k x OR drop_bit (36 - k) x) AND FMASK) j \<longleftrightarrow>
    bit x (nat ((int j - int k) mod 36))"
proof -
  have "(int j - int k) mod 36 = (if k \<le> j then (if k = 36 \<and> j = 36 then 0 else int j - int k) else int j - int k + 36)"
  proof (cases "k \<le> j")
    case True
    then show ?thesis using assms by simp
  next
    case False
    have "(int j - int k) mod 36 = (int j - int k + 36) mod 36" by simp
    also have "\<dots> = int j - int k + 36"
      using False assms by (intro mod_pos_pos_trivial) auto
    finally show ?thesis using False by simp
  qed
  then have n: "nat ((int j - int k) mod 36) = (if k \<le> j then j - k else 36 - k + j)"
    using assms by auto
  show ?thesis
    unfolding n using assms wf36_bitD [OF assms(1), of "36 - k + j"]
    by (auto simp: bit_and_iff bit_or_iff bit_push_bit_iff bit_drop_bit_eq)
qed

lemma rot_of_bits:
  assumes w: "wf36 x" and j: "j < 36"
  shows "bit (rot_of ab x) j \<longleftrightarrow> bit x (nat ((int j - amount ab) mod 36))"
proof -
  define e where "e = amount ab"
  define k where "k = (if e < 0 then 36 - nat \<bar>e\<bar> mod 36 else nat \<bar>e\<bar> mod 36)"
  have r: "rot_of ab x = (if e = 0 then x else (push_bit k x OR drop_bit (36 - k) x) AND FMASK)"
    unfolding rot_of_def Let_def counts_nat amount_sign e_def [symmetric] k_def by auto
  have k: "k \<le> 36" by (auto simp: k_def)
  have m: "(int j - int k) mod 36 = (int j - e) mod 36"
  proof (cases "e < 0")
    case True
    have "int k = 36 - (- e) mod 36"
      using True by (simp add: k_def of_nat_diff zmod_int)
    then have "int j - int k = int j + (- e) mod 36 + (- 1) * 36" by simp
    then have "(int j - int k) mod 36 = (int j + (- e) mod 36 + (- 1) * 36) mod 36" by (simp only:)
    also have "\<dots> = (int j + (- e) mod 36) mod 36" by (rule mod_mult_self1)
    also have "\<dots> = (int j - e) mod 36" by (simp add: mod_simps)
    finally show ?thesis .
  next
    case False
    then have "int k = e mod 36" by (simp add: k_def zmod_int)
    then show ?thesis by (simp add: mod_simps)
  qed
  show ?thesis
  proof (cases "e = 0")
    case True
    then show ?thesis using j unfolding r e_def [symmetric] by simp
  next
    case False
    then show ?thesis using rot_bits [OF w k j] unfolding r e_def [symmetric] m by simp
  qed
qed

lemma rotc_bits:
  assumes "wf36 ar" "wf36 mq" and "k \<le> 36" and "j < 72"
  shows "dbl_bit ((push_bit k ar OR drop_bit (36 - k) mq) AND FMASK,
      (push_bit k mq OR drop_bit (36 - k) ar) AND FMASK) j
    \<longleftrightarrow> dbl_bit (ar, mq) (nat ((int j - int k) mod 72))"
proof -
  have n: "nat ((int j - int k) mod 72) = (if k \<le> j then j - k else j + 72 - k)"
  proof (cases "k \<le> j")
    case False
    have "(int j - int k) mod 72 = (int j - int k + 72) mod 72" by simp
    also have "\<dots> = int j - int k + 72"
      using False assms by (intro mod_pos_pos_trivial) auto
    finally show ?thesis using False assms by simp
  qed (use assms in simp)
  have h: "bit ar i \<Longrightarrow> i < 36" "bit mq i \<Longrightarrow> i < 36" for i
    using wf36_bitD assms(1,2) by blast+
  have z: "36 \<le> i \<Longrightarrow> \<not> bit ar i" "36 \<le> i \<Longrightarrow> \<not> bit mq i" for i
    using h [of i] by auto
  consider "j < 36" "k \<le> j" | "j < 36" "j < k" | "36 \<le> j" "k \<le> j - 36" | "36 \<le> j" "j - 36 < k"
    by linarith
  then show ?thesis
  proof cases
    case 1
    then have "j - k < 36" by linarith
    then show ?thesis using 1 z(1) [of "36 - k + j"] assms(4)
      unfolding n by (simp add: dbl_bit_def bit_and_iff bit_or_iff bit_push_bit_iff bit_drop_bit_eq)
  next
    case 2
    then have "\<not> j + 72 - k < 36" "j + 72 - k < 72" using assms(3) by linarith+
    then show ?thesis using 2 assms(3)
      unfolding n by (simp add: dbl_bit_def bit_and_iff bit_or_iff bit_push_bit_iff bit_drop_bit_eq add.commute)
  next
    case 3
    then have "36 - k + (j - 36) = j - k" "j - 36 - k = j - k - 36" "36 \<le> j - k" "k \<le> j" "k \<le> 36"
        "j - 36 < 36" "j - k < 72"
      using assms(3,4) by linarith+
    then show ?thesis using 3 z(2) [of "j - k"] assms(4)
      unfolding n by (simp add: dbl_bit_def bit_and_iff bit_or_iff bit_push_bit_iff bit_drop_bit_eq)
  next
    case 4
    then have "36 - k + (j - 36) = j - k" "j - k < 36" "k \<le> j" "j - 36 < 36"
      using assms(3,4) by linarith+
    then show ?thesis using 4 assms(4)
      unfolding n by (simp add: dbl_bit_def bit_and_iff bit_or_iff bit_push_bit_iff bit_drop_bit_eq)
  qed
qed

lemma dbl_swap: "j < 72 \<Longrightarrow> dbl_bit (mq, ar) j \<longleftrightarrow> dbl_bit (ar, mq) (nat ((int j - 36) mod 72))"
proof -
  assume j: "j < 72"
  have "nat ((int j - 36) mod 72) = (if 36 \<le> j then j - 36 else j + 36)"
  proof (cases "36 \<le> j")
    case False
    have "(int j - 36) mod 72 = (int j - 36 + 72) mod 72" by (rule mod_add_self2 [symmetric])
    also have "\<dots> = int j - 36 + 72"
      using False by (intro mod_pos_pos_trivial) auto
    finally show ?thesis using False by simp
  qed (use j in simp)
  then show ?thesis using j by (auto simp: dbl_bit_def)
qed

lemma rotc_of_bits:
  assumes w: "wf36 ar" "wf36 mq" and j: "j < 72"
  shows "dbl_bit (rotc_of ab ar mq) j \<longleftrightarrow>
    dbl_bit (ar, mq) (nat ((int j - amount ab) mod 72))"
proof -
  define e where "e = amount ab"
  define k where "k = (if e < 0 then 72 - nat \<bar>e\<bar> mod 72 else nat \<bar>e\<bar> mod 72)"
  define rot1 where "rot1 = (\<lambda>k a m. ((push_bit k a OR drop_bit (36 - k) m) AND FMASK,
      (push_bit k m OR drop_bit (36 - k) a) AND FMASK) :: u64 \<times> u64)"
  have r: "rotc_of ab ar mq = (if e = 0 then (ar, mq)
      else if 36 \<le> k then rot1 (k - 36) mq ar else rot1 k ar mq)"
    unfolding rotc_of_def Let_def counts_nat amount_sign e_def [symmetric] k_def rot1_def
    by (auto split: prod.split)
  have k: "k \<le> 72" by (auto simp: k_def)
  have m: "(int j - int k) mod 72 = (int j - e) mod 72"
  proof (cases "e < 0")
    case True
    have "int k = 72 - (- e) mod 72"
      using True by (simp add: k_def of_nat_diff zmod_int)
    then have "int j - int k = int j + (- e) mod 72 + (- 1) * 72" by simp
    then have "(int j - int k) mod 72 = (int j + (- e) mod 72 + (- 1) * 72) mod 72" by (simp only:)
    also have "\<dots> = (int j + (- e) mod 72) mod 72" by (rule mod_mult_self1)
    also have "\<dots> = (int j - e) mod 72" by (simp add: mod_simps)
    finally show ?thesis .
  next
    case False
    then have "int k = e mod 72" by (simp add: k_def zmod_int)
    then show ?thesis by (simp add: mod_simps)
  qed
  consider "e = 0" | "e \<noteq> 0" "36 \<le> k" | "e \<noteq> 0" "k < 36" by linarith
  then show ?thesis
  proof cases
    case 1
    then show ?thesis using j unfolding r e_def [symmetric] by simp
  next
    case 2
    define i where "i = nat ((int j - int (k - 36)) mod 72)"
    have i: "i < 72" "int i = (int j - int (k - 36)) mod 72" by (simp_all add: i_def nat_less_iff)
    have "(int i - 36) mod 72 = (int j - int k) mod 72"
      unfolding i(2) using 2 by (simp add: mod_simps of_nat_diff)
    moreover have "dbl_bit (rot1 (k - 36) mq ar) j \<longleftrightarrow> dbl_bit (mq, ar) i"
      unfolding rot1_def i_def using rotc_bits [OF w(2,1) _ j, of "k - 36"] k by simp
    ultimately show ?thesis
      using 2 dbl_swap [OF i(1)] m unfolding r e_def [symmetric] by simp
  next
    case 3
    then show ?thesis
      using rotc_bits [OF w _ j, of k] m unfolding r e_def [symmetric] rot1_def by simp
  qed
qed

lemma lshc_left_bits:
  assumes "wf36 ar" "wf36 mq" and "k \<le> 36" and "j < 72"
  shows "dbl_bit ((push_bit k ar OR drop_bit (36 - k) mq) AND FMASK, push_bit k mq AND FMASK) j
    \<longleftrightarrow> k \<le> j \<and> dbl_bit (ar, mq) (j - k)"
proof -
  have z: "36 \<le> i \<Longrightarrow> \<not> bit mq i" for i using wf36_bitD [OF assms(2)] by fastforce
  consider "j < 36" | "36 \<le> j" "k \<le> j - 36" | "36 \<le> j" "j - 36 < k" by linarith
  then show ?thesis
  proof cases
    case 1
    then show ?thesis
      by (auto simp: dbl_bit_def bit_and_iff bit_push_bit_iff)
  next
    case 2
    then have "36 - k + (j - 36) = j - k" "j - 36 - k = j - k - 36" "36 \<le> j - k" "k \<le> j"
        "j - 36 < 36" "j - k < 72"
      using assms(3,4) by linarith+
    then show ?thesis using 2 z [of "j - k"] assms(4)
      by (simp add: dbl_bit_def bit_and_iff bit_or_iff bit_push_bit_iff bit_drop_bit_eq)
  next
    case 3
    then have "36 - k + (j - 36) = j - k" "j - k < 36" "k \<le> j" "j - 36 < 36"
      using assms(3,4) by linarith+
    then show ?thesis using 3 assms(4)
      by (simp add: dbl_bit_def bit_and_iff bit_or_iff bit_push_bit_iff bit_drop_bit_eq)
  qed
qed

lemma lshc_right_bits:
  assumes "wf36 ar" "wf36 mq" and "k \<le> 36" and "j < 72"
  shows "dbl_bit (drop_bit k ar, (drop_bit k mq OR push_bit (36 - k) ar) AND FMASK) j
    \<longleftrightarrow> dbl_bit (ar, mq) (j + k)"
proof -
  have z: "36 \<le> i \<Longrightarrow> \<not> bit mq i" "36 \<le> i \<Longrightarrow> \<not> bit ar i" for i
    using wf36_bitD [OF assms(1)] wf36_bitD [OF assms(2)] by fastforce+
  consider "j < 36" "j + k < 36" | "j < 36" "36 \<le> j + k" | "36 \<le> j" by linarith
  then show ?thesis
  proof cases
    case 1
    then have "\<not> 36 - k \<le> j" by linarith
    then show ?thesis using 1
      by (simp add: dbl_bit_def bit_and_iff bit_or_iff bit_push_bit_iff bit_drop_bit_eq add.commute)
  next
    case 2
    then have "j - (36 - k) = j + k - 36" "36 - k \<le> j" "j + k < 72" using assms(3) by linarith+
    then show ?thesis using 2 z(1) [of "k + j"]
      by (simp add: dbl_bit_def bit_and_iff bit_or_iff bit_push_bit_iff bit_drop_bit_eq add.commute)
  next
    case 3
    then have "k + (j - 36) = j + k - 36" "36 \<le> j + k - 36 \<longleftrightarrow> \<not> j + k < 72" by linarith+
    then show ?thesis using 3 assms(4) z(2) [of "j + k - 36"]
      by (auto simp: dbl_bit_def bit_drop_bit_eq add.commute)
  qed
qed

lemma lshc_of_bits:
  assumes w: "wf36 ar" "wf36 mq" and a: "amount ab \<noteq> - 256" and j: "j < 72"
  shows "dbl_bit (lshc_of ab ar mq) j \<longleftrightarrow>
    amount ab \<le> int j \<and> dbl_bit (ar, mq) (nat (int j - amount ab))"
proof -
  define e where "e = amount ab"
  define k where "k = nat \<bar>e\<bar>"
  have r: "lshc_of ab ar mq = (if k = 0 then (ar, mq) else if 71 < k then (0, 0)
      else if 0 \<le> e then
        (if 36 < k then ((push_bit (k - 36) mq OR drop_bit (36 - (k - 36)) 0) AND FMASK,
                         push_bit (k - 36) 0 AND FMASK)
         else ((push_bit k ar OR drop_bit (36 - k) mq) AND FMASK, push_bit k mq AND FMASK))
      else
        (if 36 < k then (drop_bit (k - 36) 0,
                         (drop_bit (k - 36) ar OR push_bit (36 - (k - 36)) 0) AND FMASK)
         else (drop_bit k ar, (drop_bit k mq OR push_bit (36 - k) ar) AND FMASK)))"
    unfolding lshc_of_def Let_def counts_nat(1) [OF a] amount_sign e_def [symmetric] k_def by auto
  have z: "36 \<le> i \<Longrightarrow> \<not> bit mq i" "36 \<le> i \<Longrightarrow> \<not> bit ar i" for i
    using wf36_bitD [OF w(1)] wf36_bitD [OF w(2)] by fastforce+
  have far: "72 \<le> i \<Longrightarrow> \<not> dbl_bit p i" for p i by (simp add: dbl_bit_def)
  consider "k = 0" | "71 < k" | "0 < e" "36 < k" "k \<le> 71" | "0 < e" "k \<le> 36"
    | "e < 0" "36 < k" "k \<le> 71" | "e < 0" "0 < k" "k \<le> 36"
    unfolding k_def by linarith
  then show ?thesis
  proof cases
    case 1
    then have "e = 0" by (simp add: k_def)
    then show ?thesis using 1 unfolding r e_def [symmetric] by simp
  next
    case 2
    have "\<not> (e \<le> int j \<and> dbl_bit (ar, mq) (nat (int j - e)))"
    proof
      assume h: "e \<le> int j \<and> dbl_bit (ar, mq) (nat (int j - e))"
      then have "e < 0" using 2 j unfolding k_def by linarith
      then have "72 \<le> nat (int j - e)" using 2 unfolding k_def by linarith
      then show False using far h by blast
    qed
    then show ?thesis using 2 unfolding r e_def [symmetric] by (simp add: dbl_bit_def)
  next
    case 3
    have e: "nat (int j - e) = j - k" "e \<le> int j \<longleftrightarrow> k \<le> j" using 3 by (auto simp: k_def)
    have "dbl_bit (push_bit (k - 36) mq AND FMASK, 0) j \<longleftrightarrow> k \<le> j \<and> dbl_bit (ar, mq) (j - k)"
    proof (cases "36 \<le> j")
      case True
      have "j - k < 36" "k - 36 \<le> j - 36 \<longleftrightarrow> k \<le> j" "j - 36 - (k - 36) = j - k" "j - 36 < 36"
        using True 3 j by linarith+
      then show ?thesis using True j
        by (simp add: dbl_bit_def bit_and_iff bit_push_bit_iff)
    qed (use 3 in \<open>simp add: dbl_bit_def\<close>)
    then show ?thesis using 3 unfolding r e_def [symmetric] e by simp
  next
    case 4
    have e: "nat (int j - e) = j - k" "e \<le> int j \<longleftrightarrow> k \<le> j" using 4 by (auto simp: k_def)
    show ?thesis using 4 lshc_left_bits [OF w 4(2) j] unfolding r e_def [symmetric] e by simp
  next
    case 5
    have e: "nat (int j - e) = j + k" "e \<le> int j" using 5 by (auto simp: k_def)
    have "dbl_bit (0, drop_bit (k - 36) ar AND FMASK) j \<longleftrightarrow> dbl_bit (ar, mq) (j + k)"
    proof (cases "j < 36")
      case True
      have "k - 36 + j = j + k - 36" "36 \<le> j + k" "36 \<le> j + k - 36 \<longleftrightarrow> \<not> j + k < 72"
        using 5 by linarith+
      then show ?thesis using True z(2) [of "j + k - 36"]
        by (auto simp: dbl_bit_def bit_and_iff bit_drop_bit_eq)
    next
      case False
      then have "72 \<le> j + k" using 5 by linarith
      then show ?thesis using False by (simp add: dbl_bit_def)
    qed
    then show ?thesis using 5 e unfolding r e_def [symmetric] by simp
  next
    case 6
    have e: "nat (int j - e) = j + k" "e \<le> int j" using 6 by (auto simp: k_def)
    show ?thesis using 6 e lshc_right_bits [OF w 6(3) j] unfolding r e_def [symmetric] by simp
  qed
qed

section \<open>Arithmetic shifts\<close>

lemma bit_sval: "wf36 x \<Longrightarrow> bit (sval x) n \<longleftrightarrow> bit x (min n 35)"
proof -
  assume w: "wf36 x"
  have "take_bit (Suc 35) (uint x) = uint x"
    using w by (simp add: wf36_uint take_bit_int_eq_self_iff)
  then have "sval x = signed_take_bit 35 (uint x)"
    using signed_take_bit_eq_take_bit_minus [of 35 "uint x"]
    by (simp add: sval_uint bit_uint_iff)
  then show ?thesis
    by (auto simp: bit_signed_take_bit_iff bit_uint_iff min_def)
qed

lemma sval_bits:
  assumes w: "wf36 x" and low: "\<And>n. n \<le> 35 \<Longrightarrow> bit x n \<longleftrightarrow> bit i n"
    and high: "\<And>n. 35 \<le> n \<Longrightarrow> bit i n \<longleftrightarrow> bit i 35"
  shows "sval x = i"
proof (rule bit_eqI)
  fix n show "bit (sval x) n = bit i n"
  proof (cases "n \<le> 35")
    case True
    then have "min n 35 = n" by simp
    then show ?thesis using low [OF True] unfolding bit_sval [OF w] by simp
  next
    case False
    then have "min n 35 = 35" "35 \<le> n" by simp_all
    then show ?thesis using low [of 35] high [of n] unfolding bit_sval [OF w] by simp
  qed
qed

lemma fits36_bits: "fits36 i \<longleftrightarrow> (\<forall>n \<ge> 35. bit i n = bit i 35)"
  unfolding fits36_def by (rule fits_int_bits)

lemma ash_right_bits: "wf36 x \<Longrightarrow> 0 < k \<Longrightarrow> j < 36 \<Longrightarrow>
   bit (if k < 35 then (drop_bit k x OR push_bit (36 - k) (if tst x SMASK then FMASK else 0)) AND FMASK
        else (if tst x SMASK then FMASK else 0)) j \<longleftrightarrow> bit x (min (j + k) 35)"
proof -
  assume w: "wf36 x" and k: "0 < k" and j: "j < 36"
  have z: "36 \<le> i \<Longrightarrow> \<not> bit x i" for i using wf36_bitD [OF w] by fastforce
  show ?thesis
  proof (cases "k < 35")
    case True
    define g where "g = (if tst x SMASK then FMASK else 0)"
    have g: "bit g i \<longleftrightarrow> i < 36 \<and> bit x 35" for i by (auto simp: g_def tst_simps)
    have b: "bit ((drop_bit k x OR push_bit (36 - k) g) AND FMASK) j \<longleftrightarrow>
        bit x (k + j) \<or> 36 - k \<le> j \<and> j - (36 - k) < 36 \<and> bit x 35"
      using j by (simp add: bit_and_iff bit_or_iff bit_drop_bit_eq bit_push_bit_iff g)
    show ?thesis
    proof (cases "j + k < 36")
      case True
      then have "\<not> 36 - k \<le> j" "min (j + k) 35 = k + j" by linarith+
      then show ?thesis using b \<open>k < 35\<close> by (simp add: g_def add.commute)
    next
      case False
      then have "36 - k \<le> j" "min (j + k) 35 = 35" "j - (36 - k) < 36" using j by linarith+
      then show ?thesis using b \<open>k < 35\<close> z [of "k + j"] False by (simp add: g_def add.commute)
    qed
  next
    case False
    then have "min (j + k) 35 = 35" by simp
    then show ?thesis using False j by (simp add: tst_simps)
  qed
qed

text \<open>ASH to the right divides by a power of two, rounding toward minus infinity.\<close>

lemma ash_right:
  assumes w: "wf36 x" and e: "amount ab < 0" "amount ab \<noteq> - 256"
  shows "fst (ash_of ab x) = False"
    "sval (snd (ash_of ab x)) = sval x div 2 ^ nat (- amount ab)" "wf36 (snd (ash_of ab x))"
proof -
  define k where "k = nat (- amount ab)"
  have k: "0 < k" "nat \<bar>amount ab\<bar> = k" using e by (simp_all add: k_def)
  define r where "r = (if k < 35 then (drop_bit k x OR push_bit (36 - k) (if tst x SMASK then FMASK else 0)) AND FMASK
        else (if tst x SMASK then FMASK else 0))"
  have eq: "ash_of ab x = (False, r)"
    using k e unfolding ash_of_def Let_def counts_nat(1) [OF e(2)] amount_sign r_def by simp
  have wr: "wf36 r" by (auto simp: r_def wf36_const wf36_mask)
  have "sval r = drop_bit k (sval x)"
  proof (rule sval_bits [OF wr])
    fix n :: nat assume "n \<le> 35"
    then show "bit r n \<longleftrightarrow> bit (drop_bit k (sval x)) n"
      unfolding r_def using ash_right_bits [OF w k(1), of n] w
      by (simp add: bit_drop_bit_eq bit_sval add.commute)
  qed (use w in \<open>simp add: bit_drop_bit_eq bit_sval\<close>)
  then show "fst (ash_of ab x) = False"
    "sval (snd (ash_of ab x)) = sval x div 2 ^ nat (- amount ab)" "wf36 (snd (ash_of ab x))"
    using wr by (simp_all add: eq drop_bit_eq_div k_def)
qed

definition left_overflow :: "nat \<Rightarrow> u64 \<Rightarrow> bool" where
  \<comment> \<open>the overflow test of a left shift by \<open>k\<close>\<close>
  "left_overflow k x \<longleftrightarrow>
     clr_bits (push_bit k (if tst x SMASK then FMASK else 0)) CMASK \<noteq> clr_bits (push_bit k x) CMASK"

lemma left_overflow_bits:
  assumes w: "wf36 x" and k: "k \<le> 28"
  shows "\<not> left_overflow k x \<longleftrightarrow> (\<forall>j. 35 - k \<le> j \<and> j \<le> 35 \<longrightarrow> bit x j = bit x 35)"
proof -
  define g where "g = (if tst x SMASK then FMASK else 0)"
  have g: "bit g i \<longleftrightarrow> i < 36 \<and> bit x 35" for i by (auto simp: g_def tst_simps)
  have z: "36 \<le> i \<Longrightarrow> \<not> bit x i" for i using wf36_bitD [OF w] by fastforce
  have c: "bit (clr_bits (push_bit k y) CMASK) n \<longleftrightarrow> n < 64 \<and> 35 \<le> n \<and> bit y (n - k)" for y :: u64 and n
    using k by (auto simp: bit_clr_bits bit_push_bit_iff)
  show ?thesis
  proof
    assume no: "\<not> left_overflow k x"
    show "\<forall>j. 35 - k \<le> j \<and> j \<le> 35 \<longrightarrow> bit x j = bit x 35"
    proof (intro allI impI, elim conjE)
      fix j :: nat assume j: "35 - k \<le> j" "j \<le> 35"
      have "bit (clr_bits (push_bit k g) CMASK) (j + k) = bit (clr_bits (push_bit k x) CMASK) (j + k)"
        using no by (simp add: left_overflow_def g_def)
      moreover have "35 \<le> j + k" "j + k < 64" using j k by linarith+
      ultimately show "bit x j = bit x 35" using j by (simp add: c g)
    qed
  next
    assume a: "\<forall>j. 35 - k \<le> j \<and> j \<le> 35 \<longrightarrow> bit x j = bit x 35"
    have "clr_bits (push_bit k g) CMASK = clr_bits (push_bit k x) CMASK"
    proof (rule bit_word_eqI)
      fix n assume n: "n < LENGTH(64)"
      show "bit (clr_bits (push_bit k g) CMASK) n = bit (clr_bits (push_bit k x) CMASK) n"
      proof (cases "35 \<le> n")
        case True
        then have "bit g (n - k) = bit x (n - k)"
        proof (cases "n - k \<le> 35")
          case True
          have "35 - k \<le> n - k" using \<open>35 \<le> n\<close> by linarith
          then have "bit x (n - k) = bit x 35" using a True by blast
          then show ?thesis using True by (simp add: g)
        next
          case False
          then show ?thesis using z [of "n - k"] by (simp add: g)
        qed
        then show ?thesis by (simp add: c)
      next
        case False
        then show ?thesis by (simp add: c)
      qed
    qed
    then show "\<not> left_overflow k x" by (simp add: left_overflow_def g_def)
  qed
qed

lemma shift_fits:
  assumes w: "wf36 x" and k: "k \<le> 35"
  shows "fits36 (push_bit k (sval x)) \<longleftrightarrow> (\<forall>j. 35 - k \<le> j \<and> j \<le> 35 \<longrightarrow> bit x j = bit x 35)"
proof -
  have b: "35 \<le> n \<Longrightarrow> bit (push_bit k (sval x)) n \<longleftrightarrow> bit x (min (n - k) 35)" for n
    using k by (simp add: bit_push_bit_iff bit_sval [OF w])
  show ?thesis
  proof
    assume f: "fits36 (push_bit k (sval x))"
    have e: "bit x (min (n - k) 35) = bit x (35 - k)" if "35 \<le> n" for n
    proof -
      have "bit (push_bit k (sval x)) n = bit (push_bit k (sval x)) 35"
        using f that unfolding fits36_bits by blast
      then show ?thesis using b [of n] b [of 35] that by simp
    qed
    have top: "bit x 35 = bit x (35 - k)" using e [of "35 + k"] by simp
    show "\<forall>j. 35 - k \<le> j \<and> j \<le> 35 \<longrightarrow> bit x j = bit x 35"
    proof (intro allI impI, elim conjE)
      fix j :: nat assume j: "35 - k \<le> j" "j \<le> 35"
      then have "35 \<le> j + k" "min (j + k - k) 35 = j" by simp_all
      then show "bit x j = bit x 35" using e [of "j + k"] top by simp
    qed
  next
    assume a: "\<forall>j. 35 - k \<le> j \<and> j \<le> 35 \<longrightarrow> bit x j = bit x 35"
    have e: "bit x (min (n - k) 35) = bit x 35" if "35 \<le> n" for n
    proof -
      have "35 - k \<le> min (n - k) 35" "min (n - k) 35 \<le> 35" using that by simp_all
      then show ?thesis using a by blast
    qed
    show "fits36 (push_bit k (sval x))"
      unfolding fits36_bits
    proof (intro allI impI)
      fix n :: nat assume "35 \<le> n"
      then show "bit (push_bit k (sval x)) n = bit (push_bit k (sval x)) 35"
        using b [of n] b [of 35] e [of n] e [of 35] by (simp only: order_refl)
    qed
  qed
qed

text \<open>
  ASH to the left, up to 28 places: overflow exactly when the product with the power of two
  does not fit, and the product when it does.
\<close>

lemma ash_left:
  assumes w: "wf36 x" and e: "0 < amount ab" "amount ab \<le> 28"
  defines "v \<equiv> sval x * 2 ^ nat (amount ab)"
  shows "fst (ash_of ab x) \<longleftrightarrow> \<not> fits36 v" "fits36 v \<Longrightarrow> sval (snd (ash_of ab x)) = v"
    "wf36 (snd (ash_of ab x))"
proof -
  define k where "k = nat (amount ab)"
  have k: "0 < k" "k \<le> 28" "nat \<bar>amount ab\<bar> = k" using e by (simp_all add: k_def)
  have ne: "amount ab \<noteq> - 256" using e by simp
  have vp: "v = push_bit k (sval x)" by (simp add: v_def k_def push_bit_eq_mult)
  define r where "r = (push_bit k x AND CMASK) OR (x AND SMASK)"
  have eq: "ash_of ab x = (left_overflow k x, r)"
    using k e unfolding ash_of_def Let_def counts_nat(1) [OF ne] amount_sign r_def left_overflow_def
    by simp
  have wr: "wf36 r" using w by (simp add: r_def wf36_intros)
  show "fst (ash_of ab x) \<longleftrightarrow> \<not> fits36 v"
  proof -
    have "k \<le> 35" using k by simp
    then show ?thesis
      unfolding eq vp fst_conv using left_overflow_bits [OF w k(2)] shift_fits [OF w, of k] by metis
  qed
  show "wf36 (snd (ash_of ab x))" using wr by (simp add: eq)
  assume f: "fits36 v"
  have "sval r = v"
  proof (rule sval_bits [OF wr])
    fix n :: nat assume n: "n \<le> 35"
    show "bit r n \<longleftrightarrow> bit v n"
    proof (cases "n = 35")
      case True
      have "k \<le> 35" using k by simp
      then have "\<forall>j. 35 - k \<le> j \<and> j \<le> 35 \<longrightarrow> bit x j = bit x 35"
        using f shift_fits [OF w, of k] unfolding vp by metis
      then have "bit x (35 - k) = bit x 35" by (metis diff_le_self order_refl)
      then show ?thesis
        using True k by (simp add: r_def vp bit_simps bit_single bit_sval [OF w])
    next
      case False
      then show ?thesis
        using n by (auto simp: r_def vp bit_simps bit_single bit_sval [OF w])
    qed
  next
    fix n :: nat assume "35 \<le> n"
    then show "bit v n \<longleftrightarrow> bit v 35" using f unfolding fits36_bits by blast
  qed
  then show "sval (snd (ash_of ab x)) = v" by (simp add: eq)
qed

text \<open>Beyond 28 places the 64-bit overflow test loses the bits it should examine.\<close>

lemma ash_left_unreported:
  "ash_of 30 0x400000000 = (False, 0)" "\<not> fits36 (sval 0x400000000 * 2 ^ 30)"
  by (simp_all add: ash_of_def shift_count_def tst_def clr_bits_def fits36_def sval_def)

section \<open>JFFO\<close>

lemma top_mask:
  assumes "uint w < 2 ^ 36" and "j \<le> 36"
  shows "(w :: u64) AND push_bit j (mask (36 - j)) = 0 \<longleftrightarrow> uint w < 2 ^ j"
proof
  assume z: "w AND push_bit j (mask (36 - j)) = 0"
  have "take_bit j w = w"
  proof (rule bit_word_eqI)
    fix n
    have "\<not> bit (w AND push_bit j (mask (36 - j))) n" by (simp add: z)
    then show "bit (take_bit j w) n = bit w n"
      using uint_less_bits [OF assms(1), of n]
      by (auto simp: bit_and_iff bit_push_bit_iff bit_mask_iff bit_take_bit_iff)
  qed
  then have "uint w = uint w mod 2 ^ j" by (metis uint_take)
  then show "uint w < 2 ^ j" by (metis pos_mod_bound zero_less_numeral zero_less_power)
next
  assume l: "uint w < 2 ^ j"
  show "w AND push_bit j (mask (36 - j)) = 0"
    using uint_less_bits [OF l]
    by (intro bit_word_eqI) (fastforce simp: bit_and_iff bit_push_bit_iff)
qed

lemma nl_step_spec:
  assumes "uint w < 2 ^ 36" and "m = push_bit j (mask (36 - j))" and "j + k \<le> 36"
  shows "nl_step k m (n, w) = (if uint w < 2 ^ j then (n + k, push_bit k w) else (n, w))"
    and "uint w < 2 ^ j \<Longrightarrow> uint (push_bit k w) = uint w * 2 ^ k"
proof -
  show "nl_step k m (n, w) = (if uint w < 2 ^ j then (n + k, push_bit k w) else (n, w))"
    using top_mask [OF assms(1), of j] assms(2,3) by (simp add: nl_step_def)
  assume "uint w < 2 ^ j"
  then have "uint w * 2 ^ k < 2 ^ j * 2 ^ k" by simp
  also have "\<dots> \<le> 2 ^ 36"
    using assms(3) power_increasing [of "j + k" 36 "2 :: int"] by (simp add: power_add)
  finally show "uint (push_bit k w) = uint w * 2 ^ k" by (intro uint_push64) simp
qed

definition nl_inv :: "int \<Rightarrow> nat \<Rightarrow> nat \<times> u64 \<Rightarrow> bool" where
  \<comment> \<open>after some steps: the word shifted by the count so far, at least \<open>2 ^ j\<close>\<close>
  "nl_inv w0 j = (\<lambda>(n, w). uint w = w0 * 2 ^ n \<and> 2 ^ j \<le> uint w \<and> uint w < 2 ^ 36)"

lemma nl_inv_step:
  assumes "nl_inv w0 i p" and "m = push_bit j (mask (36 - j))" and "j + k \<le> 36"
    and "l \<le> j" and "l \<le> i + k"
  shows "nl_inv w0 l (nl_step k m p)"
proof -
  obtain n w where p: "p = (n, w)" by fastforce
  have i: "uint w = w0 * 2 ^ n" "2 ^ i \<le> uint w" "uint w < 2 ^ 36"
    using assms(1) by (simp_all add: nl_inv_def p)
  note s = nl_step_spec [OF i(3) assms(2,3)]
  have pw: "(2 :: int) ^ l \<le> 2 ^ j" "(2 :: int) ^ l \<le> 2 ^ i * 2 ^ k"
    using assms(4,5) by (simp_all flip: power_add)
  show ?thesis
  proof (cases "uint w < 2 ^ j")
    case True
    have u: "uint (push_bit k w) = uint w * 2 ^ k" by (rule s(2) [OF True])
    have "2 ^ i * 2 ^ k \<le> uint w * 2 ^ k" using i(2) by (intro mult_right_mono) simp_all
    moreover have "uint w * 2 ^ k < 2 ^ 36"
    proof -
      have "uint w * 2 ^ k < 2 ^ j * 2 ^ k" using True by simp
      also have "\<dots> \<le> 2 ^ 36"
        using assms(3) power_increasing [of "j + k" 36 "2 :: int"] by (simp add: power_add)
      finally show ?thesis .
    qed
    moreover have "2 ^ l \<le> uint w * 2 ^ k" using pw(2) calculation(1) by linarith
    ultimately show ?thesis using True i(1) s(1) u by (simp add: p nl_inv_def power_add)
  next
    case False
    then have "2 ^ l \<le> uint w" using pw(1) by linarith
    then show ?thesis using False i s(1) by (simp add: p nl_inv_def)
  qed
qed

text \<open>\<open>nlzero\<close> counts the zeros above the first one of a 36-bit word.\<close>

lemma nlzero_spec:
  assumes w: "wf36 w" and nz: "w \<noteq> 0"
  shows "nlzero w < 36" "2 ^ (35 - nlzero w) \<le> uint w" "uint w < 2 ^ (36 - nlzero w)"
proof -
  have m: "(0xFFFFC0000 :: u64) = push_bit 18 (mask (36 - 18))"
    "(0xFF8000000 :: u64) = push_bit 27 (mask (36 - 27))"
    "(0xFC0000000 :: u64) = push_bit 30 (mask (36 - 30))"
    "(0xE00000000 :: u64) = push_bit 33 (mask (36 - 33))"
    "(0xC00000000 :: u64) = push_bit 34 (mask (36 - 34))"
    "(0x800000000 :: u64) = push_bit 35 (mask (36 - 35))"
    by (simp_all add: mask_eq_exp_minus_1 push_bit_eq_mult)
  have "0 < uint w" using nz uint_ge_0 [of w] by (simp add: less_le uint_0_iff)
  then have "nl_inv (uint w) 0 (0, w)" using w by (simp add: nl_inv_def wf36_uint)
  then have "nl_inv (uint w) 18 (nl_step 18 LMASK (0, w))"
    by (rule nl_inv_step [OF _ m(1)]) simp_all
  then have "nl_inv (uint w) 27 (nl_step 9 0xFF8000000 (nl_step 18 LMASK (0, w)))"
    by (rule nl_inv_step [OF _ m(2)]) simp_all
  then have "nl_inv (uint w) 30 (nl_step 6 0xFC0000000 (nl_step 9 0xFF8000000 (nl_step 18 LMASK (0, w))))"
    by (rule nl_inv_step [OF _ m(3)]) simp_all
  then have "nl_inv (uint w) 33 (nl_step 3 0xE00000000 (nl_step 6 0xFC0000000
      (nl_step 9 0xFF8000000 (nl_step 18 LMASK (0, w)))))"
    by (rule nl_inv_step [OF _ m(4)]) simp_all
  then have "nl_inv (uint w) 34 (nl_step 1 0xC00000000 (nl_step 3 0xE00000000 (nl_step 6 0xFC0000000
      (nl_step 9 0xFF8000000 (nl_step 18 LMASK (0, w))))))"
    by (rule nl_inv_step [OF _ m(5)]) simp_all
  then have "nl_inv (uint w) 35 (nl_step 1 SMASK (nl_step 1 0xC00000000 (nl_step 3 0xE00000000
      (nl_step 6 0xFC0000000 (nl_step 9 0xFF8000000 (nl_step 18 LMASK (0, w)))))))"
    by (rule nl_inv_step [OF _ m(6)]) simp_all
  then have i: "2 ^ 35 \<le> uint w * 2 ^ nlzero w" "uint w * 2 ^ nlzero w < 2 ^ 36"
    using nz by (auto simp: nl_inv_def nlzero_def split: prod.splits)
  show n: "nlzero w < 36"
  proof (rule ccontr)
    assume "\<not> nlzero w < 36"
    then have "(2 :: int) ^ 36 \<le> 2 ^ nlzero w" by (intro power_increasing) simp_all
    also have "\<dots> \<le> uint w * 2 ^ nlzero w" using \<open>0 < uint w\<close> by simp
    finally show False using i(2) by simp
  qed
  have s: "(2 :: int) ^ (35 - nlzero w) * 2 ^ nlzero w = 2 ^ 35"
    "(2 :: int) ^ (36 - nlzero w) * 2 ^ nlzero w = 2 ^ 36"
    using n by (simp_all flip: power_add)
  show "2 ^ (35 - nlzero w) \<le> uint w" "uint w < 2 ^ (36 - nlzero w)"
    using i unfolding s [symmetric] by simp_all
qed

end
