(* ===== verification/Shift_Long.thy ===== *)
theory Shift_Long
  imports Shifts Long_Div
begin

text \<open>
  ASHC of \<open>PDP10/kx10_cpu.c\<close> as arithmetic on the 70-bit two's-complement number the
  two accumulators hold (the sign bit of the low word is a copy and is ignored on input).
\<close>

unbundle bit_operations_syntax

lemma bit_long_value:
  assumes w: "wf36 hi"
  shows "bit (long_value hi lo) n \<longleftrightarrow> (if n < 35 then bit lo n else bit hi (min (n - 35) 35))"
proof -
  have "push_bit 35 (sval hi) AND take_bit 35 (uint lo) = 0"
    by (rule bit_eqI) (auto simp: bit_simps)
  then have "long_value hi lo = push_bit 35 (sval hi) OR take_bit 35 (uint lo)"
    by (simp add: long_value_def push_bit_eq_mult take_bit_eq_mod disjunctive_add_eq_or [symmetric])
  then show ?thesis
    by (auto simp: bit_or_iff bit_push_bit_iff bit_take_bit_iff bit_sval [OF w] bit_uint_iff)
qed

lemma long_value_eq:
  assumes "wf36 hi"
    and "\<And>n. n < 35 \<Longrightarrow> bit lo n \<longleftrightarrow> bit i n"
    and "\<And>n. n \<le> 35 \<Longrightarrow> bit hi n \<longleftrightarrow> bit i (n + 35)"
    and "\<And>n. 70 \<le> n \<Longrightarrow> bit i n \<longleftrightarrow> bit i 70"
  shows "long_value hi lo = i"
proof (rule bit_eqI)
  fix n :: nat
  consider "n < 35" | "35 \<le> n" "n \<le> 70" | "70 < n" by linarith
  then show "bit (long_value hi lo) n = bit i n"
  proof cases
    case 1
    then show ?thesis using assms(2) by (simp add: bit_long_value [OF assms(1)])
  next
    case 2
    then have "min (n - 35) 35 = n - 35" "n - 35 + 35 = n" "n - 35 \<le> 35" by linarith+
    then show ?thesis using 2 assms(3) [of "n - 35"] by (simp add: bit_long_value [OF assms(1)])
  next
    case 3
    then have "min (n - 35) 35 = 35" by linarith
    then show ?thesis
      using 3 assms(3) [of 35] assms(4) [of n] by (simp add: bit_long_value [OF assms(1)])
  qed
qed

definition fits70 :: "int \<Rightarrow> bool" where
  "fits70 i \<longleftrightarrow> - (2 ^ 70) \<le> i \<and> i < 2 ^ 70"

lemma fits70_bits: "fits70 i \<longleftrightarrow> (\<forall>n \<ge> 70. bit i n = bit i 70)"
  unfolding fits70_def by (rule fits_int_bits)

section \<open>To the right\<close>

definition ashc_right :: "nat \<Rightarrow> u64 \<Rightarrow> u64 \<Rightarrow> u64 \<times> u64" where
  \<comment> \<open>the right-shift branch for a count of \<open>k\<close>\<close>
  "ashc_right k br mq0 =
     (let ad = (if tst br SMASK then FMASK else 0); ar = br AND CMASK; mq = mq0 AND CMASK
      in if 35 \<le> k then (ad, (drop_bit (k - 35) ar OR push_bit (70 - k) ad) AND FMASK)
         else (((ad AND SMASK) OR (drop_bit k ar OR push_bit (35 - k) ad)) AND FMASK,
               (ad AND SMASK) OR drop_bit k mq OR (push_bit (35 - k) ar AND CMASK)))"

lemma bit_sign_fill: "bit (if tst x SMASK then FMASK else 0) i \<longleftrightarrow> i < 36 \<and> bit x 35"
  by (auto simp: tst_simps)

lemma ashc_right_bits:
  assumes k: "0 < k" "k \<le> 70"
  shows "n \<le> 35 \<Longrightarrow> bit (fst (ashc_right k br mq0)) n \<longleftrightarrow> bit br (min (n + k) 35)"
    "n < 35 \<Longrightarrow> bit (snd (ashc_right k br mq0)) n \<longleftrightarrow>
      (if n + k < 35 then bit mq0 (n + k) else bit br (min (n + k - 35) 35))"
    "bit (snd (ashc_right k br mq0)) 35 = bit br 35"
proof -
  define ad where "ad = (if tst br SMASK then FMASK else 0)"
  have ad: "bit ad i \<longleftrightarrow> i < 36 \<and> bit br 35" for i
    unfolding ad_def by (rule bit_sign_fill)
  have r: "ashc_right k br mq0 =
     (if 35 \<le> k then (ad, (drop_bit (k - 35) (br AND CMASK) OR push_bit (70 - k) ad) AND FMASK)
      else (((ad AND SMASK) OR (drop_bit k (br AND CMASK) OR push_bit (35 - k) ad)) AND FMASK,
            (ad AND SMASK) OR drop_bit k (mq0 AND CMASK)
              OR (push_bit (35 - k) (br AND CMASK) AND CMASK)))"
    by (simp add: ashc_right_def ad_def)
  note b = bit_and_iff bit_or_iff bit_drop_bit_eq bit_push_bit_iff ad bit_single
  show "bit (fst (ashc_right k br mq0)) n \<longleftrightarrow> bit br (min (n + k) 35)" if n: "n \<le> 35"
  proof (cases "35 \<le> k")
    case True
    then have "min (n + k) 35 = 35" by simp
    then show ?thesis using True n by (simp add: r ad)
  next
    case False
    show ?thesis
    proof (cases "n + k < 35")
      case True
      then have "\<not> 35 - k \<le> n" "min (n + k) 35 = k + n" by linarith+
      then show ?thesis using False True by (simp add: r b add.commute)
    next
      case low: False
      then have "35 - k \<le> n" "min (n + k) 35 = 35" "n - (35 - k) < 36" "\<not> k + n < 35"
        using n by linarith+
      then show ?thesis using False n by (auto simp: r b)
    qed
  qed
  show "bit (snd (ashc_right k br mq0)) n \<longleftrightarrow>
      (if n + k < 35 then bit mq0 (n + k) else bit br (min (n + k - 35) 35))" if n: "n < 35"
  proof (cases "35 \<le> k")
    case True
    then have e: "k - 35 + n = n + k - 35" "\<not> n + k < 35" by linarith+
    show ?thesis
    proof (cases "n + k < 70")
      case True
      then have "\<not> 70 - k \<le> n" "min (n + k - 35) 35 = n + k - 35" "n + k - 35 < 35"
        using \<open>35 \<le> k\<close> by linarith+
      then show ?thesis using \<open>35 \<le> k\<close> e n by (simp add: r b)
    next
      case False
      then have "70 - k \<le> n" "min (n + k - 35) 35 = 35" "n - (70 - k) < 36" "\<not> n + k - 35 < 35"
        using n k by linarith+
      then show ?thesis using \<open>35 \<le> k\<close> e n by (auto simp: r b)
    qed
  next
    case False
    show ?thesis
    proof (cases "n + k < 35")
      case True
      then have "\<not> 35 - k \<le> n" by linarith
      then show ?thesis using False True n by (auto simp: r b add.commute)
    next
      case low: False
      then have "35 - k \<le> n" "min (n + k - 35) 35 = n + k - 35" "n - (35 - k) = n + k - 35"
          "n + k - 35 < 35" "\<not> k + n < 35"
        using n False by linarith+
      then show ?thesis using False low n by (auto simp: r b)
    qed
  qed
  show "bit (snd (ashc_right k br mq0)) 35 = bit br 35"
  proof (cases "35 \<le> k")
    case True
    then have "70 - k \<le> 35" "35 - (70 - k) < 36" "\<not> k - 35 + 35 < 35" using k by linarith+
    then show ?thesis using True by (auto simp: r b)
  next
    case False
    then show ?thesis by (auto simp: r b)
  qed
qed

lemma wf36_and_smask: "wf36 (x AND SMASK)"
  by (rule wf36_bitwise(2) [OF wf36_const(6)])

lemma ashc_of_right:
  assumes e: "amount ab < 0" "amount ab \<noteq> - 256"
  defines "k \<equiv> (if nat (- amount ab) > 70 then 70 else nat (- amount ab))"
  shows "ashc_of ab br mq = (False, ashc_right k br mq)" "0 < k" "k \<le> 70"
proof -
  have n: "shift_count ab = nat (- amount ab)" using counts_nat(1) [OF e(2)] e(1) by simp
  show k: "0 < k" "k \<le> 70" using e by (auto simp: k_def)
  have t: "tst ab 0x20000" using e(1) by (simp add: amount_sign)
  show "ashc_of ab br mq = (False, ashc_right k br mq)"
    using k unfolding ashc_of_def ashc_right_def Let_def n k_def [symmetric] by (simp add: t)
qed

text \<open>ASHC to the right divides the double-length number, rounding toward minus infinity.\<close>

lemma ashc_right_value:
  assumes w: "wf36 hi" "wf36 lo" and e: "amount ab < 0" "amount ab \<noteq> - 256"
  shows "fst (ashc_of ab hi lo) = False"
    "long_is (snd (ashc_of ab hi lo)) (long_value hi lo div 2 ^ nat (- amount ab))"
proof -
  define K where "K = nat (- amount ab)"
  define k where "k = (if nat (- amount ab) > 70 then 70 else nat (- amount ab))"
  note r = ashc_of_right [OF e, folded k_def]
  note b = ashc_right_bits [OF r(2,3)]
  note lv = bit_long_value [OF w(1), of lo]
  have K: "k = min K 70" by (simp add: k_def K_def)
  have wf: "wf36 (fst (ashc_right k hi lo))" "wf36 (snd (ashc_right k hi lo))"
    unfolding ashc_right_def Let_def
    by (cases "35 \<le> k"; cases "tst hi SMASK"; simp only: if_True if_False fst_conv snd_conv;
        intro wf36_bitwise(3,5) wf36_mask wf36_const wf36_and_smask)+
  have hi: "bit (drop_bit K (long_value hi lo)) n \<longleftrightarrow> bit (long_value hi lo) (n + K)" for n
    by (simp add: bit_drop_bit_eq add.commute)
  have "long_value (fst (ashc_right k hi lo)) (snd (ashc_right k hi lo)) = drop_bit K (long_value hi lo)"
  proof (rule long_value_eq [OF wf(1)])
    fix n :: nat assume n: "n < 35"
    show "bit (snd (ashc_right k hi lo)) n \<longleftrightarrow> bit (drop_bit K (long_value hi lo)) n"
    proof (cases "K \<le> 70")
      case True
      then have "k = K" by (simp add: K)
      then show ?thesis unfolding b(2) [OF n] hi lv by simp
    next
      case False
      then have "min (n + 70 - 35) 35 = 35" "min (n + K - 35) 35 = 35" "k = 70" by (simp_all add: K)
      then show ?thesis unfolding b(2) [OF n] hi lv using False by simp
    qed
  next
    fix n :: nat assume n: "n \<le> 35"
    have "min (n + k) 35 = min (n + 35 + K - 35) 35" using K by simp
    then show "bit (fst (ashc_right k hi lo)) n \<longleftrightarrow> bit (drop_bit K (long_value hi lo)) (n + 35)"
      unfolding b(1) [OF n] hi lv by simp
  next
    fix n :: nat assume "70 \<le> n"
    then have "min (n + K - 35) 35 = 35" "min (70 + K - 35) 35 = 35" by simp_all
    then show "bit (drop_bit K (long_value hi lo)) n \<longleftrightarrow> bit (drop_bit K (long_value hi lo)) 70"
      unfolding hi lv using \<open>70 \<le> n\<close> by simp
  qed
  moreover have "bit (fst (ashc_right k hi lo)) 35 = bit hi 35" using b(1) [OF order_refl] by simp
  ultimately show "fst (ashc_of ab hi lo) = False"
    "long_is (snd (ashc_of ab hi lo)) (long_value hi lo div 2 ^ nat (- amount ab))"
    unfolding r(1) long_is_def using wf b(3)
    by (simp_all add: long_value_def drop_bit_eq_div K_def)
qed

section \<open>To the left\<close>

definition ashc_left :: "nat \<Rightarrow> u64 \<Rightarrow> u64 \<Rightarrow> u64 \<times> u64" where
  \<comment> \<open>the left-shift branch for a count of \<open>k < 35\<close>\<close>
  "ashc_left k br mq0 =
     (let ad = (if tst br SMASK then FMASK else 0); ar = br AND CMASK; mq = mq0 AND CMASK
      in ((ad AND SMASK) OR (push_bit k ar AND CMASK) OR drop_bit (35 - k) mq,
          (ad AND SMASK) OR (push_bit k mq AND CMASK)))"

definition ashc_overflow :: "nat \<Rightarrow> u64 \<Rightarrow> bool" where
  "ashc_overflow k br \<longleftrightarrow>
     clr_bits (push_bit k ((if tst br SMASK then FMASK else 0) AND CMASK)) CMASK
     \<noteq> clr_bits (push_bit k (br AND CMASK)) CMASK"

lemma ashc_left_bits:
  assumes k: "k < 35"
  shows "n \<le> 35 \<Longrightarrow> bit (fst (ashc_left k br mq)) n \<longleftrightarrow>
      (if n = 35 then bit br 35 else if k \<le> n then bit br (n - k) else bit mq (n + 35 - k))"
    "n \<le> 35 \<Longrightarrow> bit (snd (ashc_left k br mq)) n \<longleftrightarrow>
      (if n = 35 then bit br 35 else k \<le> n \<and> bit mq (n - k))"
proof -
  define ad where "ad = (if tst br SMASK then FMASK else 0)"
  have ad: "bit ad i \<longleftrightarrow> i < 36 \<and> bit br 35" for i
    unfolding ad_def by (rule bit_sign_fill)
  have r: "ashc_left k br mq = ((ad AND SMASK) OR (push_bit k (br AND CMASK) AND CMASK)
        OR drop_bit (35 - k) (mq AND CMASK),
      (ad AND SMASK) OR (push_bit k (mq AND CMASK) AND CMASK))"
    by (simp add: ashc_left_def ad_def)
  note b = bit_and_iff bit_or_iff bit_drop_bit_eq bit_push_bit_iff ad bit_single
  show "bit (fst (ashc_left k br mq)) n \<longleftrightarrow>
      (if n = 35 then bit br 35 else if k \<le> n then bit br (n - k) else bit mq (n + 35 - k))"
    if n: "n \<le> 35"
  proof -
    consider "n = 35" | "n < 35" "k \<le> n" | "n < 35" "n < k" using n by linarith
    then show ?thesis
    proof cases
      case 1
      then show ?thesis using k by (auto simp: r b)
    next
      case 2
      then have "\<not> 35 - k + n < 35" using k by linarith
      then show ?thesis using 2 by (auto simp: r b)
    next
      case 3
      then have "35 - k + n = n + 35 - k" "n + 35 - k < 35" using k by linarith+
      then show ?thesis using 3 by (auto simp: r b)
    qed
  qed
  show "bit (snd (ashc_left k br mq)) n \<longleftrightarrow> (if n = 35 then bit br 35 else k \<le> n \<and> bit mq (n - k))"
    if n: "n \<le> 35"
    using n by (cases "n = 35") (auto simp: r b)
qed

lemma ashc_overflow_bits:
  assumes k: "k \<le> 29"
  shows "\<not> ashc_overflow k br \<longleftrightarrow> (\<forall>j. 35 - k \<le> j \<and> j \<le> 35 \<longrightarrow> bit br j = bit br 35)"
proof -
  define g where "g = (if tst br SMASK then FMASK else 0)"
  have g: "bit g i \<longleftrightarrow> i < 36 \<and> bit br 35" for i unfolding g_def by (rule bit_sign_fill)
  have c: "bit (clr_bits (push_bit k (y AND CMASK)) CMASK) n \<longleftrightarrow>
      n < 64 \<and> 35 \<le> n \<and> bit y (n - k) \<and> n - k < 35" for y :: u64 and n
    using k by (auto simp: bit_clr_bits bit_push_bit_iff bit_and_iff)
  show ?thesis
  proof
    assume no: "\<not> ashc_overflow k br"
    show "\<forall>j. 35 - k \<le> j \<and> j \<le> 35 \<longrightarrow> bit br j = bit br 35"
    proof (intro allI impI, elim conjE)
      fix j :: nat assume j: "35 - k \<le> j" "j \<le> 35"
      have e: "bit (clr_bits (push_bit k (g AND CMASK)) CMASK) (j + k)
          = bit (clr_bits (push_bit k (br AND CMASK)) CMASK) (j + k)"
        using no by (simp add: ashc_overflow_def g_def)
      show "bit br j = bit br 35"
      proof (cases "j = 35")
        case False
        then have "35 \<le> j + k" "j + k < 64" "j < 35" using j k by linarith+
        then show ?thesis using e unfolding c g by simp
      qed simp
    qed
  next
    assume a: "\<forall>j. 35 - k \<le> j \<and> j \<le> 35 \<longrightarrow> bit br j = bit br 35"
    have "clr_bits (push_bit k (g AND CMASK)) CMASK = clr_bits (push_bit k (br AND CMASK)) CMASK"
    proof (rule bit_word_eqI)
      fix n assume n: "n < LENGTH(64)"
      show "bit (clr_bits (push_bit k (g AND CMASK)) CMASK) n
          = bit (clr_bits (push_bit k (br AND CMASK)) CMASK) n"
      proof (cases "35 \<le> n \<and> n - k < 35")
        case True
        then have "35 - k \<le> n - k" "n - k \<le> 35" by linarith+
        then have "bit br (n - k) = bit br 35" using a by blast
        then show ?thesis using True unfolding c g by simp
      next
        case False
        then show ?thesis unfolding c by blast
      qed
    qed
    then show "\<not> ashc_overflow k br" by (simp add: ashc_overflow_def g_def)
  qed
qed

lemma push_fits70:
  assumes w: "wf36 hi" and k: "k \<le> 35"
  shows "fits70 (push_bit k (long_value hi lo)) \<longleftrightarrow>
    (\<forall>j. 35 - k \<le> j \<and> j \<le> 35 \<longrightarrow> bit hi j = bit hi 35)"
proof -
  have b: "70 \<le> n \<Longrightarrow> bit (push_bit k (long_value hi lo)) n \<longleftrightarrow> bit hi (min (n - k - 35) 35)" for n
  proof -
    assume "70 \<le> n"
    then have "\<not> n - k < 35" "k \<le> n" using k by linarith+
    then show ?thesis by (simp add: bit_push_bit_iff bit_long_value [OF w])
  qed
  show ?thesis
  proof
    assume f: "fits70 (push_bit k (long_value hi lo))"
    have e: "bit hi (min (n - k - 35) 35) = bit hi (35 - k)" if "70 \<le> n" for n
    proof -
      have "bit (push_bit k (long_value hi lo)) n = bit (push_bit k (long_value hi lo)) 70"
        using f that unfolding fits70_bits by blast
      moreover have "min (70 - k - 35) 35 = 35 - k" by simp
      ultimately show ?thesis using b [OF that] b [of 70] by simp
    qed
    have top: "bit hi 35 = bit hi (35 - k)" using e [of "70 + k"] by simp
    show "\<forall>j. 35 - k \<le> j \<and> j \<le> 35 \<longrightarrow> bit hi j = bit hi 35"
    proof (intro allI impI, elim conjE)
      fix j :: nat assume j: "35 - k \<le> j" "j \<le> 35"
      then have "70 \<le> j + k + 35" "min (j + k + 35 - k - 35) 35 = j" by simp_all
      then show "bit hi j = bit hi 35" using e [of "j + k + 35"] top by simp
    qed
  next
    assume a: "\<forall>j. 35 - k \<le> j \<and> j \<le> 35 \<longrightarrow> bit hi j = bit hi 35"
    have e: "bit hi (min (n - k - 35) 35) = bit hi 35" if "70 \<le> n" for n
    proof -
      have "35 - k \<le> min (n - k - 35) 35" "min (n - k - 35) 35 \<le> 35" using that by simp_all
      then show ?thesis using a by blast
    qed
    show "fits70 (push_bit k (long_value hi lo))"
      unfolding fits70_bits
    proof (intro allI impI)
      fix n :: nat assume "70 \<le> n"
      then show "bit (push_bit k (long_value hi lo)) n = bit (push_bit k (long_value hi lo)) 70"
        using b [of n] b [of 70] e [of n] e [of 70] by (simp only: order_refl)
    qed
  qed
qed

text \<open>
  ASHC to the left, up to 29 places: overflow exactly when the product with the power of two
  does not fit in 70 bits and a sign, and the product when it does.
\<close>

lemma ashc_left_value:
  assumes w: "wf36 hi" "wf36 lo" and e: "0 < amount ab" "amount ab \<le> 29"
  defines "v \<equiv> long_value hi lo * 2 ^ nat (amount ab)"
  shows "fst (ashc_of ab hi lo) \<longleftrightarrow> \<not> fits70 v"
    "fits70 v \<Longrightarrow> long_is (snd (ashc_of ab hi lo)) v"
proof -
  define k where "k = nat (amount ab)"
  have k: "0 < k" "k \<le> 29" "k < 35" "k \<le> 35" "nat \<bar>amount ab\<bar> = k" using e by (simp_all add: k_def)
  have ne: "amount ab \<noteq> - 256" "\<not> amount ab < 0" using e by simp_all
  have vp: "v = push_bit k (long_value hi lo)" by (simp add: v_def k_def push_bit_eq_mult)
  have eq: "ashc_of ab hi lo = (ashc_overflow k hi, ashc_left k hi lo)"
    using k ne unfolding ashc_of_def Let_def counts_nat(1) [OF ne(1)] amount_sign ashc_left_def
      ashc_overflow_def by simp
  show "fst (ashc_of ab hi lo) \<longleftrightarrow> \<not> fits70 v"
    unfolding eq vp fst_conv using ashc_overflow_bits [OF k(2)] push_fits70 [OF w(1) k(4)] by metis
  assume f: "fits70 v"
  then have "\<forall>j. 35 - k \<le> j \<and> j \<le> 35 \<longrightarrow> bit hi j = bit hi 35"
    using push_fits70 [OF w(1) k(4)] unfolding vp by metis
  then have top: "bit hi (35 - k) = bit hi 35" by (metis diff_le_self order_refl)
  note b = ashc_left_bits [OF k(3)]
  have wf: "wf36 (fst (ashc_left k hi lo))" "wf36 (snd (ashc_left k hi lo))"
    unfolding ashc_left_def Let_def fst_conv snd_conv
    by (intro wf36_bitwise(3,5) wf36_mask wf36_and_smask)+
  have vb: "bit v n \<longleftrightarrow> k \<le> n \<and> bit (long_value hi lo) (n - k)" for n
    by (simp add: vp bit_push_bit_iff)
  have "long_value (fst (ashc_left k hi lo)) (snd (ashc_left k hi lo)) = v"
  proof (rule long_value_eq [OF wf(1)])
    fix n :: nat assume "n < 35"
    then have "n - k < 35" "n \<noteq> 35" by simp_all
    then show "bit (snd (ashc_left k hi lo)) n = bit v n"
      using b(2) [of n] \<open>n < 35\<close> by (simp add: vb bit_long_value [OF w(1)])
  next
    fix n :: nat assume n: "n \<le> 35"
    consider "n = 35" | "n < 35" "k \<le> n" | "n < k" "n < 35" using n by linarith
    then show "bit (fst (ashc_left k hi lo)) n = bit v (n + 35)"
    proof cases
      case 1
      have "\<not> 35 + 35 - k < 35" "min (35 + 35 - k - 35) 35 = 35 - k" using k by simp_all
      then show ?thesis using 1 b(1) [OF n] k top by (simp add: vb bit_long_value [OF w(1)])
    next
      case 2
      have "\<not> n + 35 - k < 35" "min (n + 35 - k - 35) 35 = n - k" using 2 by simp_all
      then show ?thesis using 2 b(1) [OF n] by (simp add: vb bit_long_value [OF w(1)])
    next
      case 3
      have "n + 35 - k < 35" "k \<le> n + 35" using 3 k by linarith+
      then show ?thesis using 3 b(1) [OF n] by (simp add: vb bit_long_value [OF w(1)])
    qed
  next
    fix n :: nat assume "70 \<le> n"
    then show "bit v n \<longleftrightarrow> bit v 70" using f unfolding fits70_bits by blast
  qed
  then show "long_is (snd (ashc_of ab hi lo)) v"
    using wf b(1) [OF order_refl] b(2) [OF order_refl] by (simp add: eq long_is_def long_value_def)
qed

text \<open>
  From 36 places up the overflow test does not see the bits that leave the low word: a one
  shifted out of it is lost unreported.
\<close>

lemma ashc_left_unreported:
  "ashc_of 36 0 0x400000000 = (False, 0, 0)" "\<not> fits70 (long_value 0 0x400000000 * 2 ^ 36)"
  by (simp_all add: ashc_of_def shift_count_def tst_def clr_bits_def fits70_def long_value_def sval_def)

end
