(* ===== verification/Moves.thy ===== *)
theory Moves
  imports Cpu_State
begin

text \<open>
  The full-word moves (opcodes 200 to 217 of \<open>PDP10/kx10_cpu.c\<close>): MOVE, MOVS, MOVN
  and MOVM in their four modes, each as the code's own case, and the equivalence of all
  sixteen with a table of four operations by four modes. Opcode numbers in definition names
  are the octal numbers of the source.
\<close>

unbundle bit_operations_syntax

section \<open>Instructions\<close>

definition MOVE_200 :: "cpu \<Rightarrow> cpu" where
  "MOVE_200 s = rd_ea s (\<lambda>s. set_ac (MB s) s)"

definition MOVEI_201 :: "cpu \<Rightarrow> cpu" where
  "MOVEI_201 s = set_ac (AR s AND RMASK) s"

definition MOVEM_202 :: "cpu \<Rightarrow> cpu" where
  "MOVEM_202 s = wr_ea (s\<lparr>MB := BR s\<rparr>) (\<lambda>s. s)"

definition MOVES_203 :: "cpu \<Rightarrow> cpu" where
  "MOVES_203 s = rd_mod_ea s (\<lambda>s. let v = MB s in wr_ea s (\<lambda>s. set_ac_nz v s))"

definition MOVS_204 :: "cpu \<Rightarrow> cpu" where
  "MOVS_204 s = rd_ea s (\<lambda>s. set_ac (SWAP (MB s)) s)"

definition MOVSI_205 :: "cpu \<Rightarrow> cpu" where
  "MOVSI_205 s = set_ac (SWAP (AR s AND RMASK)) s"

definition MOVSM_206 :: "cpu \<Rightarrow> cpu" where
  "MOVSM_206 s = wr_ea (s\<lparr>MB := SWAP (get_ac s)\<rparr>) (\<lambda>s. s)"

definition MOVSS_207 :: "cpu \<Rightarrow> cpu" where
  "MOVSS_207 s = rd_mod_ea s (\<lambda>s. let v = SWAP (MB s)
     in wr_ea (s\<lparr>MB := v\<rparr>) (\<lambda>s. set_ac_nz v s))"

definition mag_of :: "u64 \<Rightarrow> cpu \<Rightarrow> u64 \<times> cpu" where
  \<comment> \<open>\<open>if ((AR & SMASK) != 0) { NEG; ... }\<close>\<close>
  "mag_of v s = (if tst v SMASK then neg_of v s else (v, s))"

definition MOVN_210 :: "cpu \<Rightarrow> cpu" where
  "MOVN_210 s = rd_ea s (\<lambda>s. let (v, s) = neg_of (MB s) s in set_ac v s)"

definition MOVNI_211 :: "cpu \<Rightarrow> cpu" where
  "MOVNI_211 s = (let (v, s) = neg_of (AR s AND RMASK) s in set_ac v s)"

definition MOVNM_212 :: "cpu \<Rightarrow> cpu" where
  "MOVNM_212 s = (let (v, s) = neg_of (get_ac s) s in wr_ea (s\<lparr>MB := v\<rparr>) (\<lambda>s. s))"

definition MOVNS_213 :: "cpu \<Rightarrow> cpu" where
  "MOVNS_213 s = rd_mod_ea s (\<lambda>s. let (v, s) = neg_of (MB s) s
     in wr_ea (s\<lparr>MB := v\<rparr>) (\<lambda>s. set_ac_nz v s))"

definition MOVM_214 :: "cpu \<Rightarrow> cpu" where
  "MOVM_214 s = rd_ea s (\<lambda>s. let (v, s) = mag_of (MB s) s in set_ac v s)"

definition MOVMI_215 :: "cpu \<Rightarrow> cpu" where
  "MOVMI_215 s = set_ac (AR s AND RMASK) s"

definition MOVMM_216 :: "cpu \<Rightarrow> cpu" where
  "MOVMM_216 s = (let (v, s) = mag_of (get_ac s) s in wr_ea (s\<lparr>MB := v\<rparr>) (\<lambda>s. s))"

definition MOVMS_217 :: "cpu \<Rightarrow> cpu" where
  "MOVMS_217 s = rd_mod_ea s (\<lambda>s. let (v, s) = mag_of (MB s) s
     in wr_ea (s\<lparr>MB := v\<rparr>) (\<lambda>s. set_ac_nz v s))"

definition exec_move :: "nat \<Rightarrow> cpu \<Rightarrow> cpu" where
  \<comment> \<open>the cases 0200 to 0217 of \<open>switch (IR)\<close>; \<open>n\<close> is \<open>IR & 017\<close>\<close>
  "exec_move n s =
     (if n = 0 then MOVE_200 s else if n = 1 then MOVEI_201 s else if n = 2 then MOVEM_202 s
      else if n = 3 then MOVES_203 s else if n = 4 then MOVS_204 s else if n = 5 then MOVSI_205 s
      else if n = 6 then MOVSM_206 s else if n = 7 then MOVSS_207 s else if n = 8 then MOVN_210 s
      else if n = 9 then MOVNI_211 s else if n = 10 then MOVNM_212 s
      else if n = 11 then MOVNS_213 s else if n = 12 then MOVM_214 s
      else if n = 13 then MOVMI_215 s else if n = 14 then MOVMM_216 s else MOVMS_217 s)"

section \<open>Negation\<close>

lemma neg_carry1: "wf36 v \<Longrightarrow> tst (CCM v + 1) SMASK \<longleftrightarrow> v = 0 \<or> v = SMASK"
proof -
  assume w: "wf36 v"
  define m where "m = uint v mod 2 ^ 35"
  have b: "0 \<le> m" "m < 2 ^ 35" by (simp_all add: m_def)
  have c: "uint (CCM v) = 2 ^ 35 - 1 - m" by (simp only: CCM_uint w m_def)
  have "uint (CCM v) + uint (1 :: u64) < 2 ^ 64" unfolding c using b by simp
  then have u: "uint (CCM v + 1) = 2 ^ 35 - m" by (simp only: uint_add64) (simp add: c)
  have wf: "wf36 (CCM v + 1)" unfolding wf36_uint u using b by simp
  have "tst (CCM v + 1) SMASK \<longleftrightarrow> m = 0"
    using b unfolding tst_simps sign_iff [OF wf] u by auto
  also have "\<dots> \<longleftrightarrow> uint v mod 2 ^ 35 = 0" by (simp only: m_def)
  also have "\<dots> \<longleftrightarrow> uint v = 0 \<or> uint v = 2 ^ 35"
  proof
    assume "uint v mod 2 ^ 35 = 0"
    then obtain k where k: "uint v = 2 ^ 35 * k" by (auto simp: mod_eq_0_iff_dvd elim: dvdE)
    moreover have "0 \<le> uint v" "uint v < 2 ^ 36" using w by (simp_all add: wf36_uint)
    ultimately have "0 \<le> k" "k < 2" by auto
    then show "uint v = 0 \<or> uint v = 2 ^ 35" using k by auto
  qed auto
  also have "\<dots> \<longleftrightarrow> v = 0 \<or> v = SMASK" by (simp add: word_uint_eq_iff)
  finally show ?thesis .
qed

lemma neg_carry0: "wf36 v \<Longrightarrow> tst (CM v + 1) C1 \<longleftrightarrow> v = 0"
proof -
  assume w: "wf36 v"
  have "bit (CM v + 1) 36 \<longleftrightarrow> odd (uint (CM v + 1) div 2 ^ 36)"
    by (metis bit_iff_odd bit_uint_iff bit_imp_le_length)
  also have "\<dots> \<longleftrightarrow> uint v = 0"
  proof (cases "uint v = 0")
    case False
    then have "0 < uint v" using uint_ge_0 [of v] by linarith
    then have "(2 ^ 36 - uint v) div 2 ^ 36 = 0"
      using w by (intro div_pos_pos_trivial) (auto simp: wf36_uint)
    then show ?thesis using False w by (simp add: uint_CM1)
  qed (simp add: uint_CM1 w)
  finally show ?thesis by (simp add: tst_simps word_uint_eq_iff)
qed

text \<open>
  What \<open>NEG\<close> computes: the two's-complement negative, both carries for zero, carry 1
  and overflow for the most negative number, and no flag otherwise.
\<close>

lemma neg_of_spec:
  assumes "wf36 v"
  shows "neg_of v s = (neg36 v,
    s\<lparr>FLAGS := FLAGS s OR
       (if v = 0 then CRY0 OR CRY1
        else if v = SMASK then CRY1 OR (if pi_cycle s then 0 else OVR OR TRP1)
        else 0)\<rparr>)"
proof -
  have top: "neg36 v = SMASK \<longleftrightarrow> v = SMASK"
  proof
    assume e: "neg36 v = SMASK"
    show "v = SMASK"
    proof (rule ccontr)
      assume "v \<noteq> SMASK"
      then have "sval v = - sval SMASK" using sval_neg36 [OF assms] e by simp
      then show False using sval_range [OF assms] by (simp add: sval_def)
    qed
  qed (simp add: neg36_def CM_def)
  show ?thesis
  proof (cases "v = 0 \<or> v = SMASK")
    case True
    then show ?thesis
      by (elim disjE; cases "pi_cycle s")
        (simp_all add: neg_of_def neg36_def CM_def CCM_def tst_def or_flags_def or.assoc)
  next
    case False
    then show ?thesis
      unfolding neg_of_def Let_def neg36_def [symmetric] neg_carry1 [OF assms]
        neg_carry0 [OF assms] top
      by (simp add: or_flags_def)
  qed
qed

section \<open>The move table\<close>

datatype fw_op = Full | Swapped | Negative | Magnitude
datatype fw_mode = Basic | Immediate | To_memory | To_self

fun fw_apply :: "fw_op \<Rightarrow> u64 \<Rightarrow> cpu \<Rightarrow> u64 \<times> cpu" where
  "fw_apply Full v s = (v, s)"
| "fw_apply Swapped v s = (SWAP v, s)"
| "fw_apply Negative v s = neg_of v s"
| "fw_apply Magnitude v s = mag_of v s"

fun move_spec :: "fw_op \<Rightarrow> fw_mode \<Rightarrow> cpu \<Rightarrow> cpu" where
  "move_spec op Basic s = rd_ea s (\<lambda>s. let (v, s) = fw_apply op (MB s) s in set_ac v s)"
| "move_spec op Immediate s = (let (v, s) = fw_apply op (AR s AND RMASK) s in set_ac v s)"
| "move_spec op To_memory s =
     (let (v, s) = fw_apply op (get_ac s) s in wr_ea (s\<lparr>MB := v\<rparr>) (\<lambda>s. s))"
| "move_spec op To_self s = rd_mod_ea s (\<lambda>s. let (v, s) = fw_apply op (MB s) s
     in wr_ea (s\<lparr>MB := v\<rparr>) (\<lambda>s. set_ac_nz v s))"

fun fw_code :: "fw_op \<Rightarrow> nat" where
  "fw_code Full = 0" | "fw_code Swapped = 4" | "fw_code Negative = 8" | "fw_code Magnitude = 12"

fun fw_mode_code :: "fw_mode \<Rightarrow> nat" where
  "fw_mode_code Basic = 0" | "fw_mode_code Immediate = 1" | "fw_mode_code To_memory = 2"
| "fw_mode_code To_self = 3"

lemma MB_idem: "s\<lparr>MB := MB s\<rparr> = s" for s :: cpu
  by (cases s) simp

lemma exec_move_table:
  "BR s = get_ac s \<Longrightarrow> exec_move (fw_code op + fw_mode_code mode) s = move_spec op mode s"
proof -
  have pos: "\<not> tst (AR s AND RMASK) SMASK" by (simp add: tst_simps mask_simps bit_simps)
  assume "BR s = get_ac s"
  then show ?thesis
    by (cases op; cases mode)
      (simp_all add: exec_move_def MOVE_200_def MOVEI_201_def MOVEM_202_def MOVES_203_def
        MOVS_204_def MOVSI_205_def MOVSM_206_def MOVSS_207_def MOVN_210_def MOVNI_211_def
        MOVNM_212_def MOVNS_213_def MOVM_214_def MOVMI_215_def MOVMM_216_def MOVMS_217_def
        mag_of_def [of "AR s AND RMASK"] pos Let_def MB_idem)
qed

end
