(* ===== verification/Logic.thy ===== *)
theory Logic
  imports Add_Sub
begin

text \<open>
  The Boolean instructions (opcodes 400 to 477) and the test instructions (600 to 677) of
  \<open>PDP10/kx10_cpu.c\<close>. Every group of four opcodes is one definition whose argument
  \<open>n\<close> is the mode, \<open>IR & 3\<close>: result to the accumulator, immediate operand,
  result to memory, result to both.
\<close>

unbundle bit_operations_syntax

section \<open>Operand modes\<close>

definition write_mem :: "u64 \<Rightarrow> cpu \<Rightarrow> cpu" where
  \<comment> \<open>\<open>MB = AR; if (Mem_write(0, 0)) goto last;\<close>\<close>
  "write_mem v s = wr_ea (s\<lparr>MB := v\<rparr>) (\<lambda>s. s)"

definition write_both :: "u64 \<Rightarrow> cpu \<Rightarrow> cpu" where
  "write_both v s = wr_ea (s\<lparr>MB := v\<rparr>) (set_ac v)"

definition bool_ac :: "(u64 \<Rightarrow> u64 \<Rightarrow> u64) \<Rightarrow> cpu \<Rightarrow> cpu" where
  "bool_ac f s = rd_ea s (\<lambda>s. set_ac (f (MB s) (BR s)) s)"

definition bool_imm :: "(u64 \<Rightarrow> u64 \<Rightarrow> u64) \<Rightarrow> cpu \<Rightarrow> cpu" where
  "bool_imm f s = set_ac (f (AR s AND RMASK) (BR s)) s"

definition bool_mem :: "(u64 \<Rightarrow> u64 \<Rightarrow> u64) \<Rightarrow> cpu \<Rightarrow> cpu" where
  "bool_mem f s = rd_mod_ea s (\<lambda>s. write_mem (f (MB s) (BR s)) s)"

definition bool_both :: "(u64 \<Rightarrow> u64 \<Rightarrow> u64) \<Rightarrow> cpu \<Rightarrow> cpu" where
  "bool_both f s = rd_mod_ea s (\<lambda>s. write_both (f (MB s) (BR s)) s)"

definition bool_modes :: "(u64 \<Rightarrow> u64 \<Rightarrow> u64) \<Rightarrow> nat \<Rightarrow> cpu \<Rightarrow> cpu" where
  \<comment> \<open>the four cases of a group whose operation reads memory\<close>
  "bool_modes f n s =
     (if n = 0 then bool_ac f s else if n = 1 then bool_imm f s
      else if n = 2 then bool_mem f s else bool_both f s)"

definition const_modes :: "u64 \<Rightarrow> nat \<Rightarrow> cpu \<Rightarrow> cpu" where
  \<comment> \<open>the four cases of a group that does not read memory\<close>
  "const_modes v n s =
     (if n = 0 \<or> n = 1 then set_ac v s else if n = 2 then write_mem v s else write_both v s)"

section \<open>The sixteen functions\<close>

definition SETZ_400 :: "nat \<Rightarrow> cpu \<Rightarrow> cpu" where
  "SETZ_400 n s = const_modes 0 n s"

definition AND_404 :: "nat \<Rightarrow> cpu \<Rightarrow> cpu" where
  "AND_404 n s = bool_modes (\<lambda>m b. m AND b) n s"

definition ANDCA_410 :: "nat \<Rightarrow> cpu \<Rightarrow> cpu" where
  "ANDCA_410 n s = bool_modes (\<lambda>m b. m AND CM b) n s"

definition SETM_414 :: "nat \<Rightarrow> cpu \<Rightarrow> cpu" where
  \<comment> \<open>SETMM writes the word back; SETMB only reads\<close>
  "SETM_414 n s =
     (if n = 0 then rd_ea s (\<lambda>s. set_ac (MB s) s)
      else if n = 1 then set_ac (AR s AND RMASK) s
      else if n = 2 then rd_mod_ea s (\<lambda>s. wr_ea s (\<lambda>s. s))
      else rd_ea s (\<lambda>s. set_ac (MB s) s))"

definition ANDCM_420 :: "nat \<Rightarrow> cpu \<Rightarrow> cpu" where
  "ANDCM_420 n s = bool_modes (\<lambda>m b. CM m AND b) n s"

definition SETA_424 :: "nat \<Rightarrow> cpu \<Rightarrow> cpu" where
  "SETA_424 n s = const_modes (BR s) n s"

definition XOR_430 :: "nat \<Rightarrow> cpu \<Rightarrow> cpu" where
  "XOR_430 n s = bool_modes (\<lambda>m b. m XOR b) n s"

definition IOR_434 :: "nat \<Rightarrow> cpu \<Rightarrow> cpu" where
  "IOR_434 n s = bool_modes (\<lambda>m b. CM (CM m AND CM b)) n s"

definition ANDCB_440 :: "nat \<Rightarrow> cpu \<Rightarrow> cpu" where
  "ANDCB_440 n s = bool_modes (\<lambda>m b. CM m AND CM b) n s"

definition EQV_444 :: "nat \<Rightarrow> cpu \<Rightarrow> cpu" where
  "EQV_444 n s = bool_modes (\<lambda>m b. CM (m XOR b)) n s"

definition SETCA_450 :: "nat \<Rightarrow> cpu \<Rightarrow> cpu" where
  "SETCA_450 n s = const_modes (CM (BR s)) n s"

definition ORCA_454 :: "nat \<Rightarrow> cpu \<Rightarrow> cpu" where
  "ORCA_454 n s = bool_modes (\<lambda>m b. CM (CM m AND b)) n s"

definition SETCM_460 :: "nat \<Rightarrow> cpu \<Rightarrow> cpu" where
  "SETCM_460 n s = bool_modes (\<lambda>m b. CM m) n s"

definition ORCM_464 :: "nat \<Rightarrow> cpu \<Rightarrow> cpu" where
  "ORCM_464 n s = bool_modes (\<lambda>m b. CM (m AND CM b)) n s"

definition ORCB_470 :: "nat \<Rightarrow> cpu \<Rightarrow> cpu" where
  \<comment> \<open>ORCBM reads without asking for write access\<close>
  "ORCB_470 n s =
     (if n = 2 then rd_ea s (\<lambda>s. write_mem (CM (MB s AND BR s)) s)
      else bool_modes (\<lambda>m b. CM (m AND b)) n s)"

definition SETO_474 :: "nat \<Rightarrow> cpu \<Rightarrow> cpu" where
  "SETO_474 n s = const_modes FMASK n s"

definition exec_bool :: "nat \<Rightarrow> cpu \<Rightarrow> cpu" where
  \<comment> \<open>the cases 0400 to 0477 of \<open>switch (IR)\<close>: group \<open>k\<close>, mode \<open>n\<close>\<close>
  "exec_bool i s =
     (let k = i div 4; n = i mod 4
      in if k = 0 then SETZ_400 n s else if k = 1 then AND_404 n s else
         if k = 2 then ANDCA_410 n s else if k = 3 then SETM_414 n s else
         if k = 4 then ANDCM_420 n s else if k = 5 then SETA_424 n s else
         if k = 6 then XOR_430 n s else if k = 7 then IOR_434 n s else
         if k = 8 then ANDCB_440 n s else if k = 9 then EQV_444 n s else
         if k = 10 then SETCA_450 n s else if k = 11 then ORCA_454 n s else
         if k = 12 then SETCM_460 n s else if k = 13 then ORCM_464 n s else
         if k = 14 then ORCB_470 n s else SETO_474 n s)"

section \<open>Tests\<close>

definition test_bits :: "u32 \<Rightarrow> u64 \<Rightarrow> u64 \<Rightarrow> u64" where
  \<comment> \<open>\<open>switch (IR & 060)\<close>: the modified accumulator \<open>MQ\<close>\<close>
  "test_bits ir m b =
     (if ir AND 0x30 = 0x10 then CM m AND b
      else if ir AND 0x30 = 0x20 then m XOR b
      else m OR b)"

definition test_skips :: "u32 \<Rightarrow> u64 \<Rightarrow> bool" where
  \<comment> \<open>\<open>f = ((AR == 0) & ((IR >> 1) & 1)) ^ ((IR >> 2) & 1)\<close>\<close>
  "test_skips ir v \<longleftrightarrow> (v = 0 \<and> drop_bit 1 ir AND 1 \<noteq> 0) \<noteq> (drop_bit 2 ir AND 1 \<noteq> 0)"

definition test_op :: "u64 \<Rightarrow> cpu \<Rightarrow> cpu" where
  "test_op v s =
     (let m = (if tst (IR s) 1 then SWAP v else v);
          mq = test_bits (IR s) m (BR s);
          s = (if test_skips (IR s) (m AND BR s) then s\<lparr>PC := (PC s + 1) AND 0x3FFFF\<rparr> else s)
      in if tst (IR s) 0x30 then set_ac mq s else s)"

definition exec_test :: "cpu \<Rightarrow> cpu" where
  "exec_test s =
     (if tst (IR s) 8 then rd_ea s (\<lambda>s. test_op (MB s) s)
      else test_op (AR s AND RMASK) s)"

section \<open>The truth table\<close>

definition bool_val :: "nat \<Rightarrow> u64 \<Rightarrow> u64 \<Rightarrow> u64" where
  \<comment> \<open>the expression of group \<open>k\<close> over memory \<open>m\<close> and accumulator \<open>b\<close>\<close>
  "bool_val k m b =
     [0, m AND b, m AND CM b, m, CM m AND b, b, m XOR b, CM (CM m AND CM b),
      CM m AND CM b, CM (m XOR b), CM b, CM (CM m AND b), CM m, CM (m AND CM b),
      CM (m AND b), FMASK] ! k"

definition truth :: "nat \<Rightarrow> bool \<Rightarrow> bool \<Rightarrow> bool" where
  \<comment> \<open>the group number read as a truth table: bit 0 for both ones, bit 1 for memory
      alone, bit 2 for the accumulator alone, bit 3 for neither\<close>
  "truth k m b \<longleftrightarrow> odd (k div 2 ^ (if m then if b then 0 else 1 else if b then 2 else 3))"

lemma bit_CM: "bit (CM x) j \<longleftrightarrow> j < 36 \<and> \<not> bit x j \<or> 36 \<le> j \<and> bit x j"
  by (auto simp: CM_def bit_simps)

lemma less16: "k < 16 \<Longrightarrow> k \<in> {0, 1, 2, 3, 4, 5, 6, 7, 8, 9, 10, 11, 12, 13, 14, 15 :: nat}"
  unfolding insert_iff empty_iff by presburger

text \<open>The group number of a Boolean instruction is its truth table.\<close>

lemma bool_val_truth:
  assumes "wf36 m" "wf36 b" "k < 16"
  shows "bit (bool_val k m b) j \<longleftrightarrow> j < 36 \<and> truth k (bit m j) (bit b j)"
proof (cases "j < 36")
  case True
  then show ?thesis
    using less16 [OF assms(3)] unfolding insert_iff empty_iff
    by (elim disjE; cases "bit m j"; cases "bit b j")
      (simp_all add: bool_val_def truth_def bit_CM bit_simps)
next
  case False
  then have "\<not> bit m j" "\<not> bit b j" using assms(1,2) by (simp_all add: wf36_high)
  then show ?thesis
    using less16 [OF assms(3)] False unfolding insert_iff empty_iff
    by (elim disjE) (simp_all add: bool_val_def bit_CM bit_simps)
qed

definition reads_mem :: "nat \<Rightarrow> bool" where
  \<comment> \<open>the groups whose result depends on memory\<close>
  "reads_mem k \<longleftrightarrow> k \<noteq> 0 \<and> k \<noteq> 5 \<and> k \<noteq> 10 \<and> k \<noteq> 15"

definition bool_spec :: "nat \<Rightarrow> nat \<Rightarrow> cpu \<Rightarrow> cpu" where
  "bool_spec k n s =
     (if reads_mem k
      then (if n = 0 then rd_ea s (\<lambda>s. set_ac (bool_val k (MB s) (BR s)) s)
            else if n = 1 then set_ac (bool_val k (AR s AND RMASK) (BR s)) s
            else if n = 2 then rd_mod_ea s (\<lambda>s. write_mem (bool_val k (MB s) (BR s)) s)
            else rd_mod_ea s (\<lambda>s. write_both (bool_val k (MB s) (BR s)) s))
      else (if n = 0 \<or> n = 1 then set_ac (bool_val k 0 (BR s)) s
            else if n = 2 then write_mem (bool_val k 0 (BR s)) s
            else write_both (bool_val k 0 (BR s)) s))"

lemma write_mem_MB: "write_mem (MB s) s = wr_ea s (\<lambda>s. s)"
  by (cases s) (simp add: write_mem_def)

lemmas bool_group_defs =
  SETZ_400_def AND_404_def ANDCA_410_def SETM_414_def ANDCM_420_def SETA_424_def XOR_430_def IOR_434_def ANDCB_440_def EQV_444_def SETCA_450_def ORCA_454_def SETCM_460_def ORCM_464_def ORCB_470_def SETO_474_def

text \<open>
  All sixty-four instructions are the table, but for SETMB, which does not write memory, and
  ORCBM, which reads before it has asked for write access.
\<close>

lemma exec_bool_spec:
  assumes "k < 16" "n < 4" "(k, n) \<noteq> (3, 3)" "(k, n) \<noteq> (14, 2)"
  shows "exec_bool (4 * k + n) s = bool_spec k n s"
proof -
  have kn: "(4 * k + n) div 4 = k" "(4 * k + n) mod 4 = n" using assms(2) by simp_all
  have n: "n \<in> {0, 1, 2, 3}" using assms(2) by auto
  show ?thesis
    using less16 [OF assms(1)] n assms(3,4)
    unfolding exec_bool_def Let_def kn insert_iff empty_iff
    by (elim disjE)
      (simp_all add: bool_group_defs bool_modes_def const_modes_def bool_ac_def bool_imm_def
        bool_mem_def bool_both_def bool_spec_def reads_mem_def bool_val_def write_mem_MB)
qed

lemma bool_exceptions:
  "exec_bool 15 s = rd_ea s (\<lambda>s. set_ac (MB s) s)"
  "exec_bool 58 s = rd_ea s (\<lambda>s. write_mem (CM (MB s AND BR s)) s)"
  by (simp_all add: exec_bool_def SETM_414_def ORCB_470_def)

section \<open>What the tests test\<close>

text \<open>
  A test instruction skips never, when all masked bits are zero, always, or when not all are,
  and clears, complements or sets the masked bits.
\<close>

lemma test_skips_iff:
  "test_skips ir v \<longleftrightarrow>
     (if bit ir 2 then (if bit ir 1 then v \<noteq> 0 else True) else bit ir 1 \<and> v = 0)"
proof -
  have "drop_bit 1 ir AND 1 \<noteq> 0 \<longleftrightarrow> bit ir 1" "drop_bit 2 ir AND 1 \<noteq> 0 \<longleftrightarrow> bit ir 2"
    using tst_exp [of "drop_bit 1 ir" 0] tst_exp [of "drop_bit 2 ir" 0]
    by (simp_all add: tst_def bit_drop_bit_eq del: drop_bit_and)
  then show ?thesis unfolding test_skips_def by auto
qed

lemma test_bits_bits:
  assumes "wf36 m" "wf36 b"
  shows "bit (test_bits ir m b) j \<longleftrightarrow>
    (if ir AND 0x30 = 0x10 then bit b j \<and> \<not> bit m j
     else if ir AND 0x30 = 0x20 then bit b j \<noteq> bit m j
     else bit b j \<or> bit m j)"
proof (cases "j < 36")
  case True
  then show ?thesis by (auto simp: test_bits_def bit_CM bit_simps)
next
  case False
  then have "36 \<le> j" by simp
  then have "\<not> bit m j" "\<not> bit b j" using assms by (simp_all add: wf36_high)
  then show ?thesis using False by (auto simp: test_bits_def bit_CM bit_simps)
qed

end
