(* ===== verification/Halfwords.thy ===== *)
theory Halfwords
  imports Logic
begin

text \<open>
  The half-word instructions (opcodes 500 to 577 of \<open>PDP10/kx10_cpu.c\<close>). A group of
  four opcodes is one definition; its argument \<open>n\<close>, \<open>IR & 3\<close>, is the mode:
  0 takes the half from memory, 1 from the immediate operand, 2 stores into memory, 3 changes the
  memory word in place and copies it to a nonzero accumulator. All are shown to follow one table
  of source half, destination half and fill.
\<close>

unbundle bit_operations_syntax

section \<open>Operand modes\<close>

definition half_ac :: "(u64 \<Rightarrow> u64) \<Rightarrow> cpu \<Rightarrow> cpu" where
  \<comment> \<open>modes 0 of the groups that fill: \<open>AR = MB; ...; set_reg(AC, AR)\<close>\<close>
  "half_ac f s = rd_ea s (\<lambda>s. set_ac (f (MB s)) s)"

definition half_imm :: "(u64 \<Rightarrow> u64) \<Rightarrow> cpu \<Rightarrow> cpu" where
  "half_imm f s = set_ac (f (AR s AND RMASK)) s"

definition half_mem :: "(u64 \<Rightarrow> u64) \<Rightarrow> cpu \<Rightarrow> cpu" where
  \<comment> \<open>\<open>AR = get_reg(AC); ...; MB = AR; Mem_write(0, 0)\<close>\<close>
  "half_mem f s = write_mem (f (get_ac s)) s"

definition half_self :: "(u64 \<Rightarrow> u64) \<Rightarrow> cpu \<Rightarrow> cpu" where
  "half_self f s = rd_mod_ea s (\<lambda>s. let v = f (MB s)
     in wr_ea (s\<lparr>MB := v\<rparr>) (\<lambda>s. set_ac_nz v s))"

definition half_fill :: "(u64 \<Rightarrow> u64) \<Rightarrow> nat \<Rightarrow> cpu \<Rightarrow> cpu" where
  \<comment> \<open>the four cases of a group that replaces the other half by a constant\<close>
  "half_fill f n s =
     (if n = 0 then half_ac f s else if n = 1 then half_imm f s
      else if n = 2 then half_mem f s else half_self f s)"

section \<open>Groups that keep the other half\<close>

definition HLLS_503 :: "cpu \<Rightarrow> cpu" where
  \<comment> \<open>HLLS and HRRS: the word is written back as it was read\<close>
  "HLLS_503 s = rd_mod_ea s (\<lambda>s. let v = MB s in wr_ea s (\<lambda>s. set_ac_nz v s))"

definition HLL_500 :: "nat \<Rightarrow> cpu \<Rightarrow> cpu" where
  "HLL_500 n s =
     (if n = 0 then rd_ea s (\<lambda>s. set_ac ((MB s AND LMASK) OR (BR s AND RMASK)) s)
      else if n = 1 then set_ac (((AR s AND RMASK) AND LMASK) OR (BR s AND RMASK)) s
      else if n = 2 then rd_mod_ea s (\<lambda>s. write_mem ((BR s AND LMASK) OR (MB s AND RMASK)) s)
      else HLLS_503 s)"

definition HRL_504 :: "nat \<Rightarrow> cpu \<Rightarrow> cpu" where
  "HRL_504 n s =
     (if n = 0 then rd_ea s (\<lambda>s. set_ac ((SWAP (MB s) AND LMASK) OR (BR s AND RMASK)) s)
      else if n = 1 then set_ac ((SWAP (AR s AND RMASK) AND LMASK) OR (BR s AND RMASK)) s
      else if n = 2 then
        rd_mod_ea s (\<lambda>s. write_mem ((SWAP (BR s) AND LMASK) OR (MB s AND RMASK)) s)
      else half_self (\<lambda>m. (SWAP m AND LMASK) OR (m AND RMASK)) s)"

definition HRR_540 :: "nat \<Rightarrow> cpu \<Rightarrow> cpu" where
  "HRR_540 n s =
     (if n = 0 then rd_ea s (\<lambda>s. set_ac ((BR s AND LMASK) OR (MB s AND RMASK)) s)
      else if n = 1 then set_ac ((BR s AND LMASK) OR ((AR s AND RMASK) AND RMASK)) s
      else if n = 2 then rd_mod_ea s (\<lambda>s. write_mem ((MB s AND LMASK) OR (BR s AND RMASK)) s)
      else HLLS_503 s)"

definition HLR_544 :: "nat \<Rightarrow> cpu \<Rightarrow> cpu" where
  \<comment> \<open>HLR reads the accumulator again\<close>
  "HLR_544 n s =
     (if n = 0 then
        rd_ea s (\<lambda>s. set_ac ((get_ac s AND LMASK) OR (SWAP (MB s) AND RMASK)) s)
      else if n = 1 then set_ac ((BR s AND LMASK) OR (SWAP (AR s AND RMASK) AND RMASK)) s
      else if n = 2 then
        rd_mod_ea s (\<lambda>s. write_mem ((MB s AND LMASK) OR (SWAP (BR s) AND RMASK)) s)
      else half_self (\<lambda>m. (m AND LMASK) OR (SWAP m AND RMASK)) s)"

section \<open>Groups that fill the other half\<close>

definition HLLZ_510 :: "nat \<Rightarrow> cpu \<Rightarrow> cpu" where
  "HLLZ_510 n s = half_fill (\<lambda>m. m AND LMASK) n s"

definition HRLZ_514 :: "nat \<Rightarrow> cpu \<Rightarrow> cpu" where
  "HRLZ_514 n s = half_fill (\<lambda>m. SWAP m AND LMASK) n s"

definition HLLO_520 :: "nat \<Rightarrow> cpu \<Rightarrow> cpu" where
  "HLLO_520 n s = half_fill (\<lambda>m. (m AND LMASK) OR RMASK) n s"

definition HRLO_524 :: "nat \<Rightarrow> cpu \<Rightarrow> cpu" where
  "HRLO_524 n s = half_fill (\<lambda>m. (SWAP m AND LMASK) OR RMASK) n s"

definition HLLE_530 :: "nat \<Rightarrow> cpu \<Rightarrow> cpu" where
  "HLLE_530 n s = half_fill (\<lambda>m. (m AND LMASK) OR (if tst m SMASK then RMASK else 0)) n s"

definition HRLE_534 :: "nat \<Rightarrow> cpu \<Rightarrow> cpu" where
  "HRLE_534 n s = half_fill (\<lambda>m. (SWAP m AND LMASK) OR (if tst (SWAP m) SMASK then RMASK else 0)) n s"

definition HRRZ_550 :: "nat \<Rightarrow> cpu \<Rightarrow> cpu" where
  "HRRZ_550 n s = half_fill (\<lambda>m. m AND RMASK) n s"

definition HLRZ_554 :: "nat \<Rightarrow> cpu \<Rightarrow> cpu" where
  "HLRZ_554 n s = half_fill (\<lambda>m. SWAP m AND RMASK) n s"

definition HRRO_560 :: "nat \<Rightarrow> cpu \<Rightarrow> cpu" where
  "HRRO_560 n s = half_fill (\<lambda>m. LMASK OR (m AND RMASK)) n s"

definition HLRO_564 :: "nat \<Rightarrow> cpu \<Rightarrow> cpu" where
  \<comment> \<open>HLROM reads memory before it writes, and takes the accumulator from \<open>BR\<close>\<close>
  "HLRO_564 n s =
     (if n = 2 then rd_ea s (\<lambda>s. write_mem (LMASK OR (SWAP (BR s) AND RMASK)) s)
      else half_fill (\<lambda>m. LMASK OR (SWAP m AND RMASK)) n s)"

definition HRRE_570 :: "nat \<Rightarrow> cpu \<Rightarrow> cpu" where
  "HRRE_570 n s = half_fill (\<lambda>m. (if tst m RSIGN then LMASK else 0) OR (m AND RMASK)) n s"

definition HLRE_574 :: "nat \<Rightarrow> cpu \<Rightarrow> cpu" where
  "HLRE_574 n s = half_fill (\<lambda>m. (if tst (SWAP m) RSIGN then LMASK else 0) OR (SWAP m AND RMASK)) n s"

definition exec_half :: "nat \<Rightarrow> cpu \<Rightarrow> cpu" where
  \<comment> \<open>the cases 0500 to 0577 of \<open>switch (IR)\<close>: group \<open>k\<close>, mode \<open>n\<close>\<close>
  "exec_half i s =
     (let k = i div 4; n = i mod 4
      in if k = 0 then HLL_500 n s else if k = 1 then HRL_504 n s else
         if k = 2 then HLLZ_510 n s else if k = 3 then HRLZ_514 n s else
         if k = 4 then HLLO_520 n s else if k = 5 then HRLO_524 n s else
         if k = 6 then HLLE_530 n s else if k = 7 then HRLE_534 n s else
         if k = 8 then HRR_540 n s else if k = 9 then HLR_544 n s else
         if k = 10 then HRRZ_550 n s else if k = 11 then HLRZ_554 n s else
         if k = 12 then HRRO_560 n s else if k = 13 then HLRO_564 n s else
         if k = 14 then HRRE_570 n s else HLRE_574 n s)"

section \<open>The table of half-word operations\<close>

datatype half = Lft | Rgt

datatype fill = Keep | Zeros | Ones | Extend

definition half_of :: "half \<Rightarrow> u64 \<Rightarrow> u64" where
  \<comment> \<open>a half of a word, as an 18-bit value\<close>
  "half_of h w = (case h of Lft \<Rightarrow> drop_bit 18 w AND RMASK | Rgt \<Rightarrow> w AND RMASK)"

definition halves :: "u64 \<Rightarrow> u64 \<Rightarrow> u64" where
  \<comment> \<open>the word with the given halves\<close>
  "halves l r = push_bit 18 (l AND RMASK) OR (r AND RMASK)"

definition fill_of :: "fill \<Rightarrow> u64 \<Rightarrow> u64 \<Rightarrow> u64" where
  \<comment> \<open>the half opposite the moved half \<open>v\<close>, where \<open>old\<close> stood before\<close>
  "fill_of f v old =
     (case f of Keep \<Rightarrow> old | Zeros \<Rightarrow> 0 | Ones \<Rightarrow> RMASK
      | Extend \<Rightarrow> (if bit v 17 then RMASK else 0))"

definition half_move :: "half \<Rightarrow> half \<Rightarrow> fill \<Rightarrow> u64 \<Rightarrow> u64 \<Rightarrow> u64" where
  \<comment> \<open>the half \<open>src\<close> of \<open>w\<close> moved into the half \<open>dst\<close> of \<open>old\<close>\<close>
  "half_move src dst f w old =
     (let v = half_of src w
      in case dst of Lft \<Rightarrow> halves v (fill_of f v (half_of Rgt old))
         | Rgt \<Rightarrow> halves (fill_of f v (half_of Lft old)) v)"

definition half_src :: "nat \<Rightarrow> half" where
  "half_src k = (if odd k = (8 \<le> k) then Lft else Rgt)"

definition half_dst :: "nat \<Rightarrow> half" where
  "half_dst k = (if k < 8 then Lft else Rgt)"

definition half_kind :: "nat \<Rightarrow> fill" where
  "half_kind k = [Keep, Zeros, Ones, Extend] ! (k div 2 mod 4)"

definition half_val :: "nat \<Rightarrow> u64 \<Rightarrow> u64 \<Rightarrow> u64" where
  "half_val k w old = half_move (half_src k) (half_dst k) (half_kind k) w old"

definition half_spec :: "nat \<Rightarrow> nat \<Rightarrow> cpu \<Rightarrow> cpu" where
  \<comment> \<open>a group \<open>k\<close> in mode \<open>n\<close>\<close>
  "half_spec k n s =
     (if n = 0 then rd_ea s (\<lambda>s. set_ac (half_val k (MB s) (get_ac s)) s)
      else if n = 1 then set_ac (half_val k (AR s AND RMASK) (get_ac s)) s
      else if n = 2 then
        (if half_kind k = Keep
         then rd_mod_ea s (\<lambda>s. write_mem (half_val k (get_ac s) (MB s)) s)
         else write_mem (half_val k (get_ac s) 0) s)
      else half_self (\<lambda>m. half_val k m m) s)"

lemmas half_group_defs =
  HLL_500_def HRL_504_def HRR_540_def HLR_544_def
  HLLZ_510_def HRLZ_514_def HLLO_520_def HRLO_524_def HLLE_530_def HRLE_534_def
  HRRZ_550_def HLRZ_554_def HRRO_560_def HLRO_564_def HRRE_570_def HLRE_574_def


section \<open>The table holds\<close>

lemma bit_RMASK: "bit (0x3FFFF :: u64) j \<longleftrightarrow> j < 18"
  using bit_mask_iff [where 'a = u64, of 18 j] by (auto simp: mask_eq_exp_minus_1)

lemma bit_LMASK: "bit (0xFFFFC0000 :: u64) j \<longleftrightarrow> 18 \<le> j \<and> j < 36"
proof -
  have "(0xFFFFC0000 :: u64) = push_bit 18 (mask 18)" by (simp add: mask_eq_exp_minus_1)
  then show ?thesis by (auto simp: bit_push_bit_iff bit_mask_iff)
qed

lemma bit_SWAP: "bit (SWAP x) j \<longleftrightarrow> (if j < 18 then bit x (j + 18) else j < 36 \<and> bit x (j - 18))"
  by (auto simp: SWAP_def bit_or_iff bit_and_iff bit_push_bit_iff bit_drop_bit_eq bit_RMASK
      add.commute dest: bit_imp_le_length)

lemma bit_halves: "bit (halves l r) j \<longleftrightarrow> (if j < 18 then bit r j else j < 36 \<and> bit l (j - 18))"
  by (auto simp: halves_def bit_or_iff bit_and_iff bit_push_bit_iff bit_RMASK
      dest: bit_imp_le_length)

lemma bit_half_of: "bit (half_of h w) j \<longleftrightarrow> j < 18 \<and> bit w (case h of Lft \<Rightarrow> j + 18 | Rgt \<Rightarrow> j)"
  by (cases h) (auto simp: half_of_def bit_and_iff bit_drop_bit_eq bit_RMASK add.commute)

lemmas half_bits = bit_SWAP bit_halves bit_half_of bit_RMASK bit_LMASK bit_or_iff bit_and_iff

text \<open>The code's expression of every group is the half-word move of the table.\<close>

definition half_code :: "nat \<Rightarrow> u64 \<Rightarrow> u64 \<Rightarrow> u64" where
  "half_code k m b =
     [(m AND LMASK) OR (b AND RMASK), (SWAP m AND LMASK) OR (b AND RMASK),
      m AND LMASK, SWAP m AND LMASK, (m AND LMASK) OR RMASK, (SWAP m AND LMASK) OR RMASK,
      (m AND LMASK) OR (if tst m SMASK then RMASK else 0),
      (SWAP m AND LMASK) OR (if tst (SWAP m) SMASK then RMASK else 0),
      (b AND LMASK) OR (m AND RMASK), (b AND LMASK) OR (SWAP m AND RMASK),
      m AND RMASK, SWAP m AND RMASK, LMASK OR (m AND RMASK), LMASK OR (SWAP m AND RMASK),
      (if tst m RSIGN then LMASK else 0) OR (m AND RMASK),
      (if tst (SWAP m) RSIGN then LMASK else 0) OR (SWAP m AND RMASK)] ! k"

lemma half_code_simps:
  "half_code 0 m b = (m AND LMASK) OR (b AND RMASK)"
  "half_code 1 m b = (SWAP m AND LMASK) OR (b AND RMASK)"
  "half_code (Suc 0) m b = (SWAP m AND LMASK) OR (b AND RMASK)"
  "half_code 2 m b = m AND LMASK"
  "half_code 3 m b = SWAP m AND LMASK"
  "half_code 4 m b = (m AND LMASK) OR RMASK"
  "half_code 5 m b = (SWAP m AND LMASK) OR RMASK"
  "half_code 6 m b = (m AND LMASK) OR (if tst m SMASK then RMASK else 0)"
  "half_code 7 m b = (SWAP m AND LMASK) OR (if tst (SWAP m) SMASK then RMASK else 0)"
  "half_code 8 m b = (b AND LMASK) OR (m AND RMASK)"
  "half_code 9 m b = (b AND LMASK) OR (SWAP m AND RMASK)"
  "half_code 10 m b = m AND RMASK"
  "half_code 11 m b = SWAP m AND RMASK"
  "half_code 12 m b = LMASK OR (m AND RMASK)"
  "half_code 13 m b = LMASK OR (SWAP m AND RMASK)"
  "half_code 14 m b = (if tst m RSIGN then LMASK else 0) OR (m AND RMASK)"
  "half_code 15 m b = (if tst (SWAP m) RSIGN then LMASK else 0) OR (SWAP m AND RMASK)"
  unfolding half_code_def by (simp_all only: nth_Cons_0 nth_Cons_numeral diff_numeral_simps pred_numeral_simps numeral_One diff_self_eq_0 Num.BitM.simps nth_Cons_Suc numeral_nat One_nat_def diff_Suc_1 diff_Suc_Suc diff_0_eq_0)

lemma half_code_val:
  assumes "k < 16"
  shows "half_code k m b = half_val k m b"
proof (rule bit_word_eqI)
  fix j
  show "bit (half_code k m b) j = bit (half_val k m b) j"
    using less16 [OF assms] unfolding insert_iff empty_iff
    by (elim disjE)
      (simp_all add: half_code_simps half_val_def half_move_def half_src_def half_dst_def
        half_kind_def fill_of_def half_bits tst_simps, auto)
qed


lemma half_keep_same: "wf36 m \<Longrightarrow> half_val 0 m m = m" "wf36 m \<Longrightarrow> half_val 8 m m = m"
proof -
  assume w: "wf36 m"
  have "half_code k m m = m" if "k = 0 \<or> k = 8" for k
  proof (rule bit_word_eqI)
    fix j
    show "bit (half_code k m m) j = bit m j"
      using that wf36_bitD [OF w, of j] by (auto simp: half_code_simps half_bits)
  qed
  then show "half_val 0 m m = m" "half_val 8 m m = m" by (simp_all flip: half_code_val)
qed

lemma HLLS_503_self:
  assumes "wf_store s" "k = 0 \<or> k = 8"
  shows "HLLS_503 s = half_self (\<lambda>m. half_val k m m) s"
  unfolding HLLS_503_def half_self_def
proof (rule mem_rd_cong)
  fix t
  assume "read_only t s"
  then have "wf36 (MB t)" using assms(1) by (simp add: read_only_def wf_store_def)
  then have v: "half_val k (MB t) (MB t) = MB t" using assms(2) half_keep_same by auto
  have "t\<lparr>MB := MB t\<rparr> = t" by simp
  then show "(let v = MB t in wr_ea t (\<lambda>s. set_ac_nz v s)) =
      (let v = half_val k (MB t) (MB t) in wr_ea (t\<lparr>MB := v\<rparr>) (\<lambda>s. set_ac_nz v s))"
    by (simp only: Let_def v)
qed

lemma half_rd_ac:
  assumes "BR s = get_ac s"
  shows "rd_ea s (\<lambda>s. set_ac (f (MB s) (BR s)) s) = rd_ea s (\<lambda>s. set_ac (f (MB s) (get_ac s)) s)"
    "rd_mod_ea s (\<lambda>s. write_mem (f (BR s) (MB s)) s) =
      rd_mod_ea s (\<lambda>s. write_mem (f (get_ac s) (MB s)) s)"
  using assms by (auto intro!: mem_rd_cong simp: read_onlyD)

lemma half_val_fill: "half_kind k \<noteq> Keep \<Longrightarrow> half_val k m b = half_val k m 0"
  by (cases "half_kind k"; cases "half_dst k")
    (simp_all add: half_val_def half_move_def fill_of_def Let_def)

lemma exec_half_code:
  assumes "k < 16" "n < 4" "half_kind k \<noteq> Keep" "(k, n) \<noteq> (13, 2)"
  shows "exec_half (4 * k + n) s = half_fill (\<lambda>m. half_code k m 0) n s"
proof -
  have kn: "(4 * k + n) div 4 = k" "(4 * k + n) mod 4 = n" using assms(2) by simp_all
  have "half_kind 0 = Keep" "half_kind 1 = Keep" "half_kind 8 = Keep" "half_kind 9 = Keep"
    by (simp_all add: half_kind_def)
  then have "k \<noteq> 0" "k \<noteq> 1" "k \<noteq> 8" "k \<noteq> 9" using assms(3) by metis+
  then show ?thesis
    using less16 [OF assms(1)] assms(4)
    unfolding exec_half_def Let_def kn insert_iff empty_iff
    by (elim disjE; simp) (simp_all add: half_group_defs half_code_simps)
qed

lemma exec_half_fill:
  assumes "k < 16" "n < 4" "half_kind k \<noteq> Keep" "(k, n) \<noteq> (13, 2)"
  shows "exec_half (4 * k + n) s = half_spec k n s"
proof -
  have v: "half_val k m b = half_code k m 0" for m b
    using half_val_fill [OF assms(3)] half_code_val [OF assms(1)] by simp
  show ?thesis
    unfolding exec_half_code [OF assms] half_spec_def v
    using assms(3) by (simp add: half_fill_def half_ac_def half_imm_def half_mem_def)
qed

lemma exec_half_keep:
  assumes "k \<in> {0, 1, 8, 9}" "n < 4" "wf_store s" "BR s = get_ac s"
  shows "exec_half (4 * k + n) s = half_spec k n s"
proof -
  have kn: "(4 * k + n) div 4 = k" "(4 * k + n) mod 4 = n" using assms(2) by simp_all
  have n: "n \<in> {0, 1, 2, 3}" using assms(2) by auto
  have k: "half_kind k = Keep" "k < 16" using assms(1) by (auto simp: half_kind_def)
  have hv: "half_val j = half_code j" if "j < 16" for j
    using half_code_val [OF that] by (intro ext) simp
  consider "n = 3" "k = 0 \<or> k = 8" | "n = 3" "k = 1 \<or> k = 9" | "n < 3" using n assms(1) by auto
  then show ?thesis
  proof cases
    case 1
    then have "exec_half (4 * k + n) s = HLLS_503 s"
      unfolding exec_half_def Let_def kn by (elim disjE) (simp_all add: HLL_500_def HRR_540_def)
    then show ?thesis using HLLS_503_self [OF assms(3) 1(2)] 1(1) by (simp add: half_spec_def)
  next
    case 2
    then show ?thesis
      unfolding exec_half_def Let_def kn
      by (elim disjE) (simp_all add: half_spec_def HRL_504_def HLR_544_def hv half_code_simps)
  next
    case 3
    note rd = half_rd_ac [OF assms(4), of "half_code k"]
    have c: "half_spec k n s = (if n = 0 then rd_ea s (\<lambda>s. set_ac (half_code k (MB s) (BR s)) s)
        else if n = 1 then set_ac (half_code k (AR s AND RMASK) (BR s)) s
        else rd_mod_ea s (\<lambda>s. write_mem (half_code k (BR s) (MB s)) s))"
      using 3 unfolding rd unfolding half_spec_def hv [OF k(2)] k(1) assms(4) by simp
    show ?thesis
    proof (cases "k = 9 \<and> n = 0")
      case True
      then show ?thesis
        unfolding exec_half_def Let_def kn
        by (simp add: HLR_544_def half_spec_def hv half_code_simps)
    next
      case False
      then show ?thesis
        using assms(1) 3 unfolding c exec_half_def Let_def kn insert_iff empty_iff
        by (elim disjE; simp only: half_code_simps HLL_500_def HRL_504_def HRR_540_def HLR_544_def;
            auto)
    qed
  qed
qed

text \<open>HLROM reads memory that it does not use.\<close>

lemma exec_half_HLROM:
  assumes "BR s = get_ac s"
  shows "exec_half 54 s = rd_ea s (\<lambda>s. write_mem (half_val 13 (get_ac s) 0) s)"
proof -
  have "exec_half 54 s = rd_ea s (\<lambda>s. write_mem (half_val 13 (BR s) 0) s)"
    by (simp add: exec_half_def HLRO_564_def half_code_simps flip: half_code_val)
  also have "\<dots> = rd_ea s (\<lambda>s. write_mem (half_val 13 (get_ac s) 0) s)"
    using assms by (auto intro!: mem_rd_cong simp: read_onlyD)
  finally show ?thesis .
qed

end
