(* ===== verification/Properties_Arith.thy ===== *)
theory Properties_Arith
  imports Power_On Long_Div Shift_Long Moves Halfwords
begin

text \<open>
  The properties of the arithmetic, shift, move, Boolean, half-word and test instructions, each
  with an instance at concrete operands.
\<close>

unbundle bit_operations_syntax

lemmas wf36_eval = wf36_uint sval_def fits36_def wrap36_def

section \<open>Fixed-point arithmetic\<close>

text \<open>
  C2: DIV divides the 70-bit dividend in the accumulator pair exactly, quotient truncated toward
  zero and remainder with the sign of the dividend, and refuses to divide exactly when the
  quotient would not fit (a zero divisor included; the dividend \<open>-2^70\<close> over zero apart).
\<close>

theorem div_exact:
  assumes "wf36 hi" "wf36 lo" "wf36 br" and "sval br \<noteq> 0 \<or> long_value hi lo \<noteq> - (2 ^ 70)"
  shows "if \<bar>sval br\<bar> * 2 ^ 35 \<le> \<bar>long_value hi lo\<bar> then div_of hi lo br = None
    else \<exists>q r. div_of hi lo br = Some (q, r) \<and> wf36 q \<and> wf36 r
      \<and> sval q = long_value hi lo sdiv sval br \<and> sval r = long_value hi lo smod sval br"
  using assms by (rule div_of_spec)

theorem div_exact_witness:
  "\<exists>q r. div_of 0 17 (neg36 5) = Some (q, r) \<and> sval q = 17 sdiv (-5) \<and> sval r = 17 smod (-5)"
proof -
  have n: "neg36 5 = 0xFFFFFFFFB" by (simp add: neg36_def CM_def)
  have v: "long_value 0 17 = 17" "sval 0xFFFFFFFFB = -5"
    by (simp_all add: long_value_def sval_def)
  have w: "wf36 0" "wf36 17" "wf36 0xFFFFFFFFB" by (simp_all add: wf36_uint)
  show ?thesis using div_exact [OF w] unfolding n v by auto
qed

text \<open>
  C21: MUL leaves the exact double-length product in the accumulator pair and sets no flag, for
  all operands but the square of the most negative number.
\<close>

theorem mul_exact:
  assumes "wf36 a" "wf36 b" and "\<not> (a = SMASK \<and> b = SMASK)"
  shows "long_is (fst (mul_of False a b s), fst (snd (mul_of False a b s))) (sval a * sval b)
    \<and> snd (snd (mul_of False a b s)) = s"
  using mul_long_product [OF assms] by blast

theorem mul_exact_witness:
  "long_is (fst (mul_of False 0xFFFFFFFFD 7 zero_cpu), fst (snd (mul_of False 0xFFFFFFFFD 7 zero_cpu)))
     (-21)"
proof -
  have "sval 0xFFFFFFFFD = -3" "sval 7 = 7" by (simp_all add: sval_def)
  then show ?thesis using mul_exact [of "0xFFFFFFFFD" 7 zero_cpu] by (simp add: wf36_uint)
qed

text \<open>
  IMUL gives the exact product whenever it fits in a word; overflow is flagged for products
  from \<open>2^35\<close> up and from \<open>-2^36\<close> down, so products in between that do not fit go
  unreported.
\<close>

theorem imul_exact_and_flags:
  assumes "wf36 a" "wf36 b" and "fits36 (sval a * sval b)"
  shows "fst (mul_of True a b s) = wrap36 (sval a * sval b) \<and> snd (snd (mul_of True a b s)) = s"
proof -
  have "\<not> imul_overflow a b" using assms(3) by (simp add: imul_overflow_def fits36_def)
  then show ?thesis using imul_result [OF assms] imul_flags [OF assms(1,2)] by (simp add: or_flags_def)
qed

theorem imul_exact_and_flags_witness:
  "fst (mul_of True 0xFFFFFFFFD 7 zero_cpu) = wrap36 (-21)"
proof -
  have "sval 0xFFFFFFFFD = -3" "sval 7 = 7" by (simp_all add: sval_def)
  then show ?thesis
    using imul_exact_and_flags [of "0xFFFFFFFFD" 7 zero_cpu] by (simp add: wf36_uint fits36_def)
qed

text \<open>
  The IMUL overflow flag is not set for the product \<open>-2^35 - 2^17\<close>, which does not
  fit in a word.
\<close>

theorem imul_overflow_unreported:
  "\<not> fits36 (sval 0xFFFFE0000 * sval 0x40001) \<and>
   FLAGS (snd (snd (mul_of True 0xFFFFE0000 0x40001 zero_cpu))) = 0"
proof -
  have v: "sval 0xFFFFE0000 = -131072" "sval 0x40001 = 262145" by (simp_all add: sval_def)
  have "wf36 0xFFFFE0000" "wf36 0x40001" by (simp_all add: wf36_uint)
  note f = imul_flags [OF this]
  show ?thesis unfolding f by (simp add: v fits36_def imul_overflow_def or_flags_def zero_cpu_def)
qed

text \<open>
  IDIV refuses exactly a zero divisor and the most negative number over one or minus one,
  and otherwise delivers the truncated quotient and the remainder with the dividend's sign.
\<close>

theorem idiv_exact:
  assumes "wf36 a" "wf36 b"
  shows "if sval b = 0 \<or> sval a = - (2 ^ 35) \<and> \<bar>sval b\<bar> = 1 then idiv_of a b = None
    else \<exists>q r. idiv_of a b = Some (q, r) \<and> wf36 q \<and> wf36 r
      \<and> sval q = sval a sdiv sval b \<and> sval r = sval a smod sval b"
proof (cases "idiv_of a b")
  case None
  then show ?thesis using idiv_of_none [OF assms] by (simp only: if_True)
next
  case (Some p)
  then obtain q r where p: "idiv_of a b = Some (q, r)" by (cases p) auto
  then have "\<not> (sval b = 0 \<or> sval a = - (2 ^ 35) \<and> \<bar>sval b\<bar> = 1)"
    using idiv_of_none [OF assms] by (metis option.distinct(1))
  then show ?thesis using p idiv_of_some [OF assms p] by (simp only: if_False) blast
qed

theorem idiv_exact_witness:
  "\<exists>q r. idiv_of 0xFFFFFFFEF 5 = Some (q, r) \<and> sval q = -17 sdiv 5 \<and> sval r = -17 smod 5"
proof -
  have "sval 0xFFFFFFFEF = -17" "sval 5 = 5" by (simp_all add: sval_def)
  then show ?thesis using idiv_exact [of "0xFFFFFFFEF" 5] by (auto simp: wf36_uint)
qed

text \<open>
  ADD leaves the sum modulo \<open>2^36\<close> and raises the overflow flag exactly when the
  signed sum does not fit in a word.
\<close>

theorem add_wraps:
  assumes "wf36 a" "wf36 b" and "\<not> pi_cycle s" and "\<not> tst (FLAGS s) OVR"
  shows "fst (add_of a b s) = wrap36 (sval a + sval b)
    \<and> (tst (FLAGS (snd (add_of a b s))) OVR \<longleftrightarrow> \<not> fits36 (sval a + sval b))"
  using sum_flags_overflow [OF assms(3,4), of True a b 0]
  by (simp add: add_of_spec [OF assms(1,2)])

theorem add_wraps_witness:
  "tst (FLAGS (snd (add_of 0x7FFFFFFFF 1 zero_cpu))) OVR"
proof -
  have "sval 0x7FFFFFFFF = 2 ^ 35 - 1" "sval 1 = 1" by (simp_all add: sval_def)
  then show ?thesis
    using add_wraps [of "0x7FFFFFFFF" 1 zero_cpu]
    by (simp add: wf36_uint fits36_def zero_cpu_def tst_def)
qed

text \<open>SUB leaves the difference modulo \<open>2^36\<close>, and raises overflow exactly when it does not fit.\<close>

theorem sub_wraps:
  assumes "wf36 a" "wf36 b" and "\<not> pi_cycle s" and "\<not> tst (FLAGS s) OVR"
  shows "fst (sub_of a b s) = wrap36 (sval b - sval a)
    \<and> (tst (FLAGS (snd (sub_of a b s))) OVR \<longleftrightarrow> \<not> fits36 (sval b - sval a))"
  using sum_flags_overflow [OF assms(3,4), of True "CM a" b 1]
  by (simp add: sub_of_spec [OF assms(1,2)] sval_CM [OF assms(1)])

theorem sub_wraps_witness:
  "\<not> tst (FLAGS (snd (sub_of 5 3 zero_cpu))) OVR \<and> fst (sub_of 5 3 zero_cpu) = wrap36 (-2)"
proof -
  have "sval 5 = 5" "sval 3 = 3" by (simp_all add: sval_def)
  then show ?thesis
    using sub_wraps [of 5 3 zero_cpu] by (simp add: wf36_uint fits36_def zero_cpu_def tst_def)
qed

text \<open>
  A compare instruction outside an interrupt cycle skips exactly when the signed
  comparison its three condition bits name holds between accumulator and operand, and changes
  nothing else.
\<close>

theorem compare_skips:
  assumes "wf36 a" "wf36 (BR s)" and "\<not> tst (IR s) 0x30" and "\<not> pi_cycle s"
  shows "compare_op a s =
    (if cmp_holds (unat (IR s AND 7)) (sval (BR s)) (sval a)
     then s\<lparr>PC := (PC s + 1) AND 0x3FFFF\<rparr> else s)"
proof -
  have "\<not> tst (IR s) 0x20"
  proof -
    have "IR s AND 0x20 = (IR s AND 0x30) AND 0x20" by (simp only: and.assoc) simp
    then show ?thesis using assms(3) unfolding tst_def by (simp only: not_not zero_and_eq)
  qed
  then show ?thesis
    using compare_cond [OF assms(1,2), of "IR s"] assms(3,4)
    unfolding compare_op_shape skip_op_def Let_def by simp
qed

theorem compare_skips_witness:
  "PC (compare_op 5 (zero_cpu\<lparr>IR := 0xC1, BR := 3\<rparr>)) = 1"
proof -
  have "sval 5 = 5" "sval 3 = 3" by (simp_all add: sval_def)
  then show ?thesis
    using compare_skips [of 5 "zero_cpu\<lparr>IR := 0xC1, BR := 3\<rparr>"]
    by (simp add: wf36_uint zero_cpu_def tst_def cmp_holds_def)
qed

section \<open>Shifts\<close>

text \<open>
  C32: ASH multiplies by a power of two or divides by one, rounding down: a left shift of up to
  28 places flags overflow exactly when the result does not fit, and is exact otherwise.
\<close>

theorem ash_scales:
  assumes "wf36 x" "amount ab \<noteq> 0" "- 256 < amount ab" "amount ab \<le> 28"
  shows "if amount ab < 0
    then fst (ash_of ab x) = False \<and> sval (snd (ash_of ab x)) = sval x div 2 ^ nat (- amount ab)
    else (fst (ash_of ab x) \<longleftrightarrow> \<not> fits36 (sval x * 2 ^ nat (amount ab)))
      \<and> (fits36 (sval x * 2 ^ nat (amount ab)) \<longrightarrow>
          sval (snd (ash_of ab x)) = sval x * 2 ^ nat (amount ab))"
proof (cases "amount ab < 0")
  case True
  then show ?thesis using ash_right(1,2) [OF assms(1) True] assms(3) by simp
next
  case False
  then have "0 < amount ab" using assms(2) by simp
  then show ?thesis using ash_left(1,2) [OF assms(1) _ assms(4)] False by simp
qed

theorem ash_scales_witness:
  "sval (snd (ash_of 0x3FFFE 0xFFFFFFFF9)) = -2"
proof -
  have "sval 0xFFFFFFFF9 = -7" "amount 0x3FFFE = -2" by (simp_all add: sval_def amount_def tst_def)
  then show ?thesis using ash_scales [of "0xFFFFFFFF9" "0x3FFFE"] by (simp add: wf36_uint)
qed

text \<open>
  The overflow test of a left ASH loses the sign bits that leave its 64-bit register: the
  number \<open>2^34\<close> shifted 30 places becomes 0 without overflow.
\<close>

theorem ash_overflow_unreported:
  "ash_of 30 0x400000000 = (False, 0) \<and> \<not> fits36 (sval 0x400000000 * 2 ^ 30)"
  using ash_left_unreported by blast

text \<open>
  ASHC left by up to 29 places flags overflow exactly when the 70-bit product with the power
  of two does not fit, and is exact otherwise.
\<close>

theorem ashc_left_exact:
  assumes "wf36 hi" "wf36 lo" "0 < amount ab" "amount ab \<le> 29"
  shows "(fst (ashc_of ab hi lo) \<longleftrightarrow> \<not> fits70 (long_value hi lo * 2 ^ nat (amount ab)))
    \<and> (fits70 (long_value hi lo * 2 ^ nat (amount ab)) \<longrightarrow>
        long_is (snd (ashc_of ab hi lo)) (long_value hi lo * 2 ^ nat (amount ab)))"
  using ashc_left_value [OF assms] by blast

theorem ashc_left_exact_witness:
  "long_is (snd (ashc_of 3 0 5)) 40"
proof -
  have "long_value 0 5 = 5" "amount 3 = 3"
    by (simp_all add: long_value_def amount_def tst_def sval_def)
  then show ?thesis using ashc_left_exact [of 0 5 3] by (simp add: wf36_uint fits70_def)
qed

text \<open>
  ASHC right divides the 70-bit number in the accumulator pair by a power of two, rounding
  down, and never overflows.
\<close>

theorem ashc_right_exact:
  assumes "wf36 hi" "wf36 lo" "amount ab < 0" "amount ab \<noteq> - 256"
  shows "fst (ashc_of ab hi lo) = False
    \<and> long_is (snd (ashc_of ab hi lo)) (long_value hi lo div 2 ^ nat (- amount ab))"
  using ashc_right_value [OF assms] by blast

theorem ashc_right_exact_witness:
  "long_is (snd (ashc_of 0x3FFFE 0 21)) 5"
proof -
  have "long_value 0 21 = 21" "amount 0x3FFFE = -2"
    by (simp_all add: long_value_def amount_def tst_def sval_def)
  then show ?thesis using ashc_right_exact [of 0 21 "0x3FFFE"] by (simp add: wf36_uint)
qed

text \<open>
  ROTC turns the 72 bits of the accumulator pair by the signed count: every bit moves, and
  none is lost.
\<close>

theorem rotc_turns:
  assumes "wf36 ar" "wf36 mq" "j < 72"
  shows "dbl_bit (rotc_of ab ar mq) j \<longleftrightarrow> dbl_bit (ar, mq) (nat ((int j - amount ab) mod 72))"
  using assms by (rule rotc_of_bits)

theorem rotc_turns_witness:
  "dbl_bit (rotc_of 1 0x800000000 0) 0"
proof -
  have "amount 1 = 1" by (simp add: amount_def tst_def)
  then show ?thesis using rotc_turns [of "0x800000000" 0 0 1] by (simp add: wf36_uint dbl_bit_def)
qed

text \<open>
  LSHC shifts the 72 bits of the accumulator pair by the signed count, filling with zeros.
\<close>

theorem lshc_shifts:
  assumes "wf36 ar" "wf36 mq" "amount ab \<noteq> - 256" "j < 72"
  shows "dbl_bit (lshc_of ab ar mq) j \<longleftrightarrow>
    amount ab \<le> int j \<and> dbl_bit (ar, mq) (nat (int j - amount ab))"
  using assms by (rule lshc_of_bits)

theorem lshc_shifts_witness:
  "dbl_bit (lshc_of 1 0 0x800000000) 36"
proof -
  have "amount 1 = 1" by (simp add: amount_def tst_def)
  then show ?thesis using lshc_shifts [of 0 "0x800000000" 1 36] by (simp add: wf36_uint dbl_bit_def)
qed

text \<open>JFFO's count is the number of zero bits before the first one.\<close>

theorem nlzero_counts:
  assumes "wf36 w" and "w \<noteq> 0"
  shows "nlzero w < 36 \<and> 2 ^ (35 - nlzero w) \<le> uint w \<and> uint w < 2 ^ (36 - nlzero w)"
  using nlzero_spec [OF assms] by blast

theorem nlzero_counts_witness:
  "nlzero 0x1000 < 36 \<and> 2 ^ (35 - nlzero 0x1000) \<le> (4096 :: int)
    \<and> (4096 :: int) < 2 ^ (36 - nlzero 0x1000)"
  using nlzero_counts [of "0x1000"] by (simp add: wf36_uint)

section \<open>Tables of instructions\<close>

text \<open>
  The sixteen full-word moves are the table of four operations (full, swapped, negative,
  magnitude) by four modes (to accumulator, immediate, to memory, to self).
\<close>

theorem moves_are_table:
  "BR s = get_ac s \<Longrightarrow> exec_move (fw_code op + fw_mode_code mode) s = move_spec op mode s"
  by (rule exec_move_table)

theorem moves_are_table_witness:
  "exec_move 10 zero_cpu = move_spec Negative To_memory zero_cpu"
  using moves_are_table [of zero_cpu Negative To_memory]
  by (simp add: get_ac_def get_reg_def zero_cpu_def)

text \<open>
  C20: Sixty-two of the sixty-four Boolean instructions compute the function whose truth table is
  the group number in the opcode, in the mode its last two bits name (SETMB and ORCBM differ).
\<close>

theorem booleans_are_table:
  assumes "k < 16" "n < 4" "(k, n) \<noteq> (3, 3)" "(k, n) \<noteq> (14, 2)" and "wf36 m" "wf36 b"
  shows "exec_bool (4 * k + n) s = bool_spec k n s
    \<and> (bit (bool_val k m b) j \<longleftrightarrow> j < 36 \<and> truth k (bit m j) (bit b j))"
  using exec_bool_spec [OF assms(1-4)] bool_val_truth [OF assms(5,6,1)] by blast

theorem booleans_are_table_witness:
  "exec_bool 24 zero_cpu = bool_spec 6 0 zero_cpu \<and> bit (bool_val 6 5 3) 1"
  using booleans_are_table [of 6 0 5 3 zero_cpu 1] by (simp add: wf36_uint truth_def)

text \<open>
  C22: The half-word instructions are the table of source half, destination half and fill
  (kept, zeros, ones, sign); only HLROM differs, by a memory read whose result it does not use.
\<close>

theorem halfwords_are_table:
  assumes "k < 16" "n < 4" "(k, n) \<noteq> (13, 2)" and "wf_store s" and "BR s = get_ac s"
  shows "exec_half (4 * k + n) s = half_spec k n s"
proof (cases "half_kind k = Keep")
  case True
  have "k \<in> {0, 1, 8, 9}"
    using less16 [OF assms(1)] True unfolding insert_iff empty_iff
    by (elim disjE) (simp_all add: half_kind_def)
  then show ?thesis using assms(2,4,5) by (rule exec_half_keep)
next
  case False
  then show ?thesis using assms(1-3) by (intro exec_half_fill)
qed

lemma zero_wf_store: "wf_store zero_cpu"
  by (simp add: wf_store_def zero_cpu_def wf36_uint)

theorem halfwords_are_table_witness:
  "exec_half 37 zero_cpu = half_spec 9 1 zero_cpu"
  using halfwords_are_table [of 9 1 zero_cpu] zero_wf_store
  by (simp add: get_ac_def get_reg_def zero_cpu_def)

text \<open>
  A test instruction clears, complements or sets in the accumulator the bits of the mask,
  and skips never, always, or according to whether all masked bits were zero.
\<close>

theorem tests_modify_and_skip:
  assumes "wf36 m" "wf36 b"
  shows "(bit (test_bits ir m b) j \<longleftrightarrow>
      (if ir AND 0x30 = 0x10 then bit b j \<and> \<not> bit m j
       else if ir AND 0x30 = 0x20 then bit b j \<noteq> bit m j
       else bit b j \<or> bit m j))
    \<and> (test_skips ir (m AND b) \<longleftrightarrow>
      (if bit ir 2 then (if bit ir 1 then m AND b \<noteq> 0 else True) else bit ir 1 \<and> m AND b = 0))"
  using test_bits_bits [OF assms] test_skips_iff by blast

theorem tests_modify_and_skip_witness:
  "bit (test_bits 0x1A0 6 3) 0 \<and> \<not> bit (test_bits 0x1A0 6 3) 1 \<and> test_skips 0x1A6 (6 AND 3)"
  using tests_modify_and_skip [of 6 3 "0x1A0" 0] tests_modify_and_skip [of 6 3 "0x1A0" 1]
    tests_modify_and_skip [of 6 3 "0x1A6" 1]
  by (simp add: wf36_uint)

end
