(* ===== verification/Control.thy ===== *)
theory Control
  imports Halfwords Moves
begin

text \<open>
  The control instructions of \<open>PDP10/kx10_cpu.c\<close> (KI10 build): EXCH, BLT, AOBJP, AOBJN,
  JRST, JFCL, XCT, MAP (opcodes 250 to 257), the stack and subroutine instructions (260 to 267),
  and the monitor and local UUOs.

  What the instructions need from the rest of the simulator is the record \<open>env\<close>: the event
  queue of \<open>scp.c\<close>, the tables of device routines and the execution breakpoints. BLT is a
  loop that, on an address beyond 18 bits, would not end: it is a
  \<open>partial_function (option)\<close>.
\<close>

unbundle bit_operations_syntax

section \<open>The surroundings of the processor\<close>

record env =
  process_event :: "cpu \<Rightarrow> nat \<times> cpu"
  dev_tab :: "nat \<Rightarrow> u32 \<Rightarrow> u64 \<Rightarrow> cpu \<Rightarrow> u64 \<times> cpu"
  dev_irqv :: "nat \<Rightarrow> (u32 \<Rightarrow> u32 \<Rightarrow> cpu \<Rightarrow> u32 \<times> cpu) option"
  brk_E :: "u32 \<Rightarrow> bool"

section \<open>Saved program-counter words\<close>

definition pc_word :: "bool \<Rightarrow> cpu \<Rightarrow> u64" where
  \<comment> \<open>\<open>(((uint64)(FLAGS) << 23) & LMASK) | ((PC + inc) & RMASK)\<close>\<close>
  "pc_word inc s =
     (push_bit 23 (ucast (FLAGS s)) AND LMASK) OR (ucast (PC s + (if inc then 1 else 0)) AND RMASK)"

definition prv_sign :: "cpu \<Rightarrow> u64 \<Rightarrow> u64" where
  \<comment> \<open>in executive mode the sign of the word is the previous-public flag\<close>
  "prv_sign s w =
     (if tst (FLAGS s) USER then w
      else clr_bits w SMASK OR (if tst (FLAGS s) PRV_PUB then SMASK else 0))"

definition saved_pc :: "cpu \<Rightarrow> u64" where
  "saved_pc s = prv_sign s (pc_word (\<not> pi_cycle s) s)"

definition clr_flags :: "u32 \<Rightarrow> cpu \<Rightarrow> cpu" where
  \<comment> \<open>\<open>FLAGS &= ~m\<close>\<close>
  "clr_flags m s = s\<lparr>FLAGS := clr_bits (FLAGS s) m\<rparr>"

definition clr_user :: "cpu \<Rightarrow> cpu" where
  \<comment> \<open>\<open>if (uuo_cycle | pi_cycle) FLAGS &= ~(USER|PUBLIC)\<close>\<close>
  "clr_user s = (if uuo_cycle s \<or> pi_cycle s then clr_flags (USER OR PUBLIC) s else s)"

abbreviation (input) PC_FLAGS :: u32 where
  \<comment> \<open>\<open>BYTI|ADRFLT|TRP1|TRP2\<close>\<close>
  "PC_FLAGS \<equiv> 0x11C"

section \<open>Exchange and block transfer\<close>

definition exec_exch :: "cpu \<Rightarrow> cpu" where
  "exec_exch s = rd_ea s (\<lambda>s. let v = MB s in wr_ea (s\<lparr>MB := BR s\<rparr>) (set_ac v))"

definition blt_events :: "env \<Rightarrow> cpu \<Rightarrow> bool \<times> cpu" where
  \<comment> \<open>events and interrupts between two words; true when the transfer is broken off\<close>
  "blt_events e s =
     (if sim_interval s \<le> 0 then
        (let (r, s) = process_event e s;
             s = s\<lparr>reason := r\<rparr>
         in if r \<noteq> 0 then (True, s)
            else if pi_pending s then
              (let (rq, s) = check_irq_level s in (rq, s\<lparr>pi_rq := rq\<rparr>))
            else (False, s))
      else (False, s))"

definition blt_move :: "u64 \<Rightarrow> cpu \<Rightarrow> bool \<times> cpu" where
  \<comment> \<open>move the word at the left half of \<open>ar\<close> to the right half; true on a fault\<close>
  "blt_move ar s =
     (let (fault, s) = Mem_read False False False False (s\<lparr>AB := ucast (drop_bit 18 ar AND RMASK)\<rparr>)
      in if fault then (True, s)
         else Mem_write False False (s\<lparr>AB := ucast (ar AND RMASK)\<rparr>))"

definition blt_stop :: "u64 \<Rightarrow> cpu \<Rightarrow> cpu" where
  "blt_stop ar s = set_ac ar (s\<lparr>f_pc_inh := True\<rparr>)"

partial_function (option) blt_loop :: "env \<Rightarrow> u64 \<Rightarrow> u64 \<Rightarrow> cpu \<Rightarrow> cpu option" where
  "blt_loop e ar br s =
     (let (stop, s) = blt_events e s
      in if stop then Some (blt_stop ar s)
         else (let (fault, s) = blt_move ar s
               in if fault then Some (blt_stop ar s)
                  else if tst ((ar AND RMASK) + CM br + 1) C1 then Some s
                  else blt_loop e (AOB ar) br s))"

definition exec_blt :: "env \<Rightarrow> cpu \<Rightarrow> cpu option" where
  "exec_blt e s = blt_loop e (BR s) (ucast (AB s)) s"

definition exec_aobjp :: "cpu \<Rightarrow> cpu" where
  "exec_aobjp s =
     (let ar = AOB (BR s);
          s = (if \<not> tst ar SMASK then jump (AB s) s else s)
      in set_ac (ar AND FMASK) s)"

definition exec_aobjn :: "cpu \<Rightarrow> cpu" where
  "exec_aobjn s =
     (let ar = AOB (BR s);
          s = (if tst ar SMASK then jump (AB s) s else s)
      in set_ac (ar AND FMASK) s)"

section \<open>UUOs\<close>

definition uuo_word :: "cpu \<Rightarrow> u64" where
  "uuo_word s = push_bit 27 (ucast (IR s)) OR push_bit 23 (ucast (AC s)) OR ucast (AB s)"

definition exec_muuo :: "cpu \<Rightarrow> cpu" where
  \<comment> \<open>the results of the accesses are ignored, as in the code\<close>
  "exec_muuo s =
     (let s = s\<lparr>modify := False, MB := uuo_word s, AB := ub_ptr s + 0x114\<rparr>;
          s = snd (Mem_write_nopage s);
          s = s\<lparr>AB := AB s + 1, MB := prv_sign s (pc_word (trap_flag s = 0) s)\<rparr>;
          s = snd (Mem_write_nopage s);
          s = clr_flags 0x211C s;
          a = ub_ptr s + 0x118;
          a = (if trap_flag s \<noteq> 0 then a OR 1 else a);
          a = (if tst (FLAGS s) PUBLIC then a OR 2 else a);
          a = (if tst (FLAGS s) USER then a OR 4 else a);
          s = snd (Mem_read_nopage (s\<lparr>AB := a\<rparr>));
          f = ucast (drop_bit 23 (MB s)) AND 0x1FFF;
          f = (if tst f USER then f
               else (let f = (if tst (AB s) 4 then f OR USERIO else f)
                     in if tst (AB s) 2 \<or> tst f OVR then f OR (PRV_PUB OR OVR) else f))
      in jump (ucast (MB s AND RMASK)) (s\<lparr>FLAGS := f\<rparr>))"

definition exec_luuo :: "cpu \<Rightarrow> bool \<times> cpu" where
  \<comment> \<open>true: \<open>goto no_fetch\<close>, with the instruction at 041 of the executive page in \<open>MB\<close>\<close>
  "exec_luuo s =
     (let s = s\<lparr>MB := uuo_word s\<rparr>
      in if \<not> tst (FLAGS s) USER then
           (let s = snd (Mem_write_nopage (s\<lparr>AB := eb_ptr s + 0x20\<rparr>));
                s = snd (Mem_read_nopage (s\<lparr>AB := AB s + 1\<rparr>))
            in (True, s\<lparr>uuo_cycle := True\<rparr>))
         else
           (let s = s\<lparr>AB := (if maoff s \<noteq> 0 \<and> uuo_cycle s then 0x20 OR maoff s else 0x20)\<rparr>;
                s = snd (Mem_write (uuo_cycle s) True s)
            in (False, s\<lparr>AB := AB s + 1, f_load_pc := False, f_pc_inh := True\<rparr>)))"

section \<open>JRST, JFCL, XCT and MAP\<close>

definition jrst_refused :: "cpu \<Rightarrow> bool" where
  "jrst_refused s \<longleftrightarrow> FLAGS s AND (USER OR USERIO) = USER \<or> FLAGS s AND (USER OR PUBLIC) = PUBLIC"

definition jrst_flags :: "u64 \<Rightarrow> u32 \<Rightarrow> u32" where
  \<comment> \<open>JRSTF: the flags loaded from the word \<open>ar\<close>\<close>
  "jrst_flags ar fl =
     (let fl = clr_bits fl 0x1F1F;
          a = ucast (drop_bit 23 ar) :: u32;
          fl = (if fl AND (PUBLIC OR USER) = 0 then fl OR (a AND (USER OR USERIO OR PUBLIC)) else fl);
          fl = (if \<not> tst a USERIO then clr_bits fl USERIO else fl);
          fl = fl OR (a AND 0x1F3F);
          fl = clr_bits fl PRV_PUB
      in if tst fl USER then fl else if tst a OVR then fl OR PRV_PUB else fl)"

definition exec_jrst :: "cpu \<Rightarrow> cpu" where
  "exec_jrst s =
     (let s = (if uuo_cycle s \<or> pi_cycle s then clr_flags USER s else s)
      in if tst (AC s) 0xC \<and> jrst_refused s then exec_muuo s
         else
           (let s = (if tst (AC s) 8 then s\<lparr>pi_restore := True\<rparr> else s);
                s = (if tst (AC s) 4 then s\<lparr>RUN := False, prog_stop := True, reason := 1\<rparr> else s);
                s = jump (ucast (AR s AND RMASK)) s;
                s = (if tst (AC s) 2
                     then check_apr_irq (s\<lparr>FLAGS := jrst_flags (AR s) (FLAGS s)\<rparr>) else s)
            in if tst (AC s) 1 then clr_flags (PUBLIC OR PRV_PUB) s else s))"

definition exec_jfcl :: "cpu \<Rightarrow> cpu" where
  "exec_jfcl s =
     (let s = (if drop_bit 9 (FLAGS s) AND AC s \<noteq> 0 then jump (ucast (AR s AND RMASK)) s else s)
      in s\<lparr>FLAGS := FLAGS s AND (0x3FFF XOR push_bit 9 (AC s))\<rparr>)"

definition exec_xct :: "cpu \<Rightarrow> cpu" where
  "exec_xct s =
     s\<lparr>f_load_pc := False, f_pc_inh := True,
       xct_flag := (if tst (FLAGS s) USER then 0 else AC s)\<rparr>"

definition exec_map :: "cpu \<Rightarrow> cpu" where
  "exec_map s =
     (let f = drop_bit 9 (AB s);
          uf = tst (FLAGS s) USER
      in if \<not> page_enable s \<or> AB s < 0x10 then set_ac (0x2000 + ucast f) s
         else
           (let uf = (if xct_flag s \<noteq> 0 \<and> \<not> uf \<and> tst (xct_flag s) 2
                      then tst (FLAGS s) USERIO else uf)
            in if uf \<and> small_user s \<and> tst f 0xE0 then set_ac 0x22000 s
               else
                 (let (d, s) = load_tlb uf f s;
                      ar = ucast d;
                      v = (if ar = 0 then 0x23FFF
                           else (let ar = (if \<not> tst ar RSIGN then ar AND 0x23FFF else ar)
                                 in ar XOR 0x20000))
                  in set_ac v s)))"

section \<open>Stack and subroutines\<close>

definition stack_trap :: "bool \<Rightarrow> cpu \<Rightarrow> cpu" where
  \<comment> \<open>\<open>if (c) if (!pi_cycle) FLAGS |= TRP2\<close>\<close>
  "stack_trap c s = or_flags (c \<and> \<not> pi_cycle s) TRP2 s"

definition exec_pushj :: "cpu \<Rightarrow> cpu" where
  "exec_pushj s =
     (let w = saved_pc s;
          w = (if tst (FLAGS s) USER then w else w AND FMASK);
          br = AOB (BR s);
          ar = AR s;
          s = clr_flags PC_FLAGS (s\<lparr>MB := w\<rparr>);
          s = stack_trap (tst br C1) s
      in mem_wr (uuo_cycle s \<or> pi_cycle s) False (s\<lparr>AB := ucast (br AND RMASK)\<rparr>)
           (\<lambda>s. set_ac (br AND FMASK) (jump (ucast (ar AND RMASK)) (clr_user s))))"

definition exec_push :: "cpu \<Rightarrow> cpu" where
  "exec_push s = rd_ea s (\<lambda>s.
     let v = MB s;
         br = AOB (BR s);
         s = stack_trap (tst br C1) s
     in wr_ea (s\<lparr>AB := ucast (br AND RMASK), MB := v\<rparr>) (set_ac (br AND FMASK)))"

definition exec_pop :: "cpu \<Rightarrow> cpu" where
  \<comment> \<open>the pointer is stored before the word, and put back on a fault\<close>
  "exec_pop s =
     (let ar = AR s; mq = BR s; br = SOB mq
      in rd_ea (s\<lparr>AB := ucast (mq AND RMASK)\<rparr>) (\<lambda>s.
           let s = set_ac (br AND FMASK) (s\<lparr>AB := ucast (ar AND RMASK)\<rparr>);
               (fault, s) = Mem_write False False s
           in if fault then set_ac mq s else stack_trap (\<not> tst br C1) s))"

definition exec_popj :: "cpu \<Rightarrow> cpu" where
  "exec_popj s =
     (let br = SOB (BR s)
      in rd_ea (s\<lparr>AB := ucast (BR s AND RMASK)\<rparr>) (\<lambda>s.
           let s = jump (ucast (MB s AND RMASK)) s;
               s = stack_trap (\<not> tst br C1) s
           in set_ac (br AND FMASK) s))"

definition exec_jsr :: "cpu \<Rightarrow> cpu" where
  "exec_jsr s =
     (let s = clr_user (s\<lparr>MB := saved_pc s\<rparr>)
      in wr_ea s (\<lambda>s. jump (ucast (((AR s AND RMASK) + 1) AND RMASK)) (clr_flags PC_FLAGS s)))"

definition exec_jsp :: "cpu \<Rightarrow> cpu" where
  "exec_jsp s =
     (let w = pc_word (\<not> pi_cycle s) s;
          s = clr_flags PC_FLAGS s;
          w = prv_sign s w;
          s = clr_user s
      in set_ac w (jump (ucast (AR s AND RMASK)) s))"

definition exec_jsa :: "cpu \<Rightarrow> cpu" where
  \<comment> \<open>\<open>PC = AB\<close>; the end of the cycle adds 1\<close>
  "exec_jsa s =
     (let v = push_bit 18 (AR s AND RMASK) OR (ucast (PC s + 1) AND RMASK);
          s = clr_user (set_ac v (s\<lparr>MB := BR s\<rparr>))
      in wr_ea (s\<lparr>PC := AB s\<rparr>) (\<lambda>s. s))"

definition exec_jra :: "cpu \<Rightarrow> cpu" where
  "exec_jra s =
     (let ad = AB s;
          s = s\<lparr>AB := ucast (drop_bit 18 (get_ac s) AND RMASK)\<rparr>
      in mem_rd (uuo_cycle s \<or> pi_cycle s) False False False s
           (\<lambda>s. jump (ad AND 0x3FFFF) (set_ac (MB s) s)))"

section \<open>Memory without paging\<close>

definition direct :: "'a mem_state_scheme \<Rightarrow> bool" where
  \<comment> \<open>paging off, no page failure pending, no address stop set\<close>
  "direct s \<longleftrightarrow> \<not> page_enable s \<and> \<not> page_fault s \<and> adr_cond s = 0"

lemma direct_read:
  "direct s \<Longrightarrow> \<not> AB s < 0x10 \<Longrightarrow> AB s < MEMSIZE s \<Longrightarrow> Mem_read f c fe md s =
     (False, s\<lparr>watch_stop := (watch_stop s \<or> brk_R s (AB s)),
        sim_interval := sim_interval s - 1, MB := M s (AB s), modify := md, last_addr := AB s\<rparr>)"
  by (auto simp: Mem_read_def read_core_def page_lookup_def direct_def dest: leD)

lemma direct_write:
  "direct s \<Longrightarrow> \<not> AB s < 0x10 \<Longrightarrow> AB s < MEMSIZE s \<Longrightarrow> \<not> modify s \<Longrightarrow> Mem_write f c s =
     (False, s\<lparr>watch_stop := (watch_stop s \<or> brk_W s (AB s)),
        sim_interval := sim_interval s - 1, M := (M s)(AB s := MB s)\<rparr>)"
  by (auto simp: Mem_write_def write_core_def page_lookup_def direct_def dest: leD)

section \<open>Stack pointers\<close>

lemma bit_stack_masks:
  "bit (0x1FFFFC0000 :: u64) n \<longleftrightarrow> 18 \<le> n \<and> n < 37" "bit (0x7FFFF :: u64) n \<longleftrightarrow> n < 19"
proof -
  have "(0x1FFFFC0000 :: u64) = push_bit 18 (mask 19)" "(0x7FFFF :: u64) = mask 19"
    by (simp_all add: mask_eq_exp_minus_1)
  note e = this
  show "bit (0x1FFFFC0000 :: u64) n \<longleftrightarrow> 18 \<le> n \<and> n < 37" "bit (0x7FFFF :: u64) n \<longleftrightarrow> n < 19"
    unfolding e bit_push_bit_iff bit_mask_iff by auto
qed

lemma bit_stack_masks_int:
  "bit (0x1FFFFC0000 :: int) n \<longleftrightarrow> 18 \<le> n \<and> n < 37" "bit (0x7FFFF :: int) n \<longleftrightarrow> n < 19"
proof -
  have e: "(0x1FFFFC0000 :: int) = push_bit 18 (mask 19)" "(0x7FFFF :: int) = mask 19"
    by (simp_all add: mask_eq_exp_minus_1)
  show "bit (0x1FFFFC0000 :: int) n \<longleftrightarrow> 18 \<le> n \<and> n < 37" "bit (0x7FFFF :: int) n \<longleftrightarrow> n < 19"
    unfolding e bit_push_bit_iff bit_mask_iff by auto
qed

lemma AOB_right: "uint (AOB x AND RMASK) = (uint x + 1) mod 2 ^ 18"
proof -
  have "AOB x AND RMASK = (x + 1) AND RMASK"
    by (rule bit_word_eqI) (auto simp: AOB_def half_bits bit_stack_masks bit_stack_masks_int)
  then have "uint (AOB x AND RMASK) = (uint x + 1) mod 2 ^ 64 mod 2 ^ 18"
    by (simp only: uint_rmask uint_word_ariths) simp
  also have "\<dots> = (uint x + 1) mod 2 ^ 18" by (simp add: mod_mod_cancel)
  finally show ?thesis .
qed

lemma AOB_left: "uint x < 2 ^ 63 \<Longrightarrow>
  uint (drop_bit 18 (AOB x) AND RMASK) = (uint x div 2 ^ 18 + 1) mod 2 ^ 18"
proof -
  assume b: "uint x < 2 ^ 63"
  have "drop_bit 18 (AOB x) AND RMASK = drop_bit 18 (x + 0x40000) AND RMASK"
    by (rule bit_word_eqI) (auto simp: AOB_def half_bits bit_stack_masks bit_stack_masks_int bit_drop_bit_eq)
  moreover have "uint (x + 0x40000) = uint x + 2 ^ 18"
    using b uint_add64 [of x "0x40000"] by simp
  moreover have "(uint x + 2 ^ 18) div 2 ^ 18 = uint x div 2 ^ 18 + 1"
    by (rule div_add_self2) simp
  ultimately show ?thesis by (simp only: uint_rmask uint_drop64)
qed

lemma halves_eq: "wf36 x \<Longrightarrow> x = halves (drop_bit 18 x) x"
  by (rule bit_word_eqI) (auto simp: half_bits bit_drop_bit_eq dest: wf36_bitD)

lemma halves_cong:
  "uint (a AND RMASK) = uint (b AND RMASK) \<Longrightarrow> uint (c AND RMASK) = uint (d AND RMASK) \<Longrightarrow>
   halves a c = halves b d"
  by (simp only: halves_def word_uint_eq_iff [symmetric])

lemma SOB_halves: "SOB y AND FMASK = halves (drop_bit 18 (y + LMASK)) (y + RMASK)"
  by (rule bit_word_eqI)
    (auto simp: SOB_def half_bits bit_stack_masks bit_stack_masks_int bit_drop_bit_eq mask_simps bit_take_bit_iff)

lemma AOB_halves: "AOB x AND FMASK = halves (drop_bit 18 (x + 0x40000)) (x + 1)"
  by (rule bit_word_eqI)
    (auto simp: AOB_def half_bits bit_stack_masks bit_stack_masks_int bit_drop_bit_eq mask_simps bit_take_bit_iff)

lemma wf36_halves: "wf36 (halves l r)"
  by (auto simp: wf36_bits bit_halves split: if_splits)

text \<open>Pushing and then popping restores the pointer.\<close>

lemma SOB_AOB:
  assumes "wf36 x"
  shows "SOB (AOB x AND FMASK) AND FMASK = x"
proof -
  let ?y = "AOB x AND FMASK"
  define l r where "l = uint x div 2 ^ 18" and "r = uint x mod 2 ^ 18"
  have x: "uint x < 2 ^ 36" using assms by (simp add: wf36_uint)
  have lr: "uint x = l * 2 ^ 18 + r" "0 \<le> l" "l < 2 ^ 18" "0 \<le> r" "r < 2 ^ 18"
    using x pos_imp_zdiv_nonneg_iff [of "2 ^ 18" "uint x"] by (simp_all add: l_def r_def)
  have y: "wf36 ?y" by (rule wf36_intros)
  have fm: "(?y AND RMASK) = AOB x AND RMASK"
    "drop_bit 18 ?y AND RMASK = drop_bit 18 (AOB x) AND RMASK"
    by (rule bit_word_eqI, auto simp: half_bits bit_drop_bit_eq mask_simps bit_take_bit_iff)+
  have yr: "uint ?y mod 2 ^ 18 = (r + 1) mod 2 ^ 18"
  proof -
    have "uint ?y mod 2 ^ 18 = (uint x + 1) mod 2 ^ 18"
      using AOB_right [of x] unfolding fm(1) [symmetric] uint_rmask .
    then show ?thesis by (simp only: r_def mod_add_left_eq)
  qed
  have "uint (drop_bit 18 ?y AND RMASK) = uint ?y div 2 ^ 18 mod 2 ^ 18"
    by (simp only: uint_rmask uint_drop64)
  moreover have "uint (drop_bit 18 (AOB x) AND RMASK) = (l + 1) mod 2 ^ 18"
    using AOB_left [of x] x by (simp add: l_def)
  ultimately have yl: "uint ?y div 2 ^ 18 mod 2 ^ 18 = (l + 1) mod 2 ^ 18" using fm(2) by metis
  have yb: "uint ?y < 2 ^ 36" using y by (simp add: wf36_uint)
  have "uint ((?y + RMASK) AND RMASK) = r"
  proof -
    have "uint (?y + RMASK) = uint ?y + (2 ^ 18 - 1)" using yb uint_add64 [of ?y RMASK] by simp
    then have "uint ((?y + RMASK) AND RMASK) = (uint ?y + (2 ^ 18 - 1)) mod 2 ^ 18"
      by (simp only: uint_rmask)
    also have "\<dots> = ((r + 1) mod 2 ^ 18 + (2 ^ 18 - 1)) mod 2 ^ 18"
      by (simp only: yr [symmetric] mod_add_left_eq)
    also have "\<dots> = (r + 1 + (2 ^ 18 - 1)) mod 2 ^ 18" by (simp only: mod_add_left_eq)
    also have "\<dots> = r" using lr(4,5) by simp
    finally show ?thesis .
  qed
  moreover have "uint (drop_bit 18 (?y + LMASK) AND RMASK) = l"
  proof -
    have s: "uint (?y + LMASK) = uint ?y + (2 ^ 18 - 1) * 2 ^ 18"
      using yb uint_add64 [of ?y LMASK] by simp
    have d: "(uint ?y + (2 ^ 18 - 1) * 2 ^ 18) div 2 ^ 18 = (2 ^ 18 - 1) + uint ?y div 2 ^ 18"
      by (rule div_mult_self1) simp
    have "uint (drop_bit 18 (?y + LMASK) AND RMASK) = ((2 ^ 18 - 1) + uint ?y div 2 ^ 18) mod 2 ^ 18"
      by (simp only: uint_rmask uint_drop64 s d)
    also have "\<dots> = ((2 ^ 18 - 1) + uint ?y div 2 ^ 18 mod 2 ^ 18) mod 2 ^ 18"
      by (simp only: mod_add_right_eq)
    also have "\<dots> = ((2 ^ 18 - 1) + (l + 1)) mod 2 ^ 18"
      by (simp only: yl mod_add_right_eq)
    also have "\<dots> = l" using lr(2,3) by simp
    finally show ?thesis .
  qed
  moreover have "uint (drop_bit 18 x AND RMASK) = l"
    unfolding uint_rmask uint_drop64 l_def [symmetric] using lr(2,3) by simp
  moreover have "uint (x AND RMASK) = r" by (simp only: uint_rmask r_def)
  ultimately have "halves (drop_bit 18 (?y + LMASK)) (?y + RMASK) = halves (drop_bit 18 x) x"
    by (intro halves_cong) (simp_all only:)
  then show ?thesis using halves_eq [OF assms] by (simp only: SOB_halves)
qed

section \<open>Block transfer\<close>

lemma blt_test:
  assumes "wf36 br"
  shows "tst ((ar AND RMASK) + CM br + 1) C1 \<longleftrightarrow> uint br \<le> uint ar mod 2 ^ 18"
proof -
  define r where "r = uint ar mod 2 ^ 18"
  have r: "uint (ar AND RMASK) = r" "0 \<le> r" "r < 2 ^ 18" by (simp_all only: r_def uint_rmask) simp_all
  have b: "0 \<le> uint br" "uint br < 2 ^ 36" using assms by (simp_all add: wf36_uint)
  have "uint (ar AND RMASK) + uint (CM br + 1) < 2 ^ 64"
  proof -
    have "r + (2 ^ 36 - uint br) < 2 ^ 18 + 2 ^ 36" using r b by linarith
    also have "(2 :: int) ^ 18 + 2 ^ 36 < 2 ^ 64" by simp
    finally show ?thesis unfolding uint_CM1 [OF assms] r(1) .
  qed
  then have "uint ((ar AND RMASK) + (CM br + 1)) = r + (2 ^ 36 - uint br)"
    by (simp only: uint_add64 uint_CM1 [OF assms] r(1))
  then have u: "uint ((ar AND RMASK) + CM br + 1) = r + (2 ^ 36 - uint br)"
    by (simp only: add.assoc)
  then have "uint ((ar AND RMASK) + CM br + 1) < 2 ^ 18 + 2 ^ 36" using r b by linarith
  then have "uint ((ar AND RMASK) + CM br + 1) < 2 ^ 37" by simp
  from tst_carry [OF this] show ?thesis unfolding u by (auto simp: r_def)
qed

text \<open>BLT always ends when its last address has 18 bits, whatever events and interrupts do.\<close>

lemma blt_loop_returns: "uint br < 2 ^ 18 \<Longrightarrow> blt_loop e ar br s \<noteq> None"
proof (induction "nat (uint br - uint ar mod 2 ^ 18)" arbitrary: ar s rule: less_induct)
  case less
  have wf: "wf36 br" using less.prems by (simp add: wf36_uint)
  obtain stop s1 where ev: "blt_events e s = (stop, s1)" by fastforce
  obtain fault s2 where mv: "blt_move ar s1 = (fault, s2)" by fastforce
  show ?case
  proof (cases "stop \<or> fault \<or> tst ((ar AND RMASK) + CM br + 1) C1")
    case True
    then show ?thesis using ev mv by (subst blt_loop.simps) auto
  next
    case False
    then have lt: "uint ar mod 2 ^ 18 < uint br" unfolding blt_test [OF wf] by simp
    define r where "r = uint ar mod 2 ^ 18"
    have "uint (AOB ar) mod 2 ^ 18 = (uint ar + 1) mod 2 ^ 18"
      using AOB_right [of ar] by (simp only: uint_rmask)
    also have "\<dots> = (r + 1) mod 2 ^ 18" by (simp only: r_def mod_add_left_eq)
    also have "\<dots> = r + 1" using lt less.prems by (intro mod_pos_pos_trivial) (simp_all add: r_def)
    finally have "uint br - uint (AOB ar) mod 2 ^ 18 < uint br - r" by simp
    then have "blt_loop e (AOB ar) br s2 \<noteq> None"
      using lt by (intro less.hyps less.prems) (simp add: r_def)
    then show ?thesis using False ev mv by (subst blt_loop.simps) simp
  qed
qed

fun blt_copy :: "nat \<Rightarrow> u32 \<Rightarrow> u32 \<Rightarrow> (u32 \<Rightarrow> u64) \<Rightarrow> (u32 \<Rightarrow> u64)" where
  \<comment> \<open>\<open>n\<close> words copied one after the other, lowest address first\<close>
  "blt_copy 0 a d m = m"
| "blt_copy (Suc n) a d m = blt_copy n (a + 1) (d + 1) (m(d := m a))"

definition quiet :: "'e env_scheme \<Rightarrow> bool" where
  \<comment> \<open>no event changes the state\<close>
  "quiet e \<longleftrightarrow> (\<forall>s. process_event e s = (0, s))"

lemma blt_events_quiet:
  assumes "quiet e" "\<not> pi_pending s"
  shows "\<exists>t. blt_events e s = (False, t) \<and> (t = s \<or> t = s\<lparr>reason := 0\<rparr>)"
  using assms by (simp add: blt_events_def quiet_def)

definition blt_src :: "u64 \<Rightarrow> u32" where "blt_src ar = ucast (drop_bit 18 ar AND RMASK)"
definition blt_dst :: "u64 \<Rightarrow> u32" where "blt_dst ar = ucast (ar AND RMASK)"

lemma uint_ucast18: "uint (ucast (x AND RMASK) :: u32) = uint (x AND RMASK)" for x :: u64
proof -
  have "uint (x AND RMASK) < 2 ^ 18" by (simp only: uint_rmask) simp
  then have "take_bit 32 (uint (x AND RMASK)) = uint (x AND RMASK)"
    by (intro take_bit_int_eq_self) simp_all
  then show ?thesis by (simp add: unsigned_ucast_eq)
qed

lemma blt_move_direct:
  assumes "direct s" and "16 \<le> blt_src ar" "blt_src ar < MEMSIZE s" "16 \<le> blt_dst ar"
    "blt_dst ar < MEMSIZE s"
  shows "\<exists>t. blt_move ar s = (False, t) \<and> M t = (M s)(blt_dst ar := M s (blt_src ar)) \<and> direct t
    \<and> MEMSIZE t = MEMSIZE s \<and> pi_pending t = pi_pending s"
proof -
  define s1 where "s1 = s\<lparr>AB := blt_src ar\<rparr>"
  have r: "direct s1" "\<not> AB s1 < 0x10" "AB s1 < MEMSIZE s1"
    using assms by (auto simp: s1_def direct_def dest: leD)
  define s2 where "s2 = (snd (Mem_read False False False False s1))\<lparr>AB := blt_dst ar\<rparr>"
  have w: "direct s2" "\<not> AB s2 < 0x10" "AB s2 < MEMSIZE s2" "\<not> modify s2"
    using assms r unfolding s2_def direct_read [OF r] by (auto simp: s1_def direct_def dest: leD)
  have "blt_move ar s = Mem_write False False s2"
    unfolding blt_move_def Let_def blt_src_def [of ar, symmetric] blt_dst_def [of ar, symmetric]
      s1_def [symmetric] s2_def direct_read [OF r] by simp
  then have "blt_move ar s = (False, s2\<lparr>watch_stop := (watch_stop s2 \<or> brk_W s2 (AB s2)),
        sim_interval := sim_interval s2 - 1, M := (M s2)(AB s2 := MB s2)\<rparr>)"
    by (simp only: direct_write [OF w])
  then show ?thesis
    using assms(1) unfolding s2_def direct_read [OF r] by (simp add: s1_def direct_def)
qed

lemma blt_step_addresses:
  assumes "uint ar < 2 ^ 63"
  shows "uint (blt_src ar) + 1 < 2 ^ 18 \<Longrightarrow> blt_src (AOB ar) = blt_src ar + 1"
    "uint (blt_dst ar) + 1 < 2 ^ 18 \<Longrightarrow> blt_dst (AOB ar) = blt_dst ar + 1"
    "uint (AOB ar) < 2 ^ 63"
proof -
  have up: "uint (x + 1) = uint x + 1" if "uint x + 1 < 2 ^ 18" for x :: u32
    using that by (simp only: uint_word_ariths) (auto intro!: mod_pos_pos_trivial)
  have src: "uint (blt_src ar) = uint ar div 2 ^ 18 mod 2 ^ 18"
    unfolding blt_src_def uint_ucast18 by (simp only: uint_rmask uint_drop64)
  have dst: "uint (blt_dst ar) = uint ar mod 2 ^ 18"
    unfolding blt_dst_def uint_ucast18 by (simp only: uint_rmask)
  show "blt_src (AOB ar) = blt_src ar + 1" if b: "uint (blt_src ar) + 1 < 2 ^ 18"
  proof -
    have "uint (blt_src (AOB ar)) = (uint ar div 2 ^ 18 + 1) mod 2 ^ 18"
      unfolding blt_src_def uint_ucast18 by (rule AOB_left [OF assms])
    also have "\<dots> = (uint ar div 2 ^ 18 mod 2 ^ 18 + 1) mod 2 ^ 18" by (simp only: mod_add_left_eq)
    also have "\<dots> = uint (blt_src ar) + 1"
      unfolding src [symmetric] using b by (intro mod_pos_pos_trivial) simp_all
    finally show ?thesis using up [OF b] by (simp only: word_uint_eq_iff)
  qed
  show "blt_dst (AOB ar) = blt_dst ar + 1" if b: "uint (blt_dst ar) + 1 < 2 ^ 18"
  proof -
    have "uint (blt_dst (AOB ar)) = (uint ar + 1) mod 2 ^ 18"
      unfolding blt_dst_def uint_ucast18 by (rule AOB_right)
    also have "\<dots> = (uint ar mod 2 ^ 18 + 1) mod 2 ^ 18" by (simp only: mod_add_left_eq)
    also have "\<dots> = uint (blt_dst ar) + 1"
      unfolding dst [symmetric] using b by (intro mod_pos_pos_trivial) simp_all
    finally show ?thesis using up [OF b] by (simp only: word_uint_eq_iff)
  qed
  have "take_bit 37 (AOB ar) = AOB ar"
    by (rule bit_word_eqI)
      (auto simp: AOB_def bit_take_bit_iff half_bits bit_stack_masks bit_stack_masks_int)
  then have "uint (AOB ar) = take_bit 37 (uint (AOB ar))" by (metis unsigned_take_bit_eq)
  then have "uint (AOB ar) < 2 ^ 37" by (metis take_bit_int_less_exp)
  then show "uint (AOB ar) < 2 ^ 63" by simp
qed

text \<open>
  Without paging and events, BLT copies the block word by word upwards, from the address in the
  left half of the accumulator to the one in the right half, until it has written the effective
  address.
\<close>

lemma blt_loop_copies:
  assumes "quiet e"
  shows "direct s \<Longrightarrow> \<not> pi_pending s \<Longrightarrow> uint ar < 2 ^ 63 \<Longrightarrow> uint br < 2 ^ 18 \<Longrightarrow>
    uint br = uint (blt_dst ar) + int n \<Longrightarrow> 16 \<le> uint (blt_src ar) \<Longrightarrow> 16 \<le> uint (blt_dst ar) \<Longrightarrow>
    uint (blt_src ar) + int n < 2 ^ 18 \<Longrightarrow> uint (blt_src ar) + int n < uint (MEMSIZE s) \<Longrightarrow>
    uint br < uint (MEMSIZE s) \<Longrightarrow>
    \<exists>t. blt_loop e ar br s = Some t
      \<and> M t = blt_copy (Suc n) (blt_src ar) (blt_dst ar) (M s)"
proof (induction n arbitrary: ar s)
  case (0 ar s)
  have wf: "wf36 br" using 0 by (simp add: wf36_uint)
  have dst: "uint ar mod 2 ^ 18 = uint (blt_dst ar)"
    unfolding blt_dst_def uint_ucast18 by (simp only: uint_rmask)
  obtain t where ev: "blt_events e s = (False, t)" "t = s \<or> t = s\<lparr>reason := 0\<rparr>"
    using blt_events_quiet [OF assms] 0 by blast
  then have t: "direct t" "M t = M s" "MEMSIZE t = MEMSIZE s" "\<not> pi_pending t"
    using 0 by (auto simp: direct_def)
  obtain u where u: "blt_move ar t = (False, u)" "M u = (M t)(blt_dst ar := M t (blt_src ar))"
    using blt_move_direct [OF t(1), of ar] 0 t(3) by (auto simp: word_less_def word_le_def)
  show ?case
    using 0 blt_test [OF wf, of ar] dst u t(2) by (subst blt_loop.simps) (simp add: ev)
next
  case (Suc n ar s)
  have wf: "wf36 br" using Suc.prems by (simp add: wf36_uint)
  have dst: "uint ar mod 2 ^ 18 = uint (blt_dst ar)"
    unfolding blt_dst_def uint_ucast18 by (simp only: uint_rmask)
  obtain t where ev: "blt_events e s = (False, t)" "t = s \<or> t = s\<lparr>reason := 0\<rparr>"
    using blt_events_quiet [OF assms] Suc.prems by blast
  then have t: "direct t" "M t = M s" "MEMSIZE t = MEMSIZE s" "\<not> pi_pending t"
    using Suc.prems by (auto simp: direct_def)
  obtain u where u: "blt_move ar t = (False, u)" "M u = (M t)(blt_dst ar := M t (blt_src ar))"
      "direct u" "MEMSIZE u = MEMSIZE t" "\<not> pi_pending u"
    using blt_move_direct [OF t(1), of ar] Suc.prems t by (auto simp: word_less_def word_le_def)
  have next': "blt_src (AOB ar) = blt_src ar + 1" "blt_dst (AOB ar) = blt_dst ar + 1"
      "uint (AOB ar) < 2 ^ 63"
    using blt_step_addresses [OF Suc.prems(3)] Suc.prems by simp_all
  have up: "uint (x + 1) = uint x + 1" if "uint x + 1 < 2 ^ 18" for x :: u32
    using that by (simp only: uint_word_ariths) (auto intro!: mod_pos_pos_trivial)
  have ups: "uint (blt_src ar + 1) = uint (blt_src ar) + 1"
      "uint (blt_dst ar + 1) = uint (blt_dst ar) + 1"
    using Suc.prems by (auto intro!: up)
  have "\<exists>v. blt_loop e (AOB ar) br u = Some v
      \<and> M v = blt_copy (Suc n) (blt_src (AOB ar)) (blt_dst (AOB ar)) (M u)"
    using Suc.prems u t next'(3) by (intro Suc.IH) (simp_all add: next'(1,2) ups)
  then show ?case
    using Suc.prems blt_test [OF wf, of ar] dst u t(2) unfolding next'
    by (subst blt_loop.simps) (simp add: ev)
qed

section \<open>Privileges\<close>

text \<open>A user program that is not executing an interrupt or UUO cannot leave user mode by JRST.\<close>

lemma jrst_flags_user:
  "tst fl USER \<Longrightarrow> tst (jrst_flags ar fl) USER
     \<and> (tst (jrst_flags ar fl) USERIO \<longrightarrow> tst fl USERIO)
     \<and> \<not> tst (jrst_flags ar fl) PRV_PUB"
proof -
  have e: "(0x80 :: u32) = 2 ^ 7" "(0x40 :: u32) = 2 ^ 6" "(0x2000 :: u32) = 2 ^ 13" by simp_all
  have b: "bit (0x1F1F :: u32) 7 = False" "bit (0x1F1F :: u32) 6 = False"
    "bit (0x1F3F :: u32) 6 = False" "bit (0x2000 :: u32) 7 = False" "bit (0x2000 :: u32) 6 = False"
    "bit (0x40 :: u32) 7 = False" "bit (0xA0 :: u32) 7" "bit (0x2000 :: u32) 13"
    by simp_all
  assume u: "tst fl USER"
  then have "bit fl 7" by (simp only: e tst_exp)
  then have nz: "clr_bits fl 0x1F1F AND (PUBLIC OR USER) \<noteq> 0"
  proof -
    have "bit (clr_bits fl 0x1F1F AND 0xA0) 7"
      using \<open>bit fl 7\<close> by (simp only: bit_and_iff bit_clr_bits b) simp
    then show ?thesis by auto
  qed
  show ?thesis
    using \<open>bit fl 7\<close> nz unfolding jrst_flags_def Let_def
    by (simp only: e tst_exp if_False bit_or_iff bit_and_iff bit_clr_bits b)
      (auto simp: bit_clr_bits bit_or_iff bit_and_iff tst_exp)
qed

end
