(* ===== verification/Floating.thy ===== *)
theory Floating
  imports Control "HOL-Library.While_Combinator"
begin

text \<open>
  The single-precision floating-point instructions of \<open>PDP10/kx10_cpu.c\<close> (KI10 build):
  UFA, DFN, FSC (opcodes 130 to 132), FIX, FIXR, FLTR (122, 126, 127) and FAD, FSB, FMP, FDV with
  their modes (140 to 177).

  A number is a sign bit, an exponent of eight bits in excess 128 and a fraction of 27 bits; a
  negative number is the two's complement of the whole word. The code works on 64-bit words that
  hold the fraction at bits 34 to 60, its sign above. The exponents \<open>SC\<close>, \<open>SCAD\<close>,
  \<open>FE\<close> are C ints here, as they can go below zero; a bit test of one reads its two's
  complement. \<open>nrf\<close> and \<open>fxu_hold_set\<close>, which every instruction starts with
  clear, are local.
\<close>

unbundle bit_operations_syntax

section \<open>Fields and masks\<close>

abbreviation (input) FPHBIT :: u64 where "FPHBIT \<equiv> 0x8000000000000000"
abbreviation (input) FPSBIT :: u64 where "FPSBIT \<equiv> 0x4000000000000000"
abbreviation (input) FPNBIT :: u64 where "FPNBIT \<equiv> 0x2000000000000000"
abbreviation (input) FP1BIT :: u64 where "FP1BIT \<equiv> 0x1000000000000000"
abbreviation (input) FPFMASK :: u64 where "FPFMASK \<equiv> 0xFFFFFFFFFFFFFFFF"
abbreviation (input) FPRMASK :: u64 where "FPRMASK \<equiv> 0x3FFFFFFFF"
abbreviation (input) FPRBIT1 :: u64 where "FPRBIT1 \<equiv> 0x400000000"
abbreviation (input) FPRBIT2 :: u64 where "FPRBIT2 \<equiv> 0x200000000"
abbreviation (input) BIT7 :: u64 where "BIT7 \<equiv> 0x10000000"
abbreviation (input) BIT8 :: u64 where "BIT8 \<equiv> 0x8000000"
abbreviation (input) BIT9 :: u64 where "BIT9 \<equiv> 0x4000000"

definition get_expo :: "u64 \<Rightarrow> int" where
  "get_expo x = (if tst x SMASK then 0xFF else 0) XOR (uint (drop_bit 27 x) AND 0xFF)"

definition signed_expo :: "u64 \<Rightarrow> int" where
  \<comment> \<open>\<open>((((x & SMASK) ? 0777 : 0) ^ (x >> 27)) & 0777)\<close>\<close>
  "signed_expo x = ((if tst x SMASK then 0x1FF else 0) XOR uint (drop_bit 27 x)) AND 0x1FF"

definition smear_sign :: "u64 \<Rightarrow> u64" where
  "smear_sign x = (if tst x SMASK then x OR EXPO else x AND MMASK)"

definition half_right :: "u64 \<Rightarrow> u64" where
  \<comment> \<open>\<open>(AR & FPHBIT) | (AR >> 1)\<close>\<close>
  "half_right ar = (ar AND FPHBIT) OR drop_bit 1 ar"

definition bad_expo :: "int \<Rightarrow> bool" where
  \<comment> \<open>\<open>((SC & 0400) != 0) ^ ((SC & 0200) != 0)\<close>\<close>
  "bad_expo sc \<longleftrightarrow> bit sc 8 \<noteq> bit sc 7"

definition put_expo :: "int \<Rightarrow> u64 \<Rightarrow> u64" where
  \<comment> \<open>\<open>SCAD = SC ^ ((AR & SMASK) ? 0377 : 0); AR |= (SCAD & 0377) << 27\<close>\<close>
  "put_expo sc ar =
     ar OR push_bit 27 (word_of_int ((sc XOR (if tst ar SMASK then 0xFF else 0)) AND 0xFF))"

definition float_trap :: "u32 \<Rightarrow> bool \<Rightarrow> int \<Rightarrow> cpu \<Rightarrow> cpu" where
  \<comment> \<open>the flags \<open>m\<close>, and FLTUND on underflow, when the exponent has left its range\<close>
  "float_trap m fxu sc s = or_flags (bit sc 8 \<and> \<not> pi_cycle s) (if fxu then m else m OR FLTUND) s"

definition float_no_divide :: "cpu \<Rightarrow> cpu" where
  "float_no_divide s = or_flags (\<not> pi_cycle s) (OVR OR NODIV OR FLTOVR OR TRP1) s"

section \<open>Operands and results\<close>

definition fetch_float :: "cpu \<Rightarrow> (u64 \<Rightarrow> cpu \<Rightarrow> cpu) \<Rightarrow> cpu" where
  \<comment> \<open>\<open>switch (IR & 07)\<close> at the head of FAD, FSB, FMP and FDV\<close>
  "fetch_float s k =
     (let m = IR s AND 7
      in if m = 5 then k (SWAP (AR s AND RMASK)) s
         else if m = 0 \<or> m = 1 \<or> m = 4 then rd_ea s (\<lambda>s. k (MB s) s)
         else rd_mod_ea s (\<lambda>s. k (MB s) s))"

definition store_float :: "u64 \<Rightarrow> u64 \<Rightarrow> cpu \<Rightarrow> cpu" where
  "store_float ar mq s =
     (let m = IR s AND 7
      in if m = 1 then set_ac (ar AND FMASK) (set_ac1 (mq AND FMASK) s)
         else if m = 0 \<or> m = 4 \<or> m = 5 then set_ac (ar AND FMASK) s
         else if m = 2 \<or> m = 6 then wr_ea (s\<lparr>MB := ar\<rparr>) (\<lambda>s. s)
         else wr_ea (s\<lparr>MB := ar\<rparr>) (set_ac (ar AND FMASK)))"

section \<open>Normalization and rounding\<close>

definition norm_left :: "int \<times> u64 \<Rightarrow> int \<times> u64" where
  "norm_left =
     while (\<lambda>(sc, ar). ar \<noteq> 0 \<and> tst ar FPSBIT = tst ar FPNBIT \<and> tst ar FPNBIT = tst ar FP1BIT)
       (\<lambda>(sc, ar). (sc - 1, push_bit 1 ar))"

definition norm_edge :: "int \<times> u64 \<Rightarrow> int \<times> u64" where
  \<comment> \<open>a negative number whose fraction is a power of two\<close>
  "norm_edge x =
     (case x of (sc, ar) \<Rightarrow>
        if ar AND 0x7FFFFFFC00000000 = FPSBIT OR FPNBIT then (sc + 1, half_right ar) else (sc, ar))"

definition round_of :: "u32 \<Rightarrow> u64 \<Rightarrow> u64" where
  \<comment> \<open>add one to the last place kept, with the exceptions for negative numbers\<close>
  "round_of ir ar =
     (let ar = (if ir AND 0x38 \<noteq> 0x38 \<and> tst ar FPSBIT \<and> ar AND FPRMASK \<noteq> FPRBIT2
                   \<or> \<not> tst ar FPSBIT \<or> ar AND FPRMASK \<noteq> FPRBIT2
                then ar + FPRBIT1 else ar)
      in clr_bits ar FPRMASK)"

definition norm_round :: "u32 \<Rightarrow> int \<times> u64 \<Rightarrow> int \<times> u64" where
  \<comment> \<open>the label \<open>fnormx\<close>, at most twice\<close>
  "norm_round ir x =
     (let (sc, ar) = norm_edge (norm_left x)
      in if tst ir 4 \<and> tst ar FPRBIT2 then
           (let f = tst ar FP1BIT;
                ar = round_of ir ar
            in norm_edge (norm_left
                 (if tst ar FP1BIT \<noteq> f then (sc + 1, half_right ar) else (sc, ar))))
         else (sc, ar))"

definition fnorm :: "u32 \<Rightarrow> bool \<Rightarrow> int \<Rightarrow> u64 \<Rightarrow> int \<times> bool \<times> u64 \<times> u64" where
  \<comment> \<open>from \<open>fnorm\<close> to the test for overflow: exponent, \<open>fxu_hold_set\<close>, \<open>AR\<close>,
      \<open>MQ\<close>\<close>
  "fnorm ir neg sc ar =
     (let (sc, ar) = (if tst ar FPSBIT \<noteq> tst ar FPNBIT then (sc + 1, half_right ar) else (sc, ar))
      in if ar = 0 then (0, False, 0, 0)
         else
           (let ar = clr_bits ar 0x3F;
                fxu = bad_expo sc;
                (sc, ar) = (if ir \<noteq> 0x58 then norm_round ir (sc, ar) else (sc, ar))
            in (sc, fxu, set_if neg SMASK (drop_bit 34 ar), ar AND FPRMASK)))"

definition low_word :: "int \<Rightarrow> u64 \<Rightarrow> u64" where
  \<comment> \<open>the second word of FADL, FSBL and FMPL; \<open>SC & SMASK\<close> is never set\<close>
  "low_word sc mq =
     (let sc = (sc + (0x1FF XOR 26)) AND 0x1FF;
          mq = (if bit sc 8 then 0 else mq);
          mq = drop_bit 7 mq AND MMASK
      in if mq \<noteq> 0 then mq OR push_bit 27 (word_of_int (sc AND 0xFF)) else mq)"

definition float_word :: "u32 \<Rightarrow> bool \<Rightarrow> int \<Rightarrow> u64 \<Rightarrow> int \<times> bool \<times> u64 \<times> u64" where
  \<comment> \<open>normalized, with its exponent, and zero if the fraction is\<close>
  "float_word ir neg sc ar =
     (let (sc, fxu, ar, mq) = fnorm ir neg sc ar;
          ar = put_expo sc (ar AND (SMASK OR MMASK))
      in (sc, fxu, if ar AND MMASK = 0 then 0 else ar, mq))"

definition float_result :: "bool \<Rightarrow> int \<Rightarrow> u64 \<Rightarrow> cpu \<Rightarrow> cpu" where
  \<comment> \<open>the label \<open>fnorm\<close> to the end of the case\<close>
  "float_result neg sc ar s =
     (let (sc, fxu, ar, mq) = float_word (IR s) neg sc ar;
          mq = (if bit sc 8 \<and> \<not> pi_cycle s \<and> \<not> fxu then 0 else mq);
          s = float_trap (OVR OR FLTOVR OR TRP1) fxu sc s;
          mq = (if IR s AND 7 = 1 then low_word sc mq else mq)
      in if IR s = 0x58 then set_ac1 ar s
         else if IR s = 0x57 \<or> IR s = 0x5A then set_ac (ar AND FMASK) s
         else store_float ar mq s)"

section \<open>Addition\<close>

definition fp_shift_right :: "nat \<Rightarrow> u64 \<Rightarrow> u64" where
  \<comment> \<open>the smaller operand shifted right \<open>n\<close> places, with its sign\<close>
  "fp_shift_right n br =
     (let ad = (if tst br FPSBIT then FPFMASK else 0)
      in if n < 61 then drop_bit n br OR push_bit (61 - n) ad
         else if n < 65 then ad else 0)"

definition fadd_of :: "u64 \<Rightarrow> u64 \<Rightarrow> int \<times> u64" where
  \<comment> \<open>the label \<open>fadd\<close> up to the addition: exponent and sum\<close>
  "fadd_of ar br =
     (let sc = uint (drop_bit 27 br) AND 0x1FF;
          sa = uint (drop_bit 27 ar) AND 0x1FF;
          same = (br AND SMASK = ar AND SMASK);
          scad = (if same then sc + (sa XOR 0x1FF) + 1 else sc + sa) AND 0x1FF;
          (ar, br) = (if tst br SMASK = bit scad 8 then (br, ar) else (ar, br));
          scad = (if \<not> bit scad 8
                  then (if same then ((scad XOR 0x1FF) + 1) AND 0x1FF else scad XOR 0x1FF)
                  else if \<not> same then (scad + 1) AND 0x1FF else scad);
          sc = get_expo ar;
          ar = push_bit 34 (smear_sign ar);
          br = push_bit 34 (smear_sign br);
          br = (if bit scad 8 then fp_shift_right (nat (0x200 - scad)) br else br)
      in (sc, ar + br))"

definition fadd :: "u64 \<Rightarrow> u64 \<Rightarrow> cpu \<Rightarrow> cpu" where
  "fadd ar br s = (let (sc, v) = fadd_of ar br in float_result (tst v FPSBIT) sc v s)"

definition exec_fad :: "cpu \<Rightarrow> cpu" where
  \<comment> \<open>UFA and FAD\<close>
  "exec_fad s = fetch_float s (\<lambda>v s. fadd v (BR s) s)"

definition exec_fsb :: "cpu \<Rightarrow> cpu" where
  "exec_fsb s = fetch_float s (\<lambda>v s. fadd (BR s) ((CM v + 1) AND FMASK) s)"

section \<open>Multiplication and division\<close>

definition fmp_operand :: "u64 \<Rightarrow> int \<Rightarrow> u64 \<times> int \<times> bool" where
  \<comment> \<open>the magnitude of the fraction, the exponent corrected, and the sign; \<open>AR & SMASK\<close>
      with a zero fraction is minus one half\<close>
  "fmp_operand x d =
     (if tst x SMASK
      then (if x AND MMASK = 0 then (BIT9, d, True) else ((CM x + 1) AND MMASK, 0, True))
      else (x AND MMASK, 0, False))"

definition fmp_of :: "u64 \<Rightarrow> u64 \<Rightarrow> bool \<times> int \<times> u64" where
  "fmp_of ar br =
     (let sc = (signed_expo br + signed_expo ar + 0x180) AND 0x1FF;
          (ar, da, na) = fmp_operand ar 1;
          (br, db, nb) = fmp_operand br 1;
          neg = (na \<noteq> nb);
          p = push_bit 7 (ar * br)
      in (neg, sc + da + db, if neg then (p XOR FPFMASK) + 1 else p))"

definition exec_fmp :: "cpu \<Rightarrow> cpu" where
  "exec_fmp s = fetch_float s (\<lambda>v s.
     let (neg, sc, p) = fmp_of v (BR s) in float_result neg sc p s)"

definition shift_up :: "int \<times> u64 \<Rightarrow> int \<times> u64" where
  \<comment> \<open>\<open>while ((AR & BIT9) == 0) { AR <<= 1; SC--; }\<close>; never called with a number that
      would keep it running\<close>
  "shift_up = while (\<lambda>(sc, ar). \<not> tst ar BIT9) (\<lambda>(sc, ar). (sc - 1, push_bit 1 ar))"

definition fdv_dividend :: "u64 \<Rightarrow> u64 \<times> int \<times> bool" where
  \<comment> \<open>the dividend: magnitude, correction of the exponent, sign; the word 400000000000 has lost
      its sign when the sign is tested\<close>
  "fdv_dividend br =
     (if br = SMASK then (BIT9, - 1, False)
      else if tst br SMASK then ((CM br + 1) AND MMASK, 0, True)
      else (br AND MMASK, 0, False))"

definition fdv_setup :: "u64 \<Rightarrow> u64 \<Rightarrow> bool \<times> int \<times> u64 \<times> u64" where
  \<comment> \<open>sign and exponent of the quotient of \<open>br\<close> by \<open>ar\<close>, and the magnitudes of
      their fractions\<close>
  "fdv_setup br ar =
     (let sc = signed_expo br; scad = signed_expo ar;
          (br, db, nb) = fdv_dividend br;
          (ar, da, na) = fmp_operand ar (- 1)
      in (na \<noteq> nb, (sc + db + da + ((0x1FF XOR scad) + 1) + 0x81) AND 0x1FF, br, ar))"

definition fdv_halve :: "u32 \<Rightarrow> int \<Rightarrow> u64 \<Rightarrow> bool \<times> int \<times> u64" where
  \<comment> \<open>the quotient \<open>ar\<close>, not zero, cut to 27 bits; the first component is
      \<open>fxu_hold_set\<close>\<close>
  "fdv_halve ir sc ar =
     (let (sc, ar) = (if tst ar BIT7 then (sc, drop_bit 1 ar) else (sc - 1, ar));
          fxu = (bad_expo sc \<or> sc = 0x180);
          ar = (if tst ir 4 then ar + 1 else ar)
      in (fxu, sc, drop_bit 1 ar))"

definition fdv_norm :: "u32 \<Rightarrow> int \<Rightarrow> u64 \<Rightarrow> bool \<times> int \<times> u64" where
  "fdv_norm ir sc ar =
     (let (fxu, sc, ar) = fdv_halve ir sc ar; (sc, ar) = shift_up (sc, ar) in (fxu, sc, ar))"

definition fdv_of :: "u32 \<Rightarrow> bool \<Rightarrow> int \<Rightarrow> u64 \<Rightarrow> u64 \<Rightarrow> bool \<times> int \<times> u64" where
  \<comment> \<open>the quotient of the fractions \<open>br\<close> and \<open>ar\<close>, with its sign\<close>
  "fdv_of ir neg sc br ar =
     (let q = push_bit 28 br div ar;
          (fxu, sc, v, neg) =
            (if q \<noteq> 0 then (case fdv_norm ir sc q of (fxu, sc, v) \<Rightarrow> (fxu, sc, v, neg))
             else if neg then (False, sc + 1, SMASK OR BIT9, False)
             else (False, 0, 0, False))
      in (fxu, sc, if neg then (((v XOR MMASK) + 1) AND MMASK) OR SMASK else v))"

definition exec_fdv :: "cpu \<Rightarrow> cpu" where
  "exec_fdv s = fetch_float s (\<lambda>ar s.
     let br = BR s
     in if br AND MMASK = 0 \<and> br \<noteq> SMASK then s
        else
          (let (neg, sc, br, ar) = fdv_setup br ar
           in if push_bit 1 ar \<le> br then float_no_divide s
              else
                (let (fxu, sc, v) = fdv_of (IR s) neg sc br ar;
                     s = float_trap (OVR OR FLTOVR) fxu sc s
                 in store_float (put_expo sc v) 0 s)))"

section \<open>Long division, scaling and conversion\<close>

fun fdvl_loop :: "nat \<Rightarrow> u64 \<Rightarrow> u64 \<Rightarrow> u64 \<Rightarrow> u64 \<times> u64" where
  \<comment> \<open>\<open>for (SCAD = 0; SCAD < 27; SCAD++)\<close>: quotient and twice the remainder\<close>
  "fdvl_loop 0 ad br ar = (ad, br)"
| "fdvl_loop (Suc n) ad br ar =
     (let ad = push_bit 1 ad
      in if ar \<le> br then fdvl_loop n (ad OR 1) (push_bit 1 (br - ar)) ar
         else fdvl_loop n ad (push_bit 1 br) ar)"

definition fdvl_remainder :: "bool \<Rightarrow> int \<Rightarrow> u64 \<Rightarrow> u64" where
  "fdvl_remainder neg fe mq =
     (if mq = 0 then 0
      else
        (let mq = mq AND MMASK;
             mq = (if neg then ((mq XOR MMASK) + 1) OR SMASK else mq);
             (mq, fe) = (if fe < 0 then (0, 0) else (mq, fe XOR (if neg then 0xFF else 0)))
         in mq OR push_bit 27 (word_of_int (fe AND 0xFF))))"

definition exec_fdvl :: "cpu \<Rightarrow> cpu" where
  "exec_fdvl s = rd_ea s (\<lambda>s.
     let ar = MB s; br = BR s; mq = get_ac1 s;
         sc = (signed_expo br
               + (((if tst ar SMASK then 0 else 0x1FF) XOR uint (drop_bit 27 ar)) AND 0x1FF)
               + 0x81) AND 0x1FF;
         fe = signed_expo br - 26;
         flag3 = tst br SMASK;
         (mq, br) = (if flag3
                     then (let mq = (CM mq + 1) AND MMASK
                           in (mq, if mq = 0 then CM br + 1 else CM br))
                     else (mq, br));
         mq = mq AND MMASK;
         flag1 = (flag3 \<noteq> tst ar SMASK);
         ar = (if tst ar SMASK then CM ar + 1 else ar) AND MMASK;
         br = br AND MMASK
     in if push_bit 1 ar \<le> br then float_no_divide s
        else
          (let br = push_bit 27 br + mq;
               ar = push_bit 27 ar;
               (br, sc, fe) = (if br < ar then (push_bit 1 br, sc - 1, fe - 1) else (br, sc, fe));
               (q, br) = fdvl_loop 27 0 br ar;
               mq = drop_bit 28 br;
               sc = sc + 1;
               (fxu, sc, fe, v) =
                 (if q \<noteq> 0 then
                    (let (sc, fe, q) = (if tst q BIT8 then (sc + 1, fe + 1, drop_bit 1 q) else (sc, fe, q));
                         (sc, q) = shift_up (sc, q)
                     in (bad_expo sc, sc, fe, if flag1 then ((q XOR MMASK) + 1) OR SMASK else q))
                  else (False, 0, 0, 0));
               s = float_trap (OVR OR FLTOVR OR TRP1) fxu sc s;
               v = put_expo sc (v AND (SMASK OR MMASK));
               mq = fdvl_remainder flag3 fe mq
           in set_ac (v AND FMASK) (set_ac1 (mq AND FMASK) s)))"

definition exec_dfn :: "cpu \<Rightarrow> cpu" where
  "exec_dfn s = rd_ea s (\<lambda>s.
     let br = MB s;
         lo = (CM br + 1) AND FMASK;
         hi = (CM (get_ac s) + (if lo AND MMASK = 0 then 1 else 0)) AND FMASK;
         lo = (lo AND MMASK) OR push_bit 27 (drop_bit 27 br AND 0x1FF)
     in wr_ea (set_ac hi (s\<lparr>MB := lo\<rparr>)) (\<lambda>s. s))"

definition exec_fsc :: "cpu \<Rightarrow> cpu" where
  "exec_fsc s =
     (let ar = get_ac s;
          d = (if tst (AB s) 0x20000 then 0x100 else 0) OR (uint (AB s) AND 0xFF);
          sc = (get_expo ar + d) AND 0x1FF
      in float_result (tst ar SMASK) sc (push_bit 34 (smear_sign ar)) s)"

definition fix_of :: "u32 \<Rightarrow> u64 \<Rightarrow> u64 option" where
  \<comment> \<open>FIX and FIXR; \<open>None\<close> where the number does not fit\<close>
  "fix_of ir x =
     (let sc = (((if tst x SMASK then 0xFF else 0) XOR (uint (drop_bit 27 x) AND 0xFF)) + 0x180) AND 0x1FF;
          ar = smear_sign x;
          sc = (sc - 27) AND 0x1FF
      in if sc < 9 then Some (push_bit (nat sc) ar AND FMASK)
         else if bit sc 8 then
           (let n = nat (0x200 - sc);
                (ar, mq) =
                  (if 27 < n then (0, 0)
                   else (drop_bit n ar OR (FMASK AND (if tst ar SMASK then push_bit (27 - n) FMASK else 0)),
                         push_bit (36 - n) ar AND FMASK));
                ar = (if tst ir 4 \<and> tst mq SMASK \<or> \<not> tst ir 4 \<and> tst ar SMASK \<and> mq \<noteq> 0
                      then ar + 1 else ar)
            in Some (ar AND FMASK))
         else None)"

definition exec_fix :: "cpu \<Rightarrow> cpu" where
  "exec_fix s = rd_ea s (\<lambda>s.
     case fix_of (IR s) (MB s) of
       None \<Rightarrow> or_flags (\<not> pi_cycle s) (OVR OR TRP1) s
     | Some v \<Rightarrow> set_ac v s)"

definition fltr_of :: "u64 \<Rightarrow> bool \<times> u64" where
  "fltr_of x =
     (let ar = push_bit 27 x; neg = tst ar FPSBIT in (neg, if neg then ar OR FPHBIT else ar))"

definition exec_fltr :: "cpu \<Rightarrow> cpu" where
  "exec_fltr s = rd_ea s (\<lambda>s. let (neg, ar) = fltr_of (MB s) in float_result neg 162 ar s)"

end
