(* ===== verification/Float_Value.thy ===== *)
theory Float_Value
  imports Floating Complex_Main
begin

text \<open>
  What the floating-point code computes, over the reals: the number a word stands for, the
  64-bit fractions as signed integers, and the effect of the shifts on both.
\<close>

unbundle bit_operations_syntax

section \<open>Signed 64-bit fractions\<close>

definition fits :: "nat \<Rightarrow> int \<Rightarrow> bool" where
  "fits k i \<longleftrightarrow> - (2 ^ k) \<le> i \<and> i < 2 ^ k"

lemma bit_sint: "bit (sint x) n = bit x (min n 63)" for x :: u64
  by (simp add: bit_sint_iff) (auto simp: min_def dest: bit_u64)

lemma fits_sint:
  fixes x :: u64
  assumes "k < 64"
  shows "fits k (sint x) \<longleftrightarrow> (\<forall>n \<ge> k. n < 64 \<longrightarrow> bit x n = bit x k)"
proof -
  have k: "bit (sint x) k = bit x k" using assms by (simp add: bit_sint min_def)
  have "(\<forall>n \<ge> k. bit x (min n 63) = bit x k) \<longleftrightarrow> (\<forall>n \<ge> k. n < 64 \<longrightarrow> bit x n = bit x k)"
  proof
    assume a: "\<forall>n \<ge> k. n < 64 \<longrightarrow> bit x n = bit x k"
    show "\<forall>n \<ge> k. bit x (min n 63) = bit x k"
    proof (intro allI impI)
      fix n assume "k \<le> n"
      then show "bit x (min n 63) = bit x k"
        by (intro a [rule_format]) (use assms in \<open>simp_all add: min_def\<close>)
    qed
  next
    assume a: "\<forall>n \<ge> k. bit x (min n 63) = bit x k"
    show "\<forall>n \<ge> k. n < 64 \<longrightarrow> bit x n = bit x k"
    proof (intro allI impI)
      fix n assume "k \<le> n" "n < 64"
      then have "min n 63 = n" by simp
      then show "bit x n = bit x k" using a [rule_format, OF \<open>k \<le> n\<close>] by simp
    qed
  qed
  then show ?thesis unfolding fits_def fits_int_bits k unfolding bit_sint .
qed

lemma sint_eqI: "fits 63 i \<Longrightarrow> x = word_of_int i \<Longrightarrow> sint x = i" for x :: u64
  by (simp add: fits_def sint_sbintrunc' signed_take_bit_int_eq_self_iff)

lemma sint_add64: "fits 63 (sint a + sint b) \<Longrightarrow> sint (a + b) = sint a + sint b" for a b :: u64
  by (rule sint_eqI) simp_all

lemma sint_push: "fits 63 (sint a * 2 ^ n) \<Longrightarrow> sint (push_bit n a) = sint a * 2 ^ n" for a :: u64
  by (rule sint_eqI) (simp_all add: push_bit_eq_mult)

lemma sint_neg_iff: "sint x < 0 \<longleftrightarrow> bit x 63" for x :: u64
  using bit_last_iff [of x] by simp

lemma bit_half: "bit (half_right x) n \<longleftrightarrow> (if n < 63 then bit x (Suc n) else bit x n)"
proof -
  have e: "(0x8000000000000000 :: u64) = 2 ^ 63" by simp
  show ?thesis
    unfolding half_right_def e bit_or_iff bit_and_iff bit_exp_iff bit_drop_bit_eq
    by (cases "n < 63") (auto dest: bit_u64)
qed

lemma sint_half: "sint (half_right x) = sint x div 2"
proof (rule bit_eqI)
  fix n
  have "bit (sint x div 2) n = bit (sint x) (Suc n)" by (simp add: bit_Suc)
  then show "bit (sint (half_right x)) n = bit (sint x div 2) n"
    by (simp add: bit_sint bit_half min_def)
qed

section \<open>Normalization\<close>

lemma tst_float:
  "tst x FPHBIT \<longleftrightarrow> bit x 63" "tst x FPSBIT \<longleftrightarrow> bit x 62" "tst x FPNBIT \<longleftrightarrow> bit x 61"
  "tst x FP1BIT \<longleftrightarrow> bit x 60" "tst x FPRBIT2 \<longleftrightarrow> bit x 33" for x :: u64
  using tst_exp [of x 63] tst_exp [of x 62] tst_exp [of x 61] tst_exp [of x 60] tst_exp [of x 33]
  by simp_all

lemma all_up_to:
  "(\<forall>n \<ge> 63. n < 64 \<longrightarrow> Q n) \<longleftrightarrow> Q (63 :: nat)"
  "(\<forall>n \<ge> 62. n < 64 \<longrightarrow> Q n) \<longleftrightarrow> Q 62 \<and> Q (63 :: nat)"
  "(\<forall>n \<ge> 61. n < 64 \<longrightarrow> Q n) \<longleftrightarrow> Q 61 \<and> Q 62 \<and> Q (63 :: nat)"
  "(\<forall>n \<ge> 60. n < 64 \<longrightarrow> Q n) \<longleftrightarrow> Q 60 \<and> Q 61 \<and> Q 62 \<and> Q (63 :: nat)"
proof -
  have step: "(\<forall>n \<ge> k. n < 64 \<longrightarrow> Q n) \<longleftrightarrow> Q k \<and> (\<forall>n \<ge> Suc k. n < 64 \<longrightarrow> Q n)"
    if "k < 64" for k :: nat
    using that by (metis Suc_leD Suc_leI le_neq_implies_less order_refl)
  show a: "(\<forall>n \<ge> 63. n < 64 \<longrightarrow> Q n) \<longleftrightarrow> Q (63 :: nat)"
    using step [of 63] by simp
  show b: "(\<forall>n \<ge> 62. n < 64 \<longrightarrow> Q n) \<longleftrightarrow> Q 62 \<and> Q (63 :: nat)"
    using step [of 62] a by simp
  show c: "(\<forall>n \<ge> 61. n < 64 \<longrightarrow> Q n) \<longleftrightarrow> Q 61 \<and> Q 62 \<and> Q (63 :: nat)"
    using step [of 61] b by simp
  show "(\<forall>n \<ge> 60. n < 64 \<longrightarrow> Q n) \<longleftrightarrow> Q 60 \<and> Q 61 \<and> Q 62 \<and> Q (63 :: nat)"
    using step [of 60] c by simp
qed

lemma fits_tops:
  fixes x :: u64
  shows "fits 60 (sint x) \<longleftrightarrow> bit x 61 = bit x 60 \<and> bit x 62 = bit x 60 \<and> bit x 63 = bit x 60"
    and "fits 61 (sint x) \<longleftrightarrow> bit x 62 = bit x 61 \<and> bit x 63 = bit x 61"
    and "fits 62 (sint x) \<longleftrightarrow> bit x 63 = bit x 62"
  using fits_sint [of 60 x] fits_sint [of 61 x] fits_sint [of 62 x] unfolding all_up_to by simp_all

lemma norm_guard:
  assumes "fits 62 (sint x)"
  shows "x \<noteq> 0 \<and> tst x FPSBIT = tst x FPNBIT \<and> tst x FPNBIT = tst x FP1BIT
    \<longleftrightarrow> sint x \<noteq> 0 \<and> fits 60 (sint x)"
  using assms signed_eq_0_iff [of x] unfolding fits_tops tst_float by auto

definition top_set :: "int \<Rightarrow> bool" where
  \<comment> \<open>nothing left to shift out\<close>
  "top_set A \<longleftrightarrow> A = 0 \<or> \<not> fits 60 A"

definition norm_inv :: "int \<Rightarrow> int \<Rightarrow> int \<times> u64 \<Rightarrow> bool" where
  "norm_inv A sc x \<longleftrightarrow>
     (\<exists>k. fst x = sc - int k \<and> sint (snd x) = A * 2 ^ k) \<and> fits 62 (sint (snd x))
     \<and> (fits 61 A \<longrightarrow> fits 61 (sint (snd x)))"

lemma norm_inv_step:
  assumes i: "norm_inv A sc (e, x)" and g: "sint x \<noteq> 0" "fits 60 (sint x)"
  shows "norm_inv A sc (e - 1, push_bit 1 x)" and "\<bar>sint (push_bit 1 x)\<bar> = 2 * \<bar>sint x\<bar>"
proof -
  have f: "fits 63 (sint x * 2 ^ 1)" "fits 61 (sint x * 2)" "fits 62 (sint x * 2)"
    using g by (auto simp: fits_def)
  have p: "sint (push_bit 1 x) = sint x * 2" using sint_push [OF f(1)] by simp
  then show "\<bar>sint (push_bit 1 x)\<bar> = 2 * \<bar>sint x\<bar>" by simp
  obtain k where k: "e = sc - int k" "sint x = A * 2 ^ k" using i by (auto simp: norm_inv_def)
  then show "norm_inv A sc (e - 1, push_bit 1 x)"
    unfolding norm_inv_def fst_conv snd_conv p using f
    by (intro conjI exI [of _ "Suc k"]) simp_all
qed

lemma norm_left_spec:
  assumes "fits 62 (sint x)"
  shows "norm_inv (sint x) sc (norm_left (sc, x)) \<and> top_set (sint (snd (norm_left (sc, x))))"
  unfolding norm_left_def
proof (rule while_rule [where P = "norm_inv (sint x) sc"
      and r = "measure (\<lambda>y. nat (2 ^ 62 - \<bar>sint (snd y)\<bar>))"])
  show "norm_inv (sint x) sc (sc, x)"
    using assms by (auto simp: norm_inv_def intro: exI [of _ 0])
next
  fix y :: "int \<times> u64"
  obtain e v where y: "y = (e, v)" by fastforce
  assume i: "norm_inv (sint x) sc y"
  then have f: "fits 62 (sint v)" by (simp add: norm_inv_def y)
  {
    assume "case y of (sc, ar) \<Rightarrow> ar \<noteq> 0 \<and> tst ar FPSBIT = tst ar FPNBIT \<and> tst ar FPNBIT = tst ar FP1BIT"
    then have g: "sint v \<noteq> 0" "fits 60 (sint v)" using norm_guard [OF f] by (auto simp: y)
    note s = norm_inv_step [OF i [unfolded y] g]
    show "norm_inv (sint x) sc (case y of (sc, ar) \<Rightarrow> (sc - 1, push_bit 1 ar))"
      using s(1) by (simp add: y)
    have "\<bar>sint v\<bar> < 2 ^ 62" "0 < \<bar>sint v\<bar>" using g by (auto simp: fits_def)
    then show "(case y of (sc, ar) \<Rightarrow> (sc - 1, push_bit 1 ar), y)
        \<in> measure (\<lambda>y. nat (2 ^ 62 - \<bar>sint (snd y)\<bar>))"
      using s(2) by (simp add: y)
  }
  assume "\<not> (case y of (sc, ar) \<Rightarrow> ar \<noteq> 0 \<and> tst ar FPSBIT = tst ar FPNBIT \<and> tst ar FPNBIT = tst ar FP1BIT)"
  then show "norm_inv (sint x) sc y \<and> top_set (sint (snd y))"
    using i norm_guard [OF f] by (auto simp: y top_set_def)
qed simp

definition fv :: "int \<Rightarrow> int \<Rightarrow> real" where
  \<comment> \<open>the number with exponent \<open>e\<close> and fraction \<open>i\<close>\<close>
  "fv e i = of_int i * 2 powi e"

lemma fv_shift: "fv (e - int k) (i * 2 ^ k) = fv e i"
  by (simp add: fv_def power_int_diff)

lemma fv_up: "fv (e + int k) i = fv e (i * 2 ^ k)"
  by (simp add: fv_def power_int_add)

lemma fv_half: "even i \<Longrightarrow> fv (e + 1) (i div 2) = fv e i"
  using fv_up [of e 1 "i div 2"] by simp

definition normal :: "int \<Rightarrow> bool" where
  \<comment> \<open>a normalized fraction of 27 bits\<close>
  "normal H \<longleftrightarrow> 2 ^ 26 \<le> H \<and> H < 2 ^ 27 \<or> - (2 ^ 27) < H \<and> H \<le> - (2 ^ 26)"

definition settled :: "int \<Rightarrow> bool" where
  \<comment> \<open>a fraction behind one pass of the normalization\<close>
  "settled A \<longleftrightarrow> 2 ^ 60 \<le> A \<and> A < 2 ^ 61 \<or> - (2 ^ 61) + 2 ^ 34 \<le> A \<and> A < - (2 ^ 60)
     \<or> - (2 ^ 60) \<le> A \<and> A < - (2 ^ 60) + 2 ^ 33"

lemma bit_edge_mask:
  "bit (0x7FFFFFFC00000000 :: u64) n \<longleftrightarrow> 34 \<le> n \<and> n \<le> 62"
  "bit (FPSBIT OR FPNBIT) n \<longleftrightarrow> n = 61 \<or> n = 62"
proof -
  have "(0x7FFFFFFC00000000 :: u64) = push_bit 34 (mask 29)"
    by (simp add: mask_eq_exp_minus_1 push_bit_eq_mult)
  then show "bit (0x7FFFFFFC00000000 :: u64) n \<longleftrightarrow> 34 \<le> n \<and> n \<le> 62"
    by (simp only: bit_push_bit_iff bit_mask_iff possible_bit_word) (simp, linarith)
  have "(0x4000000000000000 :: u64) = 2 ^ 62" "(0x2000000000000000 :: u64) = 2 ^ 61" by simp_all
  then show "bit (FPSBIT OR FPNBIT) n \<longleftrightarrow> n = 61 \<or> n = 62"
    by (simp only: bit_or_iff bit_exp_iff possible_bit_word) auto
qed

lemma bit_div34: "bit (sint x div 2 ^ 34) n = bit x (min (n + 34) 63)" for x :: u64
  unfolding drop_bit_eq_div [symmetric] bit_drop_bit_eq bit_sint by (simp add: add.commute)

lemma edge_guard:
  assumes "fits 61 (sint x)"
  shows "x AND 0x7FFFFFFC00000000 = FPSBIT OR FPNBIT \<longleftrightarrow> sint x div 2 ^ 34 = - (2 ^ 27)"
proof -
  have t: "bit x 62 = bit x 61" "bit x 63 = bit x 61" using assms unfolding fits_tops by simp_all
  have m: "bit (- (2 ^ 27) :: int) n \<longleftrightarrow> 27 \<le> n" for n
    using bit_minus_exp_iff [where 'a = int, of 27 n] by simp
  have "sint x div 2 ^ 34 = - (2 ^ 27) \<longleftrightarrow> (\<forall>n. bit x (min (n + 34) 63) = (27 \<le> n))"
    unfolding bit_eq_iff bit_div34 m by simp
  also have "\<dots> \<longleftrightarrow> (\<forall>n < 64. (bit x n \<and> 34 \<le> n \<and> n \<le> 62) = (n = 61 \<or> n = 62))"
  proof
    assume a: "\<forall>n. bit x (min (n + 34) 63) = (27 \<le> n)"
    show "\<forall>n < 64. (bit x n \<and> 34 \<le> n \<and> n \<le> 62) = (n = 61 \<or> n = 62)"
    proof (intro allI impI)
      fix n :: nat assume "n < 64"
      show "(bit x n \<and> 34 \<le> n \<and> n \<le> 62) = (n = 61 \<or> n = 62)"
        using a [rule_format, of "n - 34"] by (cases "34 \<le> n \<and> n \<le> 62") auto
    qed
  next
    assume a: "\<forall>n < 64. (bit x n \<and> 34 \<le> n \<and> n \<le> 62) = (n = 61 \<or> n = 62)"
    show "\<forall>n. bit x (min (n + 34) 63) = (27 \<le> n)"
    proof
      fix n :: nat
      have "bit x 61" using a [rule_format, of 61] by simp
      consider "n + 34 \<le> 60" | "n = 27" | "n = 28" | "29 \<le> n" by linarith
      then show "bit x (min (n + 34) 63) = (27 \<le> n)"
        using a [rule_format, of "n + 34"] t \<open>bit x 61\<close> by cases simp_all
    qed
  qed
  also have "\<dots> \<longleftrightarrow> x AND 0x7FFFFFFC00000000 = FPSBIT OR FPNBIT"
    unfolding bit_eq_iff possible_bit_word bit_and_iff bit_edge_mask by auto
  finally show ?thesis by simp
qed

lemma div34: "A div 2 ^ 34 = H \<longleftrightarrow> H * 2 ^ 34 \<le> A \<and> A < H * 2 ^ 34 + 2 ^ 34" for A H :: int
proof -
  have "A div 2 ^ 34 = H \<longleftrightarrow> H \<le> A div 2 ^ 34 \<and> \<not> H + 1 \<le> A div 2 ^ 34" by linarith
  then show ?thesis by (simp only: le_div_pow distrib_right mult_1 not_le)
qed

lemma norm_pass:
  assumes f: "fits 61 (sint x)" and n: "sint x \<noteq> 0" "even (sint x)"
    and r: "norm_edge (norm_left (sc, x)) = (e, y)"
  shows "fv e (sint y) = fv sc (sint x)" and "settled (sint y)" and "sc - 61 \<le> e \<and> e \<le> sc + 1"
proof -
  obtain e0 z where l: "norm_left (sc, x) = (e0, z)" by fastforce
  have f2: "fits 62 (sint x)" using f by (auto simp: fits_def)
  have i: "norm_inv (sint x) sc (e0, z)" and s: "top_set (sint z)"
    using norm_left_spec [OF f2, of sc] by (simp_all add: l)
  obtain k where k: "e0 = sc - int k" "sint z = sint x * 2 ^ k" using i by (auto simp: norm_inv_def)
  have z: "fits 61 (sint z)" "fv e0 (sint z) = fv sc (sint x)" "even (sint z)" "sint z \<noteq> 0"
    using i f n by (simp_all add: norm_inv_def k fv_shift)
  have range: "- (2 ^ 61) \<le> sint z" "sint z < 2 ^ 61" "sint z < - (2 ^ 60) \<or> 2 ^ 60 \<le> sint z"
    using z s by (auto simp: fits_def top_set_def)
  have y: "(e, y) = (if sint z div 2 ^ 34 = - (2 ^ 27) then (e0 + 1, half_right z) else (e0, z))"
    using r unfolding norm_edge_def l prod.case edge_guard [OF z(1)] by (rule sym)
  have "\<bar>sint x\<bar> * 2 ^ k \<le> 2 ^ 61" using range unfolding k by (simp add: abs_mult [symmetric, of _ "2 ^ k", simplified])
  moreover have "1 \<le> \<bar>sint x\<bar>" using n(1) by linarith
  then have "2 ^ k \<le> \<bar>sint x\<bar> * 2 ^ k" by simp
  ultimately have "(2 :: int) ^ k \<le> 2 ^ 61" by linarith
  then have "k \<le> 61" using power_le_imp_le_exp [of "2 :: int" k 61] by simp
  then show "sc - 61 \<le> e \<and> e \<le> sc + 1" using y k by (auto split: if_splits)
  show "fv e (sint y) = fv sc (sint x)"
    using y z by (auto simp: sint_half fv_half split: if_splits)
  show "settled (sint y)"
  proof (cases "sint z div 2 ^ 34 = - (2 ^ 27)")
    case True
    then have "sint z < - (2 ^ 61) + 2 ^ 34" unfolding div34 by simp
    then have "- (2 ^ 60) \<le> sint z div 2 \<and> sint z div 2 < - (2 ^ 60) + 2 ^ 33"
      using range by (auto simp: zdiv_mono1)
    moreover have "(e, y) = (e0 + 1, half_right z)" using y unfolding if_P [OF True] .
    then have "sint y = sint z div 2" by (simp add: sint_half)
    ultimately show ?thesis unfolding settled_def by simp
  next
    case False
    then have "- (2 ^ 61) + 2 ^ 34 \<le> sint z" using range unfolding div34 by simp
    moreover have "(e, y) = (e0, z)" using y unfolding if_not_P [OF False] .
    then have "y = z" by simp
    ultimately show ?thesis using range unfolding settled_def by auto
  qed
qed

lemma norm_pass_settled:
  fixes y :: u64
  assumes r: "2 ^ 60 \<le> sint y \<and> sint y < 2 ^ 61
    \<or> - (2 ^ 61) + 2 ^ 34 \<le> sint y \<and> sint y < - (2 ^ 60)"
  shows "norm_edge (norm_left (e, y)) = (e, y)"
proof -
  have f: "fits 61 (sint y)" "fits 62 (sint y)" "\<not> fits 60 (sint y)"
    using r by (elim disjE; simp add: fits_def)+
  have l: "norm_left (e, y) = (e, y)"
    using norm_guard [OF f(2)] f(3) unfolding norm_left_def
    by (subst while_unfold, unfold prod.case, intro if_not_P) blast
  have "\<not> sint y div 2 ^ 34 = - (2 ^ 27)" using r unfolding div34 by (elim disjE) simp_all
  then show ?thesis unfolding norm_edge_def l prod.case edge_guard [OF f(1)] by (rule if_not_P)
qed

section \<open>Rounding\<close>

lemma settled_bits:
  fixes y :: u64
  assumes "settled (sint y)"
  shows "bit y 60 \<longleftrightarrow> - (2 ^ 60) \<le> sint y" and "bit y 62 \<longleftrightarrow> sint y < 0" and "fits 61 (sint y)"
proof -
  show f: "fits 61 (sint y)" using assms unfolding settled_def fits_def by auto
  then have t: "bit y 62 = bit y 61" "bit y 63 = bit y 61" unfolding fits_tops by simp_all
  then show n: "bit y 62 \<longleftrightarrow> sint y < 0" using sint_neg_iff [of y] by simp
  show "bit y 60 \<longleftrightarrow> - (2 ^ 60) \<le> sint y"
  proof -
    have "fits 60 (sint y) \<longleftrightarrow> bit y 60 = bit y 62" unfolding fits_tops using t by auto
    moreover have "fits 60 (sint y) \<longleftrightarrow> sint y < 0 \<and> - (2 ^ 60) \<le> sint y"
      using assms unfolding settled_def fits_def by auto
    ultimately show ?thesis using n assms unfolding settled_def by auto
  qed
qed

lemma sint_clear:
  "sint (clr_bits y FPRMASK) = sint y div 2 ^ 34 * 2 ^ 34" for y :: u64
proof (rule bit_eqI)
  fix n
  have m: "(0x3FFFFFFFF :: u64) = mask 34" by (simp add: mask_eq_exp_minus_1)
  have "bit (sint y div 2 ^ 34 * 2 ^ 34) n \<longleftrightarrow> 34 \<le> n \<and> bit (sint y) n"
    unfolding push_bit_eq_mult [symmetric] drop_bit_eq_div [symmetric] bit_push_bit_iff bit_drop_bit_eq
    by auto
  then show "bit (sint (clr_bits y FPRMASK)) n = bit (sint y div 2 ^ 34 * 2 ^ 34) n"
    unfolding bit_sint bit_clr_bits m bit_mask_iff by (auto simp: min_def)
qed

lemma low34:
  fixes y :: u64
  shows "uint (y AND FPRMASK) = sint y mod 2 ^ 34"
    and "bit y 33 \<longleftrightarrow> 2 ^ 33 \<le> sint y mod 2 ^ 34"
proof -
  have m: "(0x3FFFFFFFF :: u64) = mask 34" by (simp add: mask_eq_exp_minus_1)
  show e: "uint (y AND FPRMASK) = sint y mod 2 ^ 34"
    unfolding m take_bit_eq_mask [symmetric] take_bit_eq_mod [symmetric]
    by (rule bit_eqI) (auto simp: bit_take_bit_iff bit_sint bit_uint_iff)
  have "bit y 33 \<longleftrightarrow> bit (sint y mod 2 ^ 34) 33"
    unfolding take_bit_eq_mod [symmetric] by (simp add: bit_take_bit_iff bit_sint)
  also have "\<dots> \<longleftrightarrow> 2 ^ 33 \<le> sint y mod 2 ^ 34"
  proof -
    have "0 \<le> sint y mod 2 ^ 34" "sint y mod 2 ^ 34 < 2 ^ 34" by simp_all
    then show ?thesis
      unfolding bit_iff_odd
      using div_pos_pos_trivial [of "sint y mod 2 ^ 34" "2 ^ 33"]
        div_pos_pos_trivial [of "sint y mod 2 ^ 34 - 2 ^ 33" "2 ^ 33"]
        div_add_self2 [of "2 ^ 33" "sint y mod 2 ^ 34 - 2 ^ 33"]
      by (cases "2 ^ 33 \<le> sint y mod 2 ^ 34") auto
  qed
  finally show "bit y 33 \<longleftrightarrow> 2 ^ 33 \<le> sint y mod 2 ^ 34" .
qed

lemma round_of_spec:
  fixes y :: u64
  assumes s: "settled (sint y)" and b: "bit y 33"
  defines "H \<equiv> sint y div 2 ^ 34" and "m \<equiv> sint y mod 2 ^ 34"
  shows "sint (round_of ir y) = (H + 1) * 2 ^ 34 \<or> m = 2 ^ 33 \<and> sint (round_of ir y) = H * 2 ^ 34"
    and "\<bar>sint (round_of ir y) - sint y\<bar> \<le> 2 ^ 33"
proof -
  have m: "2 ^ 33 \<le> m" "m < 2 ^ 34" "sint y = H * 2 ^ 34 + m"
    using b [unfolded low34(2)] by (simp_all add: m_def H_def mult.commute)
  have one: "sint (0x400000000 :: u64) = 2 ^ 34" by simp
  have fit: "fits 63 (sint y + sint (0x400000000 :: u64))"
    using s unfolding one settled_def fits_def by auto
  have up: "sint (clr_bits (y + FPRBIT1) FPRMASK) = (H + 1) * 2 ^ 34"
    unfolding sint_clear sint_add64 [OF fit] one H_def by simp
  have down: "sint (clr_bits y FPRMASK) = H * 2 ^ 34" unfolding sint_clear H_def ..
  have half: "m = 2 ^ 33" if "y AND FPRMASK = FPRBIT2"
    using low34(1) [of y] unfolding that m_def by simp
  show r: "sint (round_of ir y) = (H + 1) * 2 ^ 34 \<or> m = 2 ^ 33 \<and> sint (round_of ir y) = H * 2 ^ 34"
  proof -
    have "round_of ir y = clr_bits (y + FPRBIT1) FPRMASK
      \<or> y AND FPRMASK = FPRBIT2 \<and> round_of ir y = clr_bits y FPRMASK"
      unfolding round_of_def Let_def by auto
    then show ?thesis using up down half by auto
  qed
  show "\<bar>sint (round_of ir y) - sint y\<bar> \<le> 2 ^ 33" using r m by auto
qed

lemma word_of_sint: "sint x = i \<Longrightarrow> x = word_of_int i" for x :: u64
  by (metis scast_eq scast_id)

lemma round_carry:
  fixes r y :: u64
  assumes s: "settled (sint y)" and b: "bit y 33"
    and r: "sint r = (sint y div 2 ^ 34 + 1) * 2 ^ 34 \<or> sint r = sint y div 2 ^ 34 * 2 ^ 34"
    and z: "norm_edge (norm_left (if bit r 60 \<noteq> bit y 60 then (e + 1, half_right r) else (e, r))) = (e2, z)"
  shows "e \<le> e2 \<and> e2 \<le> e + 1 \<and> fv e2 (sint z) = fv e (sint r) \<and> settled (sint z) \<and> sint z mod 2 ^ 34 = 0"
proof -
  define H where "H = sint y div 2 ^ 34"
  have y: "H * 2 ^ 34 \<le> sint y" "sint y < H * 2 ^ 34 + 2 ^ 34" using div34 [of "sint y" H] by (simp_all add: H_def)
  have low: "\<not> (- (2 ^ 60) \<le> sint y \<and> sint y < - (2 ^ 60) + 2 ^ 33)"
  proof
    assume a: "- (2 ^ 60) \<le> sint y \<and> sint y < - (2 ^ 60) + 2 ^ 33"
    have "sint y mod 2 ^ 34 = (sint y + 2 ^ 60) mod 2 ^ 34"
      using mod_mult_self1 [of "sint y" "2 ^ 26" "2 ^ 34"] by simp
    also have "\<dots> = sint y + 2 ^ 60" by (rule mod_pos_pos_trivial) (use a in simp_all)
    finally have "sint y mod 2 ^ 34 = sint y + 2 ^ 60" .
    then show False using a b unfolding low34 by simp
  qed
  have rH: "sint r = (H + 1) * 2 ^ 34 \<or> sint r = H * 2 ^ 34" using r unfolding H_def .
  have range: "2 ^ 60 \<le> sint y \<and> sint y < 2 ^ 61 \<and> 2 ^ 26 \<le> H \<and> H < 2 ^ 27
    \<or> - (2 ^ 61) + 2 ^ 34 \<le> sint y \<and> sint y < - (2 ^ 60) \<and> - (2 ^ 27) < H \<and> H < - (2 ^ 26)"
    using s low y unfolding settled_def by auto
  consider (top) "sint r = 2 ^ 61" "0 \<le> sint y" | (bottom) "sint r = - (2 ^ 60)" "sint y < - (2 ^ 60)"
    | (pos) "2 ^ 60 \<le> sint r" "sint r < 2 ^ 61" "0 \<le> sint y"
    | (neg) "- (2 ^ 61) + 2 ^ 34 \<le> sint r" "sint r < - (2 ^ 60)" "sint y < - (2 ^ 60)"
  proof -
    have "2 ^ 60 \<le> sint r \<and> sint r \<le> 2 ^ 61 \<and> 0 \<le> sint y
      \<or> - (2 ^ 61) + 2 ^ 34 \<le> sint r \<and> sint r \<le> - (2 ^ 60) \<and> sint y < - (2 ^ 60)"
      using range rH by (elim disjE) (simp_all add: algebra_simps)
    then show ?thesis using that by (auto simp: order.order_iff_strict)
  qed
  then show ?thesis
  proof cases
    case top
    have r: "r = 0x2000000000000000" using word_of_sint [OF top(1)] by simp
    have "bit y 60" using settled_bits(1) [OF s] top by simp
    moreover have "\<not> bit r 60" "half_right r = 0x1000000000000000" unfolding r half_right_def by simp_all
    moreover have "norm_edge (norm_left (e + 1, 0x1000000000000000)) = (e + 1, 0x1000000000000000)"
      by (rule norm_pass_settled) simp
    ultimately have "e2 = e + 1" "z = 0x1000000000000000" using z by simp_all
    then show ?thesis using fv_half [of "2 ^ 61" e] top by (simp add: settled_def)
  next
    case bottom
    have r: "r = 0xF000000000000000" using word_of_sint [OF bottom(1)] by simp
    have "\<not> bit y 60" using settled_bits(1) [OF s] bottom by simp
    moreover have "bit r 60" "half_right r = 0xF800000000000000" unfolding r half_right_def by simp_all
    moreover have "norm_left (e + 1, 0xF800000000000000) = (e - 1, 0xE000000000000000)"
      by (simp add: norm_left_def while_unfold tst_def)
    moreover have "norm_edge (e - 1, 0xE000000000000000) = (e, 0xF000000000000000)"
      by (simp add: norm_edge_def half_right_def)
    ultimately have "e2 = e" "z = 0xF000000000000000" using z by simp_all
    then show ?thesis using bottom by (simp add: settled_def r)
  next
    case pos
    have "settled (sint r)" using pos unfolding settled_def by simp
    then have "bit r 60 = bit y 60" using settled_bits(1) s pos by auto
    moreover have "norm_edge (norm_left (e, r)) = (e, r)" by (rule norm_pass_settled) (use pos in simp)
    ultimately have "e2 = e" "z = r" using z by simp_all
    then show ?thesis using rH \<open>settled (sint r)\<close> by auto
  next
    case neg
    have "settled (sint r)" using neg unfolding settled_def by simp
    then have "bit r 60 = bit y 60" using settled_bits(1) s neg by auto
    moreover have "norm_edge (norm_left (e, r)) = (e, r)" by (rule norm_pass_settled) (use neg in simp)
    ultimately have "e2 = e" "z = r" using z by simp_all
    then show ?thesis using rH \<open>settled (sint r)\<close> by auto
  qed
qed

definition rounds :: "u32 \<Rightarrow> int \<Rightarrow> int \<Rightarrow> real \<Rightarrow> bool" where
  \<comment> \<open>the fraction \<open>A\<close> cut to 27 bits: the next lower number, or, for a rounding
      instruction, a nearest one\<close>
  "rounds ir e A v \<longleftrightarrow>
     (if tst ir 4 then \<bar>fv e (A div 2 ^ 34 * 2 ^ 34) - v\<bar> \<le> fv e (2 ^ 33) else fv e A = v)"

lemma fv_less: "fv e i \<le> fv e j \<longleftrightarrow> i \<le> j" "fv e i - fv e j = fv e (i - j)" "\<bar>fv e i\<bar> = fv e \<bar>i\<bar>"
  by (simp_all add: fv_def left_diff_distrib abs_mult)

lemma fv_sign: "fv e i < 0 \<longleftrightarrow> i < 0" "0 < fv e i \<longleftrightarrow> 0 < i"
proof -
  have p: "0 < (2 :: real) powi e" by (intro zero_less_power_int) simp
  then have "\<not> (2 :: real) powi e < 0" by linarith
  with p show "fv e i < 0 \<longleftrightarrow> i < 0" "0 < fv e i \<longleftrightarrow> 0 < i"
    unfolding fv_def mult_less_0_iff zero_less_mult_iff by auto
qed

lemma norm_round_spec:
  assumes f: "fits 61 (sint x)" and n: "sint x \<noteq> 0" "even (sint x)"
    and r: "norm_round ir (sc, x) = (e2, z)"
  shows "rounds ir e2 (sint z) (fv sc (sint x)) \<and> settled (sint z) \<and> sc - 61 \<le> e2 \<and> e2 \<le> sc + 2"
proof -
  obtain e y where y: "norm_edge (norm_left (sc, x)) = (e, y)" by fastforce
  note p = norm_pass [OF f n y]
  have t4: "tst y FPRBIT2 = bit y 33" "tst y FP1BIT = bit y 60" for y by (simp_all only: tst_float)
  show ?thesis
  proof (cases "tst ir 4 \<and> bit y 33")
    case True
    define v where "v = round_of ir y"
    have z: "norm_edge (norm_left (if bit v 60 \<noteq> bit y 60 then (e + 1, half_right v) else (e, v))) = (e2, z)"
      using r True unfolding norm_round_def y Let_def prod.case t4 v_def [symmetric] by simp
    have b: "bit y 33" using True by simp
    note s = round_of_spec [OF p(2) b, of ir, folded v_def]
    have c: "e \<le> e2 \<and> e2 \<le> e + 1 \<and> fv e2 (sint z) = fv e (sint v) \<and> settled (sint z) \<and> sint z mod 2 ^ 34 = 0"
      by (rule round_carry [OF p(2) b _ z]) (use s(1) in blast)
    have "sint z div 2 ^ 34 * 2 ^ 34 = sint z" using c by (simp add: mod_eq_0_iff_dvd)
    then have "\<bar>fv e2 (sint z div 2 ^ 34 * 2 ^ 34) - fv sc (sint x)\<bar> = fv e \<bar>sint v - sint y\<bar>"
      using c by (simp add: fv_less flip: p(1))
    also have "\<dots> \<le> fv e (2 ^ 33)" using s(2) by (simp only: fv_less)
    also have "\<dots> \<le> fv e2 (2 ^ 33)" using c by (simp add: fv_def power_int_increasing)
    finally show ?thesis using True c p(3) unfolding rounds_def by auto
  next
    case False
    then have "(e2, z) = (e, y)"
      using r unfolding norm_round_def y Let_def prod.case t4 by (auto split: if_splits)
    moreover have "\<bar>fv e (sint y div 2 ^ 34 * 2 ^ 34) - fv e (sint y)\<bar> \<le> fv e (2 ^ 33)" if "tst ir 4"
    proof -
      have "\<not> 2 ^ 33 \<le> sint y mod 2 ^ 34" using False that low34(2) [of y] by simp
      then have "\<bar>sint y div 2 ^ 34 * 2 ^ 34 - sint y\<bar> \<le> 2 ^ 33"
      proof -
        have "sint y - sint y div 2 ^ 34 * 2 ^ 34 = sint y mod 2 ^ 34" by (rule minus_div_mult_eq_mod)
        moreover have "0 \<le> sint y mod 2 ^ 34" by simp
        ultimately show ?thesis using \<open>\<not> 2 ^ 33 \<le> sint y mod 2 ^ 34\<close> by linarith
      qed
      then show ?thesis by (simp only: fv_less)
    qed
    ultimately show ?thesis using p unfolding rounds_def by auto
  qed
qed

section \<open>The word of a result\<close>

definition fraction :: "u64 \<Rightarrow> int" where
  \<comment> \<open>the signed fraction of a word, in units of its last place\<close>
  "fraction w = uint (w AND MMASK) - (if bit w 35 then 2 ^ 27 else 0)"

definition fval :: "u64 \<Rightarrow> real" where
  \<comment> \<open>the number a floating-point word stands for\<close>
  "fval w = fv (get_expo w - 155) (fraction w)"

lemma bit_sign_extend:
  fixes u :: int
  assumes "0 \<le> u" and "u < 2 ^ k"
  shows "bit (u - (if c then 2 ^ k else 0)) n \<longleftrightarrow> (if n < k then bit u n else c)"
proof -
  have t: "take_bit k u = u" using assms by (simp add: take_bit_int_eq_self_iff)
  then have u: "bit u n \<Longrightarrow> n < k" for n by (metis bit_take_bit_iff)
  show ?thesis
  proof (cases c)
    case True
    have "u - 2 ^ k = u OR - (2 ^ k)"
      using u by (subst disjunctive_add_eq_or [symmetric])
        (auto intro!: bit_eqI simp: bit_and_iff bit_minus_exp_iff dest!: u)
    then show ?thesis using True u by (auto simp: bit_or_iff bit_minus_exp_iff)
  qed (use u in auto)
qed

lemma bit_fraction: "bit (fraction w) n \<longleftrightarrow> (if n < 27 then bit w n else bit w 35)"
proof -
  have "uint (w AND MMASK) < 2 ^ 27"
    unfolding mask_simps uint_take by simp
  then show ?thesis
    unfolding fraction_def by (subst bit_sign_extend) (auto simp: bit_uint_iff bit_and_iff dest: bit_u64)
qed

lemma bit_expo: "bit (get_expo w) n \<longleftrightarrow> n < 8 \<and> bit w (n + 27) \<noteq> bit w 35"
proof -
  have m: "(0xFF :: int) = mask 8" by (simp add: mask_eq_exp_minus_1)
  show ?thesis
    unfolding get_expo_def m tst_simps
    by (auto simp: bit_xor_iff bit_and_iff bit_mask_iff bit_uint_iff bit_drop_bit_eq add.commute dest: bit_u64)
qed

lemma bit_put: "bit (put_expo e w) n \<longleftrightarrow>
    bit w n \<or> 27 \<le> n \<and> n < 35 \<and> bit e (n - 27) \<noteq> bit w 35"
proof -
  have m: "(0xFF :: int) = mask 8" by (simp add: mask_eq_exp_minus_1)
  show ?thesis
    unfolding put_expo_def m tst_simps
    by (auto simp: bit_or_iff bit_push_bit_iff bit_word_of_int_iff bit_xor_iff bit_and_iff bit_mask_iff dest: bit_u64)
qed

lemma put_expo_fields:
  assumes "\<And>n. bit w n \<Longrightarrow> n < 27 \<or> n = 35" and "0 \<le> e" and "e < 256"
  shows "get_expo (put_expo e w) = e" and "fraction (put_expo e w) = fraction w"
    and "bit (put_expo e w) 35 = bit w 35"
proof -
  have t: "take_bit 8 e = e" using assms by (simp add: take_bit_int_eq_self_iff)
  then have b: "bit e n \<Longrightarrow> n < 8" for n by (metis bit_take_bit_iff)
  have w: "\<not> bit w (n + 27)" if "n < 8" for n using assms(1) [of "n + 27"] that by auto
  show "get_expo (put_expo e w) = e"
    by (rule bit_eqI) (use b w in \<open>auto simp: bit_expo bit_put\<close>)
  show "fraction (put_expo e w) = fraction w"
    by (rule bit_eqI) (auto simp: bit_fraction bit_put)
  show "bit (put_expo e w) 35 = bit w 35" by (simp add: bit_put)
qed

lemma settled_normal: "settled A \<Longrightarrow> normal (A div 2 ^ 34)"
proof -
  assume s: "settled A"
  have "\<not> H \<le> A div 2 ^ 34 \<longleftrightarrow> A < H * 2 ^ 34" for H by (simp only: le_div_pow not_le)
  note l = le_div_pow [of _ A 34] this
  have "A div 2 ^ 34 < 2 ^ 27 \<longleftrightarrow> \<not> 2 ^ 27 \<le> A div 2 ^ 34"
    "- (2 ^ 27) < A div 2 ^ 34 \<longleftrightarrow> - (2 ^ 27) + 1 \<le> A div 2 ^ 34"
    "A div 2 ^ 34 \<le> - (2 ^ 26) \<longleftrightarrow> \<not> - (2 ^ 26) + 1 \<le> A div 2 ^ 34"
    by linarith+
  then show ?thesis using s unfolding normal_def l settled_def by auto
qed

lemma rounds_sign:
  assumes s: "settled A" and r: "rounds ir e A v"
  shows "A < 0 \<longleftrightarrow> v < 0"
proof (cases "tst ir 4")
  case False
  then show ?thesis using r by (auto simp: rounds_def fv_sign)
next
  case True
  define F where "F = A div 2 ^ 34 * 2 ^ 34"
  have F: "0 \<le> A \<and> 2 ^ 60 \<le> F \<or> A < 0 \<and> F \<le> - (2 ^ 60)"
    using settled_normal [OF s] s unfolding normal_def settled_def F_def by auto
  have "\<bar>fv e F - v\<bar> \<le> fv e (2 ^ 33)" using r True by (simp add: rounds_def F_def)
  then have "fv e F - fv e (2 ^ 33) \<le> v" "v \<le> fv e F + fv e (2 ^ 33)" by linarith+
  moreover have "fv e F + fv e (2 ^ 33) = fv e (F + 2 ^ 33)"
    by (simp add: fv_def distrib_right)
  ultimately have v: "fv e (F - 2 ^ 33) \<le> v" "v \<le> fv e (F + 2 ^ 33)" by (simp_all only: fv_less)
  from F show ?thesis
  proof (elim disjE conjE)
    assume a: "0 \<le> A" "2 ^ 60 \<le> F"
    then have "0 < fv e (F - 2 ^ 33)" unfolding fv_sign by simp
    then show ?thesis using v a by linarith
  next
    assume a: "A < 0" "F \<le> - (2 ^ 60)"
    then have "fv e (F + 2 ^ 33) < 0" unfolding fv_sign by simp
    then show ?thesis using v a by linarith
  qed
qed

lemma clear_low6: "64 dvd sint x \<Longrightarrow> clr_bits x 0x3F = x" for x :: u64
proof (rule bit_word_eqI)
  fix n assume d: "64 dvd sint x"
  have m: "(0x3F :: u64) = mask 6" by (simp add: mask_eq_exp_minus_1)
  have "take_bit 6 (sint x) = 0" using d by (simp add: take_bit_eq_mod mod_eq_0_iff_dvd)
  then have "n < 6 \<Longrightarrow> \<not> bit (sint x) n" by (metis bit_take_bit_iff bit_0_eq bot_apply bot_bool_def)
  then show "bit (clr_bits x 0x3F) n = bit x n"
    unfolding bit_clr_bits m bit_mask_iff by (auto simp: bit_sint)
qed

lemma fnorm_spec:
  assumes ir: "ir \<noteq> 0x58" and f: "fits 62 (sint x)" and d: "128 dvd sint x" and n: "sint x \<noteq> 0"
    and neg: "neg \<longleftrightarrow> sint x < 0" and r: "fnorm ir neg sc x = (e, fxu, hi, mq)"
  obtains z where "settled (sint z)" and "rounds ir e (sint z) (fv sc (sint x))"
    and "hi = set_if (sint z < 0) SMASK (drop_bit 34 z)" and "mq = z AND FPRMASK"
    and "sc - 61 \<le> e" and "e \<le> sc + 3"
proof -
  define sc1 x1 where "sc1 = (if bit x 62 \<noteq> bit x 61 then sc + 1 else sc)"
    and "x1 = (if bit x 62 \<noteq> bit x 61 then half_right x else x)"
  have b: "bit x 63 = bit x 62" using f unfolding fits_tops .
  have s1: "sint x1 = (if bit x 62 \<noteq> bit x 61 then sint x div 2 else sint x)"
    by (simp add: x1_def sint_half)
  have ev: "even (sint x)" using d by (metis dvd_trans even_numeral)
  have x1: "64 dvd sint x1" "sint x1 \<noteq> 0" "fv sc1 (sint x1) = fv sc (sint x)"
    using d n ev by (auto simp: s1 sc1_def fv_half elim!: dvdE)
  have f1: "fits 61 (sint x1)"
  proof (cases "bit x 62 = bit x 61")
    case True
    then show ?thesis using b by (simp add: x1_def fits_tops)
  next
    case False
    then show ?thesis using f by (auto simp: s1 fits_def)
  qed
  have clr: "clr_bits x1 0x3F = x1" by (rule clear_low6 [OF x1(1)])
  have "x1 \<noteq> 0" using x1(2) by auto
  obtain e1 z where z: "norm_round ir (sc1, x1) = (e1, z)" by fastforce
  have R: "(e, fxu, hi, mq) = (e1, bad_expo sc1, set_if neg SMASK (drop_bit 34 z), z AND FPRMASK)"
    using r ir z \<open>x1 \<noteq> 0\<close> clr
    unfolding fnorm_def tst_float by (auto simp: Let_def sc1_def x1_def split: if_splits)
  have "even (sint x1)" using x1(1) by (metis dvd_trans even_numeral)
  note N = norm_round_spec [OF f1 x1(2) this z, unfolded x1(3)]
  have "sint z < 0 \<longleftrightarrow> neg"
    using rounds_sign [of "sint z" ir e1 "fv sc (sint x)"] N neg
    by (simp add: fv_sign)
  then show thesis
    using that [of z] N R by (auto simp: sc1_def split: if_splits)
qed

definition rounded_to :: "u32 \<Rightarrow> u64 \<Rightarrow> real \<Rightarrow> bool" where
  \<comment> \<open>\<open>w\<close> is normalized, and a nearest floating-point number to \<open>v\<close> for an instruction
      that rounds, the next one below for an instruction that does not\<close>
  "rounded_to ir w v \<longleftrightarrow> normal (fraction w) \<and>
     (if tst ir 4 then 2 * \<bar>fval w - v\<bar> \<le> 2 powi (get_expo w - 155)
      else fval w \<le> v \<and> v < fval w + 2 powi (get_expo w - 155))"

lemma fv_scale: "fv (e + c) i = fv e i * 2 powi c"
  by (simp add: fv_def power_int_add)

lemma rounds_scaled:
  assumes "rounds ir e A v"
  shows "rounds ir (e + c) A (v * 2 powi c)"
proof -
  have p: "0 < (2 :: real) powi c" by (intro zero_less_power_int) simp
  have "\<bar>fv e i * 2 powi c - v * 2 powi c\<bar> = \<bar>fv e i - v\<bar> * 2 powi c" for i
    using p by (simp add: abs_mult flip: left_diff_distrib)
  then show ?thesis using assms p unfolding rounds_def fv_scale by (auto simp: mult_right_mono)
qed

lemma fraction_result:
  assumes "settled (sint z)"
  shows "fraction (set_if (sint z < 0) SMASK (drop_bit 34 z)) = sint z div 2 ^ 34"
proof (rule bit_eqI)
  fix n
  have f: "fits 61 (sint z)" using assms unfolding settled_def fits_def by auto
  have "bit z (min (n + 34) 63) = bit z 63" if "27 \<le> n"
  proof -
    have "bit z 61 = bit z 63" "bit z 62 = bit z 63" using f unfolding fits_tops by auto
    moreover have "min (n + 34) 63 = 61 \<or> min (n + 34) 63 = 62 \<or> min (n + 34) 63 = 63"
      using that by linarith
    ultimately show ?thesis by auto
  qed
  then show "bit (fraction (set_if (sint z < 0) SMASK (drop_bit 34 z))) n = bit (sint z div 2 ^ 34) n"
    unfolding bit_fraction bit_div34 bit_set_if bit_single bit_drop_bit_eq sint_neg_iff
    by (auto simp: add.commute dest: bit_u64)
qed

lemma float_word_spec:
  assumes ir: "ir \<noteq> 0x58" and f: "fits 62 (sint x)" and d: "128 dvd sint x" and n: "sint x \<noteq> 0"
    and neg: "neg \<longleftrightarrow> sint x < 0" and r: "float_word ir neg sc x = (e, fxu, w, mq)"
    and e: "0 \<le> e" "e < 256"
  shows "rounded_to ir w (fv (sc - 189) (sint x))" and "get_expo w = e" and "sc - 61 \<le> e \<and> e \<le> sc + 3"
proof -
  obtain hi where h: "fnorm ir neg sc x = (e, fxu, hi, mq)"
    and w: "w = (let ar = put_expo e (hi AND (SMASK OR MMASK)) in if ar AND MMASK = 0 then 0 else ar)"
    using r by (auto simp: float_word_def Let_def split: prod.splits)
  obtain z where z: "settled (sint z)" "rounds ir e (sint z) (fv sc (sint x))"
    "hi = set_if (sint z < 0) SMASK (drop_bit 34 z)" "sc - 61 \<le> e" "e \<le> sc + 3"
    using fnorm_spec [OF ir f d n neg h] .
  show "sc - 61 \<le> e \<and> e \<le> sc + 3" using z by simp
  define u where "u = hi AND (SMASK OR MMASK)"
  have u: "bit u n \<longleftrightarrow> bit hi n \<and> (n < 27 \<or> n = 35)" for n
    unfolding u_def bit_and_iff bit_or_iff bit_single bit_masks by auto
  have "fraction u = fraction hi" by (rule bit_eqI) (auto simp: bit_fraction u)
  moreover have H: "fraction hi = sint z div 2 ^ 34" unfolding z(3) by (rule fraction_result [OF z(1)])
  ultimately have F: "fraction (put_expo e u) = sint z div 2 ^ 34" "get_expo (put_expo e u) = e"
    using put_expo_fields [of u e] u e by auto
  have N: "normal (sint z div 2 ^ 34)" by (rule settled_normal [OF z(1)])
  have "put_expo e u AND MMASK \<noteq> 0"
  proof
    assume "put_expo e u AND MMASK = 0"
    then have "fraction (put_expo e u) = 0 \<or> fraction (put_expo e u) = - (2 ^ 27)" by (simp add: fraction_def)
    then show False using N unfolding F normal_def by auto
  qed
  then have w: "w = put_expo e u" using w by (simp add: u_def)
  show E: "get_expo w = e" using F w by simp
  have S: "rounds ir (e - 189) (sint z) (fv (sc - 189) (sint x))"
    using rounds_scaled [OF z(2), of "- 189"] unfolding fv_scale [symmetric] by simp
  have up: "fv (e - 155) i = fv (e - 189) (i * 2 ^ 34)" for i
    using fv_up [of "e - 189" 34 i] by simp
  have v: "fval w = fv (e - 189) (sint z div 2 ^ 34 * 2 ^ 34)" "2 powi (e - 155) = fv (e - 189) (2 ^ 34)"
    using up [of "sint z div 2 ^ 34"] up [of 1] by (simp_all add: fval_def E w F) (simp add: fv_def)
  show "rounded_to ir w (fv (sc - 189) (sint x))"
  proof (cases "tst ir 4")
    case True
    have "fv (e - 189) (2 ^ 34) = 2 * fv (e - 189) (2 ^ 33)" by (simp add: fv_def)
    then show ?thesis using S True N F w unfolding rounded_to_def rounds_def E v by simp
  next
    case False
    have m: "sint z div 2 ^ 34 * 2 ^ 34 \<le> sint z" "sint z < sint z div 2 ^ 34 * 2 ^ 34 + 2 ^ 34"
      using div34 [of "sint z" "sint z div 2 ^ 34"] by simp_all
    have "fv (e - 189) (i + j) = fv (e - 189) i + fv (e - 189) j" for i j
      by (simp add: fv_def distrib_right)
    moreover have "fv (e - 189) i < fv (e - 189) j \<longleftrightarrow> i < j" for i j
      using fv_less(1) [of "e - 189" j i] by linarith
    ultimately have "fv (e - 189) (sint z) < fv (e - 189) (sint z div 2 ^ 34 * 2 ^ 34) + fv (e - 189) (2 ^ 34)"
      using m(2) by metis
    moreover have "fv (e - 189) (sint z div 2 ^ 34 * 2 ^ 34) \<le> fv (e - 189) (sint z)"
      unfolding fv_less(1) by (rule m(1))
    ultimately show ?thesis using S False N F w unfolding rounded_to_def rounds_def E v by simp
  qed
qed

end
