(* ===== verification/Bytes.thy ===== *)
theory Bytes
  imports Control
begin

text \<open>
  The byte instructions IBP, ILDB, LDB, IDPB, DPB (opcodes 133 to 137) and the double-word moves
  DMOVE, DMOVN, DMOVEM, DMOVNM (120, 121, 124, 125) of \<open>PDP10/kx10_cpu.c\<close>, KI10 build.

  A byte instruction runs in two passes. The first reads (and for the incrementing ones steps)
  the byte pointer, leaves its position and size in \<open>SCAD\<close> and \<open>SC\<close>, sets
  \<open>BYF5\<close> and clears \<open>f_inst_fetch\<close>, so that the main loop computes the effective
  address of the pointer in \<open>MB\<close> and comes back; the second reads or changes the byte.
  Shift counts of 64 and more, which only pointers with a size above 36 give, are undefined
  in C and shift everything out here.
\<close>

unbundle bit_operations_syntax

section \<open>Byte pointers\<close>

abbreviation (input) PMASK :: u64 where "PMASK \<equiv> 0x3FFFFFFF"

definition ptr_p :: "u64 \<Rightarrow> nat" where
  \<comment> \<open>\<open>(AR >> 30) & 077\<close>\<close>
  "ptr_p ar = unat (drop_bit 30 ar AND 0x3F)"

definition ptr_s :: "u64 \<Rightarrow> nat" where
  "ptr_s ar = unat (drop_bit 24 ar AND 0x3F)"

definition byte_next :: "u64 \<Rightarrow> nat \<times> u64" where
  \<comment> \<open>the stepped position and pointer; \<open>0777 ^ SC\<close> is \<open>511 - SC\<close>, as \<open>SC\<close>
      has six bits\<close>
  "byte_next ar =
     (let sc = ptr_s ar;
          scad = (ptr_p ar + (511 - sc) + 1) mod 512;
          (scad, ar) =
            (if bit scad 8
             then (((511 - sc) + 36 + 1) mod 512, (ar AND LMASK) OR ((ar + 1) AND RMASK))
             else (scad, ar))
      in (scad, (ar AND PMASK) OR push_bit 30 (of_nat scad AND 0x3F)))"

definition byte_mask :: "nat \<Rightarrow> u64" where
  "byte_mask sc = push_bit sc 1 - 1"

definition byte_load :: "nat \<Rightarrow> nat \<Rightarrow> u64 \<Rightarrow> u64" where
  "byte_load scad sc w = drop_bit scad w AND byte_mask sc"

definition byte_store :: "nat \<Rightarrow> nat \<Rightarrow> u64 \<Rightarrow> u64 \<Rightarrow> u64" where
  \<comment> \<open>the byte \<open>b\<close> put into the word \<open>w\<close>\<close>
  "byte_store scad sc b w =
     (let mq = push_bit scad (byte_mask sc)
      in ((w AND CM mq) OR (push_bit scad b AND mq)) AND FMASK)"

section \<open>Byte instructions\<close>

definition byte_ptr :: "cpu \<Rightarrow> cpu" where
  \<comment> \<open>the label \<open>ldb_ptr\<close>\<close>
  "byte_ptr s =
     s\<lparr>f_load_pc := False, f_inst_fetch := False, f_pc_inh := True,
       FLAGS := FLAGS s OR BYTI, BYF5 := True\<rparr>"

definition byte_done :: "cpu \<Rightarrow> cpu" where
  "byte_done s = (clr_flags BYTI s)\<lparr>BYF5 := False\<rparr>"

definition byte_data :: "cpu \<Rightarrow> cpu" where
  \<comment> \<open>the second pass\<close>
  "byte_data s =
     (let s = s\<lparr>AB := ucast (AR s AND RMASK)\<rparr>
      in mem_rd False False False (IR s AND 6 = 6) s (\<lambda>s.
           if IR s AND 6 = 4 then byte_done (set_ac (byte_load (SCAD s) (SC s) (MB s)) s)
           else wr_ea (s\<lparr>MB := byte_store (SCAD s) (SC s) (get_ac s) (MB s)\<rparr>) byte_done))"

definition exec_ldb :: "cpu \<Rightarrow> cpu" where
  "exec_ldb s =
     (if \<not> tst (FLAGS s) BYTI \<or> \<not> BYF5 s
      then mem_rd False True False False s
             (\<lambda>s. byte_ptr (s\<lparr>SC := ptr_s (MB s), SCAD := ptr_p (MB s)\<rparr>))
      else byte_data s)"

definition exec_ildb :: "cpu \<Rightarrow> cpu" where
  \<comment> \<open>IBP, ILDB and IDPB\<close>
  "exec_ildb s =
     (if \<not> tst (FLAGS s) BYTI
      then mem_rd False True False True s (\<lambda>s.
             let (scad, ar) = byte_next (MB s);
                 s = s\<lparr>SC := ptr_s (MB s), SCAD := scad\<rparr>
             in mem_wr False True (s\<lparr>MB := ar\<rparr>)
                  (\<lambda>s. if \<not> tst (IR s) 4 then s else byte_ptr s))
      else exec_ldb s)"

section \<open>Double-word moves\<close>

definition next_word :: "cpu \<Rightarrow> cpu" where
  \<comment> \<open>\<open>AB = (AB + 1) & RMASK\<close>\<close>
  "next_word s = s\<lparr>AB := (AB s + 1) AND 0x3FFFF\<rparr>"

definition or_byti :: "cpu \<Rightarrow> cpu" where
  "or_byti s = s\<lparr>FLAGS := FLAGS s OR BYTI\<rparr>"

definition exec_dmove :: "cpu \<Rightarrow> cpu" where
  "exec_dmove s = rd_ea s (\<lambda>s.
     let ar = MB s in rd_ea (or_byti (next_word s)) (\<lambda>s.
       let mq = MB s; s = clr_flags BYTI s in set_ac1 mq (set_ac ar s)))"

definition dneg :: "u64 \<Rightarrow> u64 \<Rightarrow> u64 \<times> u64" where
  \<comment> \<open>the double-length negative\<close>
  "dneg hi lo =
     (let mq = CCM lo + 1
      in ((CM hi + (if tst mq SMASK then 1 else 0)) AND FMASK, mq AND CMASK))"

definition exec_dmovn :: "cpu \<Rightarrow> cpu" where
  "exec_dmovn s = rd_ea s (\<lambda>s.
     let ar = MB s in rd_ea (or_byti (next_word s)) (\<lambda>s.
       let (hi, lo) = dneg ar (MB s); s = clr_flags BYTI s in set_ac1 lo (set_ac hi s)))"

definition exec_dmovem :: "cpu \<Rightarrow> cpu" where
  "exec_dmovem s =
     (let mq = get_ac1 s;
          second = (\<lambda>s. if tst (FLAGS s) BYTI
                        then wr_ea ((next_word s)\<lparr>MB := mq\<rparr>) (clr_flags BYTI) else s)
      in if \<not> tst (FLAGS s) BYTI
         then wr_ea (s\<lparr>MB := BR s\<rparr>) (\<lambda>s. second (or_byti s))
         else second s)"

definition exec_dmovnm :: "cpu \<Rightarrow> cpu" where
  "exec_dmovnm s =
     (let second = (\<lambda>s. if tst (FLAGS s) BYTI
                        then wr_ea ((next_word s)\<lparr>MB := (CM (get_ac1 s) + 1) AND CMASK\<rparr>)
                               (clr_flags BYTI)
                        else s)
      in if \<not> tst (FLAGS s) BYTI
         then (let ar = CM (get_ac s);
                   mq = CCM (get_ac1 s) + 1;
                   ar = (if tst mq SMASK then ar + 1 else ar)
               in wr_ea (s\<lparr>MB := ar AND FMASK\<rparr>) (\<lambda>s. second (or_byti s)))
         else second s)"

section \<open>Fields\<close>

lemma bit_byte_mask: "sc < 64 \<Longrightarrow> bit (byte_mask sc) j \<longleftrightarrow> j < sc"
proof -
  assume "sc < 64"
  have "byte_mask sc = mask sc" by (simp add: byte_mask_def mask_eq_exp_minus_1 push_bit_eq_mult)
  then show ?thesis using \<open>sc < 64\<close> by (auto simp: bit_mask_iff)
qed

text \<open>The bits of a deposited word: the byte in its field, the old word elsewhere.\<close>

lemma bit_byte_store:
  assumes "wf36 w" "p + n \<le> 36"
  shows "bit (byte_store p n b w) j \<longleftrightarrow>
    (if p \<le> j \<and> j < p + n then bit b (j - p) else bit w j)"
proof -
  have n: "n < 64" using assms by simp
  have w: "bit w j \<Longrightarrow> j < 36" using assms(1) by (rule wf36_bitD)
  show ?thesis
    using assms(2) w unfolding byte_store_def Let_def mask_simps
    by (auto simp: bit_take_bit_iff bit_or_iff bit_and_iff bit_CM bit_push_bit_iff
        bit_byte_mask [OF n])
qed

lemma byte_load_store:
  assumes "wf36 w" "p + n \<le> 36"
  shows "byte_load p n (byte_store p n b w) = b AND byte_mask n"
    "byte_store p n (byte_load p n w) w = w" "wf36 (byte_store p n b w)"
proof -
  have n: "n < 64" using assms by simp
  note st = bit_byte_store [OF assms]
  show "byte_load p n (byte_store p n b w) = b AND byte_mask n"
    by (rule bit_word_eqI)
      (auto simp: byte_load_def st bit_and_iff bit_drop_bit_eq bit_byte_mask [OF n])
  show "byte_store p n (byte_load p n w) w = w"
    by (rule bit_word_eqI)
      (auto simp: byte_load_def st bit_and_iff bit_drop_bit_eq bit_byte_mask [OF n])
  show "wf36 (byte_store p n b w)"
    unfolding wf36_bits st using wf36_bitD [OF assms(1)] assms(2) by auto
qed

section \<open>Stepping a pointer\<close>

lemma ptr_fields: "ptr_p ar < 64" "ptr_s ar < 64"
proof -
  have e: "(0x3F :: u64) = mask 6" by (simp add: mask_eq_exp_minus_1)
  have "unat (take_bit 6 x) < 2 ^ 6" for x :: u64
    by (metis unsigned_take_bit_eq take_bit_nat_less_exp)
  then show "ptr_p ar < 64" "ptr_s ar < 64"
    by (simp_all add: ptr_p_def ptr_s_def e flip: take_bit_eq_mask)
qed

lemma bit8: "n < 512 \<Longrightarrow> bit n 8 \<longleftrightarrow> 256 \<le> n" for n :: nat
proof -
  assume "n < 512"
  then have "n div 256 = (if 256 \<le> n then 1 else 0)" by auto
  then show ?thesis by (simp add: bit_iff_odd)
qed

lemma ptr_p_set: "m < 64 \<Longrightarrow> ptr_p ((x AND PMASK) OR push_bit 30 (of_nat m AND 0x3F)) = m"
proof -
  assume m: "m < 64"
  have e: "(0x3F :: u64) = mask 6" "(0x3FFFFFFF :: u64) = mask 30" by (simp_all add: mask_eq_exp_minus_1)
  have "drop_bit 30 ((x AND PMASK) OR push_bit 30 (of_nat m AND 0x3F)) AND 0x3F = of_nat m AND 0x3F"
    unfolding e
    by (rule bit_word_eqI)
      (auto simp: bit_and_iff bit_or_iff bit_drop_bit_eq bit_push_bit_iff bit_mask_iff)
  moreover have "unat (of_nat m AND 0x3F :: u64) = m"
  proof -
    have "of_nat m AND 0x3F = take_bit 6 (of_nat m :: u64)" by (simp only: e(1) take_bit_eq_mask)
    then have "unat (of_nat m AND 0x3F :: u64) = take_bit 6 (unat (of_nat m :: u64))"
      by (simp only: unsigned_take_bit_eq)
    also have "unat (of_nat m :: u64) = m" using m by (simp add: unat_of_nat)
    finally show ?thesis using m by (simp add: take_bit_nat_eq_self)
  qed
  ultimately show ?thesis by (simp only: ptr_p_def)
qed

lemma ptr_s_set: "ptr_s ((x AND PMASK) OR push_bit 30 y) = ptr_s x"
proof -
  have e: "(0x3F :: u64) = mask 6" "(0x3FFFFFFF :: u64) = mask 30" by (simp_all add: mask_eq_exp_minus_1)
  have "drop_bit 24 ((x AND PMASK) OR push_bit 30 y) AND 0x3F = drop_bit 24 x AND 0x3F"
    unfolding e
    by (rule bit_word_eqI)
      (auto simp: bit_and_iff bit_or_iff bit_drop_bit_eq bit_push_bit_iff bit_mask_iff)
  then show ?thesis by (simp only: ptr_s_def)
qed

lemma ptr_y_set: "(x AND PMASK OR push_bit 30 y) AND RMASK = x AND RMASK"
proof -
  have e: "(0x3FFFFFFF :: u64) = mask 30" "(0x3FFFF :: u64) = mask 18"
    by (simp_all add: mask_eq_exp_minus_1)
  show ?thesis unfolding e
    by (rule bit_word_eqI) (auto simp: bit_and_iff bit_or_iff bit_push_bit_iff bit_mask_iff)
qed

text \<open>
  A step moves to the next byte in the word, or, when no whole byte is left below the
  position, to the first byte of the next word.
\<close>

lemma byte_next_steps:
  assumes "ptr_s ar \<le> 36"
  shows "let (scad, ar') = byte_next ar
    in ptr_s ar' = ptr_s ar \<and> ptr_p ar' = scad
      \<and> (if ptr_s ar \<le> ptr_p ar
         then scad = ptr_p ar - ptr_s ar \<and> ar' AND RMASK = ar AND RMASK
         else scad = 36 - ptr_s ar \<and> ar' AND RMASK = (ar + 1) AND RMASK)"
proof -
  define p q where "p = ptr_p ar" and "q = ptr_s ar"
  have b: "p < 64" "q \<le> 36" using ptr_fields assms by (simp_all add: p_def q_def)
  define ar1 where "ar1 = (ar AND LMASK) OR ((ar + 1) AND RMASK)"
  have s1: "ptr_s ar1 = q"
  proof -
    have "drop_bit 24 ar1 AND 0x3F = drop_bit 24 ar AND 0x3F"
    proof -
      have e: "(0x3F :: u64) = mask 6" by (simp add: mask_eq_exp_minus_1)
      show ?thesis unfolding e ar1_def
        by (rule bit_word_eqI)
          (simp only: bit_and_iff bit_drop_bit_eq o_apply bit_or_iff bit_LMASK bit_RMASK bit_mask_iff,
            auto)
    qed
    then show ?thesis by (simp only: q_def ptr_s_def)
  qed
  have r1: "ar1 AND RMASK = (ar + 1) AND RMASK"
    unfolding ar1_def by (rule bit_word_eqI) (auto simp: half_bits)
  show ?thesis
  proof (cases "q \<le> p")
    case True
    have sc: "(p + (511 - q) + 1) mod 512 = p - q"
    proof -
      have "p + (511 - q) + 1 = (p - q) + 512" using True b by simp
      then have "(p + (511 - q) + 1) mod 512 = (p - q) mod 512" by simp
      then show ?thesis using b by simp
    qed
    have "\<not> bit (p - q) 8" using bit8 [of "p - q"] b by simp
    then have n: "byte_next ar = (p - q, (ar AND PMASK) OR push_bit 30 (of_nat (p - q) AND 0x3F))"
      unfolding byte_next_def Let_def p_def [symmetric] q_def [symmetric] sc by simp
    have "ptr_p ((ar AND PMASK) OR push_bit 30 (of_nat (p - q) AND 0x3F)) = p - q"
      by (rule ptr_p_set) (use b in simp)
    then show ?thesis
      unfolding n Let_def case_prod_conv ptr_s_set ptr_y_set p_def [symmetric] q_def [symmetric]
      using True by (simp only: simp_thms if_True)
  next
    case False
    have sc: "(p + (511 - q) + 1) mod 512 = p + 512 - q" using False b by simp
    have sc2: "((511 - q) + 36 + 1) mod 512 = 36 - q"
    proof -
      have "(511 - q) + 36 + 1 = (36 - q) + 512" using b by linarith
      then have "((511 - q) + 36 + 1) mod 512 = ((36 - q) + 512) mod 512" by (rule arg_cong)
      also have "\<dots> = (36 - q) mod 512" by (rule mod_add_self2)
      also have "\<dots> = 36 - q" by (rule mod_less) linarith
      finally show ?thesis .
    qed
    have "bit (p + 512 - q) 8" using bit8 [of "p + 512 - q"] b False by simp
    then have n: "byte_next ar = (36 - q, (ar1 AND PMASK) OR push_bit 30 (of_nat (36 - q) AND 0x3F))"
      unfolding byte_next_def Let_def p_def [symmetric] q_def [symmetric] sc sc2
      by (simp add: ar1_def)
    have "ptr_p ((ar1 AND PMASK) OR push_bit 30 (of_nat (36 - q) AND 0x3F)) = 36 - q"
      by (rule ptr_p_set) (use b in simp)
    then show ?thesis
      unfolding n Let_def case_prod_conv ptr_s_set ptr_y_set p_def [symmetric] q_def [symmetric]
      using False s1 r1 by (simp only: simp_thms if_False)
  qed
qed

end
