(* ===== verification/Double_Float.thy ===== *)
theory Double_Float
  imports Floating Bytes
begin

text \<open>
  The double-precision floating-point instructions of \<open>PDP10/kx10_cpu.c\<close> (KI10 build):
  DFAD, DFSB, DFMP and DFDV (opcodes 110 to 113). The 62 bits of a fraction, and its sign, fill a
  64-bit word.
\<close>

unbundle bit_operations_syntax

section \<open>Operands and results\<close>

definition double_of :: "u64 \<Rightarrow> u64 \<Rightarrow> u64" where
  \<comment> \<open>\<open>SMEAR_SIGN(AR); AR <<= 35; AR |= (MQ & CMASK)\<close>\<close>
  "double_of hi lo = push_bit 35 (smear_sign hi) OR (lo AND CMASK)"

definition fetch_double :: "cpu \<Rightarrow> (u64 \<Rightarrow> u64 \<Rightarrow> u64 \<Rightarrow> u64 \<Rightarrow> cpu \<Rightarrow> cpu) \<Rightarrow> cpu" where
  \<comment> \<open>the two words of the accumulators and the two of memory\<close>
  "fetch_double s k =
     rd_ea s (\<lambda>s.
       let br = MB s; ar = get_ac s; mq = get_ac1 s
       in rd_ea (next_word s) (\<lambda>s. k ar mq br (MB s) s))"

definition store_double :: "bool \<Rightarrow> bool \<Rightarrow> int \<Rightarrow> u64 \<Rightarrow> cpu \<Rightarrow> cpu" where
  \<comment> \<open>extract the halves, flags, exponent; \<open>low\<close> tells underflow from overflow\<close>
  "store_double neg low sc v s =
     (let mq = v AND CMASK;
          ar = set_if neg SMASK (drop_bit 35 v AND MMASK);
          s = float_trap (OVR OR FLTOVR OR TRP1) (\<not> low) sc s;
          ar = (if ar \<noteq> 0 \<or> mq \<noteq> 0 then put_expo sc ar else ar)
      in set_ac1 mq (set_ac ar s))"

section \<open>Addition\<close>

fun align_right :: "nat \<Rightarrow> u64 \<times> u64 \<Rightarrow> u64 \<times> u64" where
  \<comment> \<open>\<open>while (SCAD > 0)\<close>: the bits shifted out enter \<open>MQ\<close>\<close>
  "align_right 0 (ar, mq) = (ar, mq)"
| "align_right (Suc n) (ar, mq) =
     align_right n ((ar AND (FPHBIT OR FPSBIT)) OR drop_bit 1 ar,
                    set_if (tst ar 1) SMASK (drop_bit 1 mq))"

definition dp_right :: "int \<times> u64 \<times> u64 \<Rightarrow> int \<times> u64 \<times> u64" where
  \<comment> \<open>make the two high bits the same\<close>
  "dp_right =
     while (\<lambda>(sc, ar, mq). tst ar FPHBIT \<noteq> tst ar FPSBIT)
       (\<lambda>(sc, ar, mq). (sc + 1, half_right ar, set_if (tst ar 1) SMASK (drop_bit 1 mq)))"

definition dp_left :: "int \<times> u64 \<times> u64 \<Rightarrow> int \<times> u64 \<times> u64" where
  "dp_left =
     while (\<lambda>(sc, ar, mq). ar \<noteq> 0 \<and>
              (ar AND (FPSBIT OR FPNBIT) = FPSBIT OR FPNBIT \<or> ar AND (FPSBIT OR FPNBIT) = 0))
       (\<lambda>(sc, ar, mq). (sc - 1, set_if (tst mq SMASK) 1 (push_bit 1 ar), push_bit 1 mq))"

definition dp_norm :: "int \<times> bool \<times> u64 \<times> u64 \<Rightarrow> int \<times> bool \<times> u64 \<times> u64" where
  \<comment> \<open>the label \<open>dpnorm\<close> up to the rounding\<close>
  "dp_norm x =
     (case x of (sc, fxu, ar, mq) \<Rightarrow>
        let (sc, ar, mq) = dp_right (sc, ar, mq);
            fxu = (fxu \<or> bad_expo sc)
        in if ar = 0 then (0, fxu, 0, 0)
           else
             (let (sc, ar, mq) = dp_left (sc, ar, mq)
              in if ar = FPHBIT OR FPSBIT then (sc + 1, fxu, half_right ar, mq)
                 else (sc, fxu, ar, mq)))"

definition dp_rounds :: "u64 \<Rightarrow> u64 \<Rightarrow> bool" where
  "dp_rounds ar mq \<longleftrightarrow> tst mq SMASK \<and> (\<not> tst ar FPSBIT \<or> tst ar FPSBIT \<and> tst mq 0x7FF000000)"

definition dfad_of :: "bool \<Rightarrow> u64 \<Rightarrow> u64 \<Rightarrow> u64 \<Rightarrow> u64 \<Rightarrow> bool \<times> bool \<times> int \<times> u64" where
  \<comment> \<open>sum or difference: sign, \<open>fxu_hold_set\<close>, exponent, fraction\<close>
  "dfad_of sub ar mq br mb =
     (let sc = get_expo br; fe = get_expo ar;
          b = double_of br mb; a = double_of ar mq;
          b = (if sub then (FPFMASK XOR b) + 1 else b);
          (a, b, sc, fe) = (if fe > sc then (b, a, fe, sc) else (a, b, sc, fe));
          n = sc - fe;
          (a, mq) = (if 64 < n then (0, 0) else align_right (nat n) (a, 0));
          a = a + b;
          neg = tst a FPHBIT;
          (sc, fxu, a, mq) = dp_norm (sc, False, a, mq);
          (sc, fxu, a, mq) =
            (if dp_rounds a mq
             then (if \<not> tst (a + 1) FPHBIT then dp_norm (sc, fxu, a + 1, mq)
                   else (sc, fxu, a + 1, mq))
             else (sc, fxu, a, mq))
      in (neg, fxu, sc, a))"

definition exec_dfad :: "cpu \<Rightarrow> cpu" where
  \<comment> \<open>DFAD and DFSB\<close>
  "exec_dfad s = fetch_double s (\<lambda>ar mq br mb s.
     let (neg, fxu, sc, v) = dfad_of (tst (IR s) 1) ar mq br mb
     in store_double neg (\<not> fxu) sc v s)"

section \<open>Multiplication\<close>

abbreviation (input) BIT1 :: u64 where "BIT1 \<equiv> 0x400000000"

fun dfmp_loop :: "nat \<Rightarrow> u64 \<Rightarrow> u64 \<times> u64 \<times> u64 \<Rightarrow> u64 \<times> u64 \<times> u64" where
  \<comment> \<open>the last \<open>n\<close> of 62 turns; the state is \<open>ARX\<close>, \<open>BR\<close>, \<open>MQ\<close>\<close>
  "dfmp_loop 0 ar x = x"
| "dfmp_loop (Suc n) ar (arx, br, mq) =
     (let mq = (if n = 26 then 0 else mq);
          arx = (if tst br 1 then arx + ar else arx);
          mq = set_if (tst arx 1) BIT1 (drop_bit 1 mq)
      in dfmp_loop n ar (drop_bit 1 arx, drop_bit 1 br, mq))"

definition fp_magnitude :: "u64 \<Rightarrow> u64 \<Rightarrow> u64 \<times> bool" where
  \<comment> \<open>negate when the bit \<open>m\<close> says so\<close>
  "fp_magnitude m x = (if tst x m then ((FPFMASK XOR x) + 1, True) else (x, False))"

definition dfmp_negate :: "int \<Rightarrow> u64 \<Rightarrow> u64 \<Rightarrow> int \<times> u64 \<times> u64" where
  "dfmp_negate sc ar mq =
     (let mq = (mq XOR CMASK) + 0x100;
          ar = ar XOR FPFMASK;
          (ar, mq) = (if tst mq SMASK then (ar + 1, mq AND FMASK) else (ar, mq))
      in if ar AND (FPHBIT OR FPSBIT) = FPHBIT
         then (sc + 1, drop_bit 1 ar OR (FPHBIT AND ar), set_if (tst ar 1) BIT1 (drop_bit 1 mq))
         else (sc, ar, mq))"

definition dfmp_norm :: "int \<Rightarrow> u64 \<Rightarrow> u64 \<Rightarrow> int \<times> u64 \<times> u64" where
  "dfmp_norm sc ar mq =
     (let (sc, ar, mq) =
            (if ar AND NOT MMASK = 0 \<or> (ar AND NOT MMASK) + BIT8 = 0
             then (let ar = push_bit 35 ar OR (mq AND CMASK)
                   in (sc - 35, if ar AND 0x1FF = 0x1FF then ar AND push_bit 8 FPFMASK else ar, 0))
             else (sc, ar, mq))
      in if ar AND (FPSBIT OR FPNBIT) = FPSBIT OR FPNBIT \<or> ar AND (FPSBIT OR FPNBIT) = 0
         then (sc - 1, set_if (tst mq BIT1) 1 (push_bit 1 ar), push_bit 1 mq AND FMASK)
         else (sc, ar, mq))"

definition dfmp_of :: "u64 \<Rightarrow> u64 \<Rightarrow> u64 \<Rightarrow> u64 \<Rightarrow> bool \<times> int \<times> u64" where
  "dfmp_of ar mq br mb =
     (let sc = get_expo ar + get_expo br - 0x80;
          (a, na) = fp_magnitude FPSBIT (double_of ar mq);
          (b, nb) = fp_magnitude FPSBIT (double_of br mb);
          neg = (na \<noteq> nb);
          (p, b, mq) = dfmp_loop 62 a (0, b, mq);
          (sc, p, mq) = (if neg then dfmp_negate sc p mq else (sc, p, mq));
          (neg, sc, p, mq) =
            (if p \<noteq> 0 then (case dfmp_norm sc p mq of (sc, p, mq) \<Rightarrow> (neg, sc, p, mq))
             else (False, 0, 0, 0))
      in (neg, sc, if tst mq BIT1 then p + 1 else p))"

definition exec_dfmp :: "cpu \<Rightarrow> cpu" where
  "exec_dfmp s = fetch_double s (\<lambda>ar mq br mb s.
     let (neg, sc, v) = dfmp_of ar mq br mb in store_double neg (sc < 0) sc v s)"

section \<open>Division\<close>

fun dfdv_loop :: "nat \<Rightarrow> u64 \<Rightarrow> u64 \<Rightarrow> u64 \<Rightarrow> u64" where
  \<comment> \<open>the quotient \<open>AD\<close> of \<open>AR\<close> by \<open>BR\<close>\<close>
  "dfdv_loop 0 ad ar br = ad"
| "dfdv_loop (Suc n) ad ar br =
     (let ad = push_bit 1 ad
      in if br \<le> ar then dfdv_loop n (ad OR 1) (push_bit 1 (ar - br)) br
         else dfdv_loop n ad (push_bit 1 ar) br)"

definition dd_right :: "int \<times> u64 \<Rightarrow> int \<times> u64" where
  "dd_right =
     while (\<lambda>(sc, ar). tst ar FPHBIT \<noteq> tst ar FPSBIT) (\<lambda>(sc, ar). (sc + 1, half_right ar))"

definition exec_dfdv :: "cpu \<Rightarrow> cpu" where
  "exec_dfdv s = fetch_double s (\<lambda>ar mq br mb s.
     let (a, na) = fp_magnitude FPHBIT (double_of ar mq);
         (b, nb) = fp_magnitude FPHBIT (double_of br mb);
         neg = (na \<noteq> nb)
     in if push_bit 1 b \<le> a then float_no_divide s
        else if a = 0 then s
        else
          (let sc = get_expo ar - get_expo br + 0x81;
               (a, sc) = (if a < b then (push_bit 1 a, sc - 1) else (a, sc));
               s = or_flags (sc < 0 \<and> \<not> pi_cycle s) (FLTUND OR OVR OR FLTOVR OR TRP1) s;
               q = dfdv_loop 62 0 a b;
               q = (if neg then (q XOR FPFMASK) + 1 else q);
               fxu = (bad_expo sc \<or> sc = 0x180);
               (sc, q) = dd_right (sc, q)
           in store_double neg (\<not> fxu) sc q s))"

section \<open>The group\<close>

definition exec_float :: "nat \<Rightarrow> cpu \<Rightarrow> cpu" where
  \<comment> \<open>the floating-point cases of \<open>switch (IR)\<close>\<close>
  "exec_float ir s =
     (if ir < 74 then exec_dfad s
      else if ir = 74 then exec_dfmp s
      else if ir = 75 then exec_dfdv s
      else if ir = 82 \<or> ir = 86 then exec_fix s
      else if ir = 87 then exec_fltr s
      else if ir = 88 then exec_fad s
      else if ir = 89 then exec_dfn s
      else if ir = 90 then exec_fsc s
      else if ir < 104 then exec_fad s
      else if ir < 112 then exec_fsb s
      else if ir < 120 then exec_fmp s
      else if ir = 121 then exec_fdvl s
      else exec_fdv s)"

end
