(* ===== verification/Float_Arith.thy ===== *)
theory Float_Arith
  imports Float_Value Double_Float Shifts Long_Div
begin

text \<open>
  The single-precision instructions compared with the arithmetic of the reals: FMP and FAD round or
  truncate the exact result, FLTR and FSC are exact, FIX and FIXR are integer parts, and the division
  loop ends.
\<close>

unbundle bit_operations_syntax

section \<open>Operands\<close>

lemma nine_bits: "i AND 0x1FF = i mod 512" for i :: int
  using take_bit_eq_mask [of 9 i] by (simp add: mask_eq_exp_minus_1 take_bit_eq_mod)

lemma get_expo_range: "0 \<le> get_expo w" "get_expo w < 256"
proof -
  have "take_bit 8 (get_expo w) = get_expo w"
    by (rule bit_eqI) (auto simp: bit_take_bit_iff bit_expo)
  then show "0 \<le> get_expo w" "get_expo w < 256"
    using take_bit_int_eq_self_iff [of 8 "get_expo w"] by simp_all
qed

lemma signed_expo_get: "wf36 w \<Longrightarrow> signed_expo w = get_expo w"
proof (rule bit_eqI)
  fix n assume w: "wf36 w"
  have m: "(0x1FF :: int) = mask 9" by (simp add: mask_eq_exp_minus_1)
  show "bit (signed_expo w) n = bit (get_expo w) n"
    unfolding signed_expo_def m tst_simps bit_expo bit_and_iff bit_xor_iff bit_mask_iff
    using wf36_bitD [OF w, of "n + 27"]
    by (cases "n = 8") (auto simp: bit_mask_iff bit_uint_iff bit_drop_bit_eq add.commute dest: bit_u64)
qed

lemma uint_mmask: "uint (w AND MMASK) = uint w mod 2 ^ 27"
  unfolding mask_simps by (rule uint_take)

lemma fraction_range: "- (2 ^ 27) \<le> fraction w \<and> fraction w < 2 ^ 27"
proof -
  have "0 \<le> uint w mod 2 ^ 27" "uint w mod 2 ^ 27 < 2 ^ 27" by simp_all
  then show ?thesis unfolding fraction_def uint_mmask by (cases "bit w 35") (simp_all only: if_True if_False, linarith+)
qed

lemma uint_cm_mmask: "wf36 x \<Longrightarrow> uint x mod 2 ^ 27 \<noteq> 0 \<Longrightarrow> uint ((CM x + 1) AND MMASK) = 2 ^ 27 - uint x mod 2 ^ 27"
proof -
  assume w: "wf36 x" and n: "uint x mod 2 ^ 27 \<noteq> 0"
  have "uint ((CM x + 1) AND MMASK) = (2 ^ 36 - uint x) mod 2 ^ 27"
    unfolding uint_mmask uint_CM1 [OF w] ..
  also have "\<dots> = (- uint x) mod 2 ^ 27"
    using mod_mult_self1 [of "- uint x" "2 ^ 9" "2 ^ 27"] by (simp add: algebra_simps)
  also have "\<dots> = 2 ^ 27 - uint x mod 2 ^ 27" using n by (simp add: zmod_zminus1_eq_if)
  finally show ?thesis .
qed

lemma fmp_operand_spec:
  assumes w: "wf36 x" and r: "fmp_operand x 1 = (m, d, n)"
  shows "uint m < 2 ^ 27" and "0 \<le> d" and "d \<le> 1"
    and "fraction x = (if n then - (uint m * 2 ^ nat d) else uint m * 2 ^ nat d)"
    and "n = bit x 35"
proof -
  have z: "x AND MMASK = 0 \<longleftrightarrow> uint x mod 2 ^ 27 = 0"
    by (simp only: word_uint_eq_iff uint_mmask unsigned_0)
  have b: "0 \<le> uint x mod 2 ^ 27" "uint x mod 2 ^ 27 < 2 ^ 27" by simp_all
  have "uint m < 2 ^ 27 \<and> 0 \<le> d \<and> d \<le> 1 \<and> n = bit x 35
    \<and> fraction x = (if n then - (uint m * 2 ^ nat d) else uint m * 2 ^ nat d)"
  proof (cases "bit x 35")
    case False
    then show ?thesis using r b by (auto simp: fmp_operand_def tst_simps fraction_def uint_mmask)
  next
    case s: True
    show ?thesis
    proof (cases "uint x mod 2 ^ 27 = 0")
      case True
      then show ?thesis
        using r s z unfolding fmp_operand_def tst_simps fraction_def uint_mmask by auto
    next
      case False
      then have "(m, d, n) = ((CM x + 1) AND MMASK, 0, True)"
        using r s z unfolding fmp_operand_def tst_simps by simp
      then show ?thesis using uint_cm_mmask [OF w False] b False s by (simp add: fraction_def uint_mmask)
    qed
  qed
  then show "uint m < 2 ^ 27" "0 \<le> d" "d \<le> 1" "n = bit x 35"
    "fraction x = (if n then - (uint m * 2 ^ nat d) else uint m * 2 ^ nat d)" by simp_all
qed

lemma float_word_wf: "float_word ir neg sc v = (e, fxu, w, mq) \<Longrightarrow> wf36 w"
proof -
  assume r: "float_word ir neg sc v = (e, fxu, w, mq)"
  have "wf36 (put_expo e (u AND (SMASK OR MMASK)))" for e u
    unfolding wf36_bits bit_put bit_and_iff bit_or_iff bit_single bit_masks by auto
  then show ?thesis
    using r wf36_const(1) by (auto simp: float_word_def Let_def split: prod.splits if_splits)
qed

section \<open>FMP\<close>

lemma fv_mult: "fv a i * fv b j = fv (a + b) (i * j)"
  by (simp add: fv_def power_int_add)

lemma sint_small: "uint x < 2 ^ 63 \<Longrightarrow> sint x = uint x" for x :: u64
proof (rule sint_eqI)
  assume "uint x < 2 ^ 63"
  then show "fits 63 (uint x)" using uint_ge_0 [of x] unfolding fits_def by linarith
qed simp

lemma sint_negate: "sint x \<noteq> - (2 ^ 63) \<Longrightarrow> sint (NOT x + 1) = - sint x" for x :: u64
proof -
  assume n: "sint x \<noteq> - (2 ^ 63)"
  have "- (2 ^ 63) \<le> sint x" "sint x < 2 ^ 63" using sint_ge [of x] sint_lt [of x] by simp_all
  with n have "fits 63 (- sint x)" unfolding fits_def by linarith
  moreover have "NOT x + 1 = word_of_int (- sint x)"
    by (metis minus_eq_not_plus_1 scast_eq scast_id wi_hom_neg)
  ultimately show ?thesis by (rule sint_eqI)
qed

lemma xor_ones: "x XOR FPFMASK = NOT x" for x :: u64
proof -
  have "FPFMASK = (- 1 :: u64)" by simp
  then show ?thesis by (simp only: bit.xor_one_right)
qed

lemma fmp_of_spec:
  assumes x: "wf36 x" "fraction x \<noteq> 0" and y: "wf36 y" "fraction y \<noteq> 0"
    and r: "fmp_of x y = (neg, sc, p)"
  obtains c where "0 \<le> c" and "c \<le> 2" and "sc = (get_expo x + get_expo y + 384) mod 512 + c"
    and "fraction x * fraction y * 2 ^ 7 = sint p * 2 ^ nat c" and "neg \<longleftrightarrow> sint p < 0"
    and "fits 62 (sint p)" and "128 dvd sint p" and "sint p \<noteq> 0"
proof -
  obtain a da na where a: "fmp_operand x 1 = (a, da, na)" by (metis prod_cases3)
  obtain b db nb where b: "fmp_operand y 1 = (b, db, nb)" by (metis prod_cases3)
  note A = fmp_operand_spec [OF x(1) a] and B = fmp_operand_spec [OF y(1) b]
  have "uint a \<noteq> 0" "uint b \<noteq> 0" using x(2) y(2) A(4) B(4) by (auto split: if_splits)
  then have pos: "0 < uint a" "0 < uint b" using uint_ge_0 [of a] uint_ge_0 [of b] by linarith+
  have ab: "uint a * uint b < 2 ^ 27 * 2 ^ 27" using A(1) B(1) pos by (intro mult_strict_mono) auto
  have m: "uint (a * b) = uint a * uint b" by (rule uint_mult64) (use ab in simp)
  have q: "uint (push_bit 7 (a * b)) = uint a * uint b * 2 ^ 7"
    unfolding m [symmetric] by (rule uint_push64) (use ab in \<open>simp add: m\<close>)
  define s where "s = uint a * uint b * 2 ^ 7"
  have s: "0 < s" "s < 2 ^ 61" using pos ab by (simp_all add: s_def)
  have sq: "sint (push_bit 7 (a * b)) = s" using sint_small [of "push_bit 7 (a * b)"] q s by (simp add: s_def)
  have p: "p = (if na \<noteq> nb then NOT (push_bit 7 (a * b)) + 1 else push_bit 7 (a * b))"
    and sc: "sc = (get_expo x + get_expo y + 384) mod 512 + (da + db)" and neg: "neg \<longleftrightarrow> na \<noteq> nb"
    using r unfolding fmp_of_def a b Let_def prod.case signed_expo_get [OF x(1)] signed_expo_get [OF y(1)] nine_bits
    by (auto simp: xor_ones add.commute add.left_commute)
  have sp: "sint p = (if neg then - s else s)" unfolding p neg using sq s by (simp add: sint_negate)
  show thesis
  proof (rule that [of "da + db"])
    show "fraction x * fraction y * 2 ^ 7 = sint p * 2 ^ nat (da + db)"
      using A B unfolding sp neg s_def by (simp add: nat_add_distrib power_add)
    show "128 dvd sint p" unfolding sp s_def by simp
    show "fits 62 (sint p)" using s unfolding sp fits_def by auto
  qed (use A B sc s sp in auto)
qed

lemma fmp_rounds:
  assumes x: "wf36 x" "fraction x \<noteq> 0" and y: "wf36 y" "fraction y \<noteq> 0"
    and p: "fmp_of x y = (neg, sc, p)" and r: "float_word ir neg sc p = (e, fxu, w, mq)"
    and ir: "ir \<noteq> 0x58" and e: "0 \<le> e" "e < 256"
  shows "rounded_to ir w (fval x * fval y)"
proof -
  obtain c where c: "0 \<le> c" "c \<le> 2" "sc = (get_expo x + get_expo y + 384) mod 512 + c"
    "fraction x * fraction y * 2 ^ 7 = sint p * 2 ^ nat c" "neg \<longleftrightarrow> sint p < 0"
    "fits 62 (sint p)" "128 dvd sint p" "sint p \<noteq> 0"
    using fmp_of_spec [OF x y p] .
  note W = float_word_spec [OF ir c(6,7,8,5) r e]
  have g: "0 \<le> get_expo x + get_expo y" "get_expo x + get_expo y < 512"
    using get_expo_range [of x] get_expo_range [of y] by linarith+
  have "\<not> get_expo x + get_expo y < 128"
  proof
    assume "get_expo x + get_expo y < 128"
    then have "(get_expo x + get_expo y + 384) mod 512 = get_expo x + get_expo y + 384"
      using g by (intro mod_pos_pos_trivial) linarith+
    then show False using W(3) e c(1,3) g by linarith
  qed
  moreover have "(get_expo x + get_expo y + 384) mod 512 = (get_expo x + get_expo y - 128) mod 512"
    using mod_add_self2 [of "get_expo x + get_expo y - 128" 512] by (simp add: add.commute)
  ultimately have sc: "sc = get_expo x + get_expo y - 128 + c"
    using c(3) g by (simp add: mod_pos_pos_trivial)
  have "fval x * fval y = fv (get_expo x + get_expo y - 317) (fraction x * fraction y * 2 ^ 7)"
    using fv_up [of "get_expo x + get_expo y - 317" 7 "fraction x * fraction y"]
    by (simp add: fval_def fv_mult)
  also have "\<dots> = fv (sc - 189) (sint p)"
  proof -
    have eq: "get_expo x + get_expo y - 317 + int (nat c) = sc - 189" using sc c(1) by simp
    show ?thesis unfolding c(4) fv_up [symmetric] eq ..
  qed
  finally show ?thesis using W(1) by simp
qed

section \<open>FAD\<close>

lemma sexp_field:
  assumes "wf36 w"
  shows "uint (drop_bit 27 w) AND 0x1FF = (if bit w 35 then 511 - get_expo w else get_expo w)"
proof -
  have m: "(0x1FF :: int) = mask 9" by (simp add: mask_eq_exp_minus_1)
  have b: "bit (uint (drop_bit 27 w) AND 0x1FF) n \<longleftrightarrow> n < 9 \<and> bit w (n + 27)" for n
    unfolding m by (auto simp: bit_and_iff bit_mask_iff bit_uint_iff bit_drop_bit_eq add.commute dest: bit_u64)
  have n8: "n < 9 \<and> bit w (n + 27) \<longleftrightarrow> n < 8 \<and> bit w (n + 27) \<or> n = 8 \<and> bit w 35" for n
    by (cases "n = 8") auto
  show ?thesis
  proof (cases "bit w 35")
    case False
    then show ?thesis by (auto intro!: bit_eqI simp: b n8 bit_expo)
  next
    case True
    have "511 - get_expo w = mask 9 - get_expo w" by (simp add: mask_eq_exp_minus_1)
    also have "\<dots> = mask 9 XOR get_expo w"
    proof -
      have "(mask 9 XOR get_expo w) AND get_expo w = 0"
        by (rule bit_eqI) (auto simp: bit_and_iff bit_xor_iff bit_mask_iff bit_expo)
      then have "(mask 9 XOR get_expo w) + get_expo w = (mask 9 XOR get_expo w) OR get_expo w"
        by (simp only: disjunctive_add_eq_or)
      also have "\<dots> = mask 9"
        by (rule bit_eqI) (auto simp: bit_or_iff bit_xor_iff bit_mask_iff bit_expo)
      finally show ?thesis by linarith
    qed
    finally have e: "511 - get_expo w = mask 9 XOR get_expo w" .
    have "bit (uint (drop_bit 27 w) AND 0x1FF) n = bit (mask 9 XOR get_expo w) n" for n
      unfolding b bit_xor_iff bit_mask_iff bit_expo using True by (cases "n = 8") auto
    then show ?thesis using True by (auto intro: bit_eqI simp: e)
  qed
qed

lemma xor_nine: "0 \<le> i \<Longrightarrow> i < 512 \<Longrightarrow> i XOR 0x1FF = 511 - i" for i :: int
proof -
  assume "0 \<le> i" "i < 512"
  then have "take_bit 9 i = i" by (simp add: take_bit_int_eq_self_iff)
  then have b: "bit i n \<Longrightarrow> n < 9" for n by (metis bit_take_bit_iff)
  have m: "(0x1FF :: int) = mask 9" by (simp add: mask_eq_exp_minus_1)
  have "(i XOR 0x1FF) + i = (i XOR 0x1FF) OR i"
    by (rule disjunctive_add_eq_or, rule bit_eqI) (auto simp: m bit_and_iff bit_xor_iff bit_mask_iff dest: b)
  also have "\<dots> = 0x1FF"
    unfolding m by (rule bit_eqI) (auto simp: bit_or_iff bit_xor_iff bit_mask_iff dest: b)
  finally show ?thesis by linarith
qed

lemma bit_eight: "0 \<le> i \<Longrightarrow> i < 512 \<Longrightarrow> bit i 8 \<longleftrightarrow> 256 \<le> i" for i :: int
proof -
  assume i: "0 \<le> i" "i < 512"
  have "i div 256 = (if 256 \<le> i then 1 else 0)"
    using i div_pos_pos_trivial [of i 256] div_pos_pos_trivial [of "i - 256" 256] div_add_self2 [of 256 "i - 256"]
    by auto
  then show ?thesis by (simp add: bit_iff_odd)
qed

lemma mod_512: "- 512 \<le> i \<Longrightarrow> i < 512 \<Longrightarrow> i mod 512 = (if i < 0 then i + 512 else i)" for i :: int
  using mod_pos_pos_trivial [of i 512] mod_pos_pos_trivial [of "i + 512" 512] mod_add_self2 [of i 512]
  by auto

lemma fadd_choice:
  fixes ea eb :: int
  assumes r: "0 \<le> ea" "ea < 256" "0 \<le> eb" "eb < 256"
    and sb: "sb = (if nb then 511 - eb else eb)" and sa: "sa = (if na then 511 - ea else ea)"
    and d: "scad = (if nb = na then sb + (511 - sa) + 1 else sb + sa) mod 512"
    and t: "t = (if \<not> 256 \<le> scad then (if nb = na then (511 - scad + 1) mod 512 else 511 - scad)
                 else if nb \<noteq> na then (scad + 1) mod 512 else scad)"
  shows "(nb \<longleftrightarrow> 256 \<le> scad) \<Longrightarrow> ea \<le> eb" and "\<not> (nb \<longleftrightarrow> 256 \<le> scad) \<Longrightarrow> eb \<le> ea"
    and "256 \<le> t \<Longrightarrow> 512 - t = \<bar>ea - eb\<bar>" and "t < 256 \<Longrightarrow> ea = eb" and "0 \<le> t \<and> t < 512"
    and "0 \<le> scad \<and> scad < 512"
proof -
  define k where "k = (if nb then ea - eb else eb - ea) - of_bool (nb \<noteq> na)"
  have "(if nb = na then sb + (511 - sa) + 1 else sb + sa) = k + 512"
    unfolding k_def sb sa by (cases nb; cases na; simp)
  then have "scad = (k + 512) mod 512" unfolding d by (rule arg_cong)
  then have "scad = k mod 512" by (simp only: mod_add_self2)
  moreover have k: "- 256 \<le> k" "k < 256" "nb = na \<Longrightarrow> - 256 < k"
    using r by (cases nb; cases na; simp add: k_def)+
  ultimately have s: "scad = (if k < 0 then k + 512 else k)" by (simp add: mod_512)
  show bs: "0 \<le> scad \<and> scad < 512" using s k by auto
  have T: "t = (if nb = na then if k < 0 then k + 512 else if k = 0 then 0 else 512 - k
      else if k = - 1 then 0 else if k < 0 then k + 513 else 511 - k)"
  proof (cases "k < 0")
    case True
    then show ?thesis using t s k mod_512 [of "k + 513"] by (auto simp: add.commute)
  next
    case False
    then show ?thesis using t s k mod_512 [of "512 - k"] by auto
  qed
  show "(nb \<longleftrightarrow> 256 \<le> scad) \<Longrightarrow> ea \<le> eb" "\<not> (nb \<longleftrightarrow> 256 \<le> scad) \<Longrightarrow> eb \<le> ea"
    using s k by (cases nb; cases na; cases "k < 0"; simp; simp add: k_def)+
  show "256 \<le> t \<Longrightarrow> 512 - t = \<bar>ea - eb\<bar>" "t < 256 \<Longrightarrow> ea = eb" "0 \<le> t \<and> t < 512"
    using T k by (cases nb; cases na; cases "k < 0"; cases "k = 0"; cases "k = - 1"; simp; simp add: k_def)+
qed

lemma fadd_of_align:
  assumes w: "wf36 a" "wf36 b" and r: "fadd_of a b = (sc, v)"
  obtains hi lo where "hi = a \<and> lo = b \<or> hi = b \<and> lo = a" and "get_expo lo \<le> get_expo hi"
    and "sc = get_expo hi"
    and "v = push_bit 34 (smear_sign hi)
           + (if get_expo lo = get_expo hi then push_bit 34 (smear_sign lo)
              else fp_shift_right (nat (get_expo hi - get_expo lo)) (push_bit 34 (smear_sign lo)))"
proof -
  have sg: "b AND SMASK = a AND SMASK \<longleftrightarrow> bit b 35 = bit a 35"
  proof -
    have "x AND SMASK = (if bit x 35 then SMASK else 0)" for x :: u64
      by (rule bit_word_eqI) (auto simp: bit_and_iff bit_single)
    then show ?thesis by simp
  qed
  define sb sa where "sb = uint (drop_bit 27 b) AND 0x1FF" and "sa = uint (drop_bit 27 a) AND 0x1FF"
  have S: "sb = (if bit b 35 then 511 - get_expo b else get_expo b)"
    "sa = (if bit a 35 then 511 - get_expo a else get_expo a)"
    unfolding sb_def sa_def by (rule sexp_field w)+
  note E = get_expo_range [of a] get_expo_range [of b]
  have sa: "sa XOR 0x1FF = 511 - sa" using S E by (intro xor_nine) auto
  define scad where "scad = (if bit b 35 = bit a 35 then sb + (511 - sa) + 1 else sb + sa) mod 512"
  have sx: "scad XOR 0x1FF = 511 - scad" "bit scad 8 \<longleftrightarrow> 256 \<le> scad"
    using xor_nine [of scad] bit_eight [of scad] by (simp_all add: scad_def)
  define t where "t = (if \<not> 256 \<le> scad then (if bit b 35 = bit a 35 then (511 - scad + 1) mod 512 else 511 - scad)
                 else if bit b 35 \<noteq> bit a 35 then (scad + 1) mod 512 else scad)"
  note C = fadd_choice [OF E S scad_def t_def]
  have t8: "bit t 8 \<longleftrightarrow> 256 \<le> t" using C(5) bit_eight [of t] by simp
  define hi lo where "hi = (if bit b 35 = (256 \<le> scad) then b else a)"
    and "lo = (if bit b 35 = (256 \<le> scad) then a else b)"
  have v: "(sc, v) = (get_expo hi, push_bit 34 (smear_sign hi)
      + (if 256 \<le> t then fp_shift_right (nat (512 - t)) (push_bit 34 (smear_sign lo)) else push_bit 34 (smear_sign lo)))"
    using r unfolding fadd_of_def Let_def sg nine_bits [symmetric] sb_def [symmetric] sa_def [symmetric] sa
      tst_simps
    unfolding nine_bits scad_def [symmetric] sx t_def [symmetric] t8
    by (cases "bit b 35 = (256 \<le> scad)") (auto simp: hi_def lo_def)
  have o: "hi = a \<and> lo = b \<or> hi = b \<and> lo = a" by (simp add: hi_def lo_def)
  have le: "get_expo lo \<le> get_expo hi" using C(1,2) by (auto simp: hi_def lo_def)
  have "\<bar>get_expo a - get_expo b\<bar> = get_expo hi - get_expo lo" using o le by auto
  then have "if 256 \<le> t then get_expo lo < get_expo hi \<and> 512 - t = get_expo hi - get_expo lo else get_expo lo = get_expo hi"
    using C(3,4,5) o by auto
  then show thesis using that [OF o le] v by (auto split: if_splits)
qed

lemma bit_smear:
  assumes "wf36 x"
  shows "bit (smear_sign x) n \<longleftrightarrow> (if n < 27 then bit x n else n < 36 \<and> bit x 35)"
proof -
  have m: "(0x7F8000000 :: u64) = push_bit 27 (mask 8)" by (simp add: mask_eq_exp_minus_1 push_bit_eq_mult)
  have e: "bit (0x7F8000000 :: u64) n \<longleftrightarrow> 27 \<le> n \<and> n < 35"
    unfolding m bit_push_bit_iff bit_mask_iff possible_bit_word by (simp, linarith)
  show ?thesis
  proof (cases "bit x 35")
    case True
    then show ?thesis
      using wf36_bitD [OF assms, of n] unfolding smear_sign_def tst_simps if_P [OF True] bit_or_iff e
      by (cases "n = 35") auto
  next
    case False
    then show ?thesis
      unfolding smear_sign_def tst_simps if_not_P [OF False] bit_and_iff bit_masks by auto
  qed
qed

lemma sint_smear: "wf36 x \<Longrightarrow> sint (push_bit 34 (smear_sign x)) = fraction x * 2 ^ 34"
  unfolding push_bit_eq_mult [symmetric]
  by (rule bit_eqI) (auto simp: bit_sint bit_push_bit_iff bit_smear bit_fraction min_def)

lemma fits_smear: "wf36 x \<Longrightarrow> fits 61 (sint (push_bit 34 (smear_sign x)))"
  using fraction_range [of x] by (simp add: sint_smear fits_def)

lemma sint_fp_shift:
  assumes f: "fits 61 (sint x)" and n: "n < 61"
  shows "sint (fp_shift_right n x) = sint x div 2 ^ n"
proof (rule bit_eqI)
  fix i
  have t: "bit x 61 = bit x 63" "bit x 62 = bit x 63" using f unfolding fits_tops by auto
  have a: "bit (if tst x FPSBIT then FPFMASK else 0) j \<longleftrightarrow> j < 64 \<and> bit x 63" for j
  proof -
    have "FPFMASK = (- 1 :: u64)" by simp
    then show ?thesis unfolding tst_float t by (simp only: bit_minus_1_iff possible_bit_word if_split) simp
  qed
  have h: "bit x (min k 63) = bit x 63" if "61 \<le> k" for k
  proof -
    have "min k 63 = 61 \<or> min k 63 = 62 \<or> min k 63 = 63" using that by linarith
    then show ?thesis using t by auto
  qed
  have "bit (sint x div 2 ^ n) i = bit x (min (n + i) 63)"
    unfolding drop_bit_eq_div [symmetric] bit_drop_bit_eq bit_sint o_def ..
  moreover have "bit (fp_shift_right n x) j \<longleftrightarrow> bit x (n + j) \<or> 61 - n \<le> j \<and> j < 64 \<and> bit x 63" for j
    unfolding fp_shift_right_def Let_def if_P [OF n] bit_or_iff bit_drop_bit_eq bit_push_bit_iff a o_def
    using n by auto
  moreover have "bit x (n + min i 63) \<or> 61 - n \<le> min i 63 \<and> min i 63 < 64 \<and> bit x 63
    \<longleftrightarrow> bit x (min (n + i) 63)"
  proof (cases "n + i < 61")
    case True
    then have "min i 63 = i" "min (n + i) 63 = n + i" "\<not> 61 - n \<le> i" by linarith+
    then show ?thesis by simp
  next
    case False
    then have g: "61 - n \<le> min i 63" "61 \<le> n + min i 63" "min i 63 < 64" using n by linarith+
    have "bit x (n + min i 63) \<Longrightarrow> bit x 63"
    proof -
      assume b: "bit x (n + min i 63)"
      then have "min (n + min i 63) 63 = n + min i 63" using bit_u64 [OF b] by simp
      then show "bit x 63" using h [OF g(2)] b by simp
    qed
    then show ?thesis using g h [of "n + i"] False by auto
  qed
  ultimately show "bit (sint (fp_shift_right n x)) i = bit (sint x div 2 ^ n) i"
    unfolding bit_sint by blast
qed

lemma fadd_exact:
  assumes w: "wf36 a" "wf36 b" and r: "fadd_of a b = (sc, v)"
    and near: "\<bar>get_expo a - get_expo b\<bar> \<le> 27"
  shows "fv (sc - 189) (sint v) = fval a + fval b" and "fits 62 (sint v)" and "128 dvd sint v"
proof -
  obtain hi lo where o: "hi = a \<and> lo = b \<or> hi = b \<and> lo = a" and le: "get_expo lo \<le> get_expo hi"
    and sc: "sc = get_expo hi"
    and v: "v = push_bit 34 (smear_sign hi)
           + (if get_expo lo = get_expo hi then push_bit 34 (smear_sign lo)
              else fp_shift_right (nat (get_expo hi - get_expo lo)) (push_bit 34 (smear_sign lo)))"
    using fadd_of_align [OF w r] .
  define d where "d = nat (get_expo hi - get_expo lo)"
  have d: "d \<le> 27" "get_expo hi = get_expo lo + int d" using o le near by (auto simp: d_def)
  have wf: "wf36 hi" "wf36 lo" using o w by auto
  have p: "(2 :: int) ^ 34 = 2 ^ (34 - d) * 2 ^ d" using d by (simp flip: power_add)
  have "sint (if get_expo lo = get_expo hi then push_bit 34 (smear_sign lo)
              else fp_shift_right d (push_bit 34 (smear_sign lo))) = fraction lo * 2 ^ 34 div 2 ^ d"
    using d sint_fp_shift [OF fits_smear [OF wf(2)], of d] by (simp add: sint_smear wf)
  also have "\<dots> = fraction lo * 2 ^ (34 - d)" unfolding p by simp
  finally have lo: "sint (if get_expo lo = get_expo hi then push_bit 34 (smear_sign lo)
              else fp_shift_right d (push_bit 34 (smear_sign lo))) = fraction lo * 2 ^ (34 - d)" .
  have q: "(1 :: int) \<le> 2 ^ (34 - d)" "(2 :: int) ^ (34 - d) \<le> 2 ^ 34"
    by (simp, rule power_increasing) simp_all
  have "\<bar>fraction lo * 2 ^ (34 - d)\<bar> \<le> 2 ^ 27 * 2 ^ 34"
    unfolding abs_mult using fraction_range [of lo] q by (intro mult_mono) auto
  moreover have "\<bar>fraction hi * 2 ^ 34\<bar> \<le> 2 ^ 27 * 2 ^ 34" using fraction_range [of hi] by auto
  ultimately have b: "\<bar>fraction hi * 2 ^ 34 + fraction lo * 2 ^ (34 - d)\<bar> \<le> 2 ^ 62" by simp
  have s: "sint v = fraction hi * 2 ^ 34 + fraction lo * 2 ^ (34 - d)"
    unfolding v d_def [symmetric] using b
    by (subst sint_add64) (auto simp: lo sint_smear wf fits_def abs_le_iff)
  have "2 ^ (34 - d) = 128 * (2 ^ (27 - d) :: int)"
  proof -
    have "(128 :: int) = 2 ^ 7" "34 - d = 7 + (27 - d)" using d by simp_all
    then show ?thesis by (simp only: power_add)
  qed
  then have "(128 :: int) dvd 2 ^ (34 - d)" by simp
  then show "128 dvd sint v" unfolding s by (intro dvd_add dvd_mult) simp_all
  have "fraction hi * 2 ^ 34 + fraction lo * 2 ^ (34 - d) < 2 ^ 62"
  proof -
    have "fraction lo * 2 ^ (34 - d) < 2 ^ 27 * 2 ^ 34"
      by (rule order.strict_trans1 [OF mult_right_mono [of _ "2 ^ 27 - 1"]])
        (use fraction_range [of lo] q in \<open>simp_all add: left_diff_distrib\<close>)
    then show ?thesis using fraction_range [of hi] by simp
  qed
  then show "fits 62 (sint v)" unfolding s fits_def using b by simp
  have split: "fv e (i + j) = fv e i + fv e j" for e i j by (simp add: fv_def distrib_right)
  have "fv (sc - 189) (fraction hi * 2 ^ 34) = fval hi"
    using fv_up [of "sc - 189" 34 "fraction hi"] by (simp add: fval_def sc)
  moreover have "fv (sc - 189) (fraction lo * 2 ^ (34 - d)) = fval lo"
    using fv_up [of "sc - 189" "34 - d" "fraction lo"] d by (simp add: fval_def sc of_nat_diff)
  ultimately show "fv (sc - 189) (sint v) = fval a + fval b"
    unfolding s split using o by auto
qed

lemma tst_sign: "fits 62 (sint v) \<Longrightarrow> tst v FPSBIT \<longleftrightarrow> sint v < 0" for v :: u64
  unfolding tst_float fits_tops sint_neg_iff by simp

lemma fad_rounds:
  assumes w: "wf36 x" "wf36 y" and near: "\<bar>get_expo x - get_expo y\<bar> \<le> 27"
    and nz: "fval x + fval y \<noteq> 0"
    and v: "fadd_of x y = (sc, v)" and r: "float_word ir (tst v FPSBIT) sc v = (e, fxu, z, mq)"
    and ir: "ir \<noteq> 0x58" and e: "0 \<le> e" "e < 256"
  shows "rounded_to ir z (fval x + fval y)"
proof -
  note F = fadd_exact [OF w v near]
  have n: "sint v \<noteq> 0"
  proof
    assume "sint v = 0"
    then have "fv (sc - 189) (sint v) = 0" by (simp only: fv_def of_int_0 mult_zero_left)
    with F(1) nz show False by simp
  qed
  show ?thesis using float_word_spec(1) [OF ir F(2,3) n tst_sign [OF F(2)] r e] unfolding F(1) .
qed

lemma neg36_fields:
  assumes w: "wf36 x" and f: "uint x mod 2 ^ 27 \<noteq> 0"
  shows "fraction (neg36 x) = - fraction x" and "get_expo (neg36 x) = get_expo x"
proof -
  define a b where "a = uint x div 2 ^ 27" and "b = uint x mod 2 ^ 27"
  have ab: "uint x = a * 2 ^ 27 + b" "0 < b" "b < 2 ^ 27"
    using f pos_mod_sign [of "2 ^ 27" "uint x"] by (simp_all add: a_def b_def)
  have a: "0 \<le> a" "a < 512" using w uint_ge_0 [of x] unfolding wf36_uint a_def
    by (simp_all add: div_less_iff_less_mult pos_imp_zdiv_nonneg_iff)
  have "uint (neg36 x) = (2 ^ 36 - uint x) mod 2 ^ 36"
    unfolding neg36_def uint_fmask uint_CM1 [OF w] ..
  also have "\<dots> = 2 ^ 36 - uint x"
    by (rule mod_pos_pos_trivial) (use ab a in simp_all)
  finally have u: "uint (neg36 x) = (511 - a) * 2 ^ 27 + (2 ^ 27 - b)" using ab by simp
  have q: "uint (neg36 x) div 2 ^ 27 = 511 - a" "uint (neg36 x) mod 2 ^ 27 = 2 ^ 27 - b"
    using div_mult_self3 [of "2 ^ 27" "511 - a" "2 ^ 27 - b"] mod_mult_self3 [of "511 - a" "2 ^ 27" "2 ^ 27 - b"]
      div_pos_pos_trivial [of "2 ^ 27 - b" "2 ^ 27"] mod_pos_pos_trivial [of "2 ^ 27 - b" "2 ^ 27"] ab
    unfolding u by simp_all
  have m: "511 - a = mask 9 XOR a"
    using xor_nine [OF a] by (simp add: mask_eq_exp_minus_1 xor.commute)
  have c: "bit (neg36 x) (n + 27) \<longleftrightarrow> n < 9 \<and> \<not> bit x (n + 27)" for n
  proof -
    have s: "bit (uint z div 2 ^ 27) n = bit z (n + 27)" for z :: u64
      unfolding drop_bit_eq_div [symmetric] bit_drop_bit_eq by (auto simp: bit_uint_iff add.commute dest: bit_u64)
    have "bit (neg36 x) (n + 27) = bit (mask 9 XOR a) n" unfolding s [symmetric] q m ..
    moreover have "bit a n = bit x (n + 27)" unfolding a_def by (rule s)
    ultimately show ?thesis
      using wf36_bitD [OF w, of "n + 27"] by (auto simp: bit_xor_iff bit_mask_iff)
  qed
  have s: "bit (neg36 x) 35 \<longleftrightarrow> \<not> bit x 35" using c [of 8] by simp
  show "fraction (neg36 x) = - fraction x"
    unfolding fraction_def uint_mmask q s using b_def by auto
  show "get_expo (neg36 x) = get_expo x"
    by (rule bit_eqI) (auto simp: bit_expo c s)
qed

lemma fval_neg36: "wf36 x \<Longrightarrow> uint x mod 2 ^ 27 \<noteq> 0 \<Longrightarrow> fval (neg36 x) = - fval x"
  by (simp add: fval_def neg36_fields fv_def)

section \<open>FLTR\<close>

lemma fltr_of_spec:
  assumes w: "wf36 x"
  shows "fltr_of x = (sval x < 0, snd (fltr_of x))" and "sint (snd (fltr_of x)) = sval x * 2 ^ 27"
proof -
  have s: "tst (push_bit 27 x) FPSBIT \<longleftrightarrow> bit x 35" unfolding tst_float by (simp add: bit_push_bit_iff)
  then show "fltr_of x = (sval x < 0, snd (fltr_of x))"
    by (simp add: fltr_of_def Let_def sval_neg_iff [OF w])
  have "(0x8000000000000000 :: u64) = 2 ^ 63" by simp
  then have e: "bit (0x8000000000000000 :: u64) n \<longleftrightarrow> n = 63" for n
    by (simp only: bit_exp_iff possible_bit_word) auto
  have "bit (snd (fltr_of x)) n \<longleftrightarrow> 27 \<le> n \<and> n < 64 \<and> bit x (n - 27) \<or> n = 63 \<and> bit x 35" for n
  proof (cases "bit x 35")
    case True
    then show ?thesis
      unfolding fltr_of_def Let_def s snd_conv if_P [OF True] bit_or_iff bit_push_bit_iff e by auto
  next
    case False
    then show ?thesis
      unfolding fltr_of_def Let_def s snd_conv if_not_P [OF False] bit_push_bit_iff by auto
  qed
  note b = this
  have "bit (sint (snd (fltr_of x))) n = bit (push_bit 27 (sval x)) n" for n
  proof (cases "n < 63")
    case True
    then have "min n 63 = n" "min (n - 27) 35 = n - 27" by linarith+
    then show ?thesis using True unfolding bit_sint bit_push_bit_iff bit_sval [OF w] b by simp
  next
    case False
    then have "min n 63 = 63" "min (n - 27) 35 = 35" by linarith+
    then show ?thesis
      using False wf36_high [OF w, of 36] unfolding bit_sint bit_push_bit_iff bit_sval [OF w] b by simp
  qed
  then show "sint (snd (fltr_of x)) = sval x * 2 ^ 27"
    unfolding push_bit_eq_mult [symmetric] by (intro bit_eqI) blast
qed

lemma fltr_rounds:
  assumes w: "wf36 x" "x \<noteq> 0" and v: "fltr_of x = (neg, v)"
    and r: "float_word 0x57 neg 162 v = (e, fxu, z, mq)"
  shows "0 \<le> e \<and> e < 256 \<and> rounded_to 0x57 z (of_int (sval x))"
proof -
  have v: "neg = (sval x < 0)" "sint v = sval x * 2 ^ 27" using fltr_of_spec [OF w(1)] v by auto
  have "sval x \<noteq> 0" using sval_inj [OF w(1) wf36_const(1)] w(2) by (auto simp: sval_def)
  then have n: "sint v \<noteq> 0" "neg \<longleftrightarrow> sint v < 0" using v by (simp_all add: mult_less_0_iff)
  have f: "fits 62 (sint v)" using sval_range [OF w(1)] unfolding v(2) fits_def by auto
  have d: "128 dvd sint v" unfolding v(2) by (rule dvd_mult) simp
  have ir: "0x57 \<noteq> (0x58 :: u32)" by simp
  obtain hi where h: "fnorm 0x57 neg 162 v = (e, fxu, hi, mq)"
    using r by (auto simp: float_word_def Let_def split: prod.splits)
  have "101 \<le> e \<and> e \<le> 165" using fnorm_spec [OF ir f d n h] by auto
  moreover have "fv (162 - 189) (sint v) = of_int (sval x)"
    using fv_up [of "- 27" 27 "sval x"] unfolding v(2) by (simp add: fv_def)
  ultimately show ?thesis using float_word_spec(1) [OF ir f d n r] by simp
qed

section \<open>FIX\<close>

definition int_part :: "real \<Rightarrow> int" where
  \<comment> \<open>towards zero\<close>
  "int_part r = (if r < 0 then \<lceil>r\<rceil> else \<lfloor>r\<rfloor>)"

definition fix_ref :: "u32 \<Rightarrow> real \<Rightarrow> int" where
  \<comment> \<open>FIXR rounds, FIX drops the fraction\<close>
  "fix_ref ir r = (if tst ir 4 then \<lfloor>r + 1 / 2\<rfloor> else int_part r)"

lemma floor_div: "\<lfloor>real_of_int f / 2 ^ n\<rfloor> = f div 2 ^ n"
  using floor_divide_of_int_eq [of f "2 ^ n"] by simp

lemma div_round: "(f + 2 ^ k) div 2 ^ Suc k = f div 2 ^ Suc k + of_bool (bit f k)" for f :: int
proof -
  have d: "i div 2 ^ Suc k = i div 2 ^ k div 2" for i :: int
    using zdiv_zmult2_eq [of 2 i "2 ^ k"] by (simp add: mult.commute)
  have "(f + 2 ^ k) div 2 ^ k = f div 2 ^ k + 1" by simp
  then show ?thesis unfolding d bit_iff_odd by (cases "odd (f div 2 ^ k)") (auto elim!: oddE)
qed

lemma fix_ref_fraction:
  assumes "0 < n"
  shows "fix_ref ir (real_of_int f / 2 ^ n) =
    f div 2 ^ n + of_bool (if tst ir 4 then bit f (n - 1) else f < 0 \<and> f mod 2 ^ n \<noteq> 0)"
proof -
  obtain k where k: "n = Suc k" using assms by (cases n) auto
  have h: "real_of_int f / 2 ^ n + 1 / 2 = real_of_int (f + 2 ^ k) / 2 ^ n"
    by (simp add: k field_simps)
  then have r: "\<lfloor>real_of_int f / 2 ^ n + 1 / 2\<rfloor> = f div 2 ^ n + of_bool (bit f (n - 1))"
    unfolding h floor_div using div_round [of f k] by (simp only: k diff_Suc_1)
  have c: "\<lceil>real_of_int f / 2 ^ n\<rceil> = f div 2 ^ n + of_bool (f mod 2 ^ n \<noteq> 0)"
  proof -
    have "\<lceil>real_of_int f / 2 ^ n\<rceil> = - ((- f) div 2 ^ n)"
      using floor_div [of "- f" n] by (simp add: ceiling_def)
    then show ?thesis by (simp add: zdiv_zminus1_eq_if)
  qed
  show ?thesis unfolding fix_ref_def int_part_def r c floor_div by (auto simp: divide_less_0_iff)
qed

lemma smear_sval:
  assumes "wf36 x"
  shows "wf36 (smear_sign x)" and "sval (smear_sign x) = fraction x"
proof -
  show w: "wf36 (smear_sign x)" unfolding wf36_bits bit_smear [OF assms] using wf36_bitD [OF assms] by auto
  have "bit (smear_sign x) (min n 35) = (if n < 27 then bit x n else bit x 35)" for n
    unfolding bit_smear [OF assms] by (auto simp: min_def)
  then show "sval (smear_sign x) = fraction x"
    by (intro bit_eqI) (simp add: bit_sval [OF w] bit_fraction)
qed

definition fix_shift :: "nat \<Rightarrow> u64 \<Rightarrow> u64" where
  "fix_shift n S = drop_bit n S OR (FMASK AND (if tst S SMASK then push_bit (27 - n) FMASK else 0))"

lemma fix_shift_spec:
  assumes w: "wf36 x" and n: "n \<le> 27"
  shows "wf36 (fix_shift n (smear_sign x))" and "sval (fix_shift n (smear_sign x)) = fraction x div 2 ^ n"
proof -
  define S where "S = smear_sign x"
  have S: "bit S i \<longleftrightarrow> (if i < 27 then bit x i else i < 36 \<and> bit x 35)" for i
    unfolding S_def by (rule bit_smear [OF w])
  have t: "tst S SMASK = bit x 35" by (simp add: tst_simps S)
  have b: "bit (fix_shift n S) i \<longleftrightarrow> bit S (n + i) \<or> i < 36 \<and> 27 - n \<le> i \<and> bit x 35" for i
  proof (cases "bit x 35")
    case True
    have "i - (27 - n) < 36" if "i < 36" using that by simp
    then show ?thesis
      unfolding fix_shift_def t if_P [OF True] bit_or_iff bit_and_iff bit_drop_bit_eq bit_push_bit_iff bit_masks o_def
      using True by auto
  next
    case False
    then show ?thesis unfolding fix_shift_def t bit_or_iff bit_drop_bit_eq o_def by simp
  qed
  show wf: "wf36 (fix_shift n (smear_sign x))"
    unfolding wf36_bits S_def [symmetric] b S using wf36_bitD [OF w] by auto
  have "bit (sval (fix_shift n S)) i = bit (fraction x div 2 ^ n) i" for i
  proof -
    have "bit (sval (fix_shift n S)) i \<longleftrightarrow> bit S (n + min i 35) \<or> 27 - n \<le> min i 35 \<and> bit x 35"
      unfolding bit_sval [OF wf [folded S_def]] b by auto
    also have "\<dots> \<longleftrightarrow> (if n + i < 27 then bit x (n + i) else bit x 35)"
      using n unfolding S by (cases "n + i < 27") (auto simp: min_def)
    also have "\<dots> \<longleftrightarrow> bit (fraction x div 2 ^ n) i"
      unfolding drop_bit_eq_div [symmetric] bit_drop_bit_eq bit_fraction o_def ..
    finally show ?thesis .
  qed
  then show "sval (fix_shift n (smear_sign x)) = fraction x div 2 ^ n"
    unfolding S_def by (intro bit_eqI)
qed

lemma fix_rest:
  assumes w: "wf36 x" and n: "0 < n" "n \<le> 27"
  defines "mq \<equiv> push_bit (36 - n) (smear_sign x) AND FMASK"
  shows "tst mq SMASK \<longleftrightarrow> bit (fraction x) (n - 1)" and "mq \<noteq> 0 \<longleftrightarrow> fraction x mod 2 ^ n \<noteq> 0"
proof -
  have b: "bit mq i \<longleftrightarrow> 36 - n \<le> i \<and> i < 36 \<and> bit x (i - (36 - n))" for i
    unfolding mq_def bit_and_iff bit_push_bit_iff bit_smear [OF w] bit_masks using n by auto
  show "tst mq SMASK \<longleftrightarrow> bit (fraction x) (n - 1)"
    using n unfolding tst_simps b bit_fraction by auto
  have "mq = 0 \<longleftrightarrow> (\<forall>i < n. \<not> bit x i)"
  proof
    assume z: "mq = 0"
    show "\<forall>i < n. \<not> bit x i"
    proof (intro allI impI)
      fix i assume "i < n"
      moreover have "\<not> bit mq (i + (36 - n))" by (simp add: z)
      ultimately show "\<not> bit x i" unfolding b using n by simp
    qed
  next
    assume "\<forall>i < n. \<not> bit x i"
    then show "mq = 0" by (intro bit_word_eqI) (use n in \<open>auto simp: b\<close>)
  qed
  moreover have "fraction x mod 2 ^ n = 0 \<longleftrightarrow> (\<forall>i < n. \<not> bit x i)"
    unfolding take_bit_eq_mod [symmetric] bit_eq_iff bit_take_bit_iff bit_fraction using n by auto
  ultimately show "mq \<noteq> 0 \<longleftrightarrow> fraction x mod 2 ^ n \<noteq> 0" by simp
qed

lemma fix_ref_int: "fix_ref ir (real_of_int i) = i"
proof -
  have "\<lfloor>real_of_int i + 1 / 2\<rfloor> = i" by linarith
  then show ?thesis by (simp add: fix_ref_def int_part_def)
qed

lemma fix_of_real:
  assumes w: "wf36 x"
  shows "fix_of ir x = (if 164 \<le> get_expo x then None else Some (wrap36 (fix_ref ir (fval x))))"
proof -
  define g where "g = get_expo x"
  note gr = get_expo_range [of x, folded g_def]
  define sc where "sc = ((g + 0x180) mod 512 - 27) mod 512"
  have "sc = (g - 155) mod 512"
    unfolding sc_def mod_diff_left_eq using mod_add_self2 [of "g - 155" 512] by (simp add: add.commute)
  then have sc: "sc = (if g < 155 then g + 357 else g - 155)" using gr by (simp add: mod_512)
  have s8: "bit sc 8 \<longleftrightarrow> g < 155" using sc gr bit_eight [of sc] by auto
  have get: "(if tst x SMASK then 0xFF else 0) XOR (uint (drop_bit 27 x) AND 0xFF) = g"
    by (simp add: g_def get_expo_def)
  note S = smear_sval [OF w]
  have F: "fix_of ir x = (if sc < 9 then Some (push_bit (nat sc) (smear_sign x) AND FMASK)
         else if g < 155 then
           (let n = nat (0x200 - sc);
                (ar, mq) =
                  (if 27 < n then (0, 0)
                   else (fix_shift n (smear_sign x), push_bit (36 - n) (smear_sign x) AND FMASK));
                ar = (if tst ir 4 \<and> tst mq SMASK \<or> \<not> tst ir 4 \<and> tst ar SMASK \<and> mq \<noteq> 0
                      then ar + 1 else ar)
            in Some (ar AND FMASK))
         else None)"
    unfolding fix_of_def get nine_bits sc_def [symmetric] Let_def s8 fix_shift_def ..
  consider (big) "164 \<le> g" | (left) "155 \<le> g" "g < 164" | (right) "g < 155" "128 \<le> g" | (zero) "g < 128"
    by linarith
  then show ?thesis
  proof cases
    case big
    then show ?thesis using sc gr unfolding F g_def [symmetric] by simp
  next
    case left
    define k where "k = nat (g - 155)"
    have k: "k < 9" "g - 155 = int k" using left by (simp_all add: k_def)
    have "uint (smear_sign x) * 2 ^ k < 2 ^ 36 * 2 ^ 9"
      using S(1) k power_strict_increasing [of k 9 "2 :: int"] by (intro mult_strict_mono) (auto simp: wf36_uint)
    then have "push_bit k (smear_sign x) AND FMASK = wrap36 (uint (smear_sign x) * 2 ^ k)"
      unfolding fmask_wrap by (subst uint_push64) simp_all
    also have "\<dots> = wrap36 (fraction x * 2 ^ k)"
      by (rule wrap36_cong [of _ _ "of_bool (bit (smear_sign x) 35) * 2 ^ k"])
        (simp add: S(2) [symmetric] sval_uint left_diff_distrib)
    finally have v: "push_bit k (smear_sign x) AND FMASK = wrap36 (fraction x * 2 ^ k)" .
    have "fval x = real_of_int (fraction x * 2 ^ k)" using k by (simp add: fval_def fv_def g_def)
    then have "fix_ref ir (fval x) = fraction x * 2 ^ k" by (simp only: fix_ref_int)
    moreover have "nat sc = k" "sc < 9" using left sc by (simp_all add: k_def)
    ultimately show ?thesis using left(2) v unfolding F g_def [symmetric] by simp
  next
    case right
    define n where "n = nat (155 - g)"
    have n: "0 < n" "n \<le> 27" "155 - g = int n" using right by (simp_all add: n_def)
    have nat: "nat (0x200 - sc) = n" using right sc by (simp add: n_def)
    note R = fix_shift_spec [OF w n(2)] and Q = fix_rest [OF w n(1,2)]
    have fv: "fval x = real_of_int (fraction x) / 2 ^ n"
    proof -
      have "get_expo x - 155 = - int n" using n by (simp add: g_def)
      then show ?thesis by (simp add: fval_def fv_def power_int_minus divide_inverse)
    qed
    have sg: "tst (fix_shift n (smear_sign x)) SMASK \<longleftrightarrow> fraction x < 0"
      using sval_neg_iff [OF R(1)] unfolding R(2) tst_simps by (simp add: pos_imp_zdiv_neg_iff)
    have c: "(if b then a + 1 else a) AND FMASK = wrap36 (sval a + of_bool b)" if "wf36 a" for a b
    proof (cases b)
      case True
      have "uint a + uint (1 :: u64) < 2 ^ 64" using that by (simp add: wf36_uint)
      then have "(a + 1) AND FMASK = wrap36 (uint a + 1)" unfolding fmask_wrap by (simp add: uint_add64)
      then show ?thesis using True by (simp add: wrap36_sval_lin)
    next
      case False
      then show ?thesis using wrap36_sval_lin(1) [of a 0] by (simp add: fmask_wrap)
    qed
    show ?thesis
      using right n sc nat unfolding F g_def [symmetric] fv fix_ref_fraction [OF n(1)]
      by (simp add: Let_def c [OF R(1)] R(2) Q sg)
  next
    case zero
    define n where "n = nat (155 - g)"
    have n: "27 < n" "155 - g = int n" using zero by (simp_all add: n_def)
    have nat: "nat (0x200 - sc) = n" using zero sc by (simp add: n_def)
    have fv: "fval x = real_of_int (fraction x) / 2 ^ n"
    proof -
      have "get_expo x - 155 = - int n" using n by (simp add: g_def)
      then show ?thesis by (simp add: fval_def fv_def power_int_minus divide_inverse)
    qed
    have "(2 :: real) ^ 28 \<le> 2 ^ n" using n by (intro power_increasing) simp_all
    then have "- 1 / 2 \<le> fval x" "fval x < 1 / 2"
      using fraction_range [of x] unfolding fv by (simp_all add: field_simps)
    then have "fix_ref ir (fval x) = 0" unfolding fix_ref_def int_part_def by (auto simp: floor_eq_iff ceiling_eq_iff)
    then show ?thesis
      using zero n sc nat gr unfolding F g_def [symmetric] by (simp add: Let_def tst_def wrap36_def)
  qed
qed

lemma abs_near: "2 * \<bar>a - b\<bar> \<le> u \<Longrightarrow> \<bar>a\<bar> \<le> \<bar>b\<bar> + u / 2" for a b u :: real
proof -
  assume "2 * \<bar>a - b\<bar> \<le> u"
  then have "\<bar>a - b\<bar> \<le> u / 2" by simp
  then show ?thesis using abs_triangle_ineq2 [of a b] by simp
qed

lemma fix_of_fltr:
  assumes w: "wf36 x" "x \<noteq> 0" "\<bar>sval x\<bar> < 2 ^ 27 - 1" and v: "fltr_of x = (neg, v)"
    and r: "float_word 0x57 neg 162 v = (e, fxu, z, mq)"
  shows "fix_of ir z = Some x"
proof -
  have z: "wf36 z" by (rule float_word_wf [OF r])
  have R: "rounded_to 0x57 z (of_int (sval x))" using fltr_rounds [OF w(1,2) v r] by simp
  define g where "g = get_expo z - 155"
  have t4: "tst (0x57 :: u32) 4" by (simp add: tst_def)
  have N: "2 ^ 26 \<le> \<bar>fraction z\<bar>" using R unfolding rounded_to_def normal_def by auto
  have near: "2 * \<bar>fv g (fraction z) - of_int (sval x)\<bar> \<le> 2 powi g"
    using R t4 unfolding rounded_to_def fval_def g_def by simp
  have "g \<le> 0"
  proof (rule ccontr)
    assume "\<not> g \<le> 0"
    then have u: "2 \<le> (2 :: real) powi g" using power_int_increasing [of 1 g "2 :: real"] by simp
    have "\<bar>fv g (fraction z)\<bar> = \<bar>real_of_int (fraction z)\<bar> * 2 powi g" by (simp add: fv_def abs_mult)
    moreover have "67108864 * 2 powi g \<le> \<bar>real_of_int (fraction z)\<bar> * 2 powi g"
      using N by (intro mult_right_mono) (simp_all flip: of_int_abs)
    moreover have "\<bar>fv g (fraction z)\<bar> \<le> \<bar>real_of_int (sval x)\<bar> + 2 powi g / 2"
      by (rule abs_near [OF near])
    ultimately have "67108864 * 2 powi g - 2 powi g / 2 \<le> \<bar>real_of_int (sval x)\<bar>" by linarith
    moreover have "\<bar>real_of_int (sval x)\<bar> < 2 ^ 27 - 1"
      using w(3) of_int_less_iff [of "\<bar>sval x\<bar>" "2 ^ 27 - 1", where 'a = real] by simp
    ultimately show False using u by simp
  qed
  then obtain k where k: "g = - int k" by (metis nonpos_int_cases)
  have f: "fv g i = real_of_int i / 2 ^ k" for i
    by (simp add: fv_def k power_int_minus divide_inverse)
  have "2 * \<bar>real_of_int (fraction z) / 2 ^ k - of_int (sval x)\<bar> \<le> 1 / 2 ^ k"
    using near f [of "fraction z"] by (simp add: k power_int_minus divide_inverse)
  moreover have "real_of_int (fraction z) / 2 ^ k - of_int (sval x)
      = real_of_int (fraction z - sval x * 2 ^ k) / 2 ^ k"
    by (simp add: field_simps)
  ultimately have "2 * (\<bar>real_of_int (fraction z - sval x * 2 ^ k)\<bar> / 2 ^ k) \<le> 1 / 2 ^ k"
    by (simp only: abs_divide power_abs abs_numeral)
  then have "real_of_int (2 * \<bar>fraction z - sval x * 2 ^ k\<bar>) \<le> real_of_int 1"
    by (simp add: divide_le_cancel)
  then have "2 * \<bar>fraction z - sval x * 2 ^ k\<bar> \<le> 1" by (simp only: of_int_le_iff)
  then have "fraction z = sval x * 2 ^ k" by presburger
  then have "fval z = real_of_int (sval x)" using f by (simp add: fval_def flip: g_def)
  then show ?thesis
    using fix_of_real [OF z] \<open>g \<le> 0\<close> by (simp add: g_def fix_ref_int wf36_wrap_sval w)
qed

section \<open>FDV\<close>

lemma tst_bits: "tst x BIT9 \<longleftrightarrow> bit x 26" "tst x BIT7 \<longleftrightarrow> bit x 28" for x :: u64
  using tst_exp [of x 26] tst_exp [of x 28] by simp_all

lemma bit_top: "uint x < 2 ^ Suc n \<Longrightarrow> bit x n \<longleftrightarrow> 2 ^ n \<le> uint x" for x :: u64
proof -
  assume u: "uint x < 2 ^ Suc n"
  have "bit x n \<longleftrightarrow> odd (uint x div 2 ^ n)" by (metis bit_iff_odd bit_uint_iff bit_imp_le_length)
  also have "\<dots> \<longleftrightarrow> 2 ^ n \<le> uint x"
    using u div_pos_pos_trivial [of "uint x" "2 ^ n"] div_pos_pos_trivial [of "uint x - 2 ^ n" "2 ^ n"]
      div_add_self2 [of "2 ^ n" "uint x - 2 ^ n"] uint_ge_0 [of x]
    by (cases "2 ^ n \<le> uint x") auto
  finally show ?thesis .
qed

definition up_guard :: "int \<times> u64 \<Rightarrow> bool" where "up_guard = (\<lambda>(sc, ar). \<not> tst ar BIT9)"

definition up_body :: "int \<times> u64 \<Rightarrow> int \<times> u64" where "up_body = (\<lambda>(sc, ar). (sc - 1, push_bit 1 ar))"

lemma shift_up_while: "shift_up = while up_guard up_body"
  unfolding shift_up_def up_guard_def up_body_def ..

lemma up_step:
  assumes "0 < uint v \<and> uint v < 2 ^ 27" and "up_guard (e, v)"
  shows "0 < uint (push_bit 1 v) \<and> uint (push_bit 1 v) < 2 ^ 27 \<and> uint (push_bit 1 v) = 2 * uint v"
proof -
  have "uint v < 2 ^ 26" using assms bit_top [of v 26] by (auto simp: up_guard_def tst_bits)
  moreover from this have "uint (push_bit 1 v) = uint v * 2 ^ 1" by (intro uint_push64) simp
  ultimately show ?thesis using assms by simp
qed

lemma shift_up_ends:
  assumes "0 < uint v \<and> uint v < 2 ^ 27"
  shows "\<exists>t. while_option up_guard up_body (e, v) = Some t"
proof (rule measure_while_option_Some [where P = "\<lambda>x. 0 < uint (snd x) \<and> uint (snd x) < 2 ^ 27"
      and f = "\<lambda>x. nat (2 ^ 27 - uint (snd x))"])
  fix x :: "int \<times> u64"
  obtain a b where x: "x = (a, b)" by fastforce
  assume "0 < uint (snd x) \<and> uint (snd x) < 2 ^ 27" "up_guard x"
  then show "(0 < uint (snd (up_body x)) \<and> uint (snd (up_body x)) < 2 ^ 27)
      \<and> nat (2 ^ 27 - uint (snd (up_body x))) < nat (2 ^ 27 - uint (snd x))"
    using up_step [of b a] by (simp add: x up_body_def)
qed (use assms in simp)

lemma le_zdiv: "0 < b \<Longrightarrow> k \<le> x div b \<longleftrightarrow> k * b \<le> x" for b k x :: int
proof
  assume b: "0 < b" and "k \<le> x div b"
  then have "k * b \<le> x div b * b" by (simp add: mult_right_mono)
  also have "\<dots> \<le> x" using div_mult_mod_eq [of x b] pos_mod_sign [OF b, of x] by linarith
  finally show "k * b \<le> x" .
next
  assume b: "0 < b" and "k * b \<le> x"
  then have "(k * b) div b \<le> x div b" by (intro zdiv_mono1)
  then show "k \<le> x div b" using b by simp
qed

lemma quotient_bounds:
  fixes a b :: int
  assumes "0 < a" "a < 2 * b" "b < 2 ^ 27"
  defines "q \<equiv> 2 ^ 28 * a div b"
  shows "2 \<le> q" and "q < 2 ^ 29 - 2" and "q \<noteq> 2 ^ 28 - 1"
proof -
  have b: "0 < b" using assms by linarith
  have le: "k \<le> q \<longleftrightarrow> k * b \<le> 2 ^ 28 * a" for k
    unfolding q_def by (rule le_zdiv [OF b])
  show "2 \<le> q" unfolding le using assms by simp
  have "\<not> 2 ^ 29 - 2 \<le> q" unfolding le using assms by simp
  then show "q < 2 ^ 29 - 2" by simp
  show "q \<noteq> 2 ^ 28 - 1"
  proof
    assume "q = 2 ^ 28 - 1"
    then have "2 ^ 28 - 1 \<le> q" "\<not> 2 ^ 28 \<le> q" by simp_all
    then have "(2 ^ 28 - 1) * b \<le> 2 ^ 28 * a" "a < b" unfolding le by simp_all
    then show False using assms by simp
  qed
qed

lemma fdv_halve_spec:
  assumes ab: "0 < uint a" "uint a < 2 * uint b" "uint b < 2 ^ 27"
    and h: "fdv_halve ir sc (push_bit 28 a div b) = (fxu, e, v)"
  obtains t where "t \<le> 1" and "e = sc - 1 + int t"
    and "uint v = (2 ^ (28 - t) * uint a div uint b + of_bool (tst ir 4)) div 2"
    and "0 < uint v" and "uint v < 2 ^ 27" and "uint b \<le> uint a \<longleftrightarrow> t = 1"
proof -
  define q where "q = 2 ^ 28 * uint a div uint b"
  note Q = quotient_bounds [OF ab, folded q_def]
  have a: "uint a < 2 ^ 28" using ab by simp
  have u: "uint (push_bit 28 a div b) = q"
    unfolding uint_div64 q_def using a by (subst uint_push64) (simp_all add: mult.commute)
  have b: "0 < uint b" using ab by linarith
  have lt: "2 ^ 28 \<le> q \<longleftrightarrow> uint b \<le> uint a" unfolding q_def le_zdiv [OF b] by simp
  have t28: "tst (push_bit 28 a div b) BIT7 \<longleftrightarrow> 2 ^ 28 \<le> q"
    unfolding tst_bits using bit_top [of "push_bit 28 a div b" 28] Q u by simp
  define t :: nat where "t = of_bool (uint b \<le> uint a)"
  define r where "r = q div 2 ^ t"
  have "2 ^ 28 * uint a div uint b div 2 = 2 ^ 27 * uint a div uint b"
  proof -
    have "2 ^ 28 * uint a div uint b div 2 = 2 ^ 28 * uint a div 2 div uint b"
      using zdiv_zmult2_eq [of 2 "2 ^ 28 * uint a" "uint b"] zdiv_zmult2_eq [of "uint b" "2 ^ 28 * uint a" 2] b
      by (simp add: mult.commute)
    then show ?thesis by simp
  qed
  then have r: "r = 2 ^ (28 - t) * uint a div uint b" unfolding r_def q_def t_def by auto
  have rb: "2 \<le> r" "r < 2 ^ 28 - 1" using Q lt by (auto simp: r_def t_def)
  define w where "w = (if uint b \<le> uint a then drop_bit 1 (push_bit 28 a div b) else push_bit 28 a div b)"
  have w: "uint w = r" unfolding w_def r_def t_def by (auto simp: uint_drop64 u)
  have H: "(e, v) = (sc - 1 + int t, drop_bit 1 (if tst ir 4 then w + 1 else w))"
    using h unfolding fdv_halve_def t28 lt Let_def w_def t_def by (auto split: if_splits)
  have "uint (if tst ir 4 then w + 1 else w) = r + of_bool (tst ir 4)"
    using uint_add64 [of w 1] w rb by simp
  then have v: "uint v = (r + of_bool (tst ir 4)) div 2" using H by (simp add: uint_drop64)
  show thesis
  proof (rule that [of t])
    show "uint v = (2 ^ (28 - t) * uint a div uint b + of_bool (tst ir 4)) div 2" using v r by simp
    show "0 < uint v" "uint v < 2 ^ 27" unfolding v using rb by (auto simp: of_bool_def)
  qed (use H in \<open>auto simp: t_def\<close>)
qed

lemma word_of_uint: "uint x = i \<Longrightarrow> x = word_of_int i"
  using word_of_int_uint [of x] by simp

lemma fraction_zero: "fraction x = 0 \<or> fraction x = - (2 ^ 27) \<longleftrightarrow> x AND MMASK = 0"
proof -
  have "0 \<le> uint x mod 2 ^ 27" "uint x mod 2 ^ 27 < 2 ^ 27" by simp_all
  then show ?thesis unfolding fraction_def word_uint_eq_iff uint_mmask by auto
qed

lemma magnitude_spec:
  assumes w: "wf36 x" and n: "x AND MMASK \<noteq> 0"
  shows "(if tst x SMASK then (CM x + 1) AND MMASK else x AND MMASK) = word_of_int \<bar>fraction x\<bar>"
    and "\<bar>fraction x\<bar> < 2 ^ 27" and "0 < \<bar>fraction x\<bar>" and "tst x SMASK \<longleftrightarrow> fraction x < 0"
proof -
  have m: "uint x mod 2 ^ 27 \<noteq> 0" using n by (simp add: word_uint_eq_iff uint_mmask)
  have b: "0 \<le> uint x mod 2 ^ 27" "uint x mod 2 ^ 27 < 2 ^ 27" by simp_all
  have f: "fraction x = uint x mod 2 ^ 27 - (if bit x 35 then 2 ^ 27 else 0)"
    unfolding fraction_def uint_mmask ..
  show s: "tst x SMASK \<longleftrightarrow> fraction x < 0" unfolding tst_simps f using b by auto
  show "\<bar>fraction x\<bar> < 2 ^ 27" "0 < \<bar>fraction x\<bar>" unfolding f using b m by auto
  have "uint (if tst x SMASK then (CM x + 1) AND MMASK else x AND MMASK) = \<bar>fraction x\<bar>"
  proof (cases "bit x 35")
    case True
    then have "\<bar>fraction x\<bar> = 2 ^ 27 - uint x mod 2 ^ 27" using b f by simp
    then show ?thesis unfolding tst_simps if_P [OF True] uint_cm_mmask [OF w m] by simp
  next
    case False
    then have "\<bar>fraction x\<bar> = uint x mod 2 ^ 27" using b f by simp
    then show ?thesis unfolding tst_simps if_not_P [OF False] uint_mmask by simp
  qed
  then show "(if tst x SMASK then (CM x + 1) AND MMASK else x AND MMASK) = word_of_int \<bar>fraction x\<bar>"
    by (rule word_of_uint)
qed

lemma fdv_setup_spec:
  assumes w: "wf36 x" "wf36 y" and nz: "\<not> (x AND MMASK = 0 \<and> x \<noteq> SMASK)"
    and r: "fdv_setup x y = (neg, sc, a, b)"
  shows "0 < uint a \<and> uint a < 2 ^ 27" and "uint b < 2 ^ 27" and "\<not> push_bit 1 b \<le> a \<longleftrightarrow> uint a < 2 * uint b"
    and "x AND MMASK \<noteq> 0 \<and> y AND MMASK \<noteq> 0 \<longrightarrow>
      uint a = \<bar>fraction x\<bar> \<and> uint b = \<bar>fraction y\<bar> \<and> neg = ((fraction x < 0) \<noteq> (fraction y < 0))
      \<and> sc = (get_expo x - get_expo y + 129) mod 512"
proof -
  have u: "uint (word_of_int i :: u64) = i" if "0 \<le> i" "i < 2 ^ 27" for i
    using that by (simp add: uint_word_of_int)
  obtain db nb where A: "fdv_dividend x = (a, db, nb)"
    using r by (auto simp: fdv_setup_def Let_def split: prod.splits)
  obtain da na where B: "fmp_operand y (- 1) = (b, da, na)"
    using r by (auto simp: fdv_setup_def Let_def split: prod.splits)
  have R: "neg = (na \<noteq> nb)"
    "sc = (get_expo x + db + da + ((0x1FF XOR get_expo y) + 1) + 0x81) mod 512"
    using r unfolding fdv_setup_def A B Let_def prod.case signed_expo_get [OF w(1)] signed_expo_get [OF w(2)] nine_bits
    by auto
  have X: "a = word_of_int \<bar>fraction x\<bar> \<and> db = 0 \<and> nb = (fraction x < 0)" if n: "x AND MMASK \<noteq> 0"
    using A n magnitude_spec [OF w(1) n] by (auto simp: fdv_dividend_def split: if_splits)
  have Y: "b = word_of_int \<bar>fraction y\<bar> \<and> da = 0 \<and> na = (fraction y < 0)" if n: "y AND MMASK \<noteq> 0"
    using B n magnitude_spec [OF w(2) n] by (auto simp: fmp_operand_def split: if_splits)
  show a: "0 < uint a \<and> uint a < 2 ^ 27"
  proof (cases "x AND MMASK = 0")
    case True
    then show ?thesis using A nz by (auto simp: fdv_dividend_def)
  next
    case False
    then show ?thesis using X magnitude_spec [OF w(1) False] by (simp add: u)
  qed
  show b: "uint b < 2 ^ 27"
  proof (cases "y AND MMASK = 0")
    case True
    then show ?thesis using B by (auto simp: fmp_operand_def split: if_splits)
  next
    case False
    then show ?thesis using Y magnitude_spec [OF w(2) False] by (simp add: u)
  qed
  have "uint (push_bit 1 b) = uint b * 2 ^ 1" using b by (intro uint_push64) simp
  then show "\<not> push_bit 1 b \<le> a \<longleftrightarrow> uint a < 2 * uint b" by (auto simp: word_le_def)
  show "x AND MMASK \<noteq> 0 \<and> y AND MMASK \<noteq> 0 \<longrightarrow>
      uint a = \<bar>fraction x\<bar> \<and> uint b = \<bar>fraction y\<bar> \<and> neg = ((fraction x < 0) \<noteq> (fraction y < 0))
      \<and> sc = (get_expo x - get_expo y + 129) mod 512"
  proof
    assume n: "x AND MMASK \<noteq> 0 \<and> y AND MMASK \<noteq> 0"
    have "get_expo y XOR 0x1FF = 511 - get_expo y" using get_expo_range [of y] by (intro xor_nine) linarith+
    then have e: "0x1FF XOR get_expo y = 511 - get_expo y" by (simp only: xor.commute)
    have "sc = (get_expo x + 0 + 0 + ((511 - get_expo y) + 1) + 0x81) mod 512"
      using R(2) X Y n unfolding e by simp
    also have "get_expo x + 0 + 0 + ((511 - get_expo y) + 1) + 0x81 = get_expo x - get_expo y + 129 + 512"
      by simp
    finally have "sc = (get_expo x - get_expo y + 129 + 512) mod 512" .
    then have "sc = (get_expo x - get_expo y + 129) mod 512" by (simp only: mod_add_self2)
    then show "uint a = \<bar>fraction x\<bar> \<and> uint b = \<bar>fraction y\<bar> \<and> neg = ((fraction x < 0) \<noteq> (fraction y < 0))
      \<and> sc = (get_expo x - get_expo y + 129) mod 512"
      using X Y n R(1) magnitude_spec [OF w(1)] magnitude_spec [OF w(2)] by (auto simp: u)
  qed
qed

lemma fdv_quotient:
  assumes w: "wf36 x" "wf36 y" and nz: "\<not> (x AND MMASK = 0 \<and> x \<noteq> SMASK)"
    and r: "fdv_setup x y = (neg, sc, a, b)" and d: "\<not> push_bit 1 b \<le> a"
  shows "push_bit 28 a div b \<noteq> 0"
    and "\<exists>t. while_option up_guard up_body (snd (fdv_halve ir sc (push_bit 28 a div b))) = Some t"
proof -
  note S = fdv_setup_spec [OF w nz r]
  have ab: "0 < uint a" "uint a < 2 * uint b" "uint b < 2 ^ 27" using S d by auto
  obtain fxu e v where h: "fdv_halve ir sc (push_bit 28 a div b) = (fxu, e, v)" by (metis prod_cases3)
  obtain t where "0 < uint v" "uint v < 2 ^ 27" using fdv_halve_spec [OF ab h] by metis
  then show "\<exists>t. while_option up_guard up_body (snd (fdv_halve ir sc (push_bit 28 a div b))) = Some t"
    using shift_up_ends [of v e] by (simp add: h)
  have "uint (push_bit 28 a div b) = 2 ^ 28 * uint a div uint b"
    unfolding uint_div64 using ab by (subst uint_push64) (simp_all add: mult.commute)
  then show "push_bit 28 a div b \<noteq> 0"
    using quotient_bounds(1) [OF ab] by (metis not_numeral_le_zero unsigned_0)
qed

definition rounded_mag :: "u32 \<Rightarrow> u64 \<Rightarrow> real \<Rightarrow> bool" where
  \<comment> \<open>as \<open>rounded_to\<close>, but an instruction that does not round cuts off towards zero\<close>
  "rounded_mag ir w v \<longleftrightarrow> normal (fraction w) \<and> (fval w < 0 \<longleftrightarrow> v < 0) \<and>
     (if tst ir 4 then 2 * \<bar>fval w - v\<bar> \<le> 2 powi (get_expo w - 155)
      else \<bar>fval w\<bar> \<le> \<bar>v\<bar> \<and> \<bar>v\<bar> < \<bar>fval w\<bar> + 2 powi (get_expo w - 155))"

lemma negated_fraction:
  assumes "0 < uint v" and "uint v < 2 ^ 27"
  shows "fraction v = uint v"
    and "fraction ((((v XOR MMASK) + 1) AND MMASK) OR SMASK) = - uint v"
    and "bit ((((v XOR MMASK) + 1) AND MMASK) OR SMASK) n \<Longrightarrow> n < 27 \<or> n = 35"
    and "bit v n \<Longrightarrow> n < 27 \<or> n = 35"
proof -
  have b: "bit v n \<Longrightarrow> n < 27" for n using uint_less_bits [OF assms(2)] .
  then have l: "v AND MMASK = v" by (intro bit_word_eqI) (auto simp: bit_and_iff)
  show "fraction v = uint v" using b [of 35] by (auto simp: fraction_def l)
  have "(v XOR MMASK) AND v = 0" by (intro bit_word_eqI) (auto simp: bit_and_iff bit_xor_iff dest: b)
  then have "(v XOR MMASK) + v = (v XOR MMASK) OR v" by (simp only: disjunctive_add_eq_or)
  also have "\<dots> = MMASK" by (intro bit_word_eqI) (auto simp: bit_or_iff bit_xor_iff dest: b)
  finally have "(v XOR MMASK) + 1 = 0x8000000 - v" by (simp add: algebra_simps)
  moreover have "v \<le> 0x8000000" using assms by (simp add: word_le_def)
  ultimately have u: "uint ((v XOR MMASK) + 1) = 2 ^ 27 - uint v" by (simp add: uint_minus_simple_alt)
  have k: "(y OR SMASK) AND MMASK = y AND MMASK" "bit (y OR SMASK) 35" for y
    by (rule bit_word_eqI) (auto simp: bit_and_iff bit_or_iff bit_single)
  have "uint ((((v XOR MMASK) + 1) AND MMASK) AND MMASK) = 2 ^ 27 - uint v"
    unfolding uint_mmask u mod_mod_trivial by (rule mod_pos_pos_trivial) (use assms in simp_all)
  then show "fraction ((((v XOR MMASK) + 1) AND MMASK) OR SMASK) = - uint v"
    unfolding fraction_def k(1) using k(2) by simp
  show "bit ((((v XOR MMASK) + 1) AND MMASK) OR SMASK) n \<Longrightarrow> n < 27 \<or> n = 35"
    unfolding bit_or_iff bit_and_iff bit_single bit_masks by auto
  show "bit v n \<Longrightarrow> n < 27 \<or> n = 35" using b by auto
qed

lemma half_floor:
  fixes V :: real
  shows "of_int (2 * (\<lfloor>V\<rfloor> div 2)) \<le> V" and "V < of_int (2 * (\<lfloor>V\<rfloor> div 2)) + 2"
    and "\<bar>of_int (2 * ((\<lfloor>V\<rfloor> + 1) div 2)) - V\<bar> \<le> 1"
proof -
  have f: "of_int \<lfloor>V\<rfloor> \<le> V" "V < of_int \<lfloor>V\<rfloor> + 1" by linarith+
  have d: "2 * (i div 2) \<le> i" "i \<le> 2 * (i div 2) + 1" for i :: int by presburger+
  have r: "real_of_int (2 * (i div 2)) \<le> of_int i" "real_of_int i \<le> of_int (2 * (i div 2)) + 1" for i
    using d [of i] by linarith+
  show "of_int (2 * (\<lfloor>V\<rfloor> div 2)) \<le> V" "V < of_int (2 * (\<lfloor>V\<rfloor> div 2)) + 2"
    using f r [of "\<lfloor>V\<rfloor>"] by linarith+
  have "of_int (2 * ((\<lfloor>V\<rfloor> + 1) div 2)) \<le> V + 1" "V - 1 \<le> of_int (2 * ((\<lfloor>V\<rfloor> + 1) div 2))"
    using f r [of "\<lfloor>V\<rfloor> + 1"] by linarith+
  then show "\<bar>of_int (2 * ((\<lfloor>V\<rfloor> + 1) div 2)) - V\<bar> \<le> 1" by linarith
qed

lemma fdv_of_quotient:
  assumes ab: "0 < uint a" "uint a < 2 * uint b" "uint b < 2 ^ 27"
    and q: "push_bit 28 a div b \<noteq> 0" and big: "2 ^ 26 \<le> uint a"
    and r: "fdv_of ir neg sc a b = (fxu, e, v)"
  obtains m t where "t \<le> 1" and "e = sc - 1 + int t" and "2 ^ 26 \<le> uint m" and "uint m < 2 ^ 27"
    and "uint m = (2 ^ (28 - t) * uint a div uint b + of_bool (tst ir 4)) div 2"
    and "v = (if neg then (((m XOR MMASK) + 1) AND MMASK) OR SMASK else m)"
proof -
  obtain f e0 m where h: "fdv_halve ir sc (push_bit 28 a div b) = (f, e0, m)" by (metis prod_cases3)
  obtain t where t: "t \<le> 1" "e0 = sc - 1 + int t"
    "uint m = (2 ^ (28 - t) * uint a div uint b + of_bool (tst ir 4)) div 2"
    "0 < uint m" "uint m < 2 ^ 27" "uint b \<le> uint a \<longleftrightarrow> t = 1"
    using fdv_halve_spec [OF ab h] by metis
  have b: "0 < uint b" using ab by linarith
  have "2 ^ 27 \<le> 2 ^ (28 - t) * uint a div uint b"
  proof (cases "t = 1")
    case True
    then show ?thesis using t(6) unfolding le_zdiv [OF b] by simp
  next
    case False
    then have "t = 0" using t(1) by simp
    then show ?thesis using big ab(3) unfolding le_zdiv [OF b] by simp
  qed
  then have m: "2 ^ 26 \<le> uint m" unfolding t(3) by (auto simp: of_bool_def)
  have "\<not> up_guard (e0, m)" using m bit_top [of m 26] t(5) by (simp add: up_guard_def tst_bits)
  then have "shift_up (e0, m) = (e0, m)" unfolding shift_up_while by (subst while_unfold) simp
  then have N: "fdv_norm ir sc (push_bit 28 a div b) = (f, e0, m)" by (simp add: fdv_norm_def h)
  have "fdv_of ir neg sc a b = (f, e0, if neg then (((m XOR MMASK) + 1) AND MMASK) OR SMASK else m)"
    unfolding fdv_of_def Let_def if_P [OF q] N prod.case ..
  then have "e = e0" and v: "v = (if neg then (((m XOR MMASK) + 1) AND MMASK) OR SMASK else m)"
    unfolding r prod.inject by blast+
  have e: "e = sc - 1 + int t" unfolding \<open>e = e0\<close> by (rule t(2))
  show thesis using that [OF t(1) e m t(5) t(3) v] .
qed

lemma fdv_rounds:
  assumes w: "wf36 x" "wf36 y" and n: "normal (fraction x)" "normal (fraction y)"
    and s: "fdv_setup x y = (neg, sc, a, b)" and r: "fdv_of ir neg sc a b = (fxu, e, v)"
    and e: "0 \<le> e" "e < 256"
  shows "\<not> push_bit 1 b \<le> a \<and> rounded_mag ir (put_expo e v) (fval x / fval y)"
proof -
  have nz: "x AND MMASK \<noteq> 0" "y AND MMASK \<noteq> 0"
    using n unfolding fraction_zero [symmetric] normal_def by auto
  have z: "\<not> (x AND MMASK = 0 \<and> x \<noteq> SMASK)" using nz by simp
  note S = fdv_setup_spec [OF w z s]
  have A: "uint a = \<bar>fraction x\<bar>" "uint b = \<bar>fraction y\<bar>" "neg = ((fraction x < 0) \<noteq> (fraction y < 0))"
    "sc = (get_expo x - get_expo y + 129) mod 512" using S(4) nz by auto
  have rg: "2 ^ 26 \<le> uint a" "uint a < 2 ^ 27" "2 ^ 26 \<le> uint b" "uint b < 2 ^ 27"
    using n unfolding A normal_def by auto
  then have ab: "0 < uint a" "uint a < 2 * uint b" "uint b < 2 ^ 27" by simp_all
  then have d: "\<not> push_bit 1 b \<le> a" using S(3) by simp
  obtain m t where t: "t \<le> 1" "e = sc - 1 + int t" "2 ^ 26 \<le> uint m" "uint m < 2 ^ 27"
    "uint m = (2 ^ (28 - t) * uint a div uint b + of_bool (tst ir 4)) div 2"
    "v = (if neg then (((m XOR MMASK) + 1) AND MMASK) OR SMASK else m)"
    using fdv_of_quotient [OF ab fdv_quotient(1) [OF w z s d] rg(1) r] by metis
  have m0: "0 < uint m" using t(3) by simp
  note M = negated_fraction [OF m0 t(4)]
  have P: "get_expo (put_expo e v) = e" "fraction (put_expo e v) = (if neg then - uint m else uint m)"
    using put_expo_fields [of v e] M(3,4) e unfolding t(6) M(1,2) by (auto simp: M(1,2))
  have g: "- 512 \<le> get_expo x - get_expo y + 129" "get_expo x - get_expo y + 129 < 512"
    using get_expo_range [of x] get_expo_range [of y] by linarith+
  have ex: "sc = get_expo x - get_expo y + 129"
    using A(4) e t(1,2) get_expo_range [of x] get_expo_range [of y] unfolding mod_512 [OF g] by (auto split: if_splits)
  define V where "V = 2 ^ (28 - t) * real_of_int (uint a) / real_of_int (uint b)"
  have V: "\<lfloor>V\<rfloor> = 2 ^ (28 - t) * uint a div uint b"
    unfolding V_def using floor_divide_of_int_eq [of "2 ^ (28 - t) * uint a" "uint b"] by simp
  define u where "u = (2 :: real) powi (e - 155)"
  have u: "0 < u" unfolding u_def by (intro zero_less_power_int) simp
  define c where "c = (if neg then - 1 else 1 :: real)"
  have fw: "fval (put_expo e v) = c * (of_int (uint m) * u)"
    by (simp add: fval_def P fv_def u_def c_def)
  have fq: "fval x / fval y = c * (V / 2 * u)"
  proof -
    have k: "real_of_int (fraction x) / real_of_int (fraction y) = c * (real_of_int (uint a) / real_of_int (uint b))"
      unfolding A(1,2,3) c_def by (auto simp: abs_if)
    have "2 ^ (28 - t) / 2 * u = 2 powi (get_expo x - get_expo y)"
    proof -
      have "get_expo x - get_expo y = int (27 - t) + (e - 155)" using t(1,2) ex by (simp add: of_nat_diff)
      then have "2 powi (get_expo x - get_expo y) = 2 ^ (27 - t) * u"
        by (simp add: power_int_add u_def)
      moreover have "28 - t = Suc (27 - t)" using t(1) by simp
      ultimately show ?thesis by simp
    qed
    moreover have "V / 2 * u = real_of_int (uint a) / real_of_int (uint b) * (2 ^ (28 - t) / 2 * u)"
      by (simp add: V_def)
    ultimately have "V / 2 * u = real_of_int (uint a) / real_of_int (uint b) * 2 powi (get_expo x - get_expo y)"
      by simp
    moreover have "fval x / fval y = real_of_int (fraction x) / real_of_int (fraction y) * 2 powi (get_expo x - get_expo y)"
      by (simp add: fval_def fv_def power_int_diff field_simps)
    ultimately show ?thesis unfolding k by simp
  qed
  have "0 < uint b" using ab by linarith
  then have Vpos: "0 < V"
    unfolding V_def using ab(1) by (intro divide_pos_pos mult_pos_pos) (simp_all only: of_int_0_less_iff zero_less_power zero_less_numeral)
  have sg: "fval (put_expo e v) < 0 \<longleftrightarrow> fval x / fval y < 0"
  proof -
    have "0 < real_of_int (uint m) * u" "0 < V / 2 * u"
      using m0 u Vpos by (simp_all only: of_int_0_less_iff mult_pos_pos half_gt_zero)
    moreover have "c * X < 0 \<longleftrightarrow> c * Y < 0" if "0 < X" "0 < Y" for X Y
      using that unfolding c_def by (cases neg) simp_all
    ultimately show ?thesis unfolding fw fq by blast
  qed
  have nm: "normal (fraction (put_expo e v))" unfolding P normal_def using t(3,4) by auto
  have ab2: "\<bar>c * (i * u)\<bar> = i * u" "\<bar>c * (i * u) - c * (j * u)\<bar> = \<bar>i - j\<bar> * u" if "0 \<le> i" for i j
    using u that unfolding c_def by (auto simp: abs_mult abs_minus_commute simp flip: left_diff_distrib)
  have "if tst ir 4 then 2 * (\<bar>of_int (uint m) - V / 2\<bar> * u) \<le> u
    else of_int (uint m) * u \<le> V / 2 * u \<and> V / 2 * u < of_int (uint m) * u + u"
  proof (cases "tst ir 4")
    case True
    then have "uint m = (\<lfloor>V\<rfloor> + 1) div 2" using t(5) unfolding V by simp
    then have "\<bar>of_int (2 * uint m) - V\<bar> \<le> 1" using half_floor(3) [of V] by simp
    moreover have "2 * \<bar>of_int (uint m) - V / 2\<bar> = \<bar>of_int (2 * uint m) - V\<bar>"
      by (simp add: abs_if)
    ultimately have "2 * \<bar>of_int (uint m) - V / 2\<bar> \<le> 1" by linarith
    then have "(2 * \<bar>of_int (uint m) - V / 2\<bar>) * u \<le> 1 * u" using u by (intro mult_right_mono) simp_all
    then show ?thesis using True by simp
  next
    case False
    then have "uint m = \<lfloor>V\<rfloor> div 2" using t(5) unfolding V by simp
    then have "of_int (uint m) \<le> V / 2" "V / 2 < of_int (uint m) + 1"
      using half_floor(1,2) [of V] by simp_all
    then have "of_int (uint m) * u \<le> V / 2 * u" "V / 2 * u < (of_int (uint m) + 1) * u"
      using u by (simp_all only: mult_right_mono mult_strict_right_mono less_imp_le)
    then show ?thesis using False by (simp add: distrib_right)
  qed
  note main = this
  have X: "0 \<le> real_of_int (uint m)" "0 \<le> V / 2"
    using m0 Vpos by (simp_all only: of_int_0_le_iff less_imp_le half_gt_zero)
  show ?thesis
    using d nm sg main
    unfolding rounded_mag_def P(1) u_def [symmetric] fw fq ab2(1) [OF X(1)] ab2(1) [OF X(2)] ab2(2) [OF X(1)]
    by blast
qed

section \<open>The loops of DFMP and DFDV\<close>

lemma dfdv_loop_quotient:
  assumes "uint a < 2 * uint b" and "uint b \<le> 2 ^ 62" and "(uint ad + 1) * 2 ^ n \<le> 2 ^ 63"
  shows "uint (dfdv_loop n ad a b) = uint ad * 2 ^ n + uint a * 2 ^ n div (2 * uint b)"
  using assms
proof (induction n arbitrary: ad a)
  case 0
  then show ?case using uint_ge_0 [of a] by (simp add: div_pos_pos_trivial)
next
  case (Suc n)
  have b: "0 < uint b" using Suc.prems(1) uint_ge_0 [of a] by linarith
  have "uint ad + 1 \<le> (uint ad + 1) * 2 ^ n" using mult_left_mono [of 1 "2 ^ n" "uint ad + 1"] by simp
  moreover have "(uint ad + 1) * 2 ^ n \<le> 2 ^ 62" using Suc.prems(3) by simp
  ultimately have adn: "uint ad < 2 ^ 62" by linarith
  have ad: "uint (push_bit 1 ad) = 2 * uint ad" using uint_push64 [of ad 1] adn by simp
  have odd: "uint (push_bit 1 ad OR 1) = 2 * uint ad + 1"
  proof -
    have "\<not> bit (push_bit 1 ad) 0" unfolding bit_push_bit_iff by simp
    then have "push_bit 1 ad OR 1 = push_bit 1 ad + 1" using or_low_bit [of "push_bit 1 ad" True] by simp
    moreover have "uint (push_bit 1 ad + 1) = uint (push_bit 1 ad) + 1"
      using uint_add64 [of "push_bit 1 ad" 1] ad adn by simp
    ultimately show ?thesis using ad by simp
  qed
  have ih: "uint (dfdv_loop n d c b) = uint d * 2 ^ n + uint c * 2 ^ n div (2 * uint b)"
    if "uint c < 2 * uint b" "uint d \<le> 2 * uint ad + 1" for c d
  proof (rule Suc.IH [OF that(1) Suc.prems(2)])
    have "(uint d + 1) * 2 ^ n \<le> (2 * (uint ad + 1)) * 2 ^ n"
      using that(2) by (intro mult_right_mono) simp_all
    also have "\<dots> = (uint ad + 1) * 2 ^ Suc n" by simp
    finally show "(uint d + 1) * 2 ^ n \<le> 2 ^ 63" using Suc.prems(3) by linarith
  qed
  show ?case
  proof (cases "b \<le> a")
    case True
    have s: "uint (a - b) = uint a - uint b" using True by (simp add: uint_minus_simple_alt)
    have lt: "uint a - uint b < 2 ^ 62" using Suc.prems(1,2) by simp
    have p: "uint (push_bit 1 (a - b)) = 2 * (uint a - uint b)"
      using uint_push64 [of "a - b" 1] s lt by simp
    have c1: "uint (push_bit 1 (a - b)) < 2 * uint b" unfolding p using Suc.prems(1) by simp
    have c2: "uint (push_bit 1 ad OR 1) \<le> 2 * uint ad + 1" using odd by (rule eq_refl)
    have "uint (dfdv_loop (Suc n) ad a b) = uint (dfdv_loop n (push_bit 1 ad OR 1) (push_bit 1 (a - b)) b)"
      using True by (simp add: Let_def)
    also have "\<dots> = (2 * uint ad + 1) * 2 ^ n + 2 * (uint a - uint b) * 2 ^ n div (2 * uint b)"
      unfolding p [symmetric] odd [symmetric] by (rule ih [OF c1 c2])
    also have "2 * (uint a - uint b) * 2 ^ n = uint a * 2 ^ Suc n + (- (2 ^ n)) * (2 * uint b)"
      by (simp add: algebra_simps)
    also have "\<dots> div (2 * uint b) = - (2 ^ n) + uint a * 2 ^ Suc n div (2 * uint b)"
      using b by (intro div_mult_self1) simp
    finally show ?thesis by (simp add: algebra_simps)
  next
    case False
    then have lt: "uint a < uint b" by (simp add: word_le_def)
    have p: "uint (push_bit 1 a) = 2 * uint a" using uint_push64 [of a 1] lt Suc.prems(2) by simp
    have c1: "uint (push_bit 1 a) < 2 * uint b" unfolding p using lt by simp
    have c2: "uint (push_bit 1 ad) \<le> 2 * uint ad + 1" unfolding ad by simp
    have "uint (dfdv_loop (Suc n) ad a b) = uint (dfdv_loop n (push_bit 1 ad) (push_bit 1 a) b)"
      using False by (simp add: Let_def)
    also have "\<dots> = 2 * uint ad * 2 ^ n + 2 * uint a * 2 ^ n div (2 * uint b)"
      unfolding p [symmetric] ad [symmetric] by (rule ih [OF c1 c2])
    finally show ?thesis by (simp add: algebra_simps)
  qed
qed

lemma dfmp_loop_product:
  assumes "uint ar < 2 ^ 63" and "uint arx < 2 ^ 63"
  shows "uint (fst (dfmp_loop n ar (arx, br, mq))) = (uint arx + uint ar * (uint br mod 2 ^ n)) div 2 ^ n"
  using assms(2)
proof (induction n arbitrary: arx br mq)
  case (Suc n)
  define s where "s = (if tst br 1 then arx + ar else arx)"
  have t: "tst br 1 \<longleftrightarrow> odd (uint br)" by (rule tst_one)
  have s: "uint s = uint arx + uint ar * (uint br mod 2)"
    unfolding s_def t using uint_add64 [of arx ar] assms(1) Suc.prems
    by (auto simp: odd_iff_mod_2_eq_one even_iff_mod_2_eq_zero)
  have half: "uint (drop_bit 1 s) = uint s div 2" "uint (drop_bit 1 br) = uint br div 2"
    using uint_drop64 [of 1] by simp_all
  have "uint s < 2 ^ 64" using uint_lt2p [of s] by simp
  then have lt: "uint (drop_bit 1 s) < 2 ^ 63" unfolding half by simp
  have "uint (fst (dfmp_loop (Suc n) ar (arx, br, mq))) = (uint s div 2 + uint ar * (uint br div 2 mod 2 ^ n)) div 2 ^ n"
    using Suc.IH [OF lt, of "drop_bit 1 br"] by (simp add: Let_def s_def [symmetric] half [unfolded One_nat_def])
  also have "\<dots> = (uint s + 2 * (uint ar * (uint br div 2 mod 2 ^ n))) div 2 div 2 ^ n"
    by (simp add: add.commute)
  also have "\<dots> = (uint s + 2 * (uint ar * (uint br div 2 mod 2 ^ n))) div 2 ^ Suc n"
    using zdiv_zmult2_eq [of "2 ^ n" _ 2] by simp
  also have "uint s + 2 * (uint ar * (uint br div 2 mod 2 ^ n)) = uint arx + uint ar * (uint br mod 2 ^ Suc n)"
  proof -
    have "uint br mod 2 ^ Suc n = 2 * (uint br div 2 mod 2 ^ n) + uint br mod 2"
      using zmod_zmult2_eq [of "2 ^ n" "uint br" 2] by simp
    then show ?thesis by (simp add: s algebra_simps)
  qed
  finally show ?case .
qed simp

end
