(* ===== verification/Properties_Float.thy ===== *)
theory Properties_Float
  imports Float_Arith
begin

text \<open>
  The properties of the floating-point instructions, each with an instance at concrete operands.
\<close>

unbundle bit_operations_syntax

section \<open>Single precision\<close>

lemmas float_eval = fraction_def normal_def wf36_uint get_expo_def tst_def

text \<open>
  C3: FMP and FMPR: if the exponent of the result is in range, the word stored is normalized and
  is the exact product rounded to a nearest floating-point number (FMPR) or the next number below
  it (FMP), for all operands that are not zero, normalized or not.
\<close>

theorem fmp_correctly_rounded:
  assumes "wf36 x" "fraction x \<noteq> 0" and "wf36 y" "fraction y \<noteq> 0"
    and "fmp_of x y = (neg, sc, p)" and "float_word ir neg sc p = (e, fxu, w, mq)"
    and "ir \<noteq> 0x58" and "0 \<le> e" and "e < 256"
  shows "rounded_to ir w (fval x * fval y)"
  using assms by (rule fmp_rounds)

theorem fmp_correctly_rounded_witness: "rounded_to 0x74 0x41F800000 (fval 0x415000000 * fval 0x416000000)"
proof -
  have p: "fmp_of 0x415000000 0x416000000 = (False, 132, 1080863910568919040)"
    by code_simp
  have r: "float_word 0x74 False 132 1080863910568919040 = (131, True, 0x41F800000, 0)"
    by code_simp
  show ?thesis
    by (rule fmp_correctly_rounded [OF _ _ _ _ p r]) (simp_all add: float_eval)
qed

text \<open>
  C4: FAD and FADR, and FSB, which adds the negated word: when the exponents of the operands
  differ by at most 27, the alignment loses no bit, the sum that enters the normalization is exact,
  and the word stored is that sum rounded or truncated. Swapping the operands and choosing the
  shift from exponents that are complemented in negative words are part of it.
\<close>

theorem fad_correctly_rounded:
  assumes "wf36 x" "wf36 y" and "\<bar>get_expo x - get_expo y\<bar> \<le> 27" and "fval x + fval y \<noteq> 0"
    and "fadd_of x y = (sc, v)" and "float_word ir (tst v FPSBIT) sc v = (e, fxu, z, mq)"
    and "ir \<noteq> 0x58" and "0 \<le> e" and "e < 256"
  shows "rounded_to ir z (fval x + fval y)"
  using assms by (rule fad_rounds)

theorem fad_correctly_rounded_witness:
  "rounded_to 0x64 51061456896 (fval 0x415000000 + fval 0xBDC800000)"
proof -
  have v: "fadd_of 0x415000000 0xBDC800000 = (132, 17798225727368200192)" by code_simp
  have r: "float_word 0x64 (tst 17798225727368200192 FPSBIT) 132 17798225727368200192
    = (131, True, 51061456896, 0)"
    by code_simp
  show ?thesis
    by (rule fad_correctly_rounded [OF _ _ _ _ v r]) (simp_all add: float_eval fval_def fv_def)
qed

text \<open>
  C5: FDV and FDVR of normalized operands: the division is never refused, and if the exponent of the
  result is in range the word stored is the exact quotient rounded to a nearest floating-point
  number, or, for FDV, cut off towards zero.
\<close>

theorem fdv_correctly_rounded:
  assumes "wf36 x" "wf36 y" and "normal (fraction x)" "normal (fraction y)"
    and "fdv_setup x y = (neg, sc, a, b)" and "fdv_of ir neg sc a b = (fxu, e, v)"
    and "0 \<le> e" and "e < 256"
  shows "\<not> push_bit 1 b \<le> a \<and> rounded_mag ir (put_expo e v) (fval x / fval y)"
  using assms by (rule fdv_rounds)

theorem fdv_correctly_rounded_witness:
  "rounded_mag 0x7C (put_expo 128 111848107) (fval 0x415000000 / fval 0x416000000)"
proof -
  have s: "fdv_setup 0x415000000 0x416000000 = (False, 129, 83886080, 100663296)" by code_simp
  have r: "fdv_of 0x7C False 129 83886080 100663296 = (True, 128, 111848107)" by code_simp
  show ?thesis
    using fdv_correctly_rounded [OF _ _ _ _ s r] by (simp add: float_eval)
qed

text \<open>
  the loop of FDV that shifts the quotient up ends: for operands of any kind, normalized or not,
  a division that is not refused has a quotient that is not zero, and its loop, which would run for
  ever on a number without a bit at or below the place it waits for, returns.
\<close>

theorem fdv_loop_ends:
  assumes "wf36 x" "wf36 y" and "\<not> (x AND MMASK = 0 \<and> x \<noteq> SMASK)"
    and "fdv_setup x y = (neg, sc, a, b)" and "\<not> push_bit 1 b \<le> a"
  shows "push_bit 28 a div b \<noteq> 0
    \<and> (\<exists>t. while_option up_guard up_body (snd (fdv_halve ir sc (push_bit 28 a div b))) = Some t)"
  using fdv_quotient [OF assms] by blast

theorem fdv_loop_ends_witness:
  "\<exists>t. while_option up_guard up_body (snd (fdv_halve 0x7C 129 (push_bit 28 3 div 5))) = Some t"
proof -
  have s: "fdv_setup 3 5 = (False, 129, 3, 5)" by code_simp
  show ?thesis using fdv_loop_ends [OF _ _ _ s] by (simp add: wf36_uint)
qed

text \<open>
  C6: FIX and FIXR return the integer part of the number, towards zero, and the nearest integer, as
  a 36-bit word, for every word; they refuse exactly the words whose exponent is 164 or more.
\<close>

theorem fix_is_integer_part:
  assumes "wf36 x"
  shows "fix_of ir x = (if 164 \<le> get_expo x then None else Some (wrap36 (fix_ref ir (fval x))))"
  using assms by (rule fix_of_real)

theorem fix_is_integer_part_witness: "fix_ref 0x56 (fval 0x415000000) mod 2 ^ 36 = 3"
proof -
  have "fix_of 0x56 0x415000000 = Some 3" by code_simp
  moreover have "wf36 0x415000000" "\<not> 164 \<le> get_expo 0x415000000" by (simp_all add: float_eval)
  ultimately have "wrap36 (fix_ref 0x56 (fval 0x415000000)) = 3"
    using fix_is_integer_part [of "0x415000000" "0x56"] by simp
  then show ?thesis using uint_wrap36 [of "fix_ref 0x56 (fval 0x415000000)"] by simp
qed

text \<open>
  FLTR is always in range and rounds its operand correctly.
\<close>

theorem fltr_correctly_rounded:
  assumes "wf36 x" "x \<noteq> 0" and "fltr_of x = (neg, v)" and "float_word 0x57 neg 162 v = (e, fxu, z, mq)"
  shows "0 \<le> e \<and> e < 256 \<and> rounded_to 0x57 z (of_int (sval x))"
  using assms by (rule fltr_rounds)

theorem fltr_correctly_rounded_witness: "rounded_to 0x57 22011707391 (of_int (sval 0x7FFFFFF01))"
proof -
  have v: "fltr_of 0x7FFFFFF01 = (False, 4611685984201867264)" by code_simp
  have r: "float_word 0x57 False 162 4611685984201867264 = (163, True, 22011707391, 67108864)" by code_simp
  show ?thesis using fltr_correctly_rounded [OF _ _ v r] by (simp add: wf36_uint)
qed

text \<open>
  C7: FIX undoes FLTR, whether it rounds or not, for every integer that a fraction can hold (the
  extreme ones apart).
\<close>

theorem fix_undoes_fltr:
  assumes "wf36 x" "x \<noteq> 0" "\<bar>sval x\<bar> < 2 ^ 27 - 1" and "fltr_of x = (neg, v)"
    and "float_word 0x57 neg 162 v = (e, fxu, z, mq)"
  shows "fix_of ir z = Some x"
  using assms by (rule fix_of_fltr)

theorem fix_undoes_fltr_witness: "fix_of 0x52 50264539136 = Some 0xFFFFFFF00"
proof -
  have v: "fltr_of 0xFFFFFFF00 = (True, 18446744039349813248)" by code_simp
  have r: "float_word 0x57 True 162 18446744039349813248 = (137, True, 50264539136, 0)" by code_simp
  show ?thesis by (rule fix_undoes_fltr [OF _ _ _ v r]) (simp_all add: wf36_uint sval_def)
qed

section \<open>Double precision\<close>

text \<open>
  the 62 turns of the DFDV loop compute the quotient of the dividend, shifted 61 places, by the
  divisor, for every dividend that passes the test before the loop.
\<close>

theorem dfdv_quotient_exact:
  assumes "uint a < 2 * uint b" and "uint b \<le> 2 ^ 62"
  shows "uint (dfdv_loop 62 0 a b) = 2 ^ 61 * uint a div uint b"
  using dfdv_loop_quotient [OF assms, of 0 62] by simp

theorem dfdv_quotient_exact_witness: "uint (dfdv_loop 62 0 5 3) = 2 ^ 61 * 5 div 3"
  using dfdv_quotient_exact [of 5 3] by simp

text \<open>
  the 62 turns of the DFMP loop leave the high half of the exact product of the two magnitudes.
\<close>

theorem dfmp_product_exact:
  assumes "uint a < 2 ^ 63" and "uint b < 2 ^ 62"
  shows "uint (fst (dfmp_loop 62 a (0, b, mq))) = uint a * uint b div 2 ^ 62"
  using dfmp_loop_product [OF assms(1), of 0 62 b mq] assms(2) by simp

theorem dfmp_product_exact_witness:
  "uint (fst (dfmp_loop 62 0x2000000000000000 (0, 0x3000000000000000, 7))) = 2 ^ 61 * (3 * 2 ^ 60) div 2 ^ 62"
  using dfmp_product_exact [of "0x2000000000000000" "0x3000000000000000" 7] by simp

end
