(* ===== verification/Cycle.thy ===== *)
theory Cycle
  imports Double_Float Mul_Div Shifts
begin

text \<open>
  The I/O instructions (opcodes 700 to 777), the dispatch on the opcode, and the instruction
  cycle of \<open>sim_instr\<close> in \<open>PDP10/kx10_cpu.c\<close>, KI10 build: instruction fetch, traps,
  the effective-address loop, the entry to an interrupt, and the end of the cycle with page
  failures and the dismissal of interrupts.

  The cycle is cut at the two places control comes back to: the head of the loop, \<open>Top\<close>,
  and the label \<open>no_fetch\<close>, \<open>Decode\<close>, where the instruction is in \<open>MB\<close>.
  \<open>cycle_step\<close> runs from one such point to the next; it is \<open>None\<close> where the code does
  not come back (an indirect chain without end).
\<close>

unbundle bit_operations_syntax

section \<open>Input and output\<close>

definition basic_dev_tab ::
    "(cpu \<Rightarrow> cpu) \<Rightarrow> (nat \<Rightarrow> u32 \<Rightarrow> u64 \<Rightarrow> cpu \<Rightarrow> u64 \<times> cpu)
     \<Rightarrow> nat \<Rightarrow> u32 \<Rightarrow> u64 \<Rightarrow> cpu \<Rightarrow> u64 \<times> cpu" where
  \<comment> \<open>the devices \<open>build_dev_tab\<close> always enters, over those of the peripherals\<close>
  "basic_dev_tab io_reset others d =
     (if d = 0 then dev_apr io_reset else if d = 1 then dev_pi else if d = 2 then dev_pag
      else others d)"

definition skip_next :: "cpu \<Rightarrow> cpu" where
  \<comment> \<open>\<open>PC = (PC + 1) & RMASK\<close>\<close>
  "skip_next s = s\<lparr>PC := (PC s + 1) AND 0x3FFFF\<rparr>"

definition iot_op :: "'e env_scheme \<Rightarrow> nat \<Rightarrow> u32 \<Rightarrow> u64 \<Rightarrow> cpu \<Rightarrow> cpu" where
  \<comment> \<open>\<open>switch (AC & 07)\<close> but for the block transfers; \<open>ar\<close> is \<open>AR\<close>\<close>
  "iot_op e d fn ar s =
     (let io = (\<lambda>f v s. dev_tab e d (f OR push_bit 2 (of_nat d)) v s)
      in if fn = 1 then
           (let (v, s) = io DATAI ar s in mem_wr (pi_cycle s) False (s\<lparr>MB := v\<rparr>) (\<lambda>s. s))
         else if fn = 3 then
           mem_rd (pi_cycle s) False False False s (\<lambda>s. snd (io DATAO (MB s) s))
         else if fn = 4 then snd (io CONO ar s)
         else if fn = 5 then
           (let (v, s) = io CONI ar s in mem_wr (pi_cycle s) False (s\<lparr>MB := v\<rparr>) (\<lambda>s. s))
         else if fn = 6 then
           (let (v, s) = io CONI ar s in if v AND ucast (AB s) = 0 then skip_next s else s)
         else
           (let (v, s) = io CONI ar s in if v AND ucast (AB s) \<noteq> 0 then skip_next s else s))"

definition iot_block :: "'e env_scheme \<Rightarrow> nat \<Rightarrow> cpu \<Rightarrow> cpu" where
  \<comment> \<open>BLKI and BLKO: step the pointer word, then DATAI or DATAO\<close>
  "iot_block e d s =
     mem_rd (pi_cycle s) False False False s (\<lambda>s.
       let ar = AOB (MB s);
           s = s\<lparr>AC := AC s OR 1\<rparr>;
           s = (if tst ar C1 then s\<lparr>pi_ov := True\<rparr> else if \<not> pi_cycle s then skip_next s else s);
           ar = ar AND FMASK
       in mem_wr (pi_cycle s) False (s\<lparr>MB := ar\<rparr>) (\<lambda>s.
            iot_op e d (AC s AND 7) ar (s\<lparr>AB := ucast (ar AND RMASK)\<rparr>)))"

definition iot_refused :: "cpu \<Rightarrow> bool" where
  "iot_refused s \<longleftrightarrow> \<not> pi_cycle s
     \<and> (FLAGS s AND (USER OR USERIO) = USER \<and> \<not> tst (IR s) 0x20
        \<or> FLAGS s AND (USER OR PUBLIC) = PUBLIC \<and> tst (IR s) 0x3E)"

definition iot_dev :: "cpu \<Rightarrow> nat" where
  \<comment> \<open>\<open>((IR & 077) << 1) | ((AC & 010) != 0)\<close>\<close>
  "iot_dev s = 2 * unat (IR s AND 0x3F) + (if tst (AC s) 8 then 1 else 0)"

definition exec_iot :: "'e env_scheme \<Rightarrow> cpu \<Rightarrow> cpu" where
  "exec_iot e s =
     (if iot_refused s then exec_muuo s
      else if AC s AND 7 = 0 \<or> AC s AND 7 = 2 then iot_block e (iot_dev s) s
      else iot_op e (iot_dev s) (AC s AND 7) (AR s AND RMASK) s)"

section \<open>Dispatch\<close>

datatype exit = Last | Again
  \<comment> \<open>the label \<open>last\<close>, or \<open>goto no_fetch\<close>\<close>

definition at_last :: "cpu \<Rightarrow> (exit \<times> cpu) option" where
  "at_last s = Some (Last, s)"

definition is_float :: "nat \<Rightarrow> bool" where
  \<comment> \<open>the floating-point instructions 110 to 113, 122, 126, 127, 130 to 132, 140 to 177\<close>
  "is_float ir \<longleftrightarrow> 72 \<le> ir \<and> ir \<le> 75 \<or> ir = 82 \<or> ir = 86 \<or> ir = 87 \<or> 88 \<le> ir \<and> ir \<le> 90
     \<or> 96 \<le> ir \<and> ir \<le> 127"

definition exec_low :: "nat \<Rightarrow> cpu \<Rightarrow> (exit \<times> cpu) option" where
  \<comment> \<open>opcodes 000 to 177\<close>
  "exec_low ir s =
     (if 1 \<le> ir \<and> ir \<le> 31
      then (case exec_luuo s of (again, s) \<Rightarrow> Some (if again then Again else Last, s))
      else if ir = 69 then at_last s
      else if is_float ir then at_last (exec_float ir s)
      else if ir = 80 then at_last (exec_dmove s)
      else if ir = 81 then at_last (exec_dmovn s)
      else if ir = 84 then at_last (exec_dmovem s)
      else if ir = 85 then at_last (exec_dmovnm s)
      else if ir = 91 \<or> ir = 92 \<or> ir = 94 then at_last (exec_ildb s)
      else if ir = 93 \<or> ir = 95 then at_last (exec_ldb s)
      else at_last (exec_muuo s))"

definition exec_arith :: "nat \<Rightarrow> cpu \<Rightarrow> cpu" where
  \<comment> \<open>opcodes 200 to 246\<close>
  "exec_arith ir s =
     (if ir < 144 then exec_move (ir - 128) s
      else if ir < 152 then exec_mul s
      else if ir < 156 then exec_idiv s
      else if ir < 160 then exec_div s
      else if ir = 160 then exec_ash s
      else if ir = 161 then exec_rot s
      else if ir = 162 then exec_lsh s
      else if ir = 163 then exec_jffo s
      else if ir = 164 then exec_ashc s
      else if ir = 165 then exec_rotc s
      else exec_lshc s)"

definition exec_control :: "nat \<Rightarrow> cpu \<Rightarrow> cpu" where
  \<comment> \<open>opcodes 247 to 277, without BLT\<close>
  "exec_control ir s =
     (if ir = 167 then exec_muuo s
      else if ir = 168 then exec_exch s
      else if ir = 170 then exec_aobjp s
      else if ir = 171 then exec_aobjn s
      else if ir = 172 then exec_jrst s
      else if ir = 173 then exec_jfcl s
      else if ir = 174 then exec_xct s
      else if ir = 175 then exec_map s
      else if ir = 176 then exec_pushj s
      else if ir = 177 then exec_push s
      else if ir = 178 then exec_pop s
      else if ir = 179 then exec_popj s
      else if ir = 180 then exec_jsr s
      else if ir = 181 then exec_jsp s
      else if ir = 182 then exec_jsa s
      else if ir = 183 then exec_jra s
      else if ir < 188 then exec_add s
      else exec_sub s)"

definition exec_high :: "'e env_scheme \<Rightarrow> nat \<Rightarrow> cpu \<Rightarrow> cpu" where
  \<comment> \<open>opcodes 300 to 777\<close>
  "exec_high e ir s =
     (if ir < 200 then exec_cai s
      else if ir < 208 then exec_cam s
      else if ir < 216 then exec_jump s
      else if ir < 224 then exec_skip s
      else if ir < 256
      then (if ir < 232 \<or> 240 \<le> ir \<and> ir < 248 then exec_aoj_soj s else exec_aos_sos s)
      else if ir < 320 then exec_bool (ir - 256) s
      else if ir < 384 then exec_half (ir - 320) s
      else if ir < 448 then exec_test s
      else exec_iot e s)"

definition execute :: "env \<Rightarrow> cpu \<Rightarrow> (exit \<times> cpu) option" where
  \<comment> \<open>\<open>switch (IR)\<close>\<close>
  "execute e s =
     (let ir = unat (IR s)
      in if ir < 128 then exec_low ir s
         else if ir < 167 then at_last (exec_arith ir s)
         else if ir = 169 then map_option (Pair Last) (exec_blt e s)
         else if ir < 192 then at_last (exec_control ir s)
         else at_last (exec_high e ir s))"

lemma execute_again: "execute e s = Some (Again, t) \<Longrightarrow> t = snd (exec_luuo s)"
  by (auto simp: execute_def exec_low_def at_last_def Let_def split: if_splits prod.splits)

section \<open>Effective address\<close>

datatype ea_exit = More | Done | Faulted | Broken
  \<comment> \<open>another turn of the loop, its end, \<open>goto last\<close>, \<open>return reason\<close>\<close>

definition ea_index :: "cpu \<Rightarrow> cpu" where
  \<comment> \<open>\<open>AR = MB\<close>, \<open>AB = MB & RMASK\<close> and the index register\<close>
  "ea_index s =
     (let ix = ucast (drop_bit 18 (MB s)) AND 0xF;
          ab = MB s AND RMASK
      in if ix \<noteq> 0 then
           (let v = (ab + get_reg ix s) AND FMASK
            in s\<lparr>AR := v, MB := v, AB := ucast (v AND RMASK)\<rparr>)
         else s\<lparr>AR := MB s, AB := ucast ab\<rparr>)"

definition ea_events :: "env \<Rightarrow> bool \<Rightarrow> cpu \<Rightarrow> ea_exit \<times> cpu" where
  \<comment> \<open>the event queue and the interrupt request at the end of a turn\<close>
  "ea_events e ind s =
     (let s = s\<lparr>sim_interval := sim_interval s - 1\<rparr>;
          (r, s) = (if sim_interval s \<le> 0
                    then (let (r, s) = process_event e s in (r, s\<lparr>reason := r\<rparr>))
                    else (0, s))
      in if r \<noteq> 0 then (Broken, s)
         else
           (let s = (if \<not> pi_cycle s \<and> pi_pending s \<and> trap_flag s = 0
                     then (let (rq, s) = check_irq_level s in s\<lparr>pi_rq := rq\<rparr>)
                     else s)
            in (if ind \<and> \<not> pi_rq s then More else Done, s)))"

definition ea_step :: "env \<Rightarrow> cpu \<Rightarrow> ea_exit \<times> cpu" where
  "ea_step e s =
     (let ind = bit (MB s) 22;
          s = ea_index s
      in if ind \<and> \<not> pi_rq s then
           (let (fault, s) = Mem_read (pi_cycle s \<or> uuo_cycle s) True False False s
            in if fault then (Faulted, s) else ea_events e ind s)
         else ea_events e ind s)"

partial_function (option) ea_loop :: "env \<Rightarrow> cpu \<Rightarrow> (ea_exit \<times> cpu) option" where
  "ea_loop e s =
     (case ea_step e s of (x, t) \<Rightarrow> if x = More then ea_loop e t else Some (x, t))"

section \<open>Entry to traps and interrupts\<close>

definition decode :: "cpu \<Rightarrow> cpu" where
  "decode s =
     s\<lparr>IR := ucast (drop_bit 27 (MB s)) AND 0x1FF, AC := ucast (drop_bit 23 (MB s)) AND 0xF,
       BYF5 := False\<rparr>"

definition arith_trap :: "cpu \<Rightarrow> bool \<times> cpu" where
  \<comment> \<open>an overflow trap: true, with the instruction of the trap location in \<open>MB\<close>\<close>
  "arith_trap s =
     (let tr = FLAGS s AND (TRP1 OR TRP2)
      in if page_enable s \<and> trap_flag s = 0 \<and> tr \<noteq> 0 then
           if tst (FLAGS s) ADRFLT then (False, clr_flags ADRFLT s)
           else
             (let s = clr_flags (TRP1 OR TRP2) (s\<lparr>trap_flag := tr, pi_cycle := True\<rparr>);
                  base = (if tst (FLAGS s) USER then ub_ptr s else eb_ptr s)
              in (True, snd (Mem_read_nopage (s\<lparr>AB := 0x110 + drop_bit 2 tr + base\<rparr>))))
         else (False, s))"

definition irq_vector :: "env \<Rightarrow> cpu \<Rightarrow> cpu" where
  \<comment> \<open>the scan over \<open>dev_irqv\<close>: the first device that asks for the level gives the address\<close>
  "irq_vector e s =
     (case find (\<lambda>f. dev_irqv e f \<noteq> None \<and> tst (dev_irq s f) (pi_level (pi_enc s))) [0..<MAX_DEV] of
        None \<Rightarrow> s
      | Some f \<Rightarrow> (let (a, s) = the (dev_irqv e f) (of_nat (4 * f)) (AB s) s in s\<lparr>AB := a\<rparr>))"

definition enter_irq :: "env \<Rightarrow> cpu \<Rightarrow> cpu" where
  "enter_irq e s =
     (let s = s\<lparr>pi_cycle := True, pi_rq := False, pi_hold := False, pi_ov := False,
                AB := 0x20 OR push_bit 1 (of_nat (pi_enc s)) OR maoff s, xct_flag := 0\<rparr>;
          s = irq_vector e s;
          a = (if tst (AB s) 0x20000 then AB s AND 0x1FF else AB s OR eb_ptr s)
      in snd (Mem_read_nopage (s\<lparr>AB := a, pi_vect := a\<rparr>)))"

section \<open>End of the cycle\<close>

datatype point = Top | Decode | Stop
  \<comment> \<open>the head of the loop, the label \<open>no_fetch\<close>, the return of \<open>sim_instr\<close>\<close>

definition page_trap :: "cpu \<Rightarrow> cpu" where
  \<comment> \<open>store the fault word, fetch the instruction of the page-failure trap\<close>
  "page_trap s =
     (let s = (if pi_cycle s then s\<lparr>inout_fail := True\<rparr> else s);
          s = s\<lparr>page_fault := False,
                AB := ub_ptr s + (if tst (FLAGS s) USER then 0x117 else 0x116), MB := fault_data s\<rparr>;
          s = snd (Mem_write_nopage s);
          s = s\<lparr>FLAGS := FLAGS s OR (trap_flag s AND (TRP1 OR TRP2)), trap_flag := 1\<rparr>;
          s = s\<lparr>AB := (if tst (FLAGS s) USER then ub_ptr s else eb_ptr s) + 0x110,
                f_pc_inh := True, pi_cycle := True\<rparr>
      in snd (Mem_read_nopage s))"

definition next_pc :: "cpu \<Rightarrow> cpu" where
  "next_pc s =
     (if \<not> f_pc_inh s \<and> trap_flag s = 0 \<and> \<not> pi_cycle s
      then skip_next (clr_flags ADRFLT s) else s)"

definition pi_refetch :: "u32 \<Rightarrow> cpu \<Rightarrow> cpu" where
  "pi_refetch a s = snd (Mem_read_nopage (s\<lparr>AB := a\<rparr>))"

definition pi_second :: "cpu \<Rightarrow> u32" where
  \<comment> \<open>\<open>pi_vect | pi_ov\<close>\<close>
  "pi_second s = pi_vect s OR (if pi_ov s then 1 else 0)"

definition end_pi_cycle :: "cpu \<Rightarrow> exit \<times> cpu" where
  \<comment> \<open>the end of a trap or interrupt instruction: a second one follows, or it is dismissed\<close>
  "end_pi_cycle s =
     (let s = (if trap_flag s \<noteq> 0
               then s\<lparr>pi_hold := False, pi_ov := False, f_pc_inh := False, trap_flag := 0\<rparr> else s);
          io = (IR s AND 0x1C0 = 0x1C0)
      in if io \<and> \<not> tst (AC s) 4 then
           (let s = s\<lparr>pi_hold := pi_ov s\<rparr>
            in if \<not> pi_hold s \<and> f_inst_fetch s then (Last, s\<lparr>pi_cycle := False\<rparr>)
               else (Again, pi_refetch (pi_second s) s))
         else if pi_hold s \<and> \<not> f_pc_inh s then
           (let s = (if io
                     then (let (rq, s) = check_irq_level s
                           in if rq then s\<lparr>pi_vect := 0x20 OR push_bit 1 (of_nat (pi_enc s)) OR maoff s\<rparr>
                              else s)
                     else s)
            in (Again, pi_refetch (pi_second s) (s\<lparr>pi_ov := False, pi_hold := False\<rparr>)))
         else
           (let s = (if f_pc_inh s \<and> trap_flag s = 0 then set_pi_hold s else s)
            in (Last, s\<lparr>pi_cycle := False, f_inst_fetch := True, f_load_pc := True\<rparr>)))"

definition finish :: "cpu \<Rightarrow> point \<times> cpu" where
  \<comment> \<open>\<open>SCPE_STEP\<close> is 73\<close>
  "finish s =
     (let s = (if pi_restore s then (restore_pi_hold s)\<lparr>pi_restore := False\<rparr> else s);
          s = s\<lparr>sim_interval := sim_interval s - 1\<rparr>
      in if f_load_pc s \<and> \<not> pi_cycle s \<and> instr_count s \<noteq> 0 then
           (let s = s\<lparr>instr_count := instr_count s - 1\<rparr>
            in if instr_count s = 0 then (Stop, s\<lparr>RUN := False, reason := 73\<rparr>) else (Top, s))
         else (Top, s))"

definition at_end :: "cpu \<Rightarrow> point \<times> cpu" where
  \<comment> \<open>the label \<open>last\<close> to the end of the loop body\<close>
  "at_end s =
     (let s = s\<lparr>modify := False\<rparr>
      in if page_enable s \<and> page_fault s then (Decode, page_trap s)
         else
           (let s = next_pc s
            in if pi_cycle s then
                 (case end_pi_cycle s of (Again, s) \<Rightarrow> (Decode, s) | (Last, s) \<Rightarrow> finish s)
               else finish s))"

section \<open>The loop\<close>

definition set_up :: "cpu \<Rightarrow> cpu" where
  "set_up s =
     s\<lparr>f_inst_fetch := True, f_load_pc := True, modify := False, f_pc_inh := False, BR := get_ac s\<rparr>"

definition perform :: "env \<Rightarrow> cpu \<Rightarrow> (point \<times> cpu) option" where
  \<comment> \<open>with the effective address computed: interrupt, page failure, or the instruction\<close>
  "perform e s =
     (if pi_rq s then Some (Decode, enter_irq e s)
      else if page_enable s \<and> page_fault s
      then Some (at_end (if \<not> f_pc_inh s \<and> \<not> pi_cycle s then skip_next s else s))
      else (case execute e (set_up s) of
              None \<Rightarrow> None
            | Some (Again, s) \<Rightarrow> Some (Decode, s)
            | Some (Last, s) \<Rightarrow> Some (at_end s)))"

definition interp :: "env \<Rightarrow> cpu \<Rightarrow> (point \<times> cpu) option" where
  \<comment> \<open>from the trap test on, the instruction in \<open>MB\<close> and decoded\<close>
  "interp e s =
     (case arith_trap s of
        (True, s) \<Rightarrow> Some (Decode, s)
      | (False, s) \<Rightarrow>
          (case ea_loop e s of
             None \<Rightarrow> None
           | Some (Faulted, s) \<Rightarrow> Some (at_end s)
           | Some (Broken, s) \<Rightarrow> Some (Stop, s)
           | Some (_, s) \<Rightarrow> perform e s))"

definition load_pc :: "cpu \<Rightarrow> cpu" where
  "load_pc s =
     (if f_load_pc s
      then s\<lparr>modify := False, xct_flag := 0, trap_flag := 0, AB := PC s, uuo_cycle := False,
             f_pc_inh := False\<rparr>
      else s)"

definition top_checks :: "env \<Rightarrow> cpu \<Rightarrow> bool \<times> cpu" where
  \<comment> \<open>the loop condition, events, breakpoints: true when \<open>sim_instr\<close> returns\<close>
  "top_checks e s =
     (if reason s \<noteq> 0 then (True, s\<lparr>RUN := False\<rparr>)
      else
        (let (r, s) = (if sim_interval s \<le> 0
                       then (let (r, s) = process_event e s in (r, s\<lparr>reason := r\<rparr>))
                       else (0, s))
         in if r \<noteq> 0 then (True, s\<lparr>RUN := False\<rparr>)
            else if f_load_pc s \<and> brk_E e (PC s) \<or> watch_stop s
            then (True, s\<lparr>reason := 2, RUN := False\<rparr>)
            else (False, s)))"

fun cycle_step :: "env \<Rightarrow> point \<Rightarrow> cpu \<Rightarrow> (point \<times> cpu) option" where
  "cycle_step e Top s =
     (case top_checks e s of
        (True, s) \<Rightarrow> Some (Stop, s)
      | (False, s) \<Rightarrow>
          (let s = load_pc s
           in if f_inst_fetch s then
                (let (fault, s) = Mem_read (pi_cycle s \<or> uuo_cycle s) True True False s
                 in if fault then Some (at_end s) else Some (Decode, s))
              else interp e s))"
| "cycle_step e Decode s = interp e (decode s)"
| "cycle_step e Stop s = None"

definition sim_start :: "int \<Rightarrow> cpu \<Rightarrow> cpu" where
  \<comment> \<open>what \<open>sim_instr\<close> sets before the loop, for \<open>n\<close> in \<open>sim_step\<close>\<close>
  "sim_start n s =
     s\<lparr>instr_count := n, RUN := True, prog_stop := False, reason := 0, f_load_pc := True,
       f_inst_fetch := True, uuo_cycle := False, pi_cycle := False, pi_rq := False, pi_ov := False,
       BYF5 := False, page_fault := False, watch_stop := False\<rparr>"

partial_function (option) run :: "env \<Rightarrow> point \<Rightarrow> cpu \<Rightarrow> cpu option" where
  "run e p s =
     (if p = Stop then Some s
      else case cycle_step e p s of None \<Rightarrow> None | Some (q, t) \<Rightarrow> run e q t)"

definition sim_instr :: "env \<Rightarrow> int \<Rightarrow> cpu \<Rightarrow> cpu option" where
  "sim_instr e n s = run e Top (sim_start n s)"

inductive step :: "env \<Rightarrow> point \<times> cpu \<Rightarrow> point \<times> cpu \<Rightarrow> bool" for e where
  stepI: "cycle_step e p s = Some (q, t) \<Longrightarrow> step e (p, s) (q, t)"

inductive_simps step_iff: "step e (p, s) (q, t)"
inductive_cases stepE: "step e c d"

end
