(* ===== verification/Invariants.thy ===== *)
theory Invariants
  imports Cycle Power_On
begin

text \<open>
  What no instruction changes. The locale \<open>kept\<close> is the contract an invariant \<open>P\<close> of the
  processor's state must meet: it depends on the \<open>core\<close> of the state only, and the accesses to
  memory, the accumulators, the arithmetic flags and the few instructions that touch the mode keep
  it. In the locale, every instruction of the switch then keeps \<open>P\<close>, or, for a monitor call,
  reaches \<open>Q\<close>. It is interpreted three times: for the consistency of the interrupt bus, for
  a user program that stays a user program, and for the machine with its devices and event queue.
\<close>

unbundle bit_operations_syntax

named_theorems keeps

section \<open>The contract\<close>

definition core where
  \<comment> \<open>what an invariant may speak of: memory, fast memory, the mode, the pager, the interrupt system,
      the event queue and the peripherals, but not the registers an instruction works in\<close>
  "core (s :: cpu) =
     ((M s, FM s, MEMSIZE s, FLAGS s, pi_cycle s, uuo_cycle s, pi_restore s),
      (page_enable s, ub_ptr s, eb_ptr s, small_user s, fm_sel s),
      (dev_irq s, IOB_PI s, PIE s, PIH s, PIR s, pi_enable s),
      (clock_queue s, devices s))"

definition env_keeps :: "(cpu \<Rightarrow> bool) \<Rightarrow> (nat \<Rightarrow> bool) \<Rightarrow> env \<Rightarrow> bool" where
  \<comment> \<open>events and the devices \<open>od\<close> keep \<open>P\<close>, called with their own number\<close>
  "env_keeps P od e \<longleftrightarrow>
     (\<forall>s. P s \<longrightarrow> P (snd (process_event e s)))
     \<and> (\<forall>d f v s. od d \<longrightarrow> d < 128 \<longrightarrow> unat f div 4 = d \<longrightarrow> P s \<longrightarrow> P (snd (dev_tab e d f v s)))"

lemma device_number:
  assumes "d < 128"
  shows "unat (DATAI OR push_bit 2 (of_nat d) :: u32) div 4 = d"
    and "unat (DATAO OR push_bit 2 (of_nat d) :: u32) div 4 = d"
    and "unat (CONI OR push_bit 2 (of_nat d) :: u32) div 4 = d"
    and "unat (CONO OR push_bit 2 (of_nat d) :: u32) div 4 = d"
proof -
  have dd: "unat (drop_bit 2 x) = unat x div 4" for x :: u32
    by (simp only: unat_drop_bit_eq) (simp add: drop_bit_eq_div)
  have "unat (f OR push_bit 2 (of_nat d) :: u32) div 4 = d" if f: "f < 4" for f
  proof -
    have "unat f div 4 = 0" using f by (intro div_less) (simp add: word_less_nat_alt)
    then have "drop_bit 2 f = 0" by (simp only: word_unat_eq_iff dd unsigned_0)
    moreover have "drop_bit 2 (push_bit 2 (of_nat d) :: u32) = of_nat d"
    proof -
      have "push_bit 2 (of_nat d :: u32) = of_nat (d * 4)" by (simp add: push_bit_eq_mult)
      then have "unat (push_bit 2 (of_nat d :: u32)) = d * 4"
        using assms by (simp only: unat_of_nat) simp
      then show ?thesis
        using assms by (simp only: word_unat_eq_iff dd unat_of_nat) simp
    qed
    ultimately have "unat (drop_bit 2 (f OR push_bit 2 (of_nat d) :: u32)) = d"
      using assms by (simp add: unat_of_nat)
    then show ?thesis by (simp only: dd)
  qed
  from this [of DATAI] this [of DATAO] this [of CONI] this [of CONO]
  show "unat (DATAI OR push_bit 2 (of_nat d) :: u32) div 4 = d"
    "unat (DATAO OR push_bit 2 (of_nat d) :: u32) div 4 = d"
    "unat (CONI OR push_bit 2 (of_nat d) :: u32) div 4 = d"
    "unat (CONO OR push_bit 2 (of_nat d) :: u32) div 4 = d"
    by (simp_all add: io_functions)
qed

lemma iot_dev_less: "iot_dev s < 128"
proof -
  have "unat (IR s AND 0x3F) \<le> unat (0x3F :: u32)" by (simp only: word_and_le1 flip: word_le_nat_alt)
  then show ?thesis by (simp add: iot_dev_def)
qed

lemma mode_or: "m AND 0xC0 = 0 \<Longrightarrow> (f OR m) AND 0xC0 = f AND (0xC0 :: u32)"
  by (simp add: bit.conj_disj_distrib2)

lemma mode_clr:
  assumes "m AND 0xC0 = 0"
  shows "clr_bits f m AND 0xC0 = f AND (0xC0 :: u32)"
proof -
  have "\<not> (bit m n \<and> bit (0xC0 :: u32) n)" for n
    using arg_cong [OF assms, of "\<lambda>x. bit x n"] by (simp only: bit_and_iff) simp
  then have "NOT m AND 0xC0 = (0xC0 :: u32)"
    by (intro bit_eqI) (auto simp only: bit_and_iff bit_not_iff possible_bit_word not_le dest: bit_imp_le_length)
  then show ?thesis by (simp add: clr_bits_def and.assoc)
qed

lemma bit_mode: "bit (0xC0 :: u32) n \<longleftrightarrow> n = 6 \<or> n = 7"
proof -
  have "(0xC0 :: u32) = push_bit 6 (mask 2)" by (simp add: mask_eq_exp_minus_1)
  then have "bit (0xC0 :: u32) n \<longleftrightarrow> 6 \<le> n \<and> n - 6 < 2 \<and> n < 32"
    by (simp only: bit_push_bit_iff bit_mask_iff possible_bit_word) (simp, linarith)
  then show ?thesis by linarith
qed

lemma jfcl_mask: "(0x3FFF XOR push_bit 9 a) AND 0xC0 = (0xC0 :: u32)"
proof (rule bit_eqI)
  fix n
  have "bit (0x3FFF :: u32) 6" "bit (0x3FFF :: u32) 7" by simp_all
  then show "bit ((0x3FFF XOR push_bit 9 a) AND 0xC0) n = bit (0xC0 :: u32) n"
    by (simp only: bit_mode bit_and_iff bit_xor_iff bit_push_bit_iff) auto
qed

lemma core_check_irq_level [simp]: "core (snd (check_irq_level s)) = core s"
  by (simp add: check_irq_level_def core_def Let_def split: prod.splits)

locale kept =
  fixes P Q :: "cpu \<Rightarrow> bool" and open_dev :: "nat \<Rightarrow> bool"
  assumes frame: "core t = core s \<Longrightarrow> P s \<Longrightarrow> P t"
    and reading: "P s \<Longrightarrow> P (snd (Mem_read f c fe md s))"
    and writing: "P s \<Longrightarrow> P (snd (Mem_write f c s))"
    and read_np: "P s \<Longrightarrow> P (snd (Mem_read_nopage s))"
    and write_np: "P s \<Longrightarrow> P (snd (Mem_write_nopage s))"
    and accumulator: "P s \<Longrightarrow> P (set_reg r v s)"
    and arith: "P s \<Longrightarrow> fl AND 0xC0 = FLAGS s AND 0xC0 \<Longrightarrow> P (s\<lparr>FLAGS := fl\<rparr>)"
    and system: "P s \<Longrightarrow> uuo_cycle s \<or> pi_cycle s \<Longrightarrow> P (clr_flags m s)"
    and jrstf: "P s \<Longrightarrow> P (s\<lparr>FLAGS := jrst_flags ar (FLAGS s)\<rparr>)"
    and irq: "P s \<Longrightarrow> P (check_apr_irq s)"
    and tlb: "P s \<Longrightarrow> P (snd (load_tlb u p s))"
    and luuo: "P s \<Longrightarrow> \<not> tst (FLAGS s) USER \<Longrightarrow> P (s\<lparr>uuo_cycle := True\<rparr>)"
    and jen: "P s \<Longrightarrow> tst (AC s) 8 \<Longrightarrow> \<not> jrst_refused s \<Longrightarrow> P (s\<lparr>pi_restore := True\<rparr>)"
    and monitor: "P s \<Longrightarrow> Q (exec_muuo s)"
    and here: "P s \<Longrightarrow> Q s"
    and io: "P s \<Longrightarrow> \<not> iot_refused s \<Longrightarrow> open_dev (iot_dev s)"
begin

lemma register [simp]:
  "P (s\<lparr>AR := v\<rparr>) = P s" "P (s\<lparr>BR := v\<rparr>) = P s" "P (s\<lparr>MB := v\<rparr>) = P s" "P (s\<lparr>AB := a\<rparr>) = P s"
  "P (s\<lparr>PC := a\<rparr>) = P s" "P (s\<lparr>AC := a\<rparr>) = P s" "P (s\<lparr>SC := n\<rparr>) = P s" "P (s\<lparr>SCAD := n\<rparr>) = P s"
  "P (s\<lparr>BYF5 := b\<rparr>) = P s" "P (s\<lparr>f_pc_inh := b\<rparr>) = P s" "P (s\<lparr>f_load_pc := b\<rparr>) = P s"
  "P (s\<lparr>f_inst_fetch := b\<rparr>) = P s" "P (s\<lparr>pi_ov := b\<rparr>) = P s" "P (s\<lparr>pi_hold := b\<rparr>) = P s"
  "P (s\<lparr>pi_rq := b\<rparr>) = P s" "P (s\<lparr>trap_flag := a\<rparr>) = P s" "P (s\<lparr>RUN := b\<rparr>) = P s"
  "P (s\<lparr>prog_stop := b\<rparr>) = P s" "P (s\<lparr>reason := n\<rparr>) = P s" "P (s\<lparr>xct_flag := a\<rparr>) = P s"
  "P (s\<lparr>modify := b\<rparr>) = P s" "P (s\<lparr>pi_pending := b\<rparr>) = P s" "P (s\<lparr>pi_enc := n\<rparr>) = P s"
  "P (s\<lparr>IR := a\<rparr>) = P s" "P (s\<lparr>sim_interval := i\<rparr>) = P s" "P (s\<lparr>instr_count := i\<rparr>) = P s"
  by (auto elim!: frame [rotated] simp: core_def)

lemma check_irq [simp]: "P (snd (check_irq_level s)) = P s"
  by (auto elim!: frame [rotated])

lemma if_keeps: "(b \<Longrightarrow> P s) \<Longrightarrow> (\<not> b \<Longrightarrow> P t) \<Longrightarrow> P (if b then s else t)"
  by simp

lemma mem_rd_keeps [keeps]:
  "P s \<Longrightarrow> (\<And>t. P t \<Longrightarrow> P (k t)) \<Longrightarrow> P (mem_rd f c fe md s k)"
  using reading [of s f c fe md] by (simp add: mem_rd_def case_prod_unfold Let_def)

lemma mem_wr_keeps [keeps]:
  "P s \<Longrightarrow> (\<And>t. P t \<Longrightarrow> P (k t)) \<Longrightarrow> P (mem_wr f c s k)"
  using writing [of s f c] by (simp add: mem_wr_def case_prod_unfold Let_def)

lemma set_ac_keeps [keeps]: "P s \<Longrightarrow> P (set_ac v s)"
  by (simp add: set_ac_def accumulator)

lemma set_ac1_keeps [keeps]: "P s \<Longrightarrow> P (set_ac1 v s)"
  by (simp add: set_ac1_def accumulator)

lemma set_ac_nz_keeps [keeps]: "P s \<Longrightarrow> P (set_ac_nz v s)"
  by (simp add: set_ac_nz_def set_ac_keeps)

lemma jump_keeps [keeps]: "P s \<Longrightarrow> P (jump a s)"
  by (simp add: jump_def)

lemma or_flags_keeps [keeps]: "P s \<Longrightarrow> m AND 0xC0 = 0 \<Longrightarrow> P (or_flags c m s)"
  by (auto simp: or_flags_def mode_or intro: arith)

lemma clr_flags_keeps [keeps]: "P s \<Longrightarrow> m AND 0xC0 = 0 \<Longrightarrow> P (clr_flags m s)"
  by (auto simp: clr_flags_def mode_clr intro: arith)

lemma clr_user_keeps [keeps]: "P s \<Longrightarrow> P (clr_user s)"
  by (simp add: clr_user_def system)

lemma neg_of_keeps [keeps]: "P s \<Longrightarrow> P (snd (neg_of v s))"
  unfolding neg_of_def Let_def snd_conv by (intro or_flags_keeps) simp_all

lemma mag_of_keeps [keeps]: "P s \<Longrightarrow> P (snd (mag_of v s))"
  by (simp add: mag_of_def neg_of_keeps)

subsection \<open>Arithmetic and data instructions\<close>

lemma moves_keep: "P s \<Longrightarrow> P (exec_move n s)"
  unfolding exec_move_def MOVE_200_def MOVEI_201_def MOVEM_202_def MOVES_203_def MOVS_204_def
    MOVSI_205_def MOVSM_206_def MOVSS_207_def MOVN_210_def MOVNI_211_def MOVNM_212_def
    MOVNS_213_def MOVM_214_def MOVMI_215_def MOVMM_216_def MOVMS_217_def
  by (simp add: Let_def case_prod_unfold) (intro conjI impI; auto intro!: keeps)

lemma operands_keep [keeps]:
  "P s \<Longrightarrow> (\<And>v t. P t \<Longrightarrow> P (k v t)) \<Longrightarrow> P (fetch_opr s k)"
  "P s \<Longrightarrow> P (store_opr v s)"
  "P s \<Longrightarrow> (\<And>v t. P t \<Longrightarrow> P (k v t)) \<Longrightarrow> P (fetch_mul s k)"
  "P s \<Longrightarrow> P (store_mul a m s)"
  "P s \<Longrightarrow> (\<And>v w t. P t \<Longrightarrow> P (h v w t)) \<Longrightarrow> P (fetch_div s h)"
  "P s \<Longrightarrow> P (store_div a m s)"
  by (auto simp: fetch_opr_def store_opr_def fetch_mul_def store_mul_def fetch_div_def
      store_div_def Let_def intro!: keeps)

lemma sums_keep [keeps]:
  "P s \<Longrightarrow> P (snd (add_of a b s))" "P s \<Longrightarrow> P (snd (sub_of a b s))"
  "P s \<Longrightarrow> P (snd (count_of a s))"
  unfolding add_of_def sub_of_def count_of_def Let_def snd_conv
  by (intro or_flags_keeps; simp)+

lemma products_keep [keeps]: "P s \<Longrightarrow> P (snd (snd (mul_of i a b s)))"
  unfolding mul_of_def Let_def case_prod_unfold
  by (auto intro!: or_flags_keeps)

lemma no_divide_keeps [keeps]: "P s \<Longrightarrow> P (no_divide s)"
  unfolding no_divide_def by (rule or_flags_keeps) simp_all

lemma branches_keep [keeps]:
  "P s \<Longrightarrow> P (jump_op a f s)" "P s \<Longrightarrow> P (skip_op a f s)" "P s \<Longrightarrow> P (compare_op a s)"
  "P s \<Longrightarrow> P (test_op a s)" "P s \<Longrightarrow> P (skip_next s)"
  by (auto simp: jump_op_def skip_op_def compare_op_def test_op_def skip_next_def Let_def
      intro!: keeps)

lemma fixed_keep:
  "P s \<Longrightarrow> P (exec_add s)" "P s \<Longrightarrow> P (exec_sub s)" "P s \<Longrightarrow> P (exec_cai s)"
  "P s \<Longrightarrow> P (exec_cam s)" "P s \<Longrightarrow> P (exec_jump s)" "P s \<Longrightarrow> P (exec_skip s)"
  "P s \<Longrightarrow> P (exec_aoj_soj s)" "P s \<Longrightarrow> P (exec_aos_sos s)" "P s \<Longrightarrow> P (exec_mul s)"
  "P s \<Longrightarrow> P (exec_idiv s)" "P s \<Longrightarrow> P (exec_div s)" "P s \<Longrightarrow> P (exec_test s)"
  by (auto simp: exec_add_def exec_sub_def exec_cai_def exec_cam_def exec_jump_def exec_skip_def
      exec_aoj_soj_def exec_aos_sos_def exec_mul_def exec_idiv_def exec_div_def exec_test_def
      Let_def case_prod_unfold intro!: keeps split: option.split)

lemma shifts_keep:
  "P s \<Longrightarrow> P (exec_ash s)" "P s \<Longrightarrow> P (exec_rot s)" "P s \<Longrightarrow> P (exec_lsh s)"
  "P s \<Longrightarrow> P (exec_jffo s)" "P s \<Longrightarrow> P (exec_ashc s)" "P s \<Longrightarrow> P (exec_rotc s)"
  "P s \<Longrightarrow> P (exec_lshc s)"
  by (auto simp: exec_ash_def exec_rot_def exec_lsh_def exec_jffo_def exec_ashc_def exec_rotc_def
      exec_lshc_def Let_def case_prod_unfold intro!: keeps)

lemma modes_keep [keeps]:
  "P s \<Longrightarrow> P (write_mem v s)" "P s \<Longrightarrow> P (write_both v s)" "P s \<Longrightarrow> P (bool_modes f n s)"
  "P s \<Longrightarrow> P (const_modes v n s)" "P s \<Longrightarrow> P (half_self g s)" "P s \<Longrightarrow> P (half_fill g n s)"
  "P s \<Longrightarrow> P (HLLS_503 s)"
  by (auto simp: write_mem_def write_both_def bool_modes_def bool_ac_def bool_imm_def bool_mem_def
      bool_both_def const_modes_def half_self_def half_fill_def half_ac_def half_imm_def half_mem_def
      HLLS_503_def Let_def intro!: mem_rd_keeps mem_wr_keeps set_ac_keeps set_ac_nz_keeps)

lemma logic_keeps: "P s \<Longrightarrow> P (exec_bool n s)"
  unfolding exec_bool_def SETZ_400_def AND_404_def ANDCA_410_def SETM_414_def ANDCM_420_def
      SETA_424_def XOR_430_def IOR_434_def ANDCB_440_def EQV_444_def SETCA_450_def ORCA_454_def
      SETCM_460_def ORCM_464_def ORCB_470_def SETO_474_def bool_ac_def bool_imm_def bool_mem_def
      bool_both_def Let_def
  by (intro if_keeps keeps; (assumption | simp only: register))

lemma halves_keep: "P s \<Longrightarrow> P (exec_half n s)"
  unfolding exec_half_def HLL_500_def HRL_504_def HLLZ_510_def HRLZ_514_def HLLO_520_def
      HRLO_524_def HLLE_530_def HRLE_534_def HRR_540_def HLR_544_def HRRZ_550_def HLRZ_554_def
      HRRO_560_def HLRO_564_def HRRE_570_def HLRE_574_def Let_def
  by (intro if_keeps keeps; (assumption | simp only: register))

subsection \<open>Control instructions\<close>

lemma flag_updates [keeps]:
  "P s \<Longrightarrow> P (s\<lparr>FLAGS := FLAGS s OR 0x100\<rparr>)" "P s \<Longrightarrow> P (or_byti s)"
  "P s \<Longrightarrow> P (next_word s)" "P s \<Longrightarrow> P (stack_trap c s)" "P s \<Longrightarrow> P (byte_done s)"
  by (auto simp: or_byti_def next_word_def stack_trap_def byte_done_def mode_or
      intro!: arith or_flags_keeps clr_flags_keeps)

lemma byte_ptr_keeps [keeps]: "P s \<Longrightarrow> P (byte_ptr s)"
  using flag_updates(1) [of "s\<lparr>f_load_pc := False, f_inst_fetch := False, f_pc_inh := True\<rparr>"]
  by (simp add: byte_ptr_def)

lemma bytes_keep: "P s \<Longrightarrow> P (exec_ldb s)" "P s \<Longrightarrow> P (exec_ildb s)"
proof -
  have data: "P t \<Longrightarrow> P (byte_data t)" for t
    by (auto simp: byte_data_def Let_def intro!: keeps)
  show ldb: "P t \<Longrightarrow> P (exec_ldb t)" for t
    by (auto simp: exec_ldb_def intro!: keeps data)
  show "P s \<Longrightarrow> P (exec_ildb s)"
    by (auto simp: exec_ildb_def Let_def case_prod_unfold intro!: keeps ldb)
qed

lemma doubles_keep:
  "P s \<Longrightarrow> P (exec_dmove s)" "P s \<Longrightarrow> P (exec_dmovn s)" "P s \<Longrightarrow> P (exec_dmovem s)"
  "P s \<Longrightarrow> P (exec_dmovnm s)"
  by (auto simp: exec_dmove_def exec_dmovn_def exec_dmovem_def exec_dmovnm_def Let_def
      case_prod_unfold intro!: keeps)

lemma stack_keeps:
  "P s \<Longrightarrow> P (exec_exch s)" "P s \<Longrightarrow> P (exec_aobjp s)" "P s \<Longrightarrow> P (exec_aobjn s)"
  "P s \<Longrightarrow> P (exec_pushj s)" "P s \<Longrightarrow> P (exec_push s)" "P s \<Longrightarrow> P (exec_popj s)"
  "P s \<Longrightarrow> P (exec_jsr s)" "P s \<Longrightarrow> P (exec_jsp s)" "P s \<Longrightarrow> P (exec_jsa s)" "P s \<Longrightarrow> P (exec_jra s)"
  by (auto simp: exec_exch_def exec_aobjp_def exec_aobjn_def exec_pushj_def exec_push_def
      exec_popj_def exec_jsr_def exec_jsp_def exec_jsa_def exec_jra_def Let_def intro!: keeps)

lemma pop_keeps: "P s \<Longrightarrow> P (exec_pop s)"
  unfolding exec_pop_def Let_def case_prod_unfold
  by (intro if_keeps keeps writing; simp)

lemma jfcl_keeps: "P s \<Longrightarrow> P (exec_jfcl s)"
proof -
  assume p: "P s"
  have "(FLAGS s AND (0x3FFF XOR push_bit 9 (AC s))) AND 0xC0 = FLAGS s AND 0xC0"
    by (simp add: and.assoc jfcl_mask)
  then show ?thesis
    using p arith [of "if drop_bit 9 (FLAGS s) AND AC s \<noteq> 0 then jump (ucast (AR s AND RMASK)) s else s"]
    by (simp add: exec_jfcl_def Let_def jump_keeps jump_def split: if_splits)
qed

lemma xct_keeps: "P s \<Longrightarrow> P (exec_xct s)"
  by (simp add: exec_xct_def)

lemma map_keeps: "P s \<Longrightarrow> P (exec_map s)"
  unfolding exec_map_def Let_def case_prod_unfold
  by (intro if_keeps keeps tlb; assumption)

lemma luuo_keeps: "P s \<Longrightarrow> P (snd (exec_luuo s))"
proof (cases "tst (FLAGS s) USER")
  case True
  then show "P s \<Longrightarrow> ?thesis" by (simp add: exec_luuo_def Let_def writing)
next
  case False
  have "FLAGS (snd (Mem_read_nopage t)) = FLAGS t" "FLAGS (snd (Mem_write_nopage t)) = FLAGS t"
    for t :: cpu by (simp_all add: Mem_read_nopage_def Mem_write_nopage_def nxm_def Let_def)
  with False show "P s \<Longrightarrow> ?thesis"
    by (simp add: exec_luuo_def Let_def read_np write_np luuo)
qed

lemma jrst_keeps: "P s \<Longrightarrow> Q (exec_jrst s)"
proof -
  assume p: "P s"
  define t where "t = (if uuo_cycle s \<or> pi_cycle s then clr_flags USER s else s)"
  have t: "P t" using p by (simp add: t_def system)
  have jf: "P (u\<lparr>FLAGS := jrst_flags (AR u) (FLAGS u)\<rparr>)" if "P u" for u
    using that by (rule jrstf)
  have "tst (AC t) 8 \<Longrightarrow> tst (AC t) 0xC"
  proof -
    have e: "(8 :: u32) = 2 ^ 3" by simp
    assume "tst (AC t) 8"
    then have "bit (AC t) 3" unfolding e tst_exp .
    then have "bit (AC t AND 0xC) 3" by (simp add: bit_and_iff)
    then show "tst (AC t) 0xC" by (auto simp: tst_def)
  qed
  then have je: "P (if tst (AC t) 8 then t\<lparr>pi_restore := True\<rparr> else t)"
    if "\<not> (tst (AC t) 0xC \<and> jrst_refused t)"
    using that t jen [OF t] by auto
  have m: "(PUBLIC OR PRV_PUB) AND 0xC0 = (0 :: u32)" by simp
  show ?thesis
  proof (cases "tst (AC t) 0xC \<and> jrst_refused t")
    case True
    then have "exec_jrst s = exec_muuo t"
      unfolding exec_jrst_def Let_def t_def [symmetric] by simp
    then show ?thesis using monitor [OF t] by simp
  next
    case False
    then show ?thesis
      unfolding exec_jrst_def Let_def t_def [symmetric] if_not_P [OF False]
      by (intro here if_keeps [of _ "clr_flags _ _"] if_keeps [of _ "check_apr_irq _"]
          if_keeps [of _ "_\<lparr>RUN := False, prog_stop := True, reason := 1\<rparr>"]
          clr_flags_keeps [OF _ m] irq jf jump_keeps je;
        simp only: register je)
  qed
qed

lemma blt_move_keeps: "P s \<Longrightarrow> P (snd (blt_move ar s))"
  unfolding blt_move_def Let_def case_prod_unfold
  by (auto intro!: reading writing)

lemma blt_events_keeps: "env_keeps P od e \<Longrightarrow> P s \<Longrightarrow> P (snd (blt_events e s))"
  by (auto simp: blt_events_def env_keeps_def Let_def case_prod_unfold)

lemma blt_keeps: "env_keeps P od e \<Longrightarrow> exec_blt e s = Some t \<Longrightarrow> P s \<Longrightarrow> P t"
proof -
  assume e: "env_keeps P od e"
  have "blt_loop en ar br s = Some t \<Longrightarrow> en = e \<longrightarrow> P s \<longrightarrow> P t" for en ar br s
  proof (induction rule: blt_loop.raw_induct [rotated, consumes 1])
    case (1 loop en ar br s t)
    obtain stop u where ev: "blt_events e s = (stop, u)" by fastforce
    obtain fault v where mv: "blt_move ar u = (fault, v)" by fastforce
    have "P s \<Longrightarrow> P u" using blt_events_keeps [OF e, of s] ev by simp
    moreover have "P u \<Longrightarrow> P v" using blt_move_keeps [of u ar] mv by simp
    ultimately show ?case
      using 1 ev mv by (auto simp: blt_stop_def intro!: keeps split: if_splits)
  qed
  then show "exec_blt e s = Some t \<Longrightarrow> P s \<Longrightarrow> P t"
    by (auto simp: exec_blt_def)
qed

subsection \<open>Floating point\<close>

lemma float_flags_keep [keeps]:
  "P s \<Longrightarrow> m AND 0xC0 = 0 \<Longrightarrow> P (float_trap m fxu sc s)" "P s \<Longrightarrow> P (float_no_divide s)"
  by (auto simp: float_trap_def float_no_divide_def bit.conj_disj_distrib2 intro!: or_flags_keeps)

lemma float_operands_keep [keeps]:
  "P s \<Longrightarrow> (\<And>v t. P t \<Longrightarrow> P (k v t)) \<Longrightarrow> P (fetch_float s k)"
  "P s \<Longrightarrow> P (store_float ar mq s)"
  "P s \<Longrightarrow> (\<And>a b c d t. P t \<Longrightarrow> P (h a b c d t)) \<Longrightarrow> P (fetch_double s h)"
  "P s \<Longrightarrow> P (store_double neg low sc v s)"
  by (auto simp: fetch_float_def store_float_def fetch_double_def store_double_def Let_def
      intro!: keeps)

lemma let_keeps:
  fixes a :: cpu and g :: "cpu \<Rightarrow> cpu" and h :: "'b \<Rightarrow> cpu" and k :: "'b \<Rightarrow> 'c \<Rightarrow> cpu"
  shows "P a \<Longrightarrow> (\<And>x. P x \<Longrightarrow> P (g x)) \<Longrightarrow> P (let x = a in g x)"
    and "(\<And>y z. P (k y z)) \<Longrightarrow> P (case x of (y, z) \<Rightarrow> k y z)"
    and "(\<And>y. P (h y)) \<Longrightarrow> P (let y = b in h y)"
  by (simp_all add: Let_def case_prod_unfold)

lemma float_result_keeps [keeps]: "P s \<Longrightarrow> P (float_result neg sc v s)"
  unfolding float_result_def by (intro let_keeps if_keeps keeps; simp?)

lemma singles_keep:
  "P s \<Longrightarrow> P (exec_fad s)" "P s \<Longrightarrow> P (exec_fsb s)" "P s \<Longrightarrow> P (exec_fmp s)" "P s \<Longrightarrow> P (exec_fdv s)"
  "P s \<Longrightarrow> P (exec_fdvl s)" "P s \<Longrightarrow> P (exec_fsc s)" "P s \<Longrightarrow> P (exec_fltr s)" "P s \<Longrightarrow> P (exec_dfn s)"
  unfolding exec_fad_def exec_fsb_def fadd_def exec_fmp_def exec_fdv_def exec_fdvl_def exec_fsc_def
    exec_fltr_def exec_dfn_def
  by (intro let_keeps if_keeps keeps; simp?)+

lemma fix_keeps: "P s \<Longrightarrow> P (exec_fix s)"
  by (auto simp: exec_fix_def intro!: keeps split: option.split)

lemma dfads_keep: "P s \<Longrightarrow> P (exec_dfad s)" "P s \<Longrightarrow> P (exec_dfmp s)" "P s \<Longrightarrow> P (exec_dfdv s)"
  unfolding exec_dfad_def exec_dfmp_def exec_dfdv_def
  by (intro let_keeps if_keeps keeps; simp?)+

lemma float_keeps: "P s \<Longrightarrow> P (exec_float ir s)"
  unfolding exec_float_def by (intro if_keeps singles_keep fix_keeps dfads_keep)

subsection \<open>Input and output, and the switch\<close>

lemma iot_op_keeps: "env_keeps P od e \<Longrightarrow> od d \<Longrightarrow> d < 128 \<Longrightarrow> P s \<Longrightarrow> P (iot_op e d fn ar s)"
  unfolding iot_op_def Let_def case_prod_unfold env_keeps_def
  by (auto simp: device_number intro!: mem_rd_keeps mem_wr_keeps branches_keep)

lemma iot_keeps: "env_keeps P open_dev e \<Longrightarrow> P s \<Longrightarrow> Q (exec_iot e s)"
proof -
  assume e: "env_keeps P open_dev e" and p: "P s"
  have "P (iot_block e d s)" if "open_dev d" "d < 128" for d
    unfolding iot_block_def Let_def
    by (intro mem_rd_keeps mem_wr_keeps p)
      (auto intro!: iot_op_keeps [OF e that] branches_keep)
  then show ?thesis
    using p io [OF p] monitor [OF p] here [OF iot_op_keeps [OF e _ iot_dev_less p]]
    by (auto simp: exec_iot_def iot_dev_less intro: here)
qed

lemma execute_keeps:
  assumes e: "env_keeps P open_dev e" and p: "P s" and x: "execute e s = Some (x, t)"
  shows "Q t"
proof -
  have low: "Q t" if "exec_low ir s = Some (x, t)" for ir
    using that p unfolding exec_low_def at_last_def
    by (auto intro: monitor here bytes_keep doubles_keep luuo_keeps float_keeps
        split: if_splits prod.splits) (metis luuo_keeps here snd_conv)+
  have arith: "P (exec_arith ir s)" for ir
    unfolding exec_arith_def by (intro if_keeps moves_keep fixed_keep shifts_keep p)
  note Q_if = if_split [of Q, THEN iffD2, OF conjI, OF impI impI]
  have control: "Q (exec_control ir s)" for ir
    unfolding exec_control_def
    by (intro Q_if)
      (rule monitor [OF p] jrst_keeps [OF p] here [OF jfcl_keeps [OF p]] here [OF xct_keeps [OF p]]
        here [OF map_keeps [OF p]] here [OF pop_keeps [OF p]]
        here [OF stack_keeps(1) [OF p]] here [OF stack_keeps(2) [OF p]]
        here [OF stack_keeps(3) [OF p]] here [OF stack_keeps(4) [OF p]]
        here [OF stack_keeps(5) [OF p]] here [OF stack_keeps(6) [OF p]]
        here [OF stack_keeps(7) [OF p]] here [OF stack_keeps(8) [OF p]]
        here [OF stack_keeps(9) [OF p]] here [OF stack_keeps(10) [OF p]]
        here [OF fixed_keep(1) [OF p]] here [OF fixed_keep(2) [OF p]])+
  have high: "Q (exec_high e ir s)" for ir
    unfolding exec_high_def
    by (auto intro!: iot_keeps [OF e p] here fixed_keep logic_keeps halves_keep p)
  show ?thesis
    using x low arith control high blt_keeps [OF e] p
    by (auto simp: execute_def at_last_def Let_def intro: here split: if_splits)
qed

end

section \<open>The interrupt bus\<close>

lemma bus_conditions: "bus_inv s \<Longrightarrow> bus_inv (address_conditions f w s)"
  unfolding address_conditions_def Let_def
  by (intro check_apr_irq_bus) (simp add: bus_inv_def)

lemma bus_load_tlb [simp]: "bus_inv (snd (load_tlb u p s)) = bus_inv s"
  by (simp add: load_tlb_def Let_def bus_inv_def)

lemma bus_checks [simp]:
  "bus_inv (snd (lookup_direct a f w fe u p pg s)) = bus_inv s"
  "bus_inv (snd (lookup_checked a f w fe u p pg d s)) = bus_inv s"
  "bus_inv (set_fault v s) = bus_inv s"
  by (simp_all add: lookup_direct_def lookup_checked_def set_fault_def Let_def bus_inv_def)

lemma bus_lookup: "bus_inv s \<Longrightarrow> bus_inv (snd (page_lookup a f w c fe md s))"
proof -
  assume s: "bus_inv s"
  define t where "t = (if adr_cond s \<noteq> 0 \<and> a = AS s then address_conditions fe w s else s)"
  have "bus_inv t" using s by (simp add: t_def bus_conditions)
  then show ?thesis
    using s unfolding page_lookup_def Let_def case_prod_unfold t_def [symmetric]
    by (simp del: drop_bit_and)
qed

lemma bus_nxm: "bus_inv s \<Longrightarrow> bus_inv (snd (nxm s))"
  by (auto simp: nxm_def bus_inv_def intro!: check_apr_irq_bus [unfolded bus_inv_def])

lemma bus_set_reg [simp]: "bus_inv (set_reg r v s) = bus_inv s"
  by (simp add: set_reg_def bus_inv_def)

lemma bus_registers [simp]:
  "bus_inv (s\<lparr>MB := v\<rparr>) = bus_inv s" "bus_inv (s\<lparr>AB := a\<rparr>) = bus_inv s"
  "bus_inv (s\<lparr>FLAGS := a\<rparr>) = bus_inv s" "bus_inv (s\<lparr>modify := b\<rparr>) = bus_inv s"
  "bus_inv (s\<lparr>sim_interval := i\<rparr>) = bus_inv s" "bus_inv (s\<lparr>watch_stop := b\<rparr>) = bus_inv s"
  "bus_inv (s\<lparr>M := m\<rparr>) = bus_inv s" "bus_inv (s\<lparr>FM := m\<rparr>) = bus_inv s"
  "bus_inv (s\<lparr>last_addr := a\<rparr>) = bus_inv s"
  by (simp_all add: bus_inv_def)

lemma bus_cores:
  "bus_inv s \<Longrightarrow> bus_inv (snd (read_core f c fe md s))"
  "bus_inv s \<Longrightarrow> bus_inv (snd (write_core f c s))"
  using bus_lookup [of s "AB s" f False c fe md] bus_lookup [of s "AB s" f True c False False]
  by (auto simp: read_core_def write_core_def bus_nxm split: prod.split option.split)

lemma bus_accesses:
  "bus_inv s \<Longrightarrow> bus_inv (snd (Mem_read f c fe md s))"
  "bus_inv s \<Longrightarrow> bus_inv (snd (Mem_write f c s))"
  by (simp_all add: Mem_read_def Mem_write_def Let_def bus_cores)

lemma bus_nopage:
  "bus_inv s \<Longrightarrow> bus_inv (snd (Mem_read_nopage s))"
  "bus_inv s \<Longrightarrow> bus_inv (snd (Mem_write_nopage s))"
  by (auto simp: Mem_read_nopage_def Mem_write_nopage_def Let_def bus_nxm bus_conditions)

lemma bus_core: "core t = core s \<Longrightarrow> bus_inv s \<Longrightarrow> bus_inv t"
  by (simp add: core_def bus_inv_def)

lemma bus_let:
  fixes a :: cpu and g :: "cpu \<Rightarrow> cpu" and h :: "u32 \<Rightarrow> cpu"
  shows "bus_inv a \<Longrightarrow> (\<And>x. bus_inv x \<Longrightarrow> bus_inv (g x)) \<Longrightarrow> bus_inv (let x = a in g x)"
    and "(\<And>y. bus_inv (h y)) \<Longrightarrow> bus_inv (let y = b in h y)"
  by (simp_all add: Let_def)

lemma bus_jump [simp]: "bus_inv (jump a s) = bus_inv s" "bus_inv (clr_flags m s) = bus_inv s"
  by (simp_all add: jump_def clr_flags_def bus_inv_def)

lemma bus_muuo: "bus_inv s \<Longrightarrow> bus_inv (exec_muuo s)"
  unfolding exec_muuo_def by (intro bus_let) (simp_all add: bus_nopage)

interpretation bus: kept bus_inv bus_inv "\<lambda>_. True"
proof
  fix s t :: cpu and f c fe md and r :: u32 and v :: u64 and fl m u p ar
  show "core t = core s \<Longrightarrow> bus_inv s \<Longrightarrow> bus_inv t" by (rule bus_core)
  assume s: "bus_inv s"
  then show "bus_inv (snd (Mem_read f c fe md s))" "bus_inv (snd (Mem_write f c s))"
    "bus_inv (snd (Mem_read_nopage s))" "bus_inv (snd (Mem_write_nopage s))"
    by (rule bus_accesses bus_nopage)+
  show "bus_inv (set_reg r v s)" "bus_inv (s\<lparr>FLAGS := fl\<rparr>)" "bus_inv (clr_flags m s)"
    "bus_inv (s\<lparr>FLAGS := jrst_flags ar (FLAGS s)\<rparr>)" "bus_inv (snd (load_tlb u p s))"
    "bus_inv (s\<lparr>uuo_cycle := True\<rparr>)" "bus_inv (s\<lparr>pi_restore := True\<rparr>)"
    using s by (simp_all only: bus_set_reg bus_registers bus_load_tlb clr_flags_def)
      (simp_all add: bus_inv_def)
  show "bus_inv (check_apr_irq s)" using s by (rule check_apr_irq_bus)
  show "bus_inv (exec_muuo s)" using s by (rule bus_muuo)
qed simp_all

section \<open>User programs\<close>

definition priv where
  \<comment> \<open>the mode, the page tables, the accumulator block and the interrupt system\<close>
  "priv (s :: cpu) =
     ((FLAGS s AND 0xC0, pi_cycle s, uuo_cycle s, pi_restore s, MEMSIZE s),
      (page_enable s, ub_ptr s, eb_ptr s, small_user s, fm_sel s),
      (PIE s, PIH s, PIR s, pi_enable s))"

definition user_prog :: "cpu \<Rightarrow> cpu \<Rightarrow> bool" where
  \<comment> \<open>\<open>s\<close> runs a user program without I/O privilege, as \<open>s0\<close> does\<close>
  "user_prog s0 s \<longleftrightarrow> FLAGS s0 AND 0xC0 = USER \<and> \<not> pi_cycle s0 \<and> \<not> uuo_cycle s0
     \<and> \<not> pi_restore s0 \<and> priv s = priv s0"

definition monitor_called :: "cpu \<Rightarrow> cpu \<Rightarrow> bool" where
  \<comment> \<open>still the user program, or the state after its monitor call\<close>
  "monitor_called s0 t \<longleftrightarrow> user_prog s0 t \<or> (\<exists>s. user_prog s0 s \<and> t = exec_muuo s)"

lemmas check_apr_irq_cpu [simp] = cpu_more_frame [OF check_apr_irq_mem(28)]

lemma priv_conditions [simp]: "priv (address_conditions f w s) = priv s"
  by (simp add: priv_def address_conditions_def Let_def)

lemma priv_load_tlb [simp]: "priv (snd (load_tlb u p s)) = priv s"
  by (simp add: priv_def load_tlb_def Let_def)

lemma priv_checks [simp]:
  "priv (snd (lookup_direct a f w fe u p pg s)) = priv s"
  "priv (snd (lookup_checked a f w fe u p pg d s)) = priv s"
  "priv (set_fault v s) = priv s"
  by (simp_all add: lookup_direct_def lookup_checked_def set_fault_def Let_def priv_def mode_or)

lemma priv_lookup [simp]: "priv (snd (page_lookup a f w c fe md s)) = priv s"
proof -
  define t where "t = (if adr_cond s \<noteq> 0 \<and> a = AS s then address_conditions fe w s else s)"
  have "priv t = priv s" by (simp add: t_def)
  then show ?thesis
    unfolding page_lookup_def Let_def case_prod_unfold t_def [symmetric]
    by (simp del: drop_bit_and)
qed

lemma priv_registers [simp]:
  "priv (s\<lparr>MB := v\<rparr>) = priv s" "priv (s\<lparr>AB := a\<rparr>) = priv s" "priv (s\<lparr>modify := b\<rparr>) = priv s"
  "priv (s\<lparr>sim_interval := i\<rparr>) = priv s" "priv (s\<lparr>watch_stop := b\<rparr>) = priv s"
  "priv (s\<lparr>M := m\<rparr>) = priv s" "priv (s\<lparr>FM := m\<rparr>) = priv s" "priv (s\<lparr>last_addr := a\<rparr>) = priv s"
  "priv (set_reg r v s) = priv s" "priv (snd (nxm s)) = priv s" "priv (check_apr_irq s) = priv s"
  by (simp_all add: priv_def set_reg_def nxm_def)

lemma priv_cores [simp]:
  "priv (snd (read_core f c fe md s)) = priv s" "priv (snd (write_core f c s)) = priv s"
  using priv_lookup [of "AB s" f False c fe md s] priv_lookup [of "AB s" f True c False False s]
  by (auto simp: read_core_def write_core_def simp del: priv_lookup split: prod.split option.split)

lemma priv_accesses [simp]:
  "priv (snd (Mem_read f c fe md s)) = priv s" "priv (snd (Mem_write f c s)) = priv s"
  "priv (snd (Mem_read_nopage s)) = priv s" "priv (snd (Mem_write_nopage s)) = priv s"
  by (simp_all add: Mem_read_def Mem_write_def Mem_read_nopage_def Mem_write_nopage_def Let_def)

lemma priv_core: "core t = core s \<Longrightarrow> priv t = priv s"
  by (simp add: core_def priv_def)

lemma user_prog_priv: "priv t = priv s \<Longrightarrow> user_prog s0 s \<Longrightarrow> user_prog s0 t"
  by (simp add: user_prog_def)

lemma mode_eq_user: "f AND 0xC0 = 0x80 \<longleftrightarrow> bit f 7 \<and> \<not> bit f 6" for f :: u32
proof
  assume e: "f AND 0xC0 = 0x80"
  have "bit (f AND 0xC0) 7" "\<not> bit (f AND 0xC0) 6" unfolding e by simp_all
  then show "bit f 7 \<and> \<not> bit f 6" by (simp add: bit_and_iff)
next
  assume b: "bit f 7 \<and> \<not> bit f 6"
  have e: "(0x80 :: u32) = 2 ^ 7" by simp
  have "bit (0x80 :: u32) n \<longleftrightarrow> n = 7" for n
    unfolding e bit_exp_iff possible_bit_word by auto
  then show "f AND 0xC0 = 0x80"
    by (intro bit_eqI) (use b in \<open>simp only: bit_and_iff bit_mode, auto\<close>)
qed

lemma user_prog_flags:
  assumes "user_prog s0 s"
  shows "tst (FLAGS s) USER" "\<not> tst (FLAGS s) USERIO" "\<not> pi_cycle s" "\<not> uuo_cycle s"
    "FLAGS s AND 0xC0 = USER" "\<not> pi_restore s"
proof -
  show f: "FLAGS s AND 0xC0 = USER" and "\<not> pi_cycle s" "\<not> uuo_cycle s" "\<not> pi_restore s"
    using assms by (simp_all add: user_prog_def priv_def)
  have e: "(0x80 :: u32) = 2 ^ 7" "(0x40 :: u32) = 2 ^ 6" by simp_all
  have "bit (FLAGS s) 7 \<and> \<not> bit (FLAGS s) 6" using f unfolding mode_eq_user .
  then show "tst (FLAGS s) USER" "\<not> tst (FLAGS s) USERIO" unfolding e tst_exp by blast+
qed

lemma user_iot_dev:
  assumes "user_prog s0 s" and "\<not> iot_refused s"
  shows "64 \<le> iot_dev s"
proof -
  have e: "(0x20 :: u32) = 2 ^ 5" by simp
  have "tst (IR s) 0x20"
    using assms user_prog_flags(3,5) [OF assms(1)] by (simp add: iot_refused_def)
  then have "bit (IR s) 5" unfolding e tst_exp .
  then have "bit (IR s AND 0x3F) 5" by (simp add: bit_and_iff)
  then have "bit (drop_bit 5 (IR s AND 0x3F)) 0" by (simp only: bit_drop_bit_eq o_apply add_0_right)
  then have "drop_bit 5 (IR s AND 0x3F) \<noteq> 0" by force
  then have "unat (IR s AND 0x3F) div 2 ^ 5 \<noteq> 0"
    by (metis drop_bit_eq_div unat_drop_bit_eq unat_eq_zero)
  then have "\<not> unat (IR s AND 0x3F) < 2 ^ 5" by (metis div_less)
  then show ?thesis by (simp add: iot_dev_def)
qed

lemma user_jrstf:
  assumes "user_prog s0 s"
  shows "jrst_flags ar (FLAGS s) AND 0xC0 = FLAGS s AND 0xC0"
proof -
  have e: "(0x80 :: u32) = 2 ^ 7" "(0x40 :: u32) = 2 ^ 6" by simp_all
  have "bit (jrst_flags ar (FLAGS s)) 7 \<and> \<not> bit (jrst_flags ar (FLAGS s)) 6"
    using jrst_flags_user [of "FLAGS s" ar] user_prog_flags(1,2) [OF assms]
    unfolding e tst_exp by blast
  then show ?thesis
    using user_prog_flags(5) [OF assms] by (metis mode_eq_user)
qed

interpretation user: kept "user_prog s0" "monitor_called s0" "\<lambda>d. 64 \<le> d" for s0
proof
  fix s t :: cpu and f c fe md and r :: u32 and v :: u64 and fl m u p ar
  assume s: "user_prog s0 s"
  show "core t = core s \<Longrightarrow> user_prog s0 t"
    using user_prog_priv [OF priv_core s] .
  show "user_prog s0 (snd (Mem_read f c fe md s))" "user_prog s0 (snd (Mem_write f c s))"
    "user_prog s0 (snd (Mem_read_nopage s))" "user_prog s0 (snd (Mem_write_nopage s))"
    "user_prog s0 (set_reg r v s)" "user_prog s0 (snd (load_tlb u p s))"
    "user_prog s0 (check_apr_irq s)"
    by (rule user_prog_priv [OF _ s], simp)+
  show "fl AND 0xC0 = FLAGS s AND 0xC0 \<Longrightarrow> user_prog s0 (s\<lparr>FLAGS := fl\<rparr>)"
    by (rule user_prog_priv [OF _ s]) (simp add: priv_def)
  show "user_prog s0 (s\<lparr>FLAGS := jrst_flags ar (FLAGS s)\<rparr>)"
    by (rule user_prog_priv [OF _ s]) (simp add: priv_def user_jrstf [OF s])
  show "uuo_cycle s \<or> pi_cycle s \<Longrightarrow> user_prog s0 (clr_flags m s)"
    using user_prog_flags(3,4) [OF s] by simp
  show "\<not> tst (FLAGS s) USER \<Longrightarrow> user_prog s0 (s\<lparr>uuo_cycle := True\<rparr>)"
    using user_prog_flags(1) [OF s] by simp
  show "tst (AC s) 8 \<Longrightarrow> \<not> jrst_refused s \<Longrightarrow> user_prog s0 (s\<lparr>pi_restore := True\<rparr>)"
    using user_prog_flags(5) [OF s] by (simp add: jrst_refused_def)
  show "monitor_called s0 (exec_muuo s)" "monitor_called s0 s"
    using s by (auto simp: monitor_called_def)
  show "\<not> iot_refused s \<Longrightarrow> 64 \<le> iot_dev s"
    using user_iot_dev [OF s] .
qed

end
