(* ===== verification/Cycle_Invariants.thy ===== *)
theory Cycle_Invariants
  imports Invariants
begin

text \<open>
  Invariants over whole instruction cycles. The locale \<open>kept_cycle\<close> extends \<open>kept\<close> by what
  happens between two instructions: the fetch, traps, interrupts and the end of the cycle; the
  outcome \<open>R\<close> of a step says how a cycle may end. Its interpretations give that the interrupt bus
  stays consistent along every run, and the ways a user program can be left.
\<close>

unbundle bit_operations_syntax

locale kept_cycle = kept +
  fixes R :: "point \<Rightarrow> cpu \<Rightarrow> bool"
  assumes new_cycle: "P s \<Longrightarrow> P (s\<lparr>uuo_cycle := False\<rparr>)"
    and restore: "P s \<Longrightarrow> pi_restore s \<Longrightarrow> P ((restore_pi_hold s)\<lparr>pi_restore := False\<rparr>)"
    and continues: "P s \<Longrightarrow> R p s"
    and after_call: "Q s \<Longrightarrow> \<not> P s \<Longrightarrow> case_prod R (at_end s)"
    and trap: "P s \<Longrightarrow> fst (arith_trap s) \<Longrightarrow> R Decode (snd (arith_trap s))"
    and page: "P s \<Longrightarrow> page_enable s \<Longrightarrow> page_fault s \<Longrightarrow> R Decode (page_trap s)"
    and pi_end: "P s \<Longrightarrow> pi_cycle s \<Longrightarrow>
      case end_pi_cycle s of (Again, t) \<Rightarrow> R Decode t | (Last, t) \<Rightarrow> P t"
begin

lemma finish_keeps: "P s \<Longrightarrow> case_prod R (finish s)"
proof -
  assume p: "P s"
  have "P (if pi_restore s then (restore_pi_hold s)\<lparr>pi_restore := False\<rparr> else s)"
    using p restore by simp
  then show ?thesis
    by (simp add: finish_def Let_def continues)
qed

lemma at_end_keeps: "P s \<Longrightarrow> case_prod R (at_end s)"
proof -
  assume p: "P s"
  define t where "t = next_pc (s\<lparr>modify := False\<rparr>)"
  have t: "P t" unfolding t_def next_pc_def using p by (auto intro!: keeps branches_keep)
  obtain x u where e: "end_pi_cycle t = (x, u)" by fastforce
  have "case_prod R (if pi_cycle t
          then case end_pi_cycle t of (Again, s) \<Rightarrow> (Decode, s) | (Last, s) \<Rightarrow> finish s
          else finish t)"
    using pi_end [OF t] finish_keeps [of u] finish_keeps [OF t] e by (cases x) auto
  then show ?thesis
    using p page [of "s\<lparr>modify := False\<rparr>"] unfolding at_end_def Let_def t_def [symmetric] by simp
qed

lemma decode_keeps [simp]: "P (decode s) = P s"
  by (simp add: decode_def)

lemma load_pc_keeps: "P s \<Longrightarrow> P (load_pc s)"
  using new_cycle [of "s\<lparr>modify := False, xct_flag := 0, trap_flag := 0, AB := PC s\<rparr>"]
  by (simp add: load_pc_def)

lemma top_checks_keep: "env_keeps P od e \<Longrightarrow> P s \<Longrightarrow> P (snd (top_checks e s))"
  by (auto simp: top_checks_def env_keeps_def Let_def case_prod_unfold)

lemma ea_step_keeps: "env_keeps P od e \<Longrightarrow> P s \<Longrightarrow> P (snd (ea_step e s))"
proof -
  assume e: "env_keeps P od e" and p: "P s"
  have i: "P (ea_index s)" using p by (simp add: ea_index_def Let_def)
  have r: "P (snd (Mem_read f c fe md (ea_index s)))" for f c fe md using i by (rule reading)
  have "P (snd (ea_events e ind t))" if "P t" for ind t
    using e that unfolding ea_events_def Let_def case_prod_unfold env_keeps_def
    by simp
  then show ?thesis
    using i r unfolding ea_step_def Let_def case_prod_unfold by simp
qed

lemma ea_loop_keeps: "env_keeps P od e \<Longrightarrow> ea_loop e s = Some (x, t) \<Longrightarrow> P s \<Longrightarrow> P t"
proof -
  assume e: "env_keeps P od e"
  have "ea_loop en s = Some r \<Longrightarrow> en = e \<longrightarrow> P s \<longrightarrow> P (snd r)" for en s r
  proof (induction rule: ea_loop.raw_induct [rotated, consumes 1])
    case (1 loop en s r)
    then show ?case
      using ea_step_keeps [OF e, of s] by (cases r) (auto split: prod.splits if_splits)
  qed
  then show "ea_loop e s = Some (x, t) \<Longrightarrow> P s \<Longrightarrow> P t" by fastforce
qed

lemma perform_keeps:
  assumes e: "env_keeps P open_dev e" and irq: "\<And>u. P u \<Longrightarrow> R Decode (enter_irq e u)"
    and p: "P s" and x: "perform e s = Some c"
  shows "case_prod R c"
proof -
  have u: "P (set_up s)" using p by (simp add: set_up_def)
  have a: "case_prod R (at_end (if b then skip_next s else s))" for b
    using p by (auto intro!: at_end_keeps branches_keep)
  have x': "execute e (set_up s) = Some (y, t) \<Longrightarrow> Q t" for y t
    using execute_keeps [OF e u] .
  have again: "execute e (set_up s) = Some (Again, t) \<Longrightarrow> R Decode t" for t
    using luuo_keeps [OF u] by (auto dest: execute_again intro: continues)
  have fin: "Q t \<Longrightarrow> case_prod R (at_end t)" for t
    by (cases "P t") (simp_all add: after_call at_end_keeps)
  show ?thesis
  proof (cases "pi_rq s \<or> page_enable s \<and> page_fault s")
    case True
    then show ?thesis
      using x irq [OF p] a [of "\<not> f_pc_inh s \<and> \<not> pi_cycle s"]
      by (auto simp: perform_def split: if_splits)
  next
    case False
    then obtain y t where y: "execute e (set_up s) = Some (y, t)"
      using x by (auto simp: perform_def split: option.splits)
    then show ?thesis
      using x False again [of t] fin [OF x' [OF y]]
      unfolding perform_def
      by (cases y) (auto split: if_splits)
  qed
qed

lemma interp_keeps:
  assumes e: "env_keeps P open_dev e" and irq: "\<And>u. P u \<Longrightarrow> R Decode (enter_irq e u)"
    and p: "P s" and x: "interp e s = Some c"
  shows "case_prod R c"
proof (cases "fst (arith_trap s)")
  case True
  then show ?thesis using trap [OF p] x by (auto simp: interp_def split: prod.splits)
next
  case False
  define t where "t = snd (arith_trap s)"
  have a: "arith_trap s = (False, t)" using False by (cases "arith_trap s") (simp add: t_def)
  have t: "P t"
    using p a by (auto simp: arith_trap_def Let_def split: if_splits intro!: clr_flags_keeps)
  obtain y u where l: "ea_loop e t = Some (y, u)"
    using x a by (auto simp: interp_def split: option.splits)
  have u: "P u" using ea_loop_keeps [OF e l t] .
  show ?thesis
    using x a l u at_end_keeps [OF u] perform_keeps [OF e irq u] continues [OF u]
    by (cases y) (auto simp: interp_def)
qed

lemma cycle_keeps:
  assumes e: "env_keeps P open_dev e" and irq: "\<And>u. P u \<Longrightarrow> R Decode (enter_irq e u)"
    and p: "P s" and x: "cycle_step e q s = Some c"
  shows "case_prod R c"
proof (cases q)
  case Top
  obtain stop t where c: "top_checks e s = (stop, t)" by fastforce
  have t: "P t" using top_checks_keep [OF e p] c by simp
  define u where "u = load_pc t"
  have u: "P u" using load_pc_keeps [OF t] by (simp add: u_def)
  obtain fault v where m: "Mem_read (pi_cycle u \<or> uuo_cycle u) True True False u = (fault, v)"
    by fastforce
  have v: "P v" using reading [OF u] m by (metis snd_conv)
  show ?thesis
    using x c m continues [OF t] at_end_keeps [OF v] continues [OF v] interp_keeps [OF e irq u]
    unfolding Top by (cases stop) (auto simp: Let_def u_def [symmetric] split: if_splits)
next
  case Decode
  then show ?thesis using x interp_keeps [OF e irq, of "decode s" c] p by simp
next
  case Stop
  then show ?thesis using x by simp
qed

end

section \<open>The interrupt bus along a run\<close>

lemma bus_more [simp]:
  "bus_inv (s\<lparr>uuo_cycle := b\<rparr>) = bus_inv s" "bus_inv (s\<lparr>pi_restore := b\<rparr>) = bus_inv s"
  "bus_inv (s\<lparr>pi_cycle := b\<rparr>) = bus_inv s" "bus_inv (s\<lparr>inout_fail := b\<rparr>) = bus_inv s"
  "bus_inv (s\<lparr>page_fault := b\<rparr>) = bus_inv s" "bus_inv (s\<lparr>trap_flag := a\<rparr>) = bus_inv s"
  "bus_inv (s\<lparr>f_pc_inh := b\<rparr>) = bus_inv s" "bus_inv (s\<lparr>pi_vect := a\<rparr>) = bus_inv s"
  "bus_inv (restore_pi_hold s) = bus_inv s" "bus_inv (set_pi_hold s) = bus_inv s"
  "bus_inv (snd (check_irq_level s)) = bus_inv s" for s :: cpu
  by (simp_all add: bus_inv_def restore_pi_hold_def set_pi_hold_def check_irq_level_def Let_def
      split: prod.splits)

lemma bus_next_pc [simp]: "bus_inv (next_pc s) = bus_inv s"
  by (simp add: next_pc_def skip_next_def bus_inv_def clr_flags_def)

lemma bus_refetch: "bus_inv s \<Longrightarrow> bus_inv (pi_refetch a s)"
  by (simp add: pi_refetch_def bus_nopage)

lemma bus_page_trap: "bus_inv s \<Longrightarrow> bus_inv (page_trap s)"
  unfolding page_trap_def by (intro bus_let) (simp_all add: bus_nopage)

lemma bus_arith_trap: "bus_inv s \<Longrightarrow> bus_inv (snd (arith_trap s))"
  by (auto simp: arith_trap_def Let_def intro!: bus_nopage)

lemma bus_end: "bus_inv s \<Longrightarrow> bus_inv (snd (end_pi_cycle s))"
  unfolding end_pi_cycle_def Let_def case_prod_unfold
  by (simp add: bus_refetch bus_inv_def [symmetric])

interpretation bus_run: kept_cycle bus_inv bus_inv "\<lambda>_. True" "\<lambda>p. bus_inv"
proof
  fix s :: cpu
  assume s: "bus_inv s"
  then show "bus_inv (s\<lparr>uuo_cycle := False\<rparr>)" "bus_inv ((restore_pi_hold s)\<lparr>pi_restore := False\<rparr>)"
    "bus_inv (snd (arith_trap s))" "bus_inv (page_trap s)"
    by (simp_all add: bus_arith_trap bus_page_trap)
  show "case end_pi_cycle s of (Last, t) \<Rightarrow> bus_inv t | (Again, t) \<Rightarrow> bus_inv t"
    using bus_end [OF s] by (cases "end_pi_cycle s") (auto split: exit.split)
qed simp_all

section \<open>Ways out of a user program\<close>

definition user_left :: "env \<Rightarrow> cpu \<Rightarrow> point \<Rightarrow> cpu \<Rightarrow> bool" where
  \<comment> \<open>how a step from a user program may end: in the program, or in its monitor through a
      monitor call, an interrupt, an overflow trap or a page failure\<close>
  "user_left e s0 q t \<longleftrightarrow> user_prog s0 t \<or>
     (\<exists>u. user_prog s0 u \<and>
        ((q, t) = at_end (exec_muuo u)
         \<or> q = Decode \<and> (t = enter_irq e u
              \<or> fst (arith_trap u) \<and> t = snd (arith_trap u)
              \<or> page_enable u \<and> page_fault u \<and> t = page_trap u)))"

interpretation user_run: kept_cycle "user_prog s0" "monitor_called s0" "\<lambda>d. 64 \<le> d" "user_left e s0"
  for e s0
proof
  fix s :: cpu
  obtain q t where e: "at_end s = (q, t)" by fastforce
  show "monitor_called s0 s \<Longrightarrow> \<not> user_prog s0 s \<Longrightarrow> case_prod (user_left e s0) (at_end s)"
    unfolding e prod.case user_left_def using e [symmetric] by (auto simp only: monitor_called_def)
  assume s: "user_prog s0 s"
  show "user_prog s0 (s\<lparr>uuo_cycle := False\<rparr>)"
    using user_prog_flags(4) [OF s] by (intro user_prog_priv [OF _ s]) (simp add: priv_def)
  show "pi_restore s \<Longrightarrow> user_prog s0 ((restore_pi_hold s)\<lparr>pi_restore := False\<rparr>)"
    using user_prog_flags(6) [OF s] by simp
  show "pi_cycle s \<Longrightarrow> case end_pi_cycle s of (Last, t) \<Rightarrow> user_prog s0 t | (Again, t) \<Rightarrow> user_left e s0 Decode t"
    using user_prog_flags(3) [OF s] by simp
qed (auto simp: user_left_def)

section \<open>The devices of the processor\<close>

lemma bus_apr_registers [simp]:
  "bus_inv (s\<lparr>nxm_flag := b\<rparr>) = bus_inv s" "bus_inv (s\<lparr>clk_flg := b\<rparr>) = bus_inv s"
  "bus_inv (s\<lparr>clk_en := b\<rparr>) = bus_inv s" "bus_inv (s\<lparr>timer_irq := b\<rparr>) = bus_inv s"
  "bus_inv (s\<lparr>timer_flg := b\<rparr>) = bus_inv s" "bus_inv (s\<lparr>apr_irq := n\<rparr>) = bus_inv s"
  "bus_inv (s\<lparr>clk_irq := n\<rparr>) = bus_inv s" for s :: cpu
  by (simp_all add: bus_inv_def)

lemma bus_apr_cono:
  fixes s :: cpu
  assumes "\<And>t. bus_inv t \<Longrightarrow> bus_inv (io_reset t)" and "bus_inv s"
  shows "bus_inv (dev_apr_cono io_reset v s)"
  unfolding dev_apr_cono_def
  by (intro bus_let check_apr_irq_bus)
    (simp_all add: assms pi_lines.raise_inv pi_lines.drop_inv Let_def)

lemma bus_pag: "bus_inv s \<Longrightarrow> bus_inv (snd (dev_pag f v s))" for s :: cpu
  by (simp add: dev_pag_def dev_pag_cono_def dev_pag_datao_def flush_tlb_def bus_inv_def Let_def)

lemma basic_devices_bus:
  assumes "\<And>t. bus_inv t \<Longrightarrow> bus_inv (io_reset t)"
    and "\<And>v t. bus_inv t \<Longrightarrow> bus_inv (snd (others d f v t))" and "bus_inv s"
  shows "bus_inv (snd (basic_dev_tab io_reset others d f v s))"
  using assms bus_apr_cono [OF assms(1,3)]
  by (auto simp: basic_dev_tab_def dev_pi_bus bus_pag dev_apr_def Let_def)

section \<open>Runs\<close>

definition irq_keeps :: "(cpu \<Rightarrow> bool) \<Rightarrow> env \<Rightarrow> bool" where
  \<comment> \<open>the interrupt routines of the devices keep \<open>P\<close>\<close>
  "irq_keeps P e \<longleftrightarrow> (\<forall>f h d a s. dev_irqv e f = Some h \<longrightarrow> P s \<longrightarrow> P (snd (h d a s)))"

lemma bus_enter_irq:
  assumes "irq_keeps bus_inv e" and "bus_inv s"
  shows "bus_inv (enter_irq e s)"
proof -
  have v: "bus_inv (irq_vector e t)" if "bus_inv t" for t
    using assms(1) that unfolding irq_vector_def irq_keeps_def
    by (auto simp: Let_def case_prod_unfold split: option.split dest: find_Some_iff [THEN iffD1])
  show ?thesis
    using assms(2) unfolding enter_irq_def
    by (intro bus_let) (simp_all add: v bus_nopage bus_inv_def [of "_ :: cpu", symmetric])
qed

lemma run_bus:
  assumes e: "env_keeps bus_inv (\<lambda>_. True) e" "irq_keeps bus_inv e"
    and r: "(step e)\<^sup>*\<^sup>* c d" and i: "bus_inv (snd c)"
  shows "bus_inv (snd d)"
  using r
proof (induction rule: rtranclp_induct)
  case base
  show ?case by (rule i)
next
  case (step c d)
  obtain p s q t where cd: "c = (p, s)" "d = (q, t)" by fastforce
  then have "cycle_step e p s = Some (q, t)" using step.hyps(2) by (simp add: step_iff)
  then show ?case
    using bus_run.cycle_keeps [OF e(1) bus_enter_irq [OF e(2)], of s p "(q, t)"] step.IH cd
    by simp
qed

lemma step_user:
  assumes "env_keeps (user_prog s0) (\<lambda>d. 64 \<le> d) e" and "user_prog s0 s"
    and "step e (p, s) (q, t)"
  shows "user_left e s0 q t"
proof -
  have "user_left e s0 Decode (enter_irq e u)" if "user_prog s0 u" for u
    using that by (auto simp: user_left_def)
  then show ?thesis
    using user_run.cycle_keeps [OF assms(1), of e s p "(q, t)"] assms(2,3) by (simp add: step_iff)
qed

end
