(* ===== verification/Effective_Address.thy ===== *)
theory Effective_Address
  imports Cycle
begin

text \<open>
  The loop of \<open>sim_instr\<close> that computes effective addresses, against the rule of the
  architecture: the address field is indexed, and as long as the indirect bit is set the word at
  that address takes its place. \<open>ea_ref\<close> is that rule, bounded in the number of indirections.
  Without paging and undisturbed by events and interrupts, the loop returns exactly when the chain
  of indirect words ends, and then it agrees with the rule.
\<close>

unbundle bit_operations_syntax

definition word_at :: "cpu \<Rightarrow> u32 \<Rightarrow> u64" where
  "word_at s a = (if a < 0x10 then get_reg a s else M s a)"

definition indexed :: "cpu \<Rightarrow> u64 \<Rightarrow> u64" where
  "indexed s w =
     (let ix = ucast (drop_bit 18 w) AND 0xF
      in if ix \<noteq> 0 then ((w AND RMASK) + get_reg ix s) AND FMASK else w)"

fun ea_ref :: "nat \<Rightarrow> cpu \<Rightarrow> u64 \<Rightarrow> u64 option" where
  \<comment> \<open>the operand word of the instruction or indirect word \<open>w\<close>, through fewer than \<open>n\<close>
      indirections\<close>
  "ea_ref 0 s w = None"
| "ea_ref (Suc n) s w =
     (if bit w 22 then ea_ref n s (word_at s (ucast (indexed s w AND RMASK)))
      else Some (indexed s w))"

definition calm :: "cpu \<Rightarrow> bool" where
  \<comment> \<open>no paging, memory behind every address, no interrupt to take\<close>
  "calm s \<longleftrightarrow> direct s \<and> 0x40000 \<le> MEMSIZE s \<and> \<not> pi_rq s
     \<and> (pi_cycle s \<or> \<not> pi_pending s \<or> trap_flag s \<noteq> 0)"

definition same_words :: "cpu \<Rightarrow> cpu \<Rightarrow> bool" where
  "same_words t s \<longleftrightarrow> M t = M s \<and> FM t = FM s \<and> FLAGS t = FLAGS s \<and> fm_sel t = fm_sel s"

lemma same_words_refs:
  assumes "same_words t s"
  shows "word_at t a = word_at s a" "indexed t w = indexed s w"
  using assms by (simp_all add: same_words_def word_at_def indexed_def get_reg_def Let_def)

lemma same_words_ref: "same_words t s \<Longrightarrow> ea_ref n t w = ea_ref n s w"
  by (induction n arbitrary: w) (simp_all add: same_words_refs)

lemma ea_index_eq:
  "ea_index s =
     (if ucast (drop_bit 18 (MB s)) AND (0xF :: u32) \<noteq> 0
      then s\<lparr>AR := indexed s (MB s), MB := indexed s (MB s), AB := ucast (indexed s (MB s) AND RMASK)\<rparr>
      else s\<lparr>AR := indexed s (MB s), AB := ucast (indexed s (MB s) AND RMASK)\<rparr>)"
  by (simp add: ea_index_def indexed_def Let_def)

lemma ucast_rmask_less: "(ucast (w AND RMASK :: u64) :: u32) < 0x40000"
proof -
  have "uint (ucast (w AND RMASK) :: u32) = uint w mod 2 ^ 18"
    unfolding uint_ucast18 by (simp only: uint_rmask)
  then show ?thesis by (simp add: word_less_def)
qed

lemma calm_read:
  assumes "calm s" and "AB s < 0x40000"
  shows "\<exists>t. Mem_read f True False False s = (False, t) \<and> MB t = word_at s (AB s)
    \<and> same_words t s \<and> calm t \<and> AR t = AR s \<and> AB t = AB s"
proof (cases "AB s < 0x10")
  case True
  then show ?thesis
    using assms by (simp add: Mem_read_def word_at_def same_words_def calm_def direct_def)
next
  case False
  have "AB s < MEMSIZE s" using assms less_le_trans unfolding calm_def by blast
  then show ?thesis
    using assms False direct_read [of s f True False False]
    by (simp add: word_at_def same_words_def calm_def direct_def)
qed

lemma calm_events:
  assumes "quiet e" and "calm s"
  shows "\<exists>t. ea_events e ind s = (if ind then More else Done, t) \<and> MB t = MB s
    \<and> same_words t s \<and> calm t \<and> AR t = AR s \<and> AB t = AB s"
  using assms
  by (auto simp: ea_events_def quiet_def Let_def calm_def direct_def same_words_def)

lemma calm_index:
  assumes "calm s"
  shows "calm (ea_index s)" "same_words (ea_index s) s" "AR (ea_index s) = indexed s (MB s)"
    "AB (ea_index s) = ucast (indexed s (MB s) AND RMASK)" "\<not> pi_rq (ea_index s)"
  using assms by (simp_all add: ea_index_eq calm_def direct_def same_words_def)

lemma ea_step_calm:
  assumes "quiet e" and "calm s"
  defines "a \<equiv> ucast (indexed s (MB s) AND RMASK) :: u32" and "ind \<equiv> bit (MB s) 22"
  shows "\<exists>t. ea_step e s = (if ind then More else Done, t) \<and> same_words t s \<and> calm t
    \<and> AR t = indexed s (MB s) \<and> AB t = a \<and> (ind \<longrightarrow> MB t = word_at s a)"
proof -
  let ?i = "ea_index s"
  note i = calm_index [OF assms(2)]
  have trans: "same_words u ?i \<Longrightarrow> same_words v u \<Longrightarrow> same_words v s" for u v
    using i(2) by (simp add: same_words_def)
  show ?thesis
  proof (cases ind)
    case True
    obtain u where u: "Mem_read (pi_cycle ?i \<or> uuo_cycle ?i) True False False ?i = (False, u)"
        "MB u = word_at ?i (AB ?i)" "same_words u ?i" "calm u" "AR u = AR ?i" "AB u = AB ?i"
      using calm_read [OF i(1)] i(4) ucast_rmask_less by metis
    obtain v where v: "ea_events e True u = (More, v)" "MB v = MB u" "same_words v u" "calm v"
        "AR v = AR u" "AB v = AB u"
      using calm_events [OF assms(1) u(4), of True] by auto
    show ?thesis
      using True i u v trans [OF u(3) v(3)] same_words_refs(1) [OF i(2)]
      by (auto simp: ea_step_def ind_def a_def Let_def)
  next
    case False
    obtain v where v: "ea_events e False ?i = (Done, v)" "same_words v ?i" "calm v"
        "AR v = AR ?i" "AB v = AB ?i"
      using calm_events [OF assms(1) i(1), of False] by auto
    have "same_words v s" using v(2) i(2) by (simp add: same_words_def)
    then show ?thesis
      using False i v by (auto simp: ea_step_def ind_def a_def Let_def)
  qed
qed

lemma ea_loop_agrees:
  assumes q: "quiet e"
  shows "calm s \<Longrightarrow> ea_ref n s (MB s) = Some v \<Longrightarrow>
    \<exists>t. ea_loop e s = Some (Done, t) \<and> AR t = v \<and> AB t = ucast (v AND RMASK) \<and> same_words t s"
proof (induction n arbitrary: s)
  case 0
  then show ?case by simp
next
  case (Suc n)
  obtain t where t: "ea_step e s = (if bit (MB s) 22 then More else Done, t)" "same_words t s"
      "calm t" "AR t = indexed s (MB s)" "AB t = ucast (indexed s (MB s) AND RMASK)"
      "bit (MB s) 22 \<longrightarrow> MB t = word_at s (ucast (indexed s (MB s) AND RMASK))"
    using ea_step_calm [OF q Suc.prems(1)] by blast
  show ?case
  proof (cases "bit (MB s) 22")
    case True
    then have "ea_ref n t (MB t) = Some v"
      using Suc.prems(2) t same_words_ref [OF t(2)] by simp
    then obtain u where u: "ea_loop e t = Some (Done, u)" "AR u = v" "AB u = ucast (v AND RMASK)"
        "same_words u t"
      using Suc.IH [OF t(3)] by blast
    then have "same_words u s" using t(2) by (simp add: same_words_def)
    then show ?thesis using True t(1) u by (subst ea_loop.simps) simp
  next
    case False
    then show ?thesis using Suc.prems(2) t by (subst ea_loop.simps) simp
  qed
qed

lemma ea_loop_ends:
  assumes q: "quiet e"
  shows "ea_loop en s = Some r \<Longrightarrow> en = e \<longrightarrow> calm s \<longrightarrow> (\<exists>n v. ea_ref n s (MB s) = Some v)"
proof (induction rule: ea_loop.raw_induct [rotated, consumes 1])
  case (1 loop en s r)
  show ?case
  proof (intro impI)
    assume en: "en = e" and c: "calm s"
    obtain t where t: "ea_step e s = (if bit (MB s) 22 then More else Done, t)" "same_words t s"
        "calm t" "bit (MB s) 22 \<longrightarrow> MB t = word_at s (ucast (indexed s (MB s) AND RMASK))"
      using ea_step_calm [OF q c] by blast
    show "\<exists>n v. ea_ref n s (MB s) = Some v"
    proof (cases "bit (MB s) 22")
      case True
      then have "loop e t = Some r" using 1(2) en t(1) by simp
      then obtain n v where "ea_ref n t (MB t) = Some v"
        using 1(1) [of e t] t(3) en by (cases r) auto
      then have "ea_ref (Suc n) s (MB s) = Some v"
        using True t(4) same_words_ref [OF t(2)] by simp
      then show ?thesis by blast
    next
      case False
      then have "ea_ref (Suc 0) s (MB s) = Some (indexed s (MB s))" by simp
      then show ?thesis by blast
    qed
  qed
qed

lemma ea_loop_returns_iff:
  assumes "quiet e" and "calm s"
  shows "ea_loop e s \<noteq> None \<longleftrightarrow> (\<exists>n v. ea_ref n s (MB s) = Some v)"
  using ea_loop_ends [OF assms(1), of e s] ea_loop_agrees [OF assms, of _ _] assms(2)
  by (metis option.distinct(1) option.exhaust)

end
