(* ===== verification/Calls.thy ===== *)
theory Calls
  imports Invariants Long_Div
begin

text \<open>
  Results about sequences of operations: a subroutine call with PUSHJ and its return with POPJ, the
  double-length negative of DMOVN, and the entry to the page-failure trap.
\<close>

unbundle bit_operations_syntax

section \<open>Double-length negation\<close>

lemma dneg_low:
  assumes "wf36 lo"
  defines "u \<equiv> uint lo mod 2 ^ 35"
  shows "tst (CCM lo + 1) SMASK \<longleftrightarrow> u = 0" "uint ((CCM lo + 1) AND CMASK) = (- u) mod 2 ^ 35"
proof -
  have u: "0 \<le> u" "u < 2 ^ 35" by (simp_all add: u_def)
  have c: "uint (CCM lo + 1) = 2 ^ 35 - u"
    using uint_add64 [of "CCM lo" 1] CCM_uint [OF assms(1)] u unfolding u_def by simp
  show "uint ((CCM lo + 1) AND CMASK) = (- u) mod 2 ^ 35"
    unfolding uint_cmask c by (metis minus_mod_self1)
  have "wf36 (CCM lo + 1)" using c u by (simp add: wf36_uint)
  then have "tst (CCM lo + 1) SMASK \<longleftrightarrow> 2 ^ 35 \<le> uint (CCM lo + 1)"
    using sign_iff by (simp add: tst_simps)
  then show "tst (CCM lo + 1) SMASK \<longleftrightarrow> u = 0" using c u by linarith
qed

lemma dneg_negates:
  assumes "wf36 hi" "wf36 lo" and "hi \<noteq> SMASK \<or> uint lo mod 2 ^ 35 \<noteq> 0"
  shows "case dneg hi lo of (h, l) \<Rightarrow> wf36 h \<and> wf36 l \<and> long_value h l = - long_value hi lo"
proof -
  define u where "u = uint lo mod 2 ^ 35"
  have u: "0 \<le> u" "u < 2 ^ 35" by (simp_all add: u_def)
  note low = dneg_low [OF assms(2), folded u_def]
  have l: "uint ((CCM lo + 1) AND CMASK) mod 2 ^ 35 = (- u) mod 2 ^ 35"
    unfolding low(2) by simp
  have wf: "wf36 (x AND FMASK)" "wf36 (x AND CMASK)" for x by (rule wf36_intros)+
  show ?thesis
  proof (cases "u = 0")
    case True
    then have d: "dneg hi lo = (neg36 hi, (CCM lo + 1) AND CMASK)"
      using low(1) by (simp add: dneg_def Let_def neg36_def)
    have "hi \<noteq> SMASK" using assms(3) True by (simp add: u_def)
    then have "sval (neg36 hi) = - sval hi" by (rule sval_neg36 [OF assms(1)])
    moreover have "uint lo mod 2 ^ 35 = 0" using True by (simp only: u_def)
    moreover have "uint ((CCM lo + 1) AND CMASK) mod 2 ^ 35 = 0" using l True by simp
    ultimately show ?thesis
      using wf unfolding d long_value_def prod.case by (simp add: neg36_def)
  next
    case False
    have cm: "CM hi AND FMASK = CM hi"
      using wf36_CM [OF assms(1)] by (simp add: wf36_take mask_simps)
    have d: "dneg hi lo = (CM hi, (CCM lo + 1) AND CMASK)"
      using False low(1) cm by (simp add: dneg_def Let_def)
    have "(- u) mod 2 ^ 35 = 2 ^ 35 - u" using False u by (simp add: zmod_zminus1_eq_if)
    then have "long_value (CM hi) ((CCM lo + 1) AND CMASK) = (- sval hi - 1) * 2 ^ 35 + (2 ^ 35 - u)"
      using l sval_CM [OF assms(1)] by (simp only: long_value_def)
    also have "\<dots> = - (sval hi * 2 ^ 35 + u)" by (simp add: left_diff_distrib)
    also have "\<dots> = - long_value hi lo" by (simp only: long_value_def u_def)
    finally show ?thesis
      using wf wf36_CM [OF assms(1)] unfolding d prod.case by simp
  qed
qed

section \<open>Subroutine call and return\<close>

lemma pc_word_right: "pc_word True s AND RMASK = ucast (PC s + 1) AND RMASK"
  by (rule bit_word_eqI) (auto simp: pc_word_def half_bits)

lemma prv_sign_right: "prv_sign s w AND RMASK = w AND RMASK" "(w AND FMASK) AND RMASK = w AND RMASK"
  by (rule bit_word_eqI; auto simp: prv_sign_def half_bits bit_clr_bits bit_or_iff bit_single
      mask_simps bit_take_bit_iff)+

lemma flag_steps [simp]:
  "pi_cycle (stack_trap c s) = pi_cycle s" "uuo_cycle (stack_trap c s) = uuo_cycle s"
  "pi_cycle (clr_flags m s) = pi_cycle s" "uuo_cycle (clr_flags m s) = uuo_cycle s"
  "PC (stack_trap c s) = PC s" "f_pc_inh (stack_trap c s) = f_pc_inh s"
  by (simp_all add: stack_trap_def clr_flags_def or_flags_def)

lemma get_ac_jump [simp]: "get_ac (jump a s) = get_ac s"
  by (simp add: get_ac_def get_reg_def jump_def)

lemma get_ac_set_ac [simp]: "get_ac (set_ac v s) = v"
  by (simp add: get_ac_def set_ac_def get_reg_def set_reg_def)

lemma ucast_pc: "ucast (ucast (p :: u32) AND RMASK :: u64) = p AND 0x3FFFF"
  by (rule bit_word_eqI) (auto simp: bit_and_iff bit_ucast_iff half_bits and_masks32 bit_take_bit_iff)

lemma pushj_popj:
  assumes d: "direct s" "\<not> modify s" "\<not> pi_cycle s" "\<not> uuo_cycle s"
    and br: "wf36 (BR s)"
    and stack: "\<not> ucast (AOB (BR s) AND RMASK) < (0x10 :: u32)" "ucast (AOB (BR s) AND RMASK) < MEMSIZE s"
  defines "t \<equiv> exec_pushj s"
  defines "u \<equiv> exec_popj (t\<lparr>BR := get_ac t\<rparr>)"
  shows "PC t = ucast (AR s AND RMASK)" "PC u = (PC s + 1) AND 0x3FFFF" "get_ac u = BR s"
    "f_pc_inh t" "f_pc_inh u"
proof -
  let ?a = "ucast (AOB (BR s) AND RMASK) :: u32"
  let ?w = "if tst (FLAGS s) USER then saved_pc s else saved_pc s AND FMASK"
  define s1 where "s1 = (stack_trap (tst (AOB (BR s)) C1) (clr_flags PC_FLAGS (s\<lparr>MB := ?w\<rparr>)))\<lparr>AB := ?a\<rparr>"
  have s1: "direct s1" "AB s1 = ?a" "MEMSIZE s1 = MEMSIZE s" "\<not> modify s1" "MB s1 = ?w"
    "\<not> pi_cycle s1" "\<not> uuo_cycle s1" "M s1 = M s"
    using d by (simp_all add: s1_def stack_trap_def clr_flags_def direct_def or_flags_def)
  define s2 where "s2 = s1\<lparr>watch_stop := (watch_stop s1 \<or> brk_W s1 (AB s1)),
      sim_interval := sim_interval s1 - 1, M := (M s1)(AB s1 := MB s1)\<rparr>"
  have wr: "Mem_write False False s1 = (False, s2)"
    unfolding s2_def using s1 stack by (intro direct_write) simp_all
  have s2: "direct s2" "M s2 ?a = ?w" "\<not> pi_cycle s2" "\<not> uuo_cycle s2" "MEMSIZE s2 = MEMSIZE s"
    using s1 by (simp_all add: s2_def direct_def)
  have t: "t = set_ac (AOB (BR s) AND FMASK) (jump (ucast (AR s AND RMASK)) s2)"
    unfolding t_def exec_pushj_def Let_def mem_wr_def
    using d wr s2 by (simp add: s1_def [symmetric] clr_user_def)
  show "PC t = ucast (AR s AND RMASK)" "f_pc_inh t" unfolding t by (simp_all add: jump_def)
  define v where "v = t\<lparr>BR := get_ac t, AB := ?a\<rparr>"
  have v: "direct v" "AB v = ?a" "MEMSIZE v = MEMSIZE s" "M v ?a = ?w"
    using s2 by (simp_all add: v_def t direct_def set_ac_def set_reg_def jump_def)
  define v1 where "v1 = v\<lparr>watch_stop := (watch_stop v \<or> brk_R v (AB v)),
      sim_interval := sim_interval v - 1, MB := M v (AB v), modify := False, last_addr := AB v\<rparr>"
  have rd: "Mem_read False False False False v = (False, v1)"
    unfolding v1_def using v stack by (intro direct_read) simp_all
  have w: "MB v1 AND RMASK = ucast (PC s + 1) AND RMASK"
    using v d by (simp add: v1_def saved_pc_def prv_sign_right pc_word_right)
  have "get_ac t = AOB (BR s) AND FMASK" unfolding t by simp
  then have u: "u = set_ac (BR s) (stack_trap (\<not> tst (SOB (AOB (BR s) AND FMASK)) C1)
      (jump (ucast (MB v1 AND RMASK)) v1))"
    unfolding u_def exec_popj_def Let_def mem_rd_def
    using rd by (simp add: v_def prv_sign_right(2) SOB_AOB [OF br])
  show "PC u = (PC s + 1) AND 0x3FFFF" "get_ac u = BR s" "f_pc_inh u"
    unfolding u w ucast_pc by (simp_all add: jump_def)
qed

section \<open>Page failures\<close>

lemma room: "uint a + 0x117 < uint m \<Longrightarrow> uint c \<le> 0x117 \<Longrightarrow> \<not> m \<le> a + c" for a c m :: u32
proof -
  assume a: "uint a + 0x117 < uint m" "uint c \<le> 0x117"
  have "uint m < 2 ^ 32" using uint_bounded [of m] by simp
  then have "uint (a + c) = uint a + uint c"
    using a by (simp add: uint_plus_if')
  then show ?thesis using a by (simp add: word_le_def)
qed

lemma page_trap_entry:
  assumes "page_enable s" "page_fault s" and "adr_cond s = 0"
    and "uint (ub_ptr s) + 0x117 < uint (MEMSIZE s)" "uint (eb_ptr s) + 0x117 < uint (MEMSIZE s)"
  defines "base \<equiv> (if tst (FLAGS s) USER then ub_ptr s else eb_ptr s)"
    and "a \<equiv> ub_ptr s + (if tst (FLAGS s) USER then 0x117 else 0x116)"
  shows "\<exists>t. at_end s = (Decode, t) \<and> PC t = PC s \<and> FM t = FM s \<and> \<not> page_fault t \<and> pi_cycle t
    \<and> M t = (M s)(a := fault_data s) \<and> MB t = M t (base + 0x110)
    \<and> FLAGS t AND 0xC0 = FLAGS s AND 0xC0"
proof -
  have ok: "\<not> MEMSIZE s \<le> ub_ptr s + 0x117" "\<not> MEMSIZE s \<le> ub_ptr s + 0x116"
    "\<not> MEMSIZE s \<le> ub_ptr s + 0x110" "\<not> MEMSIZE s \<le> eb_ptr s + 0x110"
    by (rule room [OF assms(4)] room [OF assms(5)]; simp)+
  have tr: "(f OR (v AND 0xC)) AND 0xC0 = f AND (0xC0 :: u32)" for f v
    by (rule mode_or) (simp add: and.assoc)
  have mode: "tst (FLAGS s OR (v AND 0xC)) USER = tst (FLAGS s) USER" for v
  proof -
    have e: "(0x80 :: u32) = 2 ^ 7" by simp
    have "\<not> bit (0xC :: u32) 7" by simp
    then show ?thesis unfolding e tst_exp by (simp add: bit_or_iff bit_and_iff)
  qed
  define s1 where "s1 = (if pi_cycle s then s\<lparr>modify := False, inout_fail := True\<rparr> else s\<lparr>modify := False\<rparr>)"
  define s2 where "s2 = s1\<lparr>page_fault := False, AB := a, MB := fault_data s\<rparr>"
  define s3 where "s3 = snd (Mem_write_nopage s2)"
  define s4 where "s4 = s3\<lparr>FLAGS := FLAGS s3 OR (trap_flag s3 AND 0xC), trap_flag := 1,
    AB := base + 0x110, f_pc_inh := True, pi_cycle := True\<rparr>"
  have s2: "M s2 = M s" "FM s2 = FM s" "PC s2 = PC s" "AB s2 = a" "MB s2 = fault_data s"
    "FLAGS s2 = FLAGS s" "adr_cond s2 = 0" "MEMSIZE s2 = MEMSIZE s" "ub_ptr s2 = ub_ptr s"
    "eb_ptr s2 = eb_ptr s" "\<not> page_fault s2"
    using assms(3) by (simp_all add: s2_def s1_def)
  have "\<not> MEMSIZE s \<le> a" using ok by (simp add: a_def)
  then have "s3 = s2\<lparr>sim_interval := sim_interval s2 - 1, M := (M s2)(a := fault_data s)\<rparr>"
    unfolding s3_def Mem_write_nopage_def using s2 by (simp add: Let_def)
  then have s3: "M s3 = (M s)(a := fault_data s)" "FM s3 = FM s" "PC s3 = PC s"
    "FLAGS s3 = FLAGS s" "adr_cond s3 = 0" "MEMSIZE s3 = MEMSIZE s" "ub_ptr s3 = ub_ptr s"
    "eb_ptr s3 = eb_ptr s" "\<not> page_fault s3"
    using s2 by simp_all
  have "\<not> MEMSIZE s \<le> base + 0x110" using ok by (simp add: base_def)
  then have m: "snd (Mem_read_nopage s4) = s4\<lparr>sim_interval := sim_interval s4 - 1, MB := M s4 (base + 0x110)\<rparr>"
    unfolding Mem_read_nopage_def s4_def using s3 by (simp add: Let_def)
  have e1: "(if pi_cycle (s\<lparr>modify := False\<rparr>) then s\<lparr>modify := False, inout_fail := True\<rparr>
      else s\<lparr>modify := False\<rparr>) = s1"
    by (simp add: s1_def)
  have e2: "s1\<lparr>page_fault := False, AB := ub_ptr s1 + (if tst (FLAGS s1) USER then 0x117 else 0x116),
      MB := fault_data s1\<rparr> = s2"
    by (simp add: s2_def a_def s1_def)
  have e4: "s3\<lparr>FLAGS := FLAGS s3 OR (trap_flag s3 AND (TRP1 OR TRP2)), trap_flag := 1,
      AB := (if tst (FLAGS s3 OR (trap_flag s3 AND (TRP1 OR TRP2))) USER then ub_ptr s3 else eb_ptr s3) + 0x110,
      f_pc_inh := True, pi_cycle := True\<rparr> = s4"
    using s3 mode by (simp add: s4_def base_def)
  have "page_trap (s\<lparr>modify := False\<rparr>) = snd (Mem_read_nopage s4)"
    unfolding page_trap_def Let_def e1 e2 s3_def [symmetric] using e4 by (auto split: if_splits)
  then have "at_end s = (Decode, snd (Mem_read_nopage s4))"
    using assms(1,2) by (simp add: at_end_def)
  then show ?thesis
    unfolding m using s3 tr by (simp add: s4_def)
qed

section \<open>Interrupts\<close>

lemma held_levels_cong: "PIH s = PIH t \<Longrightarrow> held_levels s = held_levels t" for s t :: cpu
  by (simp add: held_levels_def pi_held_def [abs_def])

lemma set_pi_hold_more [simp]:
  "apr_state.more (set_pi_hold s) = apr_state.more s" for s :: cpu
  by (simp add: set_pi_hold_def Let_def)

text \<open>The cycle of an interrupt instruction that jumps ends with its level in service.\<close>

lemma irq_cycle_holds:
  fixes s s' t :: cpu
  assumes "pi_enable s" "xct_flag s = 0" "check_irq_level s = (True, s')"
    and t: "pi_enable t" "PIH t = PIH s" "pi_enc t = pi_enc s'"
    and c: "pi_cycle t" "trap_flag t = 0" "\<not> (page_enable t \<and> page_fault t)" "f_pc_inh t"
      "IR t AND 0x1C0 \<noteq> 0x1C0" "\<not> pi_restore t" "instr_count t = 0"
  shows "\<exists>u. at_end t = (Top, u) \<and> held_levels u = pi_enc s' # held_levels s
    \<and> \<not> pi_cycle u \<and> PC u = PC t"
proof -
  define u where "u = (set_pi_hold (t\<lparr>modify := False\<rparr>))\<lparr>pi_cycle := False, f_inst_fetch := True,
    f_load_pc := True\<rparr>"
  have u: "PC u = PC t" "\<not> pi_cycle u" "pi_restore u = pi_restore t" "instr_count u = instr_count t"
    by (simp_all add: u_def set_pi_hold_def Let_def)
  have "at_end t = finish u"
    using c by (auto simp: at_end_def next_pc_def end_pi_cycle_def u_def Let_def)
  then have e: "at_end t = (Top, u\<lparr>sim_interval := sim_interval u - 1\<rparr>)"
    using c u by (simp add: finish_def Let_def)
  have "PIH s' = PIH s" "pi_enable s'"
    using assms(1,3) by (auto simp: check_irq_level_def Let_def split: if_splits prod.splits)
  then have "PIH u = PIH (set_pi_hold s')"
    using t by (simp add: u_def set_pi_hold_def Let_def)
  then have "held_levels u = pi_enc s' # held_levels s"
    using pi_grant_push [OF assms(1-3)] held_levels_cong [of u "set_pi_hold s'"] by simp
  then show ?thesis
    using e u held_levels_cong [of "u\<lparr>sim_interval := sim_interval u - 1\<rparr>" u] by simp
qed

text \<open>The cycle of an instruction that dismisses (JEN) ends with the highest level released.\<close>

lemma jen_cycle_releases:
  fixes t :: cpu
  assumes "pi_enable t" and "\<not> pi_cycle t" "\<not> (page_enable t \<and> page_fault t)"
    and "pi_restore t" "instr_count t = 0"
  shows "\<exists>u. at_end t = (Top, u) \<and> held_levels u = tl (held_levels t) \<and> \<not> pi_restore u"
proof -
  define v where "v = next_pc (t\<lparr>modify := False\<rparr>)"
  have v: "PIH v = PIH t" "pi_enable v" "\<not> pi_cycle v" "pi_restore v" "instr_count v = 0"
    using assms by (simp_all add: v_def next_pc_def skip_next_def clr_flags_def)
  define u where "u = (restore_pi_hold v)\<lparr>pi_restore := False, sim_interval := sim_interval v - 1\<rparr>"
  have r: "pi_cycle (restore_pi_hold v) = pi_cycle v" "instr_count (restore_pi_hold v) = instr_count v"
    "sim_interval (restore_pi_hold v) = sim_interval v"
    by (simp_all add: restore_pi_hold_def Let_def)
  have "at_end t = finish v"
    using assms v by (auto simp: at_end_def v_def Let_def)
  then have e: "at_end t = (Top, u)" using v r by (simp add: finish_def Let_def u_def)
  have "held_levels u = held_levels (restore_pi_hold v)"
    by (rule held_levels_cong) (simp add: u_def)
  also have "\<dots> = tl (held_levels v)" by (rule pi_restore_pop [OF v(2)])
  also have "held_levels v = held_levels t" by (rule held_levels_cong [OF v(1)])
  finally show ?thesis using e by (simp add: u_def)
qed

end
