(* ===== verification/Properties_Control.thy ===== *)
theory Properties_Control
  imports Cycle_Invariants Effective_Address Calls
begin

text \<open>
  The properties of the control and byte instructions and of the instruction cycle, each with an
  instance at a concrete state.
\<close>

unbundle bit_operations_syntax

section \<open>A concrete environment and state\<close>

definition idle_env :: env where
  \<comment> \<open>no events, no peripherals beside those of the processor\<close>
  "idle_env =
     \<lparr>process_event = (\<lambda>s. (0, s)), dev_tab = basic_dev_tab (\<lambda>s. s) (\<lambda>d. null_dev),
      dev_irqv = (\<lambda>d. None), brk_E = (\<lambda>a. False)\<rparr>"

definition prog0 :: cpu where
  \<comment> \<open>a user program with MOVEI 1,5 fetched\<close>
  "prog0 = zero_cpu\<lparr>FLAGS := 0x80, MB := 0x408800005\<rparr>"

lemma prog0_step: "\<exists>q t. step idle_env (Decode, prog0) (q, t)"
proof -
  have a: "arith_trap (decode prog0) = (False, decode prog0)"
    by (simp add: arith_trap_def decode_def prog0_def zero_cpu_def)
  have "ea_step idle_env (decode prog0) =
      (Done, (decode prog0)\<lparr>AR := 0x408800005, AB := 5, sim_interval := - 1, reason := 0\<rparr>)"
    by (simp add: ea_step_def ea_index_def ea_events_def decode_def prog0_def zero_cpu_def
        idle_env_def Let_def)
  then have l: "ea_loop idle_env (decode prog0) =
      Some (Done, (decode prog0)\<lparr>AR := 0x408800005, AB := 5, sim_interval := - 1, reason := 0\<rparr>)"
    by (subst ea_loop.simps) simp
  have "\<exists>q t. cycle_step idle_env Decode prog0 = Some (q, t)"
    using a l
    by (simp add: interp_def perform_def execute_def exec_arith_def at_last_def set_up_def
        decode_def prog0_def zero_cpu_def Let_def)
  then show ?thesis by (auto simp: step_iff)
qed

section \<open>Whole cycles\<close>

text \<open>
  C1: A user program without I/O privilege stays confined. A step of the instruction cycle that
  starts in one ends in the same program, with the same page tables, accumulator block, interrupt
  enables and levels in service, or in the monitor: by a monitor call, an interrupt, an overflow
  trap or a page failure taken from the program. No instruction leaves user mode or gains I/O
  privilege by itself, JRST, XCT, UUOs and the I/O instructions included. Of the surroundings it
  is assumed that events and the devices from 400 (octal) on, the only ones a user may address,
  keep the program confined.
\<close>

theorem user_program_confined:
  assumes "env_keeps (user_prog s0) (\<lambda>d. 64 \<le> d) e" and "user_prog s0 s"
    and "step e (p, s) (q, t)"
  shows "user_left e s0 q t"
  using assms by (rule step_user)

theorem user_program_confined_witness:
  "\<exists>q t. step idle_env (Decode, prog0) (q, t) \<and> user_left idle_env prog0 q t"
proof -
  obtain q t where st: "step idle_env (Decode, prog0) (q, t)" using prog0_step by blast
  have "env_keeps (user_prog prog0) (\<lambda>d. 64 \<le> d) idle_env"
    by (auto simp: env_keeps_def idle_env_def basic_dev_tab_def null_dev_def Let_def)
  moreover have "user_prog prog0 prog0"
    by (simp add: user_prog_def prog0_def zero_cpu_def)
  ultimately show ?thesis using user_program_confined st by blast
qed

text \<open>
  C9: The interrupt bus stays consistent along every run: every request a device has pending is
  up on the bus, whatever instructions, traps and interrupts are executed, provided the events and
  the peripherals keep it so.
\<close>

theorem bus_consistent_along_runs:
  assumes "dev_tab e = basic_dev_tab io_reset others"
    and "\<And>s. bus_inv s \<Longrightarrow> bus_inv (io_reset s)"
    and "\<And>d f v s. unat f div 4 = d \<Longrightarrow> bus_inv s \<Longrightarrow> bus_inv (snd (others d f v s))"
    and "\<And>s. bus_inv s \<Longrightarrow> bus_inv (snd (process_event e s))"
    and "irq_keeps bus_inv e"
    and "(step e)\<^sup>*\<^sup>* c d" and "bus_inv (snd c)"
  shows "bus_inv (snd d)"
proof (rule run_bus)
  show "env_keeps bus_inv (\<lambda>_. True) e"
    using assms basic_devices_bus [OF assms(2,3)] by (simp add: env_keeps_def)
qed (use assms in simp_all)

theorem bus_consistent_along_runs_witness:
  "\<exists>q t. (step idle_env)\<^sup>*\<^sup>* (Decode, prog0) (q, t) \<and> bus_inv t"
proof -
  obtain q t where st: "step idle_env (Decode, prog0) (q, t)" using prog0_step by blast
  then have r: "(step idle_env)\<^sup>*\<^sup>* (Decode, prog0) (q, t)" by blast
  have "bus_inv prog0" by (simp add: bus_inv_def prog0_def zero_cpu_def)
  then have "bus_inv (snd (q, t))"
    using bus_consistent_along_runs [of idle_env "\<lambda>s. s" "\<lambda>d. null_dev", OF _ _ _ _ _ r]
    by (simp add: idle_env_def irq_keeps_def null_dev_def Let_def)
  then show ?thesis using r by auto
qed

text \<open>
  C8: The effective-address loop implements the rule of the architecture: the address field is
  indexed, and while the indirect bit is set the word at the address takes its place. Undisturbed
  by paging and interrupts, when the chain ends the loop leaves that word in AR and its address
  in AB, and no word is changed.
\<close>

theorem effective_address_agrees:
  assumes "quiet e" and "calm s" and "ea_ref n s (MB s) = Some v"
  shows "\<exists>t. ea_loop e s = Some (Done, t) \<and> AR t = v \<and> AB t = ucast (v AND RMASK)
    \<and> M t = M s \<and> FM t = FM s"
  using ea_loop_agrees [OF assms] by (auto simp: same_words_def)

definition chained :: cpu where
  \<comment> \<open>MB holds \<open>@100(1)\<close>, AC 1 the index 2, and word 102 (octal) holds 1234567\<close>
  "chained = zero_cpu\<lparr>MB := 0x440040, FM := (\<lambda>_. 0)(1 := 2), M := (\<lambda>_. 0)(0x42 := 0x3039)\<rparr>"

lemma chained_calm: "calm chained"
  by (simp add: calm_def chained_def zero_cpu_def direct_def)

lemma chained_ref: "ea_ref (Suc (Suc 0)) chained (MB chained) = Some 0x3039"
  by (simp add: indexed_def word_at_def get_reg_def chained_def
      zero_cpu_def Let_def)

theorem effective_address_agrees_witness:
  "\<exists>t. ea_loop idle_env chained = Some (Done, t) \<and> AR t = 0x3039 \<and> AB t = 0x3039"
proof -
  have "quiet idle_env" by (simp add: quiet_def idle_env_def)
  from effective_address_agrees [OF this chained_calm chained_ref] show ?thesis by auto
qed

text \<open>
  C27: The effective-address loop returns exactly when the chain of indirect words ends: an
  endless chain keeps the processor in the loop for ever unless an event or interrupt breaks it.
\<close>

theorem effective_address_returns_iff:
  assumes "quiet e" and "calm s"
  shows "ea_loop e s \<noteq> None \<longleftrightarrow> (\<exists>n v. ea_ref n s (MB s) = Some v)"
  using assms by (rule ea_loop_returns_iff)

definition looped :: cpu where
  \<comment> \<open>MB holds \<open>@100\<close> and so does word 100 (octal)\<close>
  "looped = zero_cpu\<lparr>MB := 0x400040, M := (\<lambda>a. 0x400040)\<rparr>"

theorem effective_address_returns_iff_witness:
  "ea_loop idle_env looped = None \<and> ea_loop idle_env chained \<noteq> None"
proof -
  have q: "quiet idle_env" by (simp add: quiet_def idle_env_def)
  have c: "calm looped" by (simp add: calm_def looped_def zero_cpu_def direct_def)
  have "ea_ref n looped 0x400040 = None" for n
    by (induction n) (simp_all add: word_at_def indexed_def looped_def)
  then have "\<not> (\<exists>n v. ea_ref n looped (MB looped) = Some v)"
    by (simp add: looped_def)
  then show ?thesis
    using effective_address_returns_iff [OF q c] effective_address_returns_iff [OF q chained_calm]
      chained_ref by blast
qed

text \<open>
  C23: A page failure is taken as a trap: the fault word is stored in the user process table (at
  427 or 426 octal), the trap instruction at 420 is fetched, the failed instruction's address is
  still in PC, and nothing else in memory or in the accumulators has changed, so that the
  instruction can be restarted.
\<close>

theorem page_failure_traps:
  assumes "page_enable s" "page_fault s" and "adr_cond s = 0"
    and "uint (ub_ptr s) + 0x117 < uint (MEMSIZE s)" "uint (eb_ptr s) + 0x117 < uint (MEMSIZE s)"
  shows "\<exists>t. at_end s = (Decode, t) \<and> PC t = PC s \<and> FM t = FM s \<and> \<not> page_fault t \<and> pi_cycle t
    \<and> M t = (M s)(ub_ptr s + (if tst (FLAGS s) USER then 0x117 else 0x116) := fault_data s)
    \<and> MB t = M t ((if tst (FLAGS s) USER then ub_ptr s else eb_ptr s) + 0x110)
    \<and> FLAGS t AND 0xC0 = FLAGS s AND 0xC0"
  using assms by (rule page_trap_entry)

definition failed :: cpu where
  "failed = zero_cpu\<lparr>FLAGS := 0x80, page_enable := True, page_fault := True, fault_data := 5,
     PC := 0x123, M := (\<lambda>a. of_nat (unat a))\<rparr>"

theorem page_failure_traps_witness:
  "\<exists>t. at_end failed = (Decode, t) \<and> PC t = 0x123 \<and> M t 0x117 = 5 \<and> MB t = 0x110"
proof -
  have "tst (0x80 :: u32) 0x80" by (simp add: tst_def)
  then show ?thesis
    using page_failure_traps [of failed] by (auto simp: failed_def zero_cpu_def)
qed

section \<open>Nested interrupts\<close>

text \<open>
  C18: Interrupts nest as a stack. When the scan grants a level and the instruction executed in
  the interrupt cycle jumps to its service routine, the cycle ends with that level pushed on the
  list of levels in service, and the next instruction is fetched normally.
\<close>

theorem interrupt_cycle_pushes:
  fixes s s' t :: cpu
  assumes "pi_enable s" "xct_flag s = 0" "check_irq_level s = (True, s')"
    and "pi_enable t" "PIH t = PIH s" "pi_enc t = pi_enc s'"
    and "pi_cycle t" "trap_flag t = 0" "\<not> (page_enable t \<and> page_fault t)" "f_pc_inh t"
    and "IR t AND 0x1C0 \<noteq> 0x1C0" "\<not> pi_restore t" "instr_count t = 0"
  shows "\<exists>u. at_end t = (Top, u) \<and> held_levels u = pi_enc s' # held_levels s
    \<and> \<not> pi_cycle u \<and> PC u = PC t"
  using assms by (rule irq_cycle_holds)

theorem interrupt_cycle_pushes_witness:
  "\<exists>u. at_end (zero_cpu\<lparr>pi_enable := True, PIH := 0x2, pi_enc := 3, pi_cycle := True,
      f_pc_inh := True, IR := 0xB4\<rparr>) = (Top, u) \<and> held_levels u = [3, 6]"
proof -
  let ?s = "zero_cpu\<lparr>pi_enable := True, PIR := 0x18, PIH := 0x2\<rparr>"
  have c: "check_irq_level ?s =
      (True, zero_cpu\<lparr>pi_enable := True, PIR := 0x18, PIH := 0x2, pi_pending := False, pi_enc := 3\<rparr>)"
    by (simp add: check_irq_level_def pi_scan.simps tst_def zero_cpu_def Let_def)
  have h: "held_levels ?s = [6]"
    by (simp add: held_levels_def pi_held_def zero_cpu_def upt_rec)
  show ?thesis
    using interrupt_cycle_pushes [OF _ _ c, of "zero_cpu\<lparr>pi_enable := True, PIH := 0x2, pi_enc := 3,
      pi_cycle := True, f_pc_inh := True, IR := 0xB4\<rparr>"] h
    by (auto simp: zero_cpu_def)
qed

text \<open>
  C19: The cycle of an instruction that dismisses its interrupt (JEN, or JRST 10) ends with the
  highest level in service popped.
\<close>

theorem dismissal_pops:
  fixes t :: cpu
  assumes "pi_enable t" and "\<not> pi_cycle t" "\<not> (page_enable t \<and> page_fault t)"
    and "pi_restore t" "instr_count t = 0"
  shows "\<exists>u. at_end t = (Top, u) \<and> held_levels u = tl (held_levels t) \<and> \<not> pi_restore u"
  using assms by (rule jen_cycle_releases)

theorem dismissal_pops_witness:
  "\<exists>u. at_end (zero_cpu\<lparr>pi_enable := True, PIH := 0x12, pi_restore := True\<rparr>) = (Top, u)
    \<and> held_levels u = [6]"
proof -
  let ?t = "zero_cpu\<lparr>pi_enable := True, PIH := 0x12, pi_restore := True\<rparr>"
  have "held_levels ?t = [3, 6]"
    by (simp add: held_levels_def pi_held_def zero_cpu_def upt_rec)
  then show ?thesis using dismissal_pops [of ?t] by (auto simp: zero_cpu_def)
qed

section \<open>Control, block transfer and byte instructions\<close>

text \<open>
  C25: A subroutine called with PUSHJ and left with POPJ returns to the instruction after the call,
  with the stack pointer as it was, for every pointer, also across the wrap-around of its halves.
\<close>

theorem call_and_return:
  assumes "direct s" "\<not> modify s" "\<not> pi_cycle s" "\<not> uuo_cycle s" and "wf36 (BR s)"
    and "\<not> ucast (AOB (BR s) AND RMASK) < (0x10 :: u32)"
    and "ucast (AOB (BR s) AND RMASK) < MEMSIZE s"
  shows "PC (exec_pushj s) = ucast (AR s AND RMASK) \<and>
    (let u = exec_popj ((exec_pushj s)\<lparr>BR := get_ac (exec_pushj s)\<rparr>)
     in PC u = (PC s + 1) AND 0x3FFFF \<and> get_ac u = BR s \<and> f_pc_inh u)"
  using pushj_popj [OF assms] by (simp add: Let_def)

definition caller :: cpu where
  \<comment> \<open>PUSHJ 17,1000 at 400, the stack at 200\<close>
  "caller = zero_cpu\<lparr>PC := 0x100, AC := 0xF, AR := 0x200, BR := 0xFFFF40080\<rparr>"

theorem call_and_return_witness:
  "PC (exec_pushj caller) = 0x200 \<and>
    PC (exec_popj ((exec_pushj caller)\<lparr>BR := get_ac (exec_pushj caller)\<rparr>)) = 0x101"
  using call_and_return [of caller]
  by (simp add: caller_def zero_cpu_def direct_def wf36_uint AOB_def Let_def)

lemma uint_widen: "uint (ucast (a :: u32) :: u64) = uint a"
proof -
  have "uint a < 2 ^ 64" using uint_bounded [of a] by simp
  then show ?thesis by (simp add: unsigned_ucast_eq take_bit_int_eq_self)
qed

text \<open>
  C29: BLT with an effective address in the 18-bit address space always returns, whatever events,
  interrupts and page failures meet it.
\<close>

theorem block_transfer_returns:
  assumes "AB s < 0x40000"
  shows "exec_blt e s \<noteq> None"
proof -
  have "uint (ucast (AB s) :: u64) < 2 ^ 18"
    using assms by (simp add: word_less_def uint_widen)
  then show ?thesis unfolding exec_blt_def by (rule blt_loop_returns)
qed

theorem block_transfer_returns_witness:
  "exec_blt idle_env (zero_cpu\<lparr>AB := 0x101, BR := 0x800100\<rparr>) \<noteq> None"
  by (rule block_transfer_returns) (simp add: zero_cpu_def)

text \<open>
  C24: Undisturbed, BLT copies one word after the other, lowest address first, from the address in
  the left half of the accumulator to the one in the right half, up to the effective address. So
  an overlapping transfer spreads the words already moved.
\<close>

theorem block_transfer_copies:
  assumes "quiet e" and "direct s" "\<not> pi_pending s" and "wf36 (BR s)"
    and "uint (AB s) = uint (blt_dst (BR s)) + int n"
    and "16 \<le> uint (blt_src (BR s))" "16 \<le> uint (blt_dst (BR s))"
    and "uint (blt_src (BR s)) + int n < 2 ^ 18"
    and "uint (blt_src (BR s)) + int n < uint (MEMSIZE s)"
    and "uint (AB s) < 2 ^ 18" "AB s < MEMSIZE s"
  shows "\<exists>t. exec_blt e s = Some t
    \<and> M t = blt_copy (Suc n) (blt_src (BR s)) (blt_dst (BR s)) (M s)"
  unfolding exec_blt_def
  by (rule blt_loop_copies [OF assms(1-3)])
    (use assms in \<open>simp_all add: uint_widen wf36_uint word_less_def\<close>)

theorem block_transfer_copies_witness:
  "\<exists>t. exec_blt idle_env
      (zero_cpu\<lparr>M := (\<lambda>_. 0)(0x20 := 7), BR := 0x800021, AB := 0x22\<rparr>) = Some t
    \<and> M t 0x21 = 7 \<and> M t 0x22 = 7"
proof -
  let ?s = "zero_cpu\<lparr>M := (\<lambda>_. 0)(0x20 := 7), BR := 0x800021, AB := 0x22\<rparr>"
  have q: "quiet idle_env" by (simp add: quiet_def idle_env_def)
  have a: "blt_src (BR ?s) = 0x20" "blt_dst (BR ?s) = 0x21" "AB ?s = 0x22" "MEMSIZE ?s = 0x40000"
    by (simp_all add: blt_src_def blt_dst_def zero_cpu_def)
  have d: "direct ?s" "\<not> pi_pending ?s" "wf36 (BR ?s)"
    by (simp_all add: direct_def zero_cpu_def wf36_uint)
  have "blt_copy (Suc 1) 0x20 0x21 (M ?s) 0x21 = 7 \<and> blt_copy (Suc 1) 0x20 0x21 (M ?s) 0x22 = 7"
    by simp
  then show ?thesis
    using block_transfer_copies [OF q d, of 1] unfolding a by auto
qed



text \<open>
  DMOVN and DMOVNM negate the 71-bit number whose low word's sign bit is ignored, unless it
  is the one number that has no negative.
\<close>

theorem double_negation:
  assumes "wf36 hi" "wf36 lo" and "hi \<noteq> SMASK \<or> uint lo mod 2 ^ 35 \<noteq> 0"
  shows "case dneg hi lo of (h, l) \<Rightarrow> wf36 h \<and> wf36 l \<and> long_value h l = - long_value hi lo"
  using assms by (rule dneg_negates)

theorem double_negation_witness:
  "case dneg 0 1 of (h, l) \<Rightarrow> wf36 h \<and> wf36 l \<and> long_value h l = - 1"
  using double_negation [of 0 1] by (simp add: wf36_uint long_value_def sval_def)

end
