(* ===== verification/Properties_Peripherals.thy ===== *)
theory Properties_Peripherals
  imports Paper_Tape Clock_Dk10 Console_Tty Line_Printer Power_On
begin

text \<open>
  The properties of the event queue and of the peripheral devices, each with an instance at a
  concrete state.
\<close>

unbundle bit_operations_syntax

section \<open>A concrete queue\<close>

definition clock0 :: clock where
  "clock0 = \<lparr>clock_queue = [(CPU_UNIT, 5), (PTR_UNIT, 0), (PTP_UNIT, 7)], sim_interval = 3,
     noqueue_time = 0, sim_time = 100, sim_rtime = 100, stop_cpu = False\<rparr>"

lemma clock0_ok: "queue_ok clock0" "rtime_ok clock0" "gtime clock0 = 102"
    "agenda clock0 = [(CPU_UNIT, 105), (PTR_UNIT, 105), (PTP_UNIT, 112)]"
  by (simp_all add: clock0_def queue_ok_def rtime_ok_def gtime_def head_time_def agenda_def)

section \<open>The event queue\<close>

text \<open>
  C33: sim_activate refines insertion into the agenda: a unit that is not scheduled becomes due at the
  present time plus its delay, behind the units due at that time or before, and no other unit's time
  changes, although the queue only stores differences and the processor has counted some of the first
  one down.
\<close>

theorem activate_inserts:
  assumes "\<not> sim_is_active u s" and "queue_ok s"
  shows "agenda (sim_activate u t s) = filter (\<lambda>e. snd e \<le> gtime s + t) (agenda s)
      @ (u, gtime s + t) # filter (\<lambda>e. gtime s + t < snd e) (agenda s)"
  using activate_idle(1) [OF assms] unfolding agenda_insert_def .

theorem activate_inserts_witness:
  "agenda (sim_activate LPT_UNIT 3 clock0)
    = [(CPU_UNIT, 105), (PTR_UNIT, 105), (LPT_UNIT, 105), (PTP_UNIT, 112)]"
proof -
  have "\<not> sim_is_active LPT_UNIT clock0" by (simp add: clock0_def sim_is_active_def)
  from activate_inserts [OF this clock0_ok(1), of 3] show ?thesis by (simp add: clock0_ok)
qed

text \<open>
  sim_cancel refines removal from the agenda: the unit's event is gone, every other unit keeps
  its time, and the present time does not change.
\<close>

theorem cancel_removes:
  assumes "queue_ok s"
  shows "agenda (sim_cancel u s) = filter (\<lambda>e. fst e \<noteq> u) (agenda s)
    \<and> gtime (sim_cancel u s) = gtime s"
  using cancel_agenda [OF assms] by simp

theorem cancel_removes_witness:
  "agenda (sim_cancel CPU_UNIT clock0) = [(PTR_UNIT, 105), (PTP_UNIT, 112)]
    \<and> gtime (sim_cancel CPU_UNIT clock0) = 102"
  using cancel_removes [of clock0 CPU_UNIT] by (simp add: clock0_ok)

text \<open>
  sim_activate_notbefore schedules a unit for an absolute time given modulo 2^32: for a time less
  than 2^31 ahead the unit becomes due exactly then, however often the 32-bit clock has wrapped.
\<close>

theorem notbefore_wraps:
  assumes "queue_ok s" and "rtime_ok s" and "0 \<le> k" and "k < 2 ^ 31"
  shows "agenda (sim_activate_notbefore u (of_int (gtime s + k)) s)
    = agenda_insert u (gtime s + k) (filter (\<lambda>e. fst e \<noteq> u) (agenda s))"
  using assms by (rule notbefore_agenda)

theorem notbefore_wraps_witness:
  "agenda (sim_activate_notbefore CPU_UNIT (of_int (gtime clock0 + 9)) clock0)
    = [(PTR_UNIT, 105), (CPU_UNIT, 111), (PTP_UNIT, 112)]"
  using notbefore_wraps [of clock0 9 CPU_UNIT] by (simp add: clock0_ok agenda_insert_def)

text \<open>
  C37: a processor that looks at the queue late, n instructions after the first event was due, postpones
  a second event that is also due but lies in the second half of that interval: the loop has already
  moved the time to it when it compares, counts its delay twice, and leaves it in the queue, due t
  after the present time, which is its own.
\<close>

theorem late_event_postponed:
  assumes "clock_queue s = [(A, d), (B, t)]" and "A \<noteq> B" and "\<not> stop_cpu s"
    and "sim_interval s = - n" and "1 < n" and "t \<le> n" and "n < 2 * t"
  shows "\<exists>s'. sim_process_event (\<lambda>u s. (0, s)) s = Some (0, s')
    \<and> agenda s = [(A, sim_time s + d), (B, sim_time s + d + t)]
    \<and> gtime s' = sim_time s + d + t \<and> agenda s' = [(B, sim_time s + d + t + t)]"
  using assms
  by (auto simp: sim_process_event_def update_sim_time_def head_time_def catch_up_def Let_def
      event_loop.simps event_turn_def pop_event_def agenda_def gtime_def)

theorem late_event_postponed_witness:
  "\<exists>s'. sim_process_event (\<lambda>u s. (0, s)) (clock0\<lparr>clock_queue := [(CPU_UNIT, 5), (PTR_UNIT, 8)],
      sim_interval := - 10\<rparr>) = Some (0, s') \<and> agenda s' = [(PTR_UNIT, 121)]"
  using late_event_postponed [of "clock0\<lparr>clock_queue := [(CPU_UNIT, 5), (PTR_UNIT, 8)],
      sim_interval := - 10\<rparr>" CPU_UNIT 5 PTR_UNIT 8 10]
  by (auto simp: clock0_def)

section \<open>Paper tape\<close>

definition pi0 :: pi_state where
  "pi0 = \<lparr>clock_queue = [], sim_interval = 0, noqueue_time = 0, sim_time = 0, sim_rtime = 0,
     stop_cpu = False, dev_irq = (\<lambda>_. 0), IOB_PI = 0, PIR = 0, PIH = 0, PIE = 0, pi_enc = 0,
     pi_enable = False, pi_pending = False, parity_irq = False, xct_flag = 0\<rparr>"

definition tape_unit :: "u32 \<Rightarrow> u8 list \<Rightarrow> pt_unit" where
  "tape_unit st t = \<lparr>STATUS = st, attached = True, wait = 100, CHR_REG = 0, CHL_REG = 0, tape = t\<rparr>"

text \<open>
  C35: words punched on paper tape in binary mode, six frames for each by the DATAO instructions of a
  program and the events that complete them, are read back by the reader, one for each of its events
  and the DATAI behind it.
\<close>

theorem tape_round_trip:
  assumes "\<forall>w \<in> set ws. wf36 w" and "punching u" and "tape u = []"
    and "dev_run ptp_devio (\<lambda>_. ptp_svc) (concat (map punch_word ws)) (u, s) = (u', s')"
    and "attached r" and "tst (STATUS r) BIN_FLG" and "tape r = tape u' @ t"
  shows "fst (read_words (length ws) (r, s'')) = ws"
  using assms punch_words_tape [OF assms(2), of ws s] by (auto intro: read_words_tape)

theorem tape_round_trip_witness:
  "fst (read_words 2 (tape_unit 0x20 (tape (fst (dev_run ptp_devio (\<lambda>_. ptp_svc)
      (concat (map punch_word [0x123456789, 5])) (tape_unit 0x20 [], pi0)))), pi0))
    = [0x123456789, 5]"
proof -
  obtain u' s' where e: "dev_run ptp_devio (\<lambda>_. ptp_svc)
      (concat (map punch_word [0x123456789, 5])) (tape_unit 0x20 [], pi0) = (u', s')"
    by fastforce
  have "fst (read_words (length [0x123456789, 5 :: u64]) (tape_unit 0x20 (tape u'), pi0))
      = [0x123456789, 5]"
    by (rule tape_round_trip [OF _ _ _ e, where t = "[]"])
      (simp_all add: tape_unit_def punching_def tst_def wf36_def)
  moreover have "length [0x123456789, 5 :: u64] = 2" by simp
  ultimately show ?thesis by (simp only: e fst_conv)
qed

text \<open>
  C36: a boot tape, a word with the negated count and the address below the first word, then the
  words, is loaded into memory where it says, changes nothing else, and execution starts at the right
  half of its last word; the loader leaves the rest of the tape unread and the reader running.
\<close>

theorem boot_loads_tape:
  assumes "attached u" and "tape u = frames (push_bit 18 (of_nat (0x40000 - length ws)) OR of_nat a)
      @ concat (map frames ws) @ rest"
    and "ws \<noteq> []" and "\<forall>w \<in> set ws. wf36 w" and "0xF \<le> a" and "a + length ws < 0x40000"
  shows "\<exists>u' s'. ptr_boot (u, s) = Some (ucast (last ws AND 0x3FFFF), u', s') \<and> tape u' = rest
    \<and> FM s' = FM s \<and> sim_is_active PTR_UNIT s'
    \<and> (\<forall>x. M s' x = (if a < unat x \<and> unat x \<le> a + length ws then ws ! (unat x - Suc a) else M s x))"
  using boot_tape [OF assms, of s] boot_image_memory [OF assms(5,6), of s]
  by (fastforce simp: active_after_activate sim_activate_mem)

theorem boot_loads_tape_witness:
  "\<exists>u' s'. ptr_boot (tape_unit 0 (frames 0xFFFF80020 @ frames 5 @ frames 0x254000021 @ [7]), zero_cpu)
      = Some (0x21, u', s') \<and> tape u' = [7] \<and> M s' 0x21 = 5 \<and> M s' 0x22 = 0x254000021 \<and> M s' 0x23 = 0"
proof -
  have w: "push_bit 18 (of_nat (0x40000 - length [5, 0x254000021 :: u64])) OR of_nat 0x20
      = (0xFFFF80020 :: u64)" by simp
  show ?thesis
    using boot_loads_tape [where u = "tape_unit 0 (frames 0xFFFF80020 @ frames 5 @ frames 0x254000021 @ [7])"
        and ws = "[5, 0x254000021]" and a = "0x20" and rest = "[7]" and s = zero_cpu, unfolded w]
    by (auto simp: tape_unit_def wf36_def zero_cpu_def)
qed

section \<open>Clock\<close>

text \<open>
  the event of the DK10 scheduled for the moment its counter reaches the comparison register
  raises the clock flag, requests an interrupt on the assigned level and restarts the counter at zero.
\<close>

theorem clock_matches:
  assumes "CLK_TIM u = INT_REG u" and "INT_REG u AND 0x3FFFF = INT_REG u"
  shows "\<exists>u' s'. dk_svc tm (u, s) = (0, u', s') \<and> CLK_REG u' = 0 \<and> bit (STATUS u') 3
    \<and> (unat (STATUS u) mod 8 \<noteq> 0 \<longrightarrow> irq_req s' (DK_DEVNUM div 4) (unat (STATUS u) mod 8))"
  using dk_svc_match [OF assms, of tm s] by (cases "dk_svc tm (u, s)") auto

definition dk0 :: dk_unit where
  "dk0 = \<lparr>STATUS = 0x23, attached = False, wait = 0, CLK_REG = 0, INT_REG = 5, CLK_TIM = 5\<rparr>"

definition tm0 :: timer where
  "tm0 = \<lparr>usec_delay = (\<lambda>us. us), usec_left = (\<lambda>t. t), coschedule = (\<lambda>t. t)\<rparr>"

theorem clock_matches_witness:
  "\<exists>u' s'. dk_svc tm0 (dk0, pi0) = (0, u', s') \<and> CLK_REG u' = 0 \<and> irq_req s' 14 3"
  using clock_matches [of dk0 tm0 pi0] by (auto simp: dk0_def)

section \<open>Console terminal\<close>

text \<open>
  C38: along every sequence of I/O instructions and events of the console terminal its request line
  follows the ready flags of its two directions: it is up on the assigned level when either is
  ready, and down when neither is.
\<close>

theorem console_requests:
  assumes "ops_for CTY_DEVNUM ops" and "cty_line x"
  shows "cty_line (dev_run cty_devio (cty_svc tm poll outcvt) ops x)"
  using assms by (rule cty_run_line)

definition cty0 :: cty where
  "cty0 = (let t = \<lparr>STATUS = 0, attached = True, wait = 100, DATA = 0, PIA = 0, screen = []\<rparr>
     in \<lparr>cty_out = t, cty_in = t\<rparr>)"

theorem console_requests_witness:
  "cty_line (dev_run cty_devio (cty_svc tm0 100 (\<lambda>c. sint c))
     [Io (0x50 OR CONO) 3, Event (Polled 0x10000041), Io (0x50 OR DATAI) 0] (cty0, pi0))"
  by (rule console_requests) (simp_all add: ops_for_def addresses_def cty_line_def cty_ready_def
      cty0_def pi0_def irq_req_def Let_def CONO_def DATAI_def)

section \<open>Line printer\<close>

definition lpt0 :: lpt_unit where
  "lpt0 = \<lparr>STATUS = 0x40, attached = True, wait = 10000, COL = 0, POS = 0, LINE = 1, capac = 66,
     UNIT_UC = False, UNIT_UTF8 = False, lpt_buffer = (\<lambda>_. 0), lpt_chbuf = [], printed = []\<rparr>"

text \<open>
  C39: a line of graphic characters is printed without its trailing blanks, with carriage return and
  line feed, and with a form feed behind it where the bottom margin of the page is reached.
\<close>

theorem line_is_printed:
  assumes "plain_mode u" and "COL u = 0" and "POS u = 0" and "lpt_buffer u (- 1) \<noteq> 0x20"
    and "list_all graphic cs" and "cs \<noteq> []" and "last cs \<noteq> 0x20" and "length cs + k \<le> 132"
  shows "printed (fold lpt_char (cs @ replicate k 0x20 @ [0x0D, 0x0A]) u)
    = printed u @ cs @ [0x0D, 0x0A] @ (if capac u - 6 \<le> LINE u + 1 then [0x0C] else [])"
proof -
  obtain b where b: "fold lpt_char (cs @ replicate k 0x20 @ [0x0D]) u
      = u\<lparr>lpt_buffer := b, printed := printed u @ cs @ [0x0D]\<rparr>" "b (- 1) = lpt_buffer u (- 1)"
    using text_printed [OF assms] by blast
  let ?v = "u\<lparr>lpt_buffer := b, printed := printed u @ cs @ [0x0D]\<rparr>"
  have "fold lpt_char (cs @ replicate k 0x20 @ [0x0D, 0x0A]) u
      = lpt_char 0x0A (fold lpt_char (cs @ replicate k 0x20 @ [0x0D]) u)" by simp
  then show ?thesis
    unfolding b(1) using feed_printed(1) [of ?v] assms b(2) by (simp add: plain_mode_def)
qed

theorem line_is_printed_witness:
  "printed (fold lpt_char ([0x48, 0x49] @ replicate 2 0x20 @ [0x0D, 0x0A]) lpt0) = [0x48, 0x49, 0x0D, 0x0A]"
  using line_is_printed [of lpt0 "[0x48, 0x49]" 2]
  by (simp add: lpt0_def plain_mode_def graphic_def tst_def)

text \<open>
  C40: whatever instructions and events the printer sees, column and position stay within a line of
  132 columns and every write into the line buffer hits one of its 402 bytes, provided the byte in
  front of the buffer is not a blank.
\<close>

theorem printer_buffer_safe:
  assumes "lpt_ok u"
  shows "lpt_ok (fst (dev_run lpt_devio (\<lambda>_::unit. lpt_svc) ops (u, s)))
    \<and> (\<forall>i. i < 0 \<or> 402 \<le> i \<longrightarrow>
         lpt_buffer (fst (dev_run lpt_devio (\<lambda>_::unit. lpt_svc) ops (u, s))) i = lpt_buffer u i)"
  using lpt_run_safe [OF assms, of ops s] by (simp add: lpt_safe_def)

theorem printer_buffer_safe_witness:
  "lpt_ok (fst (dev_run lpt_devio (\<lambda>_::unit. lpt_svc) [Io DATAO 0x400, Event ()] (lpt0, pi0)))"
  using printer_buffer_safe [of lpt0 "[Io DATAO 0x400, Event ()]" pi0]
  by (simp add: lpt0_def lpt_ok_def)

end
