(* ===== verification/Machine.thy ===== *)
theory Machine
  imports Cycle_Invariants
begin

text \<open>
  The machine: the processor with its event queue and its peripherals. The theory puts together what
  the program connects through its tables: the routines of the units that \<open>sim_process_event\<close>
  calls (\<open>unit_action\<close>), the clock service, the dispatch table of the I/O instructions
  (\<open>build_dev_tab\<close>), and reset (\<open>cpu_reset\<close> and the \<open>reset_all\<close> of \<open>scp.c\<close>).

  The machine is configured with the devices modelled here: the terminal, which cannot be disabled,
  and those of the others that are enabled. The answers of the host, the characters of the keyboard
  and the measured speed, are functions of the state in the record \<open>host\<close>.
\<close>

unbundle bit_operations_syntax

section \<open>Units\<close>

record host =
  timing :: timer
  rtcn_calb :: "cpu \<Rightarrow> int"
  tt_outcvt :: "u32 \<Rightarrow> int"
  putchar_s :: "cpu \<Rightarrow> nat"
  poll_kbd :: "cpu \<Rightarrow> int"

definition cpu_srv :: "host \<Rightarrow> cpu \<Rightarrow> cpu" where
  \<comment> \<open>\<open>rtc_srv\<close> with the calls that measure the host and schedule the next tick\<close>
  "cpu_srv h s =
     (let t = rtcn_calb h s;
          s = sim_activate_after (timing h) CPU_UNIT (1000000 div 60) s;
          s = s\<lparr>devices := (devices s)\<lparr>tmxr_poll := t div 2\<rparr>\<rparr>
      in rtc_srv s)"

definition serve :: "(io_units \<Rightarrow> 'u) \<Rightarrow> ('u \<Rightarrow> io_units \<Rightarrow> io_units)
    \<Rightarrow> ('u \<times> cpu \<Rightarrow> nat \<times> 'u \<times> cpu) \<Rightarrow> cpu \<Rightarrow> nat \<times> cpu" where
  \<comment> \<open>a service routine on its unit within the machine\<close>
  "serve get put svc s =
     (let (r, u, t) = svc (get (devices s), s) in (r, t\<lparr>devices := put u (devices t)\<rparr>))"

abbreviation (input) put_ptp :: "pt_unit \<Rightarrow> io_units \<Rightarrow> io_units" where "put_ptp u d \<equiv> d\<lparr>ptp_state := u\<rparr>"
abbreviation (input) put_ptr :: "pt_unit \<Rightarrow> io_units \<Rightarrow> io_units" where "put_ptr u d \<equiv> d\<lparr>ptr_state := u\<rparr>"
abbreviation (input) put_lpt :: "lpt_unit \<Rightarrow> io_units \<Rightarrow> io_units" where "put_lpt u d \<equiv> d\<lparr>lpt_state := u\<rparr>"
abbreviation (input) put_cty :: "cty \<Rightarrow> io_units \<Rightarrow> io_units" where "put_cty u d \<equiv> d\<lparr>cty_state := u\<rparr>"
abbreviation (input) put_cr :: "cr_unit \<Rightarrow> io_units \<Rightarrow> io_units" where "put_cr u d \<equiv> d\<lparr>cr_state := u\<rparr>"
abbreviation (input) put_cp :: "cp_unit \<Rightarrow> io_units \<Rightarrow> io_units" where "put_cp u d \<equiv> d\<lparr>cp_state := u\<rparr>"
abbreviation (input) put_dk :: "dk_unit \<Rightarrow> io_units \<Rightarrow> io_units" where "put_dk u d \<equiv> d\<lparr>dk_state := u\<rparr>"

fun unit_action :: "host \<Rightarrow> unit_id \<Rightarrow> cpu \<Rightarrow> nat \<times> cpu" where
  \<comment> \<open>\<open>uptr->action\<close> of the units\<close>
  "unit_action h CPU_UNIT s = (0, cpu_srv h s)"
| "unit_action h CTYO_UNIT s = serve cty_state put_cty (ctyo_svc (tt_outcvt h) (putchar_s h s)) s"
| "unit_action h CTYI_UNIT s =
     serve cty_state put_cty (ctyi_svc (timing h) (tmxr_poll (devices s)) (poll_kbd h s)) s"
| "unit_action h PTP_UNIT s = serve ptp_state put_ptp ptp_svc s"
| "unit_action h PTR_UNIT s = serve ptr_state put_ptr ptr_svc s"
| "unit_action h LPT_UNIT s = serve lpt_state put_lpt lpt_svc s"
| "unit_action h CR_UNIT s = serve cr_state put_cr cr_srv s"
| "unit_action h CP_UNIT s = serve cp_state put_cp cp_srv s"
| "unit_action h (DK_UNIT n) s = serve dk_state put_dk (dk_svc (timing h)) s"

definition machine_event :: "host \<Rightarrow> cpu \<Rightarrow> nat \<times> cpu" where
  \<comment> \<open>a call of \<open>sim_process_event\<close> that does not come back stops the machine\<close>
  "machine_event h s =
     (case sim_process_event (unit_action h) s of None \<Rightarrow> (SCPE_STOP, s) | Some x \<Rightarrow> x)"

section \<open>Device table\<close>

type_synonym routine = "u32 \<Rightarrow> u64 \<Rightarrow> cpu \<Rightarrow> u64 \<times> cpu"
type_synonym vector = "u32 \<Rightarrow> u32 \<Rightarrow> cpu \<Rightarrow> u32 \<times> cpu"

record dib =
  dev_num :: nat
  num_devs :: nat
  dib_io :: "routine option"
  dib_irq :: "vector option"

record tables =
  io_tab :: "nat \<Rightarrow> routine option"
  irq_tab :: "nat \<Rightarrow> vector option"

definition dispatched :: "dib \<Rightarrow> bool" where
  \<comment> \<open>it has an I/O routine and is not behind an RH10 or RH20 (\<open>RH10_DEV | RH20_DEV\<close>)\<close>
  "dispatched b \<longleftrightarrow> dib_io b \<noteq> None \<and> (dev_num b div 512) mod 4 = 0"

fun enter_dib :: "dib \<Rightarrow> nat list \<Rightarrow> tables \<Rightarrow> tables option" where
  \<comment> \<open>the loop over the device numbers of one device; \<open>None\<close> for a conflict; an entry
      \<open>None\<close> of \<open>io_tab\<close> is \<open>null_dev\<close>\<close>
  "enter_dib b [] t = Some t"
| "enter_dib b (j # js) t =
     (if \<not> dispatched b then enter_dib b js t
      else if io_tab t (dev_num b div 4 + j) \<noteq> None then None
      else enter_dib b js (t\<lparr>io_tab := (io_tab t)(dev_num b div 4 + j := dib_io b),
                             irq_tab := (irq_tab t)(dev_num b div 4 + j := dib_irq b)\<rparr>))"

fun enter_devs :: "(bool \<times> dib) list \<Rightarrow> tables \<Rightarrow> tables option" where
  \<comment> \<open>the loop over \<open>sim_devices\<close>; the flag is \<open>DEV_DIS\<close>\<close>
  "enter_devs [] t = Some t"
| "enter_devs ((dis, b) # ds) t =
     (if dis then enter_devs ds t
      else case enter_dib b [0..<num_devs b] t of None \<Rightarrow> None | Some t \<Rightarrow> enter_devs ds t)"

definition basic_tables :: "(cpu \<Rightarrow> cpu) \<Rightarrow> tables" where
  "basic_tables io_reset =
     \<lparr>io_tab = (\<lambda>_. None)(0 := Some (dev_apr io_reset), 1 := Some dev_pi, 2 := Some dev_pag),
      irq_tab = (\<lambda>_. None)\<rparr>"

definition build_dev_tab :: "(cpu \<Rightarrow> cpu) \<Rightarrow> bool \<Rightarrow> (bool \<times> dib) list \<Rightarrow> cpu \<Rightarrow> tables option \<times> cpu" where
  \<comment> \<open>without the controllers of \<open>rh_devs\<close>; the flag is \<open>UNIT_MAOFF\<close>\<close>
  "build_dev_tab io_reset ma ds s =
     (enter_devs ds (basic_tables io_reset), s\<lparr>maoff := (if ma then 0x40 else 0)\<rparr>)"

definition perform_io :: "(io_units \<Rightarrow> 'u) \<Rightarrow> ('u \<Rightarrow> io_units \<Rightarrow> io_units)
    \<Rightarrow> (u32 \<Rightarrow> u64 \<Rightarrow> 'u \<times> cpu \<Rightarrow> u64 \<times> 'u \<times> cpu) \<Rightarrow> routine" where
  "perform_io get put io f v s =
     (let (w, u, t) = io f v (get (devices s), s) in (w, t\<lparr>devices := put u (devices t)\<rparr>))"

definition sim_devices :: "host \<Rightarrow> nat \<Rightarrow> (nat \<Rightarrow> bool) \<Rightarrow> (bool \<times> dib) list" where
  \<comment> \<open>\<open>lp\<close> is the number of the printer, \<open>dis\<close> says which of the others are disabled\<close>
  "sim_devices h lp dis =
     (let d = (\<lambda>n io. (dis n, \<lparr>dev_num = n, num_devs = 1, dib_io = Some io, dib_irq = None\<rparr>))
      in [(False, snd (d CTY_DEVNUM (perform_io cty_state put_cty cty_devio))),
          d PP_DEVNUM (perform_io ptp_state put_ptp ptp_devio),
          d PR_DEVNUM (perform_io ptr_state put_ptr ptr_devio),
          d lp (perform_io lpt_state put_lpt lpt_devio),
          d CR_DEVNUM (perform_io cr_state put_cr cr_devio),
          d CP_DEVNUM (perform_io cp_state put_cp cp_devio),
          d DK_DEVNUM (perform_io dk_state put_dk (dk_devio (timing h)))])"

section \<open>Reset\<close>

definition cpu_reset :: "cpu \<Rightarrow> cpu" where
  "cpu_reset s =
     (let s = s\<lparr>RUN := False, BYF5 := False, uuo_cycle := False, adr_flag := False,
                MI_flag := False, prog_stop := False, nxm_flag := False, clk_flg := False\<rparr>;
          s = s\<lparr>IOB_PI := 0, PIR := 0, PIH := 0, PIE := 0, pi_enable := False, parity_irq := False\<rparr>;
          s = s\<lparr>pi_pending := False, pi_enc := 0, apr_irq := 0, clk_en := False, clk_irq := 0\<rparr>;
          s = s\<lparr>pi_restore := False, pi_hold := False, FLAGS := 0, ac_stack := 0\<rparr>;
          s = s\<lparr>ub_ptr := 0, eb_ptr := 0, pag_reload := 0\<rparr>;
          s = s\<lparr>fm_sel := 0, small_user := False, user_addr_cmp := False, page_enable := False\<rparr>;
          s = s\<lparr>dev_irq := (\<lambda>i. if i < MAX_DEV then 0 else dev_irq s i)\<rparr>;
          s = s\<lparr>e_tlb := (\<lambda>i. if i < 512 then 0 else e_tlb s i),
                u_tlb := (\<lambda>i. if i < 546 then 0 else u_tlb s i)\<rparr>
      in sim_activate CPU_UNIT 1000 s)"

definition reset_unit :: "(io_units \<Rightarrow> 'u) \<Rightarrow> ('u \<Rightarrow> io_units \<Rightarrow> io_units) \<Rightarrow> ('u \<times> cpu \<Rightarrow> 'u \<times> cpu) \<Rightarrow> cpu \<Rightarrow> cpu" where
  "reset_unit get put res s =
     (let (u, t) = res (get (devices s), s) in t\<lparr>devices := put u (devices t)\<rparr>)"

definition reset_devices :: "host \<Rightarrow> cpu \<Rightarrow> cpu" where
  \<comment> \<open>\<open>reset_all(1)\<close>: the card devices and the clock have no reset routine\<close>
  "reset_devices h s =
     (let s = reset_unit cty_state put_cty (cty_reset (timing h) (tmxr_poll (devices s))) s;
          s = reset_unit ptp_state put_ptp ptp_reset s;
          s = reset_unit ptr_state put_ptr ptr_reset s
      in reset_unit lpt_state put_lpt lpt_reset s)"

definition reset_all :: "host \<Rightarrow> cpu \<Rightarrow> cpu" where
  \<comment> \<open>\<open>reset_all(0)\<close>\<close>
  "reset_all h s = reset_devices h (cpu_reset s)"

section \<open>The machine\<close>

definition machine :: "host \<Rightarrow> tables \<Rightarrow> (u32 \<Rightarrow> bool) \<Rightarrow> env" where
  "machine h t brk =
     \<lparr>process_event = machine_event h,
      dev_tab = (\<lambda>d. case io_tab t d of None \<Rightarrow> null_dev | Some io \<Rightarrow> io),
      dev_irqv = irq_tab t, brk_E = brk\<rparr>"

definition machine_tables :: "host \<Rightarrow> nat \<Rightarrow> (nat \<Rightarrow> bool) \<Rightarrow> tables option" where
  "machine_tables h lp dis = enter_devs (sim_devices h lp dis) (basic_tables (reset_devices h))"

section \<open>Units within the machine\<close>

definition units_ok :: "io_units \<Rightarrow> bool" where
  "units_ok d \<longleftrightarrow> wait_ok (ptp_state d) \<and> ptr_ok (ptr_state d) \<and> dk_ok (dk_state d)
     \<and> wait_ok (lpt_state d) \<and> lpt_ok (lpt_state d) \<and> cty_ok (cty_state d)
     \<and> wait_ok (cr_state d) \<and> wait_ok (cp_state d)"

lemma idle_units_ok: "units_ok idle_units"
  by (simp add: units_ok_def idle_units_def idle_tape_def idle_printer_def idle_terminal_def
      idle_reader_def idle_punch_def idle_clock_def wait_ok_def ptr_ok_def dk_ok_def lpt_ok_def cty_ok_def)

lemma bus_devices [simp]: "bus_inv (s\<lparr>devices := d\<rparr>) = bus_inv s" for s :: cpu
  by (simp add: bus_inv_def)

lemma queue_step_same:
  assumes "clock_queue t = clock_queue u" "sim_interval t = sim_interval u"
    "noqueue_time t = noqueue_time u" "sim_time t = sim_time u"
  shows "queue_step U s t = queue_step U s u"
  using calm_cong [OF assms(1-3)] agenda_cong [OF assms(1,4)] assms
  by (simp add: queue_step_def due_def sim_is_active_def queue_ok_def)

lemma queue_devices [simp]: "queue_step U s (t\<lparr>devices := d\<rparr>) = queue_step U s t" for s t :: cpu
  by (rule queue_step_same) simp_all

lemma devices_frame: "pi_state.more s = pi_state.more t \<Longrightarrow> devices s = devices t" for s t :: cpu
proof -
  assume m: "pi_state.more s = pi_state.more t"
  have "mem_state.more s = mem_state.more t"
    using mem_more_frame [OF apr_more_frame(16) [OF m]] by simp
  then show ?thesis
    by (cases s; cases t; simp only: mem_state.select_convs cpu.select_convs cpu.ext_inject)
qed

lemma bus_step_devices: "bus_step d s t \<Longrightarrow> devices t = devices s" for s t :: cpu
  using devices_frame [of t s] by (simp only: bus_step_def)

lemma bus_step_bus: "bus_step d s t \<Longrightarrow> bus_inv s \<Longrightarrow> bus_inv t"
  by (simp add: bus_step_def)

text \<open>What a step of a device does to the machine.\<close>

definition dev_step :: "nat \<Rightarrow> cpu \<Rightarrow> cpu \<Rightarrow> bool" where
  "dev_step d s t \<longleftrightarrow> (bus_inv s \<longrightarrow> bus_inv t) \<and> (units_ok (devices s) \<longrightarrow> units_ok (devices t))"

lemma serve_step:
  assumes "bus_step d s (snd (snd (svc (get (devices s), s))))"
    and "units_ok (devices s) \<Longrightarrow> units_ok (put (fst (snd (svc (get (devices s), s)))) (devices s))"
  shows "dev_step d s (snd (serve get put svc s))"
  using assms bus_step_bus [OF assms(1)] bus_step_devices [OF assms(1)]
  by (simp add: dev_step_def serve_def case_prod_unfold Let_def)

lemma serve_queue:
  "queue_step U s (snd (serve get put svc s)) = queue_step U s (snd (snd (svc (get (devices s), s))))"
  by (simp add: serve_def case_prod_unfold Let_def)

lemma perform_step:
  assumes "bus_step d s (snd (snd (io f v (get (devices s), s))))"
    and "units_ok (devices s) \<Longrightarrow> units_ok (put (fst (snd (io f v (get (devices s), s)))) (devices s))"
  shows "dev_step d s (snd (perform_io get put io f v s))"
  using assms bus_step_bus [OF assms(1)] bus_step_devices [OF assms(1)]
  by (simp add: dev_step_def perform_io_def case_prod_unfold Let_def)

lemma perform_queue:
  "queue_step U s (snd (perform_io get put io f v s)) = queue_step U s (snd (snd (io f v (get (devices s), s))))"
  by (simp add: perform_io_def case_prod_unfold Let_def)

lemma activate_after_devices [simp]: "devices (sim_activate_after tm u us s) = devices s" for s :: cpu
  using bus_step_devices [OF bus_step_after] .

lemma rtc_srv_machine [simp]:
  "devices (rtc_srv s) = devices s" "bus_inv s \<Longrightarrow> bus_inv (rtc_srv s)"
  "queue_step U s (rtc_srv t) = queue_step U s t" for s t :: cpu
proof -
  have m: "pi_state.more (set_interrupt 4 l (s\<lparr>clk_flg := True\<rparr>)) = pi_state.more (s\<lparr>clk_flg := True\<rparr>)" for l
    by simp
  show "devices (rtc_srv s) = devices s" using devices_frame [OF m] by (simp add: rtc_srv_def Let_def)
  have "bus_inv s \<Longrightarrow> bus_inv (s\<lparr>clk_flg := True\<rparr>)" by (simp add: bus_inv_def)
  then show "bus_inv s \<Longrightarrow> bus_inv (rtc_srv s)" by (simp add: rtc_srv_def Let_def pi_lines.raise_inv)
  show "queue_step U s (rtc_srv t) = queue_step U s t"
    by (rule queue_step_same) (simp_all add: rtc_srv_def Let_def)
qed

lemma cpu_srv_step: "dev_step 4 s (snd (0 :: nat, cpu_srv h s))"
proof -
  have "bus_inv s \<Longrightarrow> bus_inv (sim_activate_after (timing h) CPU_UNIT t s)" for t
    using bus_step_bus [OF bus_step_after] .
  then show ?thesis by (simp add: dev_step_def cpu_srv_def Let_def units_ok_def)
qed

lemma cpu_srv_queue: "timer_ok (timing h) \<Longrightarrow> queue_step {CPU_UNIT} s (cpu_srv h s)"
  by (simp add: cpu_srv_def Let_def sim_activate_after_def queue_step_activate timer_ok_def)

lemma unit_action_step:
  assumes "units_ok (devices s)"
  shows "\<exists>d. dev_step d s (snd (unit_action h u s))"
proof (cases u)
  case CPU_UNIT
  then show ?thesis using cpu_srv_step [of s h] by auto
next
  case CTYO_UNIT
  then show ?thesis
    using assms cty_io.svc_step [of "cty_state (devices s)" s _ _ "tt_outcvt h" "Sent (putchar_s h s)"]
      cty_io.svc_inv [of "cty_state (devices s)" _ _ "tt_outcvt h" "Sent (putchar_s h s)" s]
    by (auto intro!: exI [of _ CTY_DEVNUM] serve_step simp: units_ok_def)
next
  case CTYI_UNIT
  then show ?thesis
    using assms cty_io.svc_step [of "cty_state (devices s)" s "timing h" "tmxr_poll (devices s)" _ "Polled (poll_kbd h s)"]
      cty_io.svc_inv [of "cty_state (devices s)" "timing h" "tmxr_poll (devices s)" _ "Polled (poll_kbd h s)" s]
    by (auto intro!: exI [of _ CTY_DEVNUM] serve_step simp: units_ok_def)
next
  case PTP_UNIT
  then show ?thesis
    using assms ptp_io.svc_step [of "ptp_state (devices s)" s] ptp_io.svc_inv [of "ptp_state (devices s)" s]
    by (auto intro!: exI [of _ PP_DEVNUM] serve_step simp: units_ok_def)
next
  case PTR_UNIT
  then show ?thesis
    using assms ptr_io.svc_step [of "ptr_state (devices s)" s] ptr_io.svc_inv [of "ptr_state (devices s)" s]
    by (auto intro!: exI [of _ PR_DEVNUM] serve_step simp: units_ok_def)
next
  case LPT_UNIT
  then show ?thesis
    using assms lpt_io.svc_step [of "lpt_state (devices s)" s] lpt_io.svc_inv [of "lpt_state (devices s)" s]
    by (auto intro!: exI [of _ LP_DEVNUM] serve_step simp: units_ok_def)
next
  case CR_UNIT
  then show ?thesis
    using assms cr_io.svc_step [of "cr_state (devices s)" s] cr_io.svc_inv [of "cr_state (devices s)" s]
    by (auto intro!: exI [of _ CR_DEVNUM] serve_step simp: units_ok_def)
next
  case CP_UNIT
  then show ?thesis
    using assms cp_io.svc_step [of "cp_state (devices s)" s] cp_io.svc_inv [of "cp_state (devices s)" s]
    by (auto intro!: exI [of _ CP_DEVNUM] serve_step simp: units_ok_def)
next
  case (DK_UNIT n)
  then show ?thesis
    using assms dk_io.svc_step [of "dk_state (devices s)" s "timing h"] dk_io.svc_inv [of "dk_state (devices s)" "timing h" s]
    by (auto intro!: exI [of _ DK_DEVNUM] serve_step simp: units_ok_def)
qed

definition own :: "unit_id \<Rightarrow> unit_id set" where
  \<comment> \<open>the units the routine of a unit may schedule\<close>
  "own u = (if u = CTYO_UNIT \<or> u = CTYI_UNIT then {CTYO_UNIT, CTYI_UNIT} else {u})"

lemma unit_action_queue:
  assumes "u \<notin> range DK_UNIT" and "units_ok (devices s)" and "timer_ok (timing h)"
  shows "queue_step (own u) s (snd (unit_action h u s))"
proof (cases u)
  case CPU_UNIT
  then show ?thesis using cpu_srv_queue [OF assms(3)] by (simp add: own_def)
next
  case CTYO_UNIT
  then show ?thesis
    using assms cty_clock.svc_queue [of "cty_state (devices s)" "timing h" s 0 "tt_outcvt h" "Sent (putchar_s h s)"]
    by (simp add: own_def units_ok_def serve_queue)
next
  case CTYI_UNIT
  then show ?thesis
    using assms cty_clock.svc_queue [of "cty_state (devices s)" "timing h" s "tmxr_poll (devices s)" "tt_outcvt h"
        "Polled (poll_kbd h s)"]
    by (simp add: own_def units_ok_def serve_queue)
next
  case PTP_UNIT
  then show ?thesis
    using assms ptp_io.svc_queue [of "ptp_state (devices s)" s] by (simp add: own_def units_ok_def serve_queue)
next
  case PTR_UNIT
  then show ?thesis
    using assms ptr_io.svc_queue [of "ptr_state (devices s)" s] by (simp add: own_def units_ok_def serve_queue)
next
  case LPT_UNIT
  then show ?thesis
    using assms lpt_io.svc_queue [of "lpt_state (devices s)" s] by (simp add: own_def units_ok_def serve_queue)
next
  case CR_UNIT
  then show ?thesis
    using assms cr_io.svc_queue [of "cr_state (devices s)" s] by (simp add: own_def units_ok_def serve_queue)
next
  case CP_UNIT
  then show ?thesis
    using assms cp_io.svc_queue [of "cp_state (devices s)" s] by (simp add: own_def units_ok_def serve_queue)
next
  case (DK_UNIT n)
  then show ?thesis using assms(1) by simp
qed

lemma cpu_srv_beats: "sim_is_active CPU_UNIT (cpu_srv h s)"
proof -
  have "sim_is_active CPU_UNIT (rtc_srv (devices_update f t)) = sim_is_active CPU_UNIT t" for f and t :: cpu
    by (simp add: sim_is_active_def rtc_srv_def Let_def)
  then show ?thesis by (simp add: cpu_srv_def Let_def sim_activate_after_def active_after_activate)
qed

section \<open>The event queue of the machine\<close>

lemma pi_frame:
  fixes s t :: "'a pi_state_scheme"
  assumes "clock.more t = clock.more s"
  shows "dev_irq t = dev_irq s" "IOB_PI t = IOB_PI s" "pi_state.more t = pi_state.more s"
  using assms by (cases s; cases t; simp)+

lemma clock_frame:
  fixes s t :: cpu
  assumes "clock.more t = clock.more s"
  shows "devices t = devices s" and "bus_inv t = bus_inv s"
  using devices_frame [OF pi_frame(3) [OF assms]] pi_frame(1,2) [OF assms]
  by (simp_all add: bus_inv_def)

interpretation machine_bus: event_invariant "unit_action h" "\<lambda>s. bus_inv s \<and> units_ok (devices s)" for h
proof unfold_locales
  fix s t :: cpu and u
  show "clock.more t = clock.more s \<Longrightarrow> bus_inv s \<and> units_ok (devices s) \<Longrightarrow> bus_inv t \<and> units_ok (devices t)"
    using clock_frame [of t s] by simp
  assume "bus_inv s \<and> units_ok (devices s)"
  then show "bus_inv (snd (unit_action h u s)) \<and> units_ok (devices (snd (unit_action h u s)))"
    using unit_action_step [of s h u] by (auto simp: dev_step_def)
qed

interpretation machine_events: prompt_routines "unit_action h"
    "\<lambda>s. units_ok (devices s) \<and> timer_ok (timing h)" "UNIV - range DK_UNIT" CPU_UNIT for h
proof unfold_locales
  fix s t :: cpu and u v
  show "clock.more t = clock.more s \<Longrightarrow> units_ok (devices s) \<and> timer_ok (timing h) \<Longrightarrow>
      units_ok (devices t) \<and> timer_ok (timing h)"
    using clock_frame [of t s] by simp
  show "units_ok (devices s) \<and> timer_ok (timing h) \<Longrightarrow>
      units_ok (devices (snd (unit_action h u s))) \<and> timer_ok (timing h)"
    using unit_action_step [of s h u] by (auto simp: dev_step_def)
  assume u: "u \<in> UNIV - range DK_UNIT" and ok: "units_ok (devices s) \<and> timer_ok (timing h)" and c: "calm s"
  have q: "queue_step (own u) s (snd (unit_action h u s))"
    using u ok by (intro unit_action_queue) simp_all
  have o: "queue_ok s" using c by (simp add: calm_def)
  show "calm (snd (unit_action h u s))" "sim_time (snd (unit_action h u s)) = sim_time s"
    "length (filter (\<lambda>e. snd e \<le> gtime s) (agenda (snd (unit_action h u s))))
      \<le> length (filter (\<lambda>e. snd e \<le> gtime s) (agenda s))"
    using q c calm_gtime [OF c] by (simp_all add: queue_step_def due_def)
  show "sim_is_active v (snd (unit_action h u s)) \<Longrightarrow> sim_is_active v s \<or> v \<in> UNIV - range DK_UNIT"
    using q o u by (auto simp: queue_step_def own_def split: if_splits)
  show "sim_is_active CPU_UNIT (snd (unit_action h u s))" if "u = CPU_UNIT \<or> sim_is_active CPU_UNIT s"
  proof (cases "u = CPU_UNIT")
    case True
    then show ?thesis by (simp add: cpu_srv_beats)
  next
    case False
    then have "CPU_UNIT \<notin> own u" by (simp add: own_def)
    then show ?thesis using q o that False by (simp add: queue_step_def)
  qed
qed

section \<open>The dispatch table\<close>

text \<open>
  The table holds each enabled device at the numbers it claims and is refused exactly when a number
  is claimed twice.
\<close>

definition claims :: "dib \<Rightarrow> nat list" where
  "claims b = (if \<not> dispatched b then [] else map (\<lambda>j. dev_num b div 4 + j) [0..<num_devs b])"

definition claimed :: "(bool \<times> dib) list \<Rightarrow> nat list" where
  "claimed ds = concat (map (\<lambda>(dis, b). if dis then [] else claims b) ds)"

lemma enter_dib_iff:
  "dispatched b \<Longrightarrow> distinct js \<Longrightarrow>
     (enter_dib b js t = None) = (\<exists>j \<in> set js. io_tab t (dev_num b div 4 + j) \<noteq> None)"
  by (induction b js t rule: enter_dib.induct) (auto simp: dispatched_def)

lemma enter_dib_tab:
  "enter_dib b js t = Some t' \<Longrightarrow>
     io_tab t' d = (if dispatched b \<and> d \<in> (\<lambda>j. dev_num b div 4 + j) ` set js then dib_io b else io_tab t d)
   \<and> irq_tab t' d = (if dispatched b \<and> d \<in> (\<lambda>j. dev_num b div 4 + j) ` set js then dib_irq b else irq_tab t d)"
  by (induction b js t rule: enter_dib.induct) (auto split: if_splits)

lemma enter_dib_claims:
  "(enter_dib b [0..<num_devs b] t = None) = (\<exists>d \<in> set (claims b). io_tab t d \<noteq> None)"
proof (cases "dispatched b")
  case False
  then have "enter_dib b js t = Some t" for js by (induction js) simp_all
  then show ?thesis using False by (simp add: claims_def)
next
  case True
  then have "set (claims b) = (\<lambda>j. dev_num b div 4 + j) ` set [0..<num_devs b]"
    by (simp only: claims_def not_True_eq_False if_False set_map)
  then show ?thesis
    using enter_dib_iff [of b "[0..<num_devs b]" t] True by (simp only: bex_simps) simp
qed

lemma enter_dib_claimed:
  "enter_dib b [0..<num_devs b] t = Some t' \<Longrightarrow>
     io_tab t' d = (if d \<in> set (claims b) then dib_io b else io_tab t d)
   \<and> irq_tab t' d = (if d \<in> set (claims b) then dib_irq b else irq_tab t d)"
  using enter_dib_tab [of b "[0..<num_devs b]" t t' d] by (auto simp: claims_def)

lemma claims_io: "d \<in> set (claims b) \<Longrightarrow> dib_io b \<noteq> None"
  by (auto simp: claims_def dispatched_def split: if_splits)

lemma distinct_claims: "distinct (claims b)"
  by (simp add: claims_def distinct_map inj_on_def)

lemma enter_devs_iff:
  "(\<exists>t'. enter_devs ds t = Some t') \<longleftrightarrow> distinct (claimed ds) \<and> (\<forall>d \<in> set (claimed ds). io_tab t d = None)"
proof (induction ds t rule: enter_devs.induct)
  case (2 dis b ds t)
  show ?case
  proof (cases "dis \<or> enter_dib b [0..<num_devs b] t = None")
    case True
    then show ?thesis
      using 2 enter_dib_claims [of b t] by (cases dis) (auto simp: claimed_def)
  next
    case False
    then obtain t1 where t1: "enter_dib b [0..<num_devs b] t = Some t1" by auto
    note i = enter_dib_claimed [OF t1]
    have f: "\<forall>d \<in> set (claims b). io_tab t d = None" using enter_dib_claims [of b t] t1 by simp
    have "io_tab t1 d = None \<longleftrightarrow> io_tab t d = None \<and> d \<notin> set (claims b)" for d
      using i [of d] claims_io [of d b] by auto
    then have "(\<forall>d \<in> set (claimed ds). io_tab t1 d = None) \<longleftrightarrow>
        (\<forall>d \<in> set (claimed ds). io_tab t d = None \<and> d \<notin> set (claims b))"
      by simp
    moreover have "enter_devs ((dis, b) # ds) t = enter_devs ds t1" "claimed ((dis, b) # ds) = claims b @ claimed ds"
      using False t1 by (simp_all add: claimed_def)
    moreover have "(\<exists>t'. enter_devs ds t1 = Some t') \<longleftrightarrow>
        distinct (claimed ds) \<and> (\<forall>d \<in> set (claimed ds). io_tab t1 d = None)"
      using 2(2) [OF _ t1] False by blast
    ultimately show ?thesis using f distinct_claims [of b] by (simp add: ball_Un) blast
  qed
qed (simp add: claimed_def)

lemma enter_devs_tab:
  "enter_devs ds t = Some t' \<Longrightarrow>
     (\<forall>d. d \<notin> set (claimed ds) \<longrightarrow> io_tab t' d = io_tab t d \<and> irq_tab t' d = irq_tab t d)
   \<and> (\<forall>b d. (False, b) \<in> set ds \<longrightarrow> d \<in> set (claims b) \<longrightarrow> io_tab t' d = dib_io b \<and> irq_tab t' d = dib_irq b)"
proof (induction ds t arbitrary: t' rule: enter_devs.induct)
  case (2 dis b ds t)
  show ?case
  proof (cases dis)
    case True
    then show ?thesis using 2 by (auto simp: claimed_def)
  next
    case False
    then obtain t1 where t1: "enter_dib b [0..<num_devs b] t = Some t1" and t': "enter_devs ds t1 = Some t'"
      using 2(3) by (auto split: option.splits)
    note i = enter_dib_claimed [OF t1]
    have c: "\<forall>d \<in> set (claimed ds). io_tab t1 d = None" using enter_devs_iff [of ds t1] t' by blast
    then have n: "d \<notin> set (claimed ds)" if "d \<in> set (claims b)" for d
      using that i [of d] claims_io [OF that] by auto
    show ?thesis
      using 2(2) [OF _ t1 t'] False i n by (auto simp: claimed_def)
  qed
qed (simp add: claimed_def)

end
