(* ===== verification/Machine_Runs.thy ===== *)
theory Machine_Runs
  imports Machine
begin

text \<open>
  Runs of the machine. No instruction touches the event queue or the state of a peripheral by
  itself (\<open>sched\<close>), so that what the routines of the devices keep holds along every run: the
  consistency of the interrupt bus, the bounds of the devices' buffers, and the order of the event
  queue with the processor's clock in it, from which every call of \<open>sim_process_event\<close> returns.
\<close>

unbundle bit_operations_syntax

section \<open>What instructions leave alone\<close>

definition sched :: "cpu \<Rightarrow> (unit_id \<times> int) list \<times> io_units" where
  "sched s = (clock_queue s, devices s)"

lemma devices_interrupt [simp]:
  "devices (set_interrupt d l s) = devices s" "devices (clr_interrupt d s) = devices s" for s :: cpu
  by (rule devices_frame, simp)+

lemma sched_apr [simp]: "sched (check_apr_irq s) = sched s" for s :: cpu
  by (simp add: sched_def check_apr_irq_def Let_def)

lemma sched_conditions [simp]: "sched (address_conditions f w s) = sched s"
  by (simp add: address_conditions_def Let_def) (simp add: sched_def)

lemma sched_load_tlb [simp]: "sched (snd (load_tlb u p s)) = sched s"
  by (simp add: load_tlb_def Let_def sched_def)

lemma sched_checks [simp]:
  "sched (snd (lookup_direct a f w fe u p pg s)) = sched s"
  "sched (snd (lookup_checked a f w fe u p pg d s)) = sched s"
  "sched (set_fault v s) = sched s"
  by (simp_all add: lookup_direct_def lookup_checked_def set_fault_def Let_def sched_def)

lemma sched_registers [simp]:
  "sched (s\<lparr>MB := v\<rparr>) = sched s" "sched (s\<lparr>AB := a\<rparr>) = sched s"
  "sched (s\<lparr>FLAGS := a\<rparr>) = sched s" "sched (s\<lparr>modify := b\<rparr>) = sched s"
  "sched (s\<lparr>sim_interval := i\<rparr>) = sched s" "sched (s\<lparr>watch_stop := b\<rparr>) = sched s"
  "sched (s\<lparr>M := m\<rparr>) = sched s" "sched (s\<lparr>FM := m\<rparr>) = sched s"
  "sched (s\<lparr>last_addr := a\<rparr>) = sched s" "sched (s\<lparr>nxm_flag := b\<rparr>) = sched s"
  by (simp_all add: sched_def)

lemma sched_lookup [simp]: "sched (snd (page_lookup a f w c fe md s)) = sched s"
  unfolding page_lookup_def Let_def case_prod_unfold
  by (simp del: drop_bit_and)

lemma sched_nxm [simp]: "sched (snd (nxm s)) = sched s"
  by (simp add: nxm_def Let_def)

lemma sched_set_reg [simp]: "sched (set_reg r v s) = sched s"
  by (simp add: set_reg_def sched_def)

lemma sched_cores [simp]:
  "sched (snd (read_core f c fe md s)) = sched s" "sched (snd (write_core f c s)) = sched s"
  by (simp_all add: read_core_def write_core_def case_prod_unfold split: option.split)

lemma sched_accesses [simp]:
  "sched (snd (Mem_read f c fe md s)) = sched s" "sched (snd (Mem_write f c s)) = sched s"
  "sched (snd (Mem_read_nopage s)) = sched s" "sched (snd (Mem_write_nopage s)) = sched s"
  by (simp_all add: Mem_read_def Mem_write_def Mem_read_nopage_def Mem_write_nopage_def Let_def)

lemma sched_core: "core t = core s \<Longrightarrow> sched t = sched s"
  by (simp add: core_def sched_def)

lemma sched_let:
  fixes a :: cpu and g :: "cpu \<Rightarrow> cpu" and h :: "u32 \<Rightarrow> cpu"
  shows "sched a = q \<Longrightarrow> (\<And>x. sched x = q \<Longrightarrow> sched (g x) = q) \<Longrightarrow> sched (let x = a in g x) = q"
    and "(\<And>y. sched (h y) = q) \<Longrightarrow> sched (let y = b in h y) = q"
  by (simp_all add: Let_def)

lemma sched_jump [simp]: "sched (jump a s) = sched s" "sched (clr_flags m s) = sched s"
  by (simp_all add: jump_def clr_flags_def sched_def)

lemma sched_muuo [simp]: "sched (exec_muuo s) = sched s"
  unfolding exec_muuo_def by (intro sched_let) simp_all

lemma sched_more [simp]:
  "sched (s\<lparr>uuo_cycle := b\<rparr>) = sched s" "sched (s\<lparr>pi_restore := b\<rparr>) = sched s"
  "sched (s\<lparr>pi_cycle := b\<rparr>) = sched s" "sched (s\<lparr>inout_fail := b\<rparr>) = sched s"
  "sched (s\<lparr>page_fault := b\<rparr>) = sched s" "sched (s\<lparr>trap_flag := a\<rparr>) = sched s"
  "sched (s\<lparr>f_pc_inh := b\<rparr>) = sched s" "sched (s\<lparr>pi_vect := a\<rparr>) = sched s"
  "sched (s\<lparr>xct_flag := a\<rparr>) = sched s" "sched (s\<lparr>pi_rq := b\<rparr>) = sched s"
  "sched (s\<lparr>pi_hold := b\<rparr>) = sched s" "sched (s\<lparr>pi_ov := b\<rparr>) = sched s"
  "sched (s\<lparr>f_inst_fetch := b\<rparr>) = sched s" "sched (s\<lparr>f_load_pc := b\<rparr>) = sched s"
  "sched (s\<lparr>pi_enable := b\<rparr>) = sched s" "sched (s\<lparr>pi_pending := b\<rparr>) = sched s"
  by (simp_all add: sched_def)

lemma sched_pi [simp]:
  "sched (restore_pi_hold s) = sched s" "sched (set_pi_hold s) = sched s"
  "sched (snd (check_irq_level s)) = sched s" for s :: cpu
  by (simp_all add: sched_def restore_pi_hold_def set_pi_hold_def check_irq_level_def Let_def
      split: prod.splits)

lemma sched_refetch [simp]: "sched (pi_refetch a s) = sched s"
  by (simp add: pi_refetch_def)

lemma sched_page_trap [simp]: "sched (page_trap s) = sched s"
  unfolding page_trap_def by (intro sched_let) simp_all

lemma sched_arith_trap [simp]: "sched (snd (arith_trap s)) = sched s"
  by (simp add: arith_trap_def Let_def)

lemma sched_end [simp]: "sched (snd (end_pi_cycle s)) = sched s"
  unfolding end_pi_cycle_def Let_def case_prod_unfold by simp

section \<open>The invariant of the machine\<close>

definition machine_ok :: "host \<Rightarrow> bool \<Rightarrow> cpu \<Rightarrow> bool" where
  \<comment> \<open>with the queue, if the interval timer is disabled\<close>
  "machine_ok h q s \<longleftrightarrow> bus_inv s \<and> units_ok (devices s)
     \<and> (q \<longrightarrow> timer_ok (timing h) \<and> queue_ok s \<and> sim_is_active CPU_UNIT s
            \<and> (\<forall>n. \<not> sim_is_active (DK_UNIT n) s))"

lemma ok_sched: "machine_ok h q s \<Longrightarrow> bus_inv t \<Longrightarrow> sched t = sched s \<Longrightarrow> machine_ok h q t"
  by (simp add: machine_ok_def sched_def queue_ok_def sim_is_active_def)

lemma ok_bus: "machine_ok h q s \<Longrightarrow> bus_inv s"
  by (simp add: machine_ok_def)

interpretation machine_run: kept_cycle "machine_ok h q" "machine_ok h q" "\<lambda>_. True" "\<lambda>p. machine_ok h q"
  for h q
proof
  fix s t :: cpu and f c fe md and r :: u32 and v :: u64 and fl m u p ar
  show "core t = core s \<Longrightarrow> machine_ok h q s \<Longrightarrow> machine_ok h q t"
    by (rule ok_sched [OF _ bus_core [OF _ ok_bus] sched_core])
  assume s: "machine_ok h q s"
  note b = ok_bus [OF s] and k = ok_sched [OF s]
  show "machine_ok h q (snd (Mem_read f c fe md s))" "machine_ok h q (snd (Mem_write f c s))"
    "machine_ok h q (snd (Mem_read_nopage s))" "machine_ok h q (snd (Mem_write_nopage s))"
    by (rule k; simp add: bus_accesses bus_nopage b)+
  show "machine_ok h q (set_reg r v s)" "machine_ok h q (s\<lparr>FLAGS := fl\<rparr>)" "machine_ok h q (clr_flags m s)"
    "machine_ok h q (s\<lparr>FLAGS := jrst_flags ar (FLAGS s)\<rparr>)" "machine_ok h q (snd (load_tlb u p s))"
    "machine_ok h q (s\<lparr>uuo_cycle := True\<rparr>)" "machine_ok h q (s\<lparr>pi_restore := True\<rparr>)"
    "machine_ok h q (s\<lparr>uuo_cycle := False\<rparr>)" "machine_ok h q ((restore_pi_hold s)\<lparr>pi_restore := False\<rparr>)"
    by (rule k; simp add: b)+
  show "machine_ok h q (check_apr_irq s)" "machine_ok h q (exec_muuo s)"
    "machine_ok h q (snd (arith_trap s))" "machine_ok h q (page_trap s)"
    by (rule k; simp add: b check_apr_irq_bus bus_muuo bus_arith_trap bus_page_trap)+
  have "machine_ok h q (snd (end_pi_cycle s))" by (rule k; simp add: b bus_end)
  then show "case end_pi_cycle s of (Last, t) \<Rightarrow> machine_ok h q t | (Again, t) \<Rightarrow> machine_ok h q t"
    by (cases "end_pi_cycle s") (auto split: exit.split)
qed simp_all

section \<open>Devices, events and reset keep it\<close>

lemma ok_step:
  assumes "dev_step d s t" and "q \<Longrightarrow> queue_step U s t" and "CPU_UNIT \<notin> U" and "U \<inter> range DK_UNIT = {}"
    and "machine_ok h q s"
  shows "machine_ok h q t"
proof -
  have n: "DK_UNIT i \<notin> U" for i using assms(4) by auto
  show ?thesis
    using assms(1,2,3,5) n by (cases q) (simp_all add: machine_ok_def dev_step_def queue_step_def)
qed

lemma addresses_dev: "unat f div 4 = d div 4 \<Longrightarrow> addresses d f"
  by (simp add: addresses_def)

lemma ok_perform:
  assumes "bus_step d s (snd (snd (io f v (get (devices s), s))))"
    and "q \<Longrightarrow> queue_step U s (snd (snd (io f v (get (devices s), s))))"
    and "units_ok (put (fst (snd (io f v (get (devices s), s)))) (devices s))"
    and "CPU_UNIT \<notin> U" and "U \<inter> range DK_UNIT = {}" and "machine_ok h q s"
  shows "machine_ok h q (snd (perform_io get put io f v s))"
  by (rule ok_step [OF perform_step _ assms(4-6)]) (use assms(1-3) in \<open>simp_all add: perform_queue\<close>)

lemma ok_units:
  "machine_ok h q s \<Longrightarrow> units_ok (devices s)" "machine_ok h True s \<Longrightarrow> timer_ok (timing h)"
  by (simp_all add: machine_ok_def)

lemma ok_ptp: 
  assumes "unat f div 4 = 16" and "machine_ok h q s"
  shows "machine_ok h q (snd (perform_io ptp_state (\<lambda>u d. put_ptp u d) ptp_devio f v s))"
proof -
  have u: "wait_ok (ptp_state (devices s))"
    using ok_units(1) [OF assms(2)] by (simp add: units_ok_def)
  have a: "addresses PP_DEVNUM f" using assms(1) by (simp add: addresses_def)
  show ?thesis
  proof (rule ok_perform [where d = PP_DEVNUM and U = "{PTP_UNIT}"])
    show "bus_step PP_DEVNUM s (snd (snd (ptp_devio f v (ptp_state (devices s), s))))" by (rule ptp_io.io_step [OF u a])
    show "queue_step {PTP_UNIT} s (snd (snd (ptp_devio f v (ptp_state (devices s), s))))" by (rule ptp_io.io_queue [OF u a])
    show "units_ok (put_ptp (fst (snd (ptp_devio f v (ptp_state (devices s), s)))) (devices s))"
      using ptp_io.io_inv [OF u a, of v s] ok_units(1) [OF assms(2)] by (simp add: units_ok_def)
  qed (use assms(2) in auto)
qed

lemma ok_ptr: 
  assumes "unat f div 4 = 17" and "machine_ok h q s"
  shows "machine_ok h q (snd (perform_io ptr_state (\<lambda>u d. put_ptr u d) ptr_devio f v s))"
proof -
  have u: "ptr_ok (ptr_state (devices s))"
    using ok_units(1) [OF assms(2)] by (simp add: units_ok_def)
  have a: "addresses PR_DEVNUM f" using assms(1) by (simp add: addresses_def)
  show ?thesis
  proof (rule ok_perform [where d = PR_DEVNUM and U = "{PTR_UNIT}"])
    show "bus_step PR_DEVNUM s (snd (snd (ptr_devio f v (ptr_state (devices s), s))))" by (rule ptr_io.io_step [OF u a])
    show "queue_step {PTR_UNIT} s (snd (snd (ptr_devio f v (ptr_state (devices s), s))))" by (rule ptr_io.io_queue [OF u a])
    show "units_ok (put_ptr (fst (snd (ptr_devio f v (ptr_state (devices s), s)))) (devices s))"
      using ptr_io.io_inv [OF u a, of v s] ok_units(1) [OF assms(2)] by (simp add: units_ok_def)
  qed (use assms(2) in auto)
qed

lemma ok_lpt: 
  assumes "unat f div 4 = 21" and "machine_ok h q s"
  shows "machine_ok h q (snd (perform_io lpt_state (\<lambda>u d. put_lpt u d) lpt_devio f v s))"
proof -
  have u: "wait_ok (lpt_state (devices s)) \<and> lpt_ok (lpt_state (devices s))"
    using ok_units(1) [OF assms(2)] by (simp add: units_ok_def)
  have a: "addresses LP_DEVNUM f" using assms(1) by (simp add: addresses_def)
  show ?thesis
  proof (rule ok_perform [where d = LP_DEVNUM and U = "{LPT_UNIT}"])
    show "bus_step LP_DEVNUM s (snd (snd (lpt_devio f v (lpt_state (devices s), s))))" by (rule lpt_io.io_step [OF u a])
    show "queue_step {LPT_UNIT} s (snd (snd (lpt_devio f v (lpt_state (devices s), s))))" by (rule lpt_io.io_queue [OF u a])
    show "units_ok (put_lpt (fst (snd (lpt_devio f v (lpt_state (devices s), s)))) (devices s))"
      using lpt_io.io_inv [OF u a, of v s] ok_units(1) [OF assms(2)] by (simp add: units_ok_def)
  qed (use assms(2) in auto)
qed

lemma ok_cr: 
  assumes "unat f div 4 = 26" and "machine_ok h q s"
  shows "machine_ok h q (snd (perform_io cr_state (\<lambda>u d. put_cr u d) cr_devio f v s))"
proof -
  have u: "wait_ok (cr_state (devices s))"
    using ok_units(1) [OF assms(2)] by (simp add: units_ok_def)
  have a: "addresses CR_DEVNUM f" using assms(1) by (simp add: addresses_def)
  show ?thesis
  proof (rule ok_perform [where d = CR_DEVNUM and U = "{CR_UNIT}"])
    show "bus_step CR_DEVNUM s (snd (snd (cr_devio f v (cr_state (devices s), s))))" by (rule cr_io.io_step [OF u a])
    show "queue_step {CR_UNIT} s (snd (snd (cr_devio f v (cr_state (devices s), s))))" by (rule cr_io.io_queue [OF u a])
    show "units_ok (put_cr (fst (snd (cr_devio f v (cr_state (devices s), s)))) (devices s))"
      using cr_io.io_inv [OF u a, of v s] ok_units(1) [OF assms(2)] by (simp add: units_ok_def)
  qed (use assms(2) in auto)
qed

lemma ok_cp: 
  assumes "unat f div 4 = 18" and "machine_ok h q s"
  shows "machine_ok h q (snd (perform_io cp_state (\<lambda>u d. put_cp u d) cp_devio f v s))"
proof -
  have u: "wait_ok (cp_state (devices s))"
    using ok_units(1) [OF assms(2)] by (simp add: units_ok_def)
  have a: "addresses CP_DEVNUM f" using assms(1) by (simp add: addresses_def)
  show ?thesis
  proof (rule ok_perform [where d = CP_DEVNUM and U = "{CP_UNIT}"])
    show "bus_step CP_DEVNUM s (snd (snd (cp_devio f v (cp_state (devices s), s))))" by (rule cp_io.io_step [OF u a])
    show "queue_step {CP_UNIT} s (snd (snd (cp_devio f v (cp_state (devices s), s))))" by (rule cp_io.io_queue [OF u a])
    show "units_ok (put_cp (fst (snd (cp_devio f v (cp_state (devices s), s)))) (devices s))"
      using cp_io.io_inv [OF u a, of v s] ok_units(1) [OF assms(2)] by (simp add: units_ok_def)
  qed (use assms(2) in auto)
qed

lemma ok_cty: 
  assumes "unat f div 4 = 20" and "machine_ok h q s"
  shows "machine_ok h q (snd (perform_io cty_state (\<lambda>u d. put_cty u d) cty_devio f v s))"
proof -
  have u: "cty_ok (cty_state (devices s))"
    using ok_units(1) [OF assms(2)] by (simp add: units_ok_def)
  have a: "addresses CTY_DEVNUM f" using assms(1) by (simp add: addresses_def)
  show ?thesis
  proof (rule ok_perform [where d = CTY_DEVNUM and U = "{CTYO_UNIT, CTYI_UNIT}"])
    show "bus_step CTY_DEVNUM s (snd (snd (cty_devio f v (cty_state (devices s), s))))" by (rule cty_io.io_step [OF u a])
    show "queue_step {CTYO_UNIT, CTYI_UNIT} s (snd (snd (cty_devio f v (cty_state (devices s), s))))" if q
      using cty_clock.io_queue [of "cty_state (devices s)" "timing h" f s v] u a ok_units(2) [of h s] assms(2) that by simp
    show "units_ok (put_cty (fst (snd (cty_devio f v (cty_state (devices s), s)))) (devices s))"
      using cty_io.io_inv [OF u a, of v s] ok_units(1) [OF assms(2)] by (simp add: units_ok_def)
  qed (use assms(2) in auto)
qed

lemma ok_dk: "unat f div 4 = 14 \<Longrightarrow> machine_ok h False s \<Longrightarrow>
    machine_ok h False (snd (perform_io dk_state (\<lambda>u d. put_dk u d) (dk_devio (timing h)) f v s))"
  using dk_io.io_step [of "dk_state (devices s)" f s "timing h" v]
    dk_io.io_inv [of "dk_state (devices s)" f "timing h" v s] ok_units(1) [of h False s]
  by (intro ok_perform [where d = DK_DEVNUM and U = "{}"]) (auto simp: units_ok_def addresses_def)

lemma ok_reset_unit:
  assumes "bus_step d s (snd (res (get (devices s), s)))" and "q \<Longrightarrow> queue_step U s (snd (res (get (devices s), s)))"
    and "units_ok (devices s) \<Longrightarrow> units_ok (put (fst (res (get (devices s), s))) (devices s))"
    and "CPU_UNIT \<notin> U" and "U \<inter> range DK_UNIT = {}" and "machine_ok h q s"
  shows "machine_ok h q (reset_unit get put res s)"
proof (rule ok_step [OF _ _ assms(4-6)])
  show "dev_step d s (reset_unit get put res s)"
    using assms(3) bus_step_bus [OF assms(1)] bus_step_devices [OF assms(1)]
    by (simp add: dev_step_def reset_unit_def case_prod_unfold Let_def)
  show "q \<Longrightarrow> queue_step U s (reset_unit get put res s)"
    using assms(2) by (simp add: reset_unit_def case_prod_unfold Let_def)
qed

lemma ok_reset_devices:
  assumes "machine_ok h q s"
  shows "machine_ok h q (reset_devices h s)"
proof -
  have t: "machine_ok h q (reset_unit cty_state (\<lambda>u d. put_cty u d) (cty_reset (timing h) p) s)"
    if "machine_ok h q s" for p s
    using that ok_units(2) [of h s]
    by (intro ok_reset_unit [where d = CTY_DEVNUM and U = "{CTYO_UNIT, CTYI_UNIT}"])
      (auto simp: cty_reset_def Let_def units_ok_def cty_ok_def wait_ok_def)
  have p: "machine_ok h q (reset_unit ptp_state (\<lambda>u d. put_ptp u d) ptp_reset s)" if "machine_ok h q s" for s
    using that
    by (intro ok_reset_unit [where d = PP_DEVNUM and U = "{PTP_UNIT}"])
      (auto simp: ptp_reset_def units_ok_def wait_ok_def)
  have r: "machine_ok h q (reset_unit ptr_state (\<lambda>u d. put_ptr u d) ptr_reset s)" if "machine_ok h q s" for s
    using that
    by (intro ok_reset_unit [where d = PR_DEVNUM and U = "{PTR_UNIT}"])
      (auto simp: ptr_reset_def units_ok_def ptr_ok_def wait_ok_def)
  have l: "machine_ok h q (reset_unit lpt_state (\<lambda>u d. put_lpt u d) lpt_reset s)" if "machine_ok h q s" for s
    using that
    by (intro ok_reset_unit [where d = LP_DEVNUM and U = "{LPT_UNIT}"])
      (auto simp: lpt_reset_def units_ok_def wait_ok_def lpt_ok_def)
  show ?thesis unfolding reset_devices_def Let_def by (intro l r p t assms)
qed

lemma sched_apr_registers [simp]:
  "sched (s\<lparr>clk_flg := b\<rparr>) = sched s" "sched (s\<lparr>clk_en := b\<rparr>) = sched s"
  "sched (s\<lparr>timer_irq := b\<rparr>) = sched s" "sched (s\<lparr>timer_flg := b\<rparr>) = sched s"
  "sched (s\<lparr>apr_irq := n\<rparr>) = sched s" "sched (s\<lparr>clk_irq := n\<rparr>) = sched s"
  "sched (set_interrupt d l s) = sched s" "sched (clr_interrupt d s) = sched s"
  by (simp_all add: sched_def)

lemma ok_let:
  fixes a :: cpu and g :: "cpu \<Rightarrow> cpu"
  shows "machine_ok h q a \<Longrightarrow> (\<And>x. machine_ok h q x \<Longrightarrow> machine_ok h q (g x)) \<Longrightarrow> machine_ok h q (let x = a in g x)"
  by simp

lemma ok_registers:
  assumes "machine_ok h q s"
  shows "machine_ok h q (s\<lparr>clk_irq := n, apr_irq := m\<rparr>)" "machine_ok h q (s\<lparr>nxm_flag := b\<rparr>)"
    "machine_ok h q (s\<lparr>inout_fail := b\<rparr>)" "machine_ok h q (s\<lparr>clk_flg := b\<rparr>)" "machine_ok h q (s\<lparr>clk_en := b\<rparr>)"
    "machine_ok h q (s\<lparr>timer_irq := b\<rparr>)" "machine_ok h q (s\<lparr>timer_flg := b\<rparr>)"
    "machine_ok h q (set_interrupt d l s)" "machine_ok h q (clr_interrupt d s)" "machine_ok h q (check_apr_irq s)"
  by (rule ok_sched [OF assms]; use ok_bus [OF assms] in
      \<open>simp add: pi_lines.raise_inv pi_lines.drop_inv check_apr_irq_bus\<close>)+

lemma ok_apr_cono:
  assumes "\<And>t. machine_ok h q t \<Longrightarrow> machine_ok h q (io_reset t)" and "machine_ok h q s"
  shows "machine_ok h q (dev_apr_cono io_reset v s)"
  unfolding dev_apr_cono_def
  by (intro ok_let ok_registers) (simp_all add: assms ok_registers Let_def)

lemma ok_processor:
  assumes "machine_ok h q s"
  shows "machine_ok h q (snd (dev_pi f v s))" and "machine_ok h q (snd (dev_pag f v s))"
proof -
  have "sched (snd (dev_pi f v s)) = sched s"
    by (simp add: dev_pi_def dev_pi_cono_def Let_def) (simp add: sched_def)
  then show "machine_ok h q (snd (dev_pi f v s))"
    using dev_pi_bus [OF ok_bus [OF assms]] by (intro ok_sched [OF assms])
  have "sched (snd (dev_pag f v s)) = sched s"
    by (simp add: dev_pag_def dev_pag_cono_def dev_pag_datao_def flush_tlb_def sched_def Let_def)
  then show "machine_ok h q (snd (dev_pag f v s))"
    using bus_pag [OF ok_bus [OF assms]] by (intro ok_sched [OF assms])
qed

lemma table_origin:
  assumes "enter_devs ds t = Some t'" and "io_tab t' d = Some io"
  shows "io_tab t d = Some io \<or> (\<exists>b. (False, b) \<in> set ds \<and> d \<in> set (claims b) \<and> dib_io b = Some io)"
proof (cases "d \<in> set (claimed ds)")
  case True
  then obtain b where "(False, b) \<in> set ds" "d \<in> set (claims b)"
    by (auto simp: claimed_def split: if_splits)
  then show ?thesis using enter_devs_tab [OF assms(1)] assms(2) by metis
next
  case False
  then show ?thesis using enter_devs_tab [OF assms(1)] assms(2) by metis
qed

lemma machine_vectors:
  assumes "machine_tables h lp dis = Some t"
  shows "irq_tab t d = None"
proof (cases "d \<in> set (claimed (sim_devices h lp dis))")
  case True
  then obtain b where b: "(False, b) \<in> set (sim_devices h lp dis)" "d \<in> set (claims b)"
    by (auto simp: claimed_def split: if_splits)
  then have "dib_irq b = None" by (auto simp: sim_devices_def Let_def)
  then show ?thesis
    using enter_devs_tab [OF assms [unfolded machine_tables_def]] b by metis
next
  case False
  then show ?thesis
    using enter_devs_tab [OF assms [unfolded machine_tables_def]] by (simp add: basic_tables_def)
qed

lemma machine_device_ok:
  assumes t: "machine_tables h LP_DEVNUM dis = Some t" and dk: "q \<Longrightarrow> dis DK_DEVNUM"
    and f: "unat f div 4 = d" and s: "machine_ok h q s"
  shows "machine_ok h q (snd (dev_tab (machine h t brk) d f v s))"
proof (cases "io_tab t d")
  case None
  then show ?thesis using s by (simp add: machine_def null_dev_def Let_def)
next
  case (Some io)
  have "io_tab (basic_tables (reset_devices h)) d = Some io \<or>
      (\<exists>b. (False, b) \<in> set (sim_devices h LP_DEVNUM dis) \<and> d \<in> set (claims b) \<and> dib_io b = Some io)"
    using t Some unfolding machine_tables_def by (rule table_origin)
  then have "machine_ok h q (snd (io f v s))"
  proof
    assume "io_tab (basic_tables (reset_devices h)) d = Some io"
    then have "io = dev_apr (reset_devices h) \<or> io = dev_pi \<or> io = dev_pag"
      by (auto simp: basic_tables_def split: if_splits)
    then show ?thesis
      using s ok_processor [OF s, of f v] ok_apr_cono [OF ok_reset_devices s]
      by (auto simp: dev_apr_def Let_def)
  next
    assume "\<exists>b. (False, b) \<in> set (sim_devices h LP_DEVNUM dis) \<and> d \<in> set (claims b) \<and> dib_io b = Some io"
    then show ?thesis
      using f s dk ok_ptp ok_ptr ok_lpt ok_cr ok_cp ok_cty ok_dk
      by (cases q) (auto simp: sim_devices_def claims_def dispatched_def Let_def)
  qed
  then show ?thesis using Some by (simp add: machine_def)
qed

lemma machine_good:
  assumes "machine_ok h q s" and "q"
  shows "queue_ok s" and "machine_events.good h s" and "sim_is_active CPU_UNIT s"
proof -
  show "machine_events.good h s" "queue_ok s" "sim_is_active CPU_UNIT s"
    using assms unfolding machine_events.good_def machine_ok_def by auto
qed

lemma machine_event_ok:
  assumes "machine_ok h q s"
  shows "machine_ok h q (snd (machine_event h s))"
proof (cases "sim_process_event (unit_action h) s")
  case None
  then show ?thesis using assms by (simp add: machine_event_def)
next
  case (Some x)
  then obtain r s' where x: "sim_process_event (unit_action h) s = Some (r, s')" by (cases x) simp
  have b: "bus_inv s' \<and> units_ok (devices s')"
    using machine_bus.process_ok [OF _ x] assms by (simp add: machine_ok_def)
  have "timer_ok (timing h) \<and> queue_ok s' \<and> sim_is_active CPU_UNIT s' \<and> (\<forall>n. \<not> sim_is_active (DK_UNIT n) s')"
    if q
  proof -
    from machine_good [OF assms that] machine_events.process_keeps [OF _ _ _ x]
    have "machine_events.good h s'" "queue_ok s'" "sim_is_active CPU_UNIT s'" by auto
    then show ?thesis
      unfolding machine_events.good_def by blast
  qed
  then show ?thesis using b x by (simp add: machine_event_def machine_ok_def)
qed

lemma machine_keeps:
  assumes "machine_tables h LP_DEVNUM dis = Some t" and "q \<Longrightarrow> dis DK_DEVNUM"
  shows "env_keeps (machine_ok h q) (\<lambda>_. True) (machine h t brk)"
  using machine_device_ok [OF assms] machine_event_ok [of h q]
  by (auto simp: env_keeps_def machine_def)

lemma ok_enter_irq:
  assumes "machine_tables h LP_DEVNUM dis = Some t" and "machine_ok h q s"
  shows "machine_ok h q (enter_irq (machine h t brk) s)"
proof -
  have v: "irq_vector (machine h t brk) u = u" for u
    using machine_vectors [OF assms(1)]
    by (auto simp: irq_vector_def machine_def split: option.split dest: find_Some_iff [THEN iffD1])
  have k: "irq_keeps bus_inv (machine h t brk)"
    using machine_vectors [OF assms(1)] by (simp add: irq_keeps_def machine_def)
  have "sched (enter_irq (machine h t brk) s) = sched s"
    unfolding enter_irq_def v by (simp add: Let_def)
  then show ?thesis
    using bus_enter_irq [OF k ok_bus [OF assms(2)]] by (intro ok_sched [OF assms(2)])
qed

lemma machine_runs:
  assumes t: "machine_tables h LP_DEVNUM dis = Some t" and dk: "q \<Longrightarrow> dis DK_DEVNUM"
    and r: "(step (machine h t brk))\<^sup>*\<^sup>* c d" and i: "machine_ok h q (snd c)"
  shows "machine_ok h q (snd d)"
  using r
proof (induction rule: rtranclp_induct)
  case base
  show ?case by (rule i)
next
  case (step c d)
  obtain p s p' s' where cd: "c = (p, s)" "d = (p', s')" by fastforce
  then have "cycle_step (machine h t brk) p s = Some (p', s')" using step.hyps(2) by (simp add: step_iff)
  then show ?case
    using machine_run.cycle_keeps [OF machine_keeps [OF t dk] ok_enter_irq [OF t]] step.IH cd
    by fastforce
qed

lemma machine_processes:
  assumes "machine_ok h True s"
  shows "\<exists>r s'. sim_process_event (unit_action h) s = Some (r, s')
    \<and> (r = 0 \<and> \<not> stop_cpu s \<longrightarrow> 0 < sim_interval s')"
proof -
  note g = machine_good [OF assms TrueI]
  obtain r s' where p: "sim_process_event (unit_action h) s = Some (r, s')"
    using machine_events.process_returns [OF g] by fast
  then show ?thesis using machine_events.process_result(2) [OF g(1,2), of s'] by auto
qed

section \<open>Reset, and the words of the devices\<close>

lemma ok_reset:
  assumes "units_ok (devices s)"
    and "q \<Longrightarrow> timer_ok (timing h) \<and> queue_ok s \<and> (\<forall>n. \<not> sim_is_active (DK_UNIT n) s)"
  shows "machine_ok h q (reset_all h s)"
  unfolding reset_all_def
proof (rule ok_reset_devices)
  obtain r where r: "cpu_reset s = sim_activate CPU_UNIT 1000 r" and b: "bus_inv r"
    and q: "clock_queue r = clock_queue s" "devices r = devices s"
    using that by (simp add: cpu_reset_def Let_def bus_inv_def)
  have "bus_inv (cpu_reset s)" "devices (cpu_reset s) = devices s"
    using b q bus_step_bus [OF bus_step_activate] bus_step_devices [OF bus_step_activate] unfolding r by auto
  moreover have "queue_ok r" "\<forall>n. \<not> sim_is_active (DK_UNIT n) r" if q
    using assms(2) [OF that] q by (simp_all add: queue_ok_def sim_is_active_def)
  ultimately show "machine_ok h q (cpu_reset s)"
    using assms(1) assms(2) activate_ok [of r]
    by (auto simp: machine_ok_def r active_after_activate)
qed

lemma perform_word:
  "wf36 (fst (io f v (get (devices s), s))) \<Longrightarrow> wf36 (fst (perform_io get put io f v s))"
  by (simp add: perform_io_def case_prod_unfold Let_def)

lemma machine_word:
  assumes "machine_tables h LP_DEVNUM dis = Some t" and "units_ok (devices s)" and "wf36 v" and "d \<notin> {0, 1, 2}"
  shows "wf36 (fst (dev_tab (machine h t brk) d f v s))"
proof (cases "io_tab t d")
  case None
  then show ?thesis using assms(3) by (simp add: machine_def null_dev_def Let_def wf36_const)
next
  case (Some io)
  then obtain b where "(False, b) \<in> set (sim_devices h LP_DEVNUM dis)" "dib_io b = Some io"
    using table_origin [OF assms(1) [unfolded machine_tables_def] Some] assms(4)
    by (auto simp: basic_tables_def)
  then have "wf36 (fst (io f v s))"
    using assms(2,3)
    by (auto simp: sim_devices_def units_ok_def Let_def intro!: perform_word ptp_io.io_word ptr_io.io_word
        lpt_io.io_word cr_io.io_word cp_io.io_word cty_io.io_word dk_io.io_word)
  then show ?thesis using Some by (simp add: machine_def)
qed

end
