(* ===== verification/Timer_Events.thy ===== *)
theory Timer_Events
  imports Machine
begin

text \<open>
  The interval timer on the event queue. A clock that is enabled while its counter equals the
  comparison register, as after power-on, schedules its event without delay; the routine of that
  event puts the counter back to zero, finds the registers equal again, and schedules the next one
  without delay, so that \<open>sim_process_event\<close> never gets past it.
\<close>

unbundle bit_operations_syntax

section \<open>The event without delay\<close>

definition stuck_clock :: "dk_unit \<Rightarrow> bool" where
  "stuck_clock u \<longleftrightarrow> INT_REG u = 0 \<and> CLK_TIM u = 0 \<and> tst (STATUS u) 0x20"

definition stuck :: "cpu \<Rightarrow> bool" where
  \<comment> \<open>the clock's event is due now, all others are later\<close>
  "stuck s \<longleftrightarrow> (\<exists>q. clock_queue s = (DK_UNIT 0, 0) # q \<and> (q = [] \<or> 0 < snd (hd q))
      \<and> DK_UNIT 0 \<notin> fst ` set q)
    \<and> sim_interval s = 0 \<and> \<not> stop_cpu s \<and> stuck_clock (dk_state (devices s))"

lemma activate_now:
  assumes "\<not> sim_is_active u s" and "clock_queue s = [] \<or> 0 < sim_interval s"
  shows "clock_queue (sim_activate u 0 s) = (u, 0) # clock_queue (update_sim_time s)"
    and "sim_interval (sim_activate u 0 s) = 0"
  using assms by (cases "clock_queue s"; auto simp: sim_activate_def update_sim_time_def Let_def)+

lemma update_head: "clock_queue s \<noteq> [] \<Longrightarrow> snd (hd (clock_queue (update_sim_time s))) = sim_interval s"
  by (auto simp: update_sim_time_def Let_def split: list.split)

lemma arm_status: "tst (x OR y :: u32) 0x20 \<longleftrightarrow> tst x 0x20 \<or> tst y 0x20"
  by (auto simp: tst_def bit_eq_iff bit_and_iff bit_or_iff simp del: bit_numeral_word_iff)

definition same_clock :: "cpu \<Rightarrow> cpu \<Rightarrow> bool" where
  "same_clock t s \<longleftrightarrow> clock_queue t = clock_queue s \<and> sim_interval t = sim_interval s
     \<and> noqueue_time t = noqueue_time s \<and> stop_cpu t = stop_cpu s \<and> devices t = devices s"

lemma same_clock_simps [simp]:
  "same_clock s s" "same_clock (set_interrupt d l t) s = same_clock t s"
  "same_clock (clr_interrupt d t) s = same_clock t s"
  by (simp_all add: same_clock_def devices_frame [of "set_interrupt d l t" t] devices_frame [of "clr_interrupt d t" t])

lemma stuck_arm:
  assumes "INT_REG u = 0" and "CLK_REG u = 0" and "tst (STATUS u) 0x20" and "usec_delay tm 0 = 0"
  shows "\<exists>u'. dk_arm tm (u, s) = (u', sim_activate (DK_UNIT 0) 0 s) \<and> stuck_clock u'"
  using assms by (simp add: dk_arm_def Let_def stuck_clock_def sim_activate_after_def)

lemma dk_svc_stuck:
  assumes "stuck_clock u" and "usec_delay tm 0 = 0"
  shows "\<exists>u' t. dk_svc tm (u, s) = (0, u', sim_activate (DK_UNIT 0) 0 t) \<and> stuck_clock u' \<and> same_clock t s"
proof -
  let ?u = "u\<lparr>STATUS := STATUS u OR 8, CLK_REG := 0\<rparr>"
  let ?s = "if tst (STATUS u OR 8) 0x18 then set_interrupt DK_DEVNUM (unat (STATUS u OR 8)) s else s"
  have z: "\<not> tst (0 :: u32) m" for m by (simp add: tst_def)
  have "dk_svc tm (u, s) = (0, dk_arm tm (?u, ?s))"
    using assms(1) by (simp add: dk_svc_def dk_test_def Let_def stuck_clock_def arm_status z)
  moreover obtain u' where "dk_arm tm (?u, ?s) = (u', sim_activate (DK_UNIT 0) 0 ?s)" "stuck_clock u'"
    using stuck_arm [of ?u tm ?s] assms by (auto simp: stuck_clock_def arm_status)
  moreover have "same_clock ?s s" by simp
  ultimately show ?thesis by auto
qed

lemma stuck_activate:
  assumes "same_clock t s" and "stuck_clock u" and "clock_queue s = [] \<or> 0 < sim_interval s"
    and "\<not> sim_is_active (DK_UNIT 0) s" and "\<not> stop_cpu s"
  shows "stuck ((sim_activate (DK_UNIT 0) 0 t)\<lparr>devices := put_dk u d\<rparr>)"
proof -
  have a: "\<not> sim_is_active (DK_UNIT 0) t" "clock_queue t = [] \<or> 0 < sim_interval t"
    using assms(1,3,4) by (simp_all add: same_clock_def sim_is_active_def)
  have "stop_cpu (sim_activate (DK_UNIT 0) 0 t) = stop_cpu t"
    by (simp add: sim_activate_def Let_def)
  moreover have "DK_UNIT 0 \<notin> fst ` set (clock_queue (update_sim_time t))"
    using a(1) update_active [of "DK_UNIT 0" t] by (simp add: sim_is_active_iff)
  ultimately show ?thesis
    using activate_now [OF a] a(2) assms(1,2,5) update_head [of t] by (auto simp: stuck_def same_clock_def)
qed

lemma stuck_turn:
  assumes "stuck s" and "usec_delay (timing h) 0 = 0"
  shows "\<exists>s'. event_turn (unit_action h) 0 s = Some (0, 0, s') \<and> stuck s'"
proof -
  obtain q where q: "clock_queue s = (DK_UNIT 0, 0) # q" "q = [] \<or> 0 < snd (hd q)" "DK_UNIT 0 \<notin> fst ` set q"
    and i: "sim_interval s = 0" "\<not> stop_cpu s" "stuck_clock (dk_state (devices s))"
    using assms(1) by (auto simp: stuck_def)
  let ?p = "pop_event 0 s"
  have p: "clock_queue ?p = q" "sim_interval ?p = head_time ?p" "stop_cpu ?p = stop_cpu s" "devices ?p = devices s"
    using q(1) i(1)
    by (cases q; auto simp: pop_event_def set_wait_def head_time_def Let_def)+
  have n: "\<not> sim_is_active (DK_UNIT 0) ?p" using q(3) by (simp add: sim_is_active_iff p)
  obtain u' t where d: "dk_svc (timing h) (dk_state (devices ?p), ?p) = (0, u', sim_activate (DK_UNIT 0) 0 t)"
    "stuck_clock u'" "same_clock t ?p"
    using dk_svc_stuck [OF _ assms(2), of "dk_state (devices ?p)" ?p] i(3) p(4) by auto
  let ?s = "(sim_activate (DK_UNIT 0) 0 t)\<lparr>devices := put_dk u' (devices (sim_activate (DK_UNIT 0) 0 t))\<rparr>"
  have "unit_action h (DK_UNIT 0) ?p = (0, ?s)" using d(1) by (simp add: serve_def Let_def)
  then have "event_turn (unit_action h) 0 s = Some (0, 0, ?s)" by (simp add: event_turn_def q(1) Let_def)
  moreover have "clock_queue ?p = [] \<or> 0 < sim_interval ?p"
    using q(2) by (cases q) (simp_all add: p(1) p(2) head_time_hd [of ?p])
  then have "stuck ?s" using n i(2) p(3) by (intro stuck_activate [OF d(3,2)]) simp_all
  ultimately show ?thesis by blast
qed

lemma stuck_loop:
  assumes "stuck s" and "usec_delay (timing h) 0 = 0"
  shows "event_loop (unit_action h) 0 s = None"
proof (rule ccontr)
  let ?P = "\<lambda>a c s x. a = unit_action h \<longrightarrow> c = 0 \<longrightarrow> \<not> stuck s"
  have P: "?P a c s x" if "event_loop a c s = Some x" for a c s x
  proof (rule event_loop.raw_induct [OF _ that, of ?P], goal_cases)
    case (1 loop act c s x)
    show ?case
    proof (intro impI notI)
      assume a: "act = unit_action h" "c = 0" and s: "stuck s"
      obtain s' where t: "event_turn (unit_action h) 0 s = Some (0, 0, s')" and s': "stuck s'"
        using stuck_turn [OF s assms(2)] by blast
      then have "loop act 0 s' = Some x" using 1(2) a by (auto simp: stuck_def)
      then show False using 1(1) a s' by blast
    qed
  qed
  assume "event_loop (unit_action h) 0 s \<noteq> None"
  then show False using P [of "unit_action h" 0 s] assms(1) by auto
qed

lemma stuck_process:
  assumes "stuck s" and "usec_delay (timing h) 0 = 0"
  shows "sim_process_event (unit_action h) s = None"
proof -
  have "update_sim_time s = s \<or> stuck (update_sim_time s)"
    using assms(1) by (auto simp: stuck_def update_sim_time_def head_time_def Let_def)
  then have "stuck (update_sim_time s)" using assms(1) by auto
  then show ?thesis
    using assms(1) stuck_loop [OF _ assms(2), of "update_sim_time s"]
    by (auto simp: sim_process_event_def stuck_def catch_up_def Let_def)
qed

section \<open>Enabling the clock\<close>

lemma bit_en: "tst (x :: u32) 0x20 = bit x 5"
  using tst_exp [of x 5] by simp

lemma flags_enable:
  assumes "tst v CLK_SET_EN" and "\<not> tst v CLK_CLR_EN"
  shows "tst (STATUS (dk_flags v u)) 0x20"
  using assms(2) unfolding dk_flags_def Let_def bit_en
  by (auto simp: assms(1) bit_clr_bits bit_or_iff)

lemma flags_registers [simp]: "INT_REG (dk_flags v u) = INT_REG u" "CLK_REG (dk_flags v u) = CLK_REG u"
  by (simp_all add: dk_flags_def Let_def)

lemma set_clock_stuck:
  assumes "INT_REG u = 0" and "CLK_REG u = 0" and "tst (STATUS u) 0x20" and "usec_delay tm 0 = 0"
    and "\<not> sim_is_active (DK_UNIT 0) s"
  shows "\<exists>u' t. dk_set_clock tm dev (u, s) = (u', sim_activate (DK_UNIT 0) 0 t) \<and> stuck_clock u' \<and> same_clock t s"
proof -
  let ?u = "u\<lparr>STATUS := STATUS u OR 8\<rparr>"
  let ?s = "set_interrupt dev (unat (STATUS u OR 8)) s"
  have "dk_set_clock tm dev (u, s) = dk_arm tm (?u, ?s)"
    using assms by (simp add: dk_set_clock_def dk_save_def Let_def arm_status)
  moreover obtain u' where "dk_arm tm (?u, ?s) = (u', sim_activate (DK_UNIT 0) 0 ?s)" "stuck_clock u'"
    using stuck_arm [of ?u tm ?s] assms by (auto simp: arm_status)
  moreover have "same_clock ?s s" by simp
  ultimately show ?thesis by auto
qed

lemma enabled_clock_stuck:
  assumes "INT_REG (dk_state (devices s)) = 0" and "CLK_REG (dk_state (devices s)) = 0"
    and "\<not> sim_is_active (DK_UNIT 0) s" and "0 < sim_interval s" and "\<not> stop_cpu s"
    and "usec_delay (timing h) 0 = 0"
    and v: "tst v CLK_SET_EN" "\<not> tst v CLK_CLR_EN" "\<not> tst v CLK_ADD_ONE" "\<not> tst v CLK_GEN_CLR"
  shows "stuck (snd (perform_io dk_state (\<lambda>u d. put_dk u d) (dk_devio (timing h)) (0x38 OR CONO) v s))"
proof -
  let ?u = "dk_state (devices s)"
  let ?c = "clr_interrupt 0x3B s"
  let ?v = "?u\<lparr>STATUS := clr_bits (STATUS ?u) 7 OR ucast (v AND 7)\<rparr>"
  let ?f = "dk_flags v ?v"
  let ?s = "if tst (STATUS ?f) 0x18 then set_interrupt 0x3B (unat (STATUS ?f)) ?c else ?c"
  have e: "tst (STATUS ?f) 0x20" using v(1,2) by (rule flags_enable)
  then have c: "dk_devio (timing h) (0x38 OR CONO) v (?u, s) = (v, dk_set_clock (timing h) 0x3B (?f, ?s))"
    using v by (simp add: dk_devio_def dk_cono_def io_functions Let_def)
  have s: "same_clock ?s s" by simp
  then have n: "\<not> sim_is_active (DK_UNIT 0) ?s" using assms(3) by (simp add: same_clock_def sim_is_active_def)
  obtain u' t where d: "dk_set_clock (timing h) 0x3B (?f, ?s) = (u', sim_activate (DK_UNIT 0) 0 t)"
    "stuck_clock u'" "same_clock t ?s"
    using set_clock_stuck [OF _ _ e assms(6) n, where dev = "0x3B"] assms(1,2) by auto
  have t: "same_clock t s" using s d(3) by (simp only: same_clock_def)
  show ?thesis
    using stuck_activate [OF t d(2) _ assms(3,5)] assms(4) by (simp add: perform_io_def c d(1) Let_def)
qed

end
