(* ===== verification/Properties_Machine.thy ===== *)
theory Properties_Machine
  imports Machine_Runs Timer_Events Power_On
begin

text \<open>
  The properties of the machine as a whole, the processor with its peripherals, dispatch table and
  event queue, and of the card devices, each with an instance at a concrete state.
\<close>

unbundle bit_operations_syntax

section \<open>A concrete machine\<close>

definition host0 :: host where
  "host0 = \<lparr>timing = \<lparr>usec_delay = (\<lambda>us. us), usec_left = (\<lambda>t. t), coschedule = (\<lambda>t. \<bar>t\<bar> + 1)\<rparr>,
     rtcn_calb = (\<lambda>s. 16667), tt_outcvt = (\<lambda>c. sint c), putchar_s = (\<lambda>s. 0), poll_kbd = (\<lambda>s. 0)\<rparr>"

definition start0 :: cpu where
  \<comment> \<open>about to fetch an instruction\<close>
  "start0 = zero_cpu\<lparr>f_inst_fetch := True\<rparr>"

lemma start0_ok: "units_ok (devices start0)" "queue_ok start0" "\<not> sim_is_active u start0" "timer_ok (timing host0)"
  by (simp_all add: start0_def zero_cpu_def idle_units_ok queue_ok_def sim_is_active_def timer_ok_def host0_def)

lemma table_exists: "\<exists>t. machine_tables h LP_DEVNUM dis = Some t"
  unfolding machine_tables_def enter_devs_iff
  by (auto simp: claimed_def sim_devices_def basic_tables_def claims_def dispatched_def Let_def)

lemma fetch_kept: "f_inst_fetch (reset_all h s) = f_inst_fetch s"
proof -
  have f: "f_inst_fetch t = f_inst_fetch u" if "pi_state.more t = pi_state.more u" for t u :: cpu
  proof -
    have "mem_state.more t = mem_state.more u"
      using mem_more_frame [OF apr_more_frame(16) [OF that]] by simp
    then show ?thesis
      by (cases t; cases u; simp only: mem_state.select_convs cpu.select_convs cpu.ext_inject)
  qed
  have r: "f_inst_fetch (reset_unit get put res t) = f_inst_fetch t"
    if "\<And>u. pi_state.more (snd (res (u, t))) = pi_state.more t"
    for get put t and res :: "'u \<times> cpu \<Rightarrow> 'u \<times> cpu"
    using f [OF that] by (simp add: reset_unit_def case_prod_unfold Let_def)
  have "f_inst_fetch (reset_devices h t) = f_inst_fetch t" for t
    unfolding reset_devices_def Let_def
    by (simp add: r cty_reset_def sim_clock_coschedule_def ptp_reset_def ptr_reset_def lpt_reset_def Let_def)
  moreover have "f_inst_fetch (cpu_reset s) = f_inst_fetch s"
    using f [of "sim_activate CPU_UNIT 1000 t" t for t] by (simp add: cpu_reset_def Let_def)
  ultimately show ?thesis by (simp add: reset_all_def)
qed

lemma cpu_reset_clock:
  "clock_queue (cpu_reset start0) = [(CPU_UNIT, 1000)]" "sim_interval (cpu_reset start0) = 1000"
  "devices (cpu_reset start0) = idle_units"
  by (simp_all add: cpu_reset_def start0_def zero_cpu_def sim_activate_def update_sim_time_def sim_is_active_def Let_def)

lemma reset_clock: "sim_interval (reset_all host0 start0) = 1000"
  by (simp add: reset_all_def reset_devices_def reset_unit_def cty_reset_def ptp_reset_def ptr_reset_def
      lpt_reset_def sim_clock_coschedule_def Let_def case_prod_unfold cpu_reset_clock host0_def
      idle_units_def sim_activate_def sim_cancel_def update_sim_time_def sim_is_active_def)

lemma start0_step: "\<exists>c. step (machine host0 t brk) (Top, reset_all host0 start0) c
    \<and> (step (machine host0 t brk))\<^sup>*\<^sup>* (Top, reset_all host0 start0) c"
proof -
  let ?e = "machine host0 t brk" and ?s = "reset_all host0 start0"
  have "f_inst_fetch ?s" unfolding fetch_kept by (simp add: start0_def)
  then have "snd (top_checks ?e ?s) = ?s \<and> f_inst_fetch (load_pc ?s) \<or> fst (top_checks ?e ?s)"
    using reset_clock by (simp add: top_checks_def load_pc_def Let_def)
  then have "\<exists>c. cycle_step ?e Top ?s = Some c"
    by (cases "top_checks ?e ?s") (auto split: bool.splits prod.splits simp: Let_def)
  then obtain q u where "cycle_step ?e Top ?s = Some (q, u)" by force
  then have "step ?e (Top, ?s) (q, u)" using step_iff by blast
  then show ?thesis by blast
qed

section \<open>Runs of the machine\<close>



text \<open>
  C11: With the interval timer disabled, every call of sim_process_event along a run of the machine after
  a reset returns, whatever the devices schedule, and unless a routine reports a reason or the
  simulator is stopped it leaves the processor instructions to execute before the next event.
\<close>

theorem machine_event_returns:
  assumes "machine_tables h LP_DEVNUM dis = Some t" and "dis DK_DEVNUM" and "timer_ok (timing h)"
    and "units_ok (devices s)" and "queue_ok s" and "\<And>n. \<not> sim_is_active (DK_UNIT n) s"
    and "(step (machine h t brk))\<^sup>*\<^sup>* (p, reset_all h s) c"
  shows "\<exists>r s'. sim_process_event (unit_action h) (snd c) = Some (r, s')
    \<and> (r = 0 \<and> \<not> stop_cpu (snd c) \<longrightarrow> 0 < sim_interval s')"
  using machine_runs [OF assms(1) _ assms(7), of True] ok_reset [of s True h] assms(2-6)
  by (intro machine_processes) simp

theorem machine_event_returns_witness:
  "\<exists>t c r s'. step (machine host0 t (\<lambda>_. False)) (Top, reset_all host0 start0) c
    \<and> sim_process_event (unit_action host0) (snd c) = Some (r, s')"
proof -
  obtain t where t: "machine_tables host0 LP_DEVNUM (\<lambda>d. d = DK_DEVNUM) = Some t" using table_exists by blast
  obtain c where c: "step (machine host0 t (\<lambda>_. False)) (Top, reset_all host0 start0) c"
    "(step (machine host0 t (\<lambda>_. False)))\<^sup>*\<^sup>* (Top, reset_all host0 start0) c"
    using start0_step by blast
  have "\<exists>r s'. sim_process_event (unit_action host0) (snd c) = Some (r, s')"
    using machine_event_returns [OF t _ start0_ok(4,1,2,3) c(2)] by blast
  then show ?thesis using c(1) by blast
qed

text \<open>
  C14: A processor that enables the interval timer while its counter and comparison register are both
  zero, as they are after power-on, hangs the simulator: the next sim_process_event does not return,
  because the timer's event schedules itself again without delay.
\<close>

theorem enabled_clock_hangs:
  assumes "INT_REG (dk_state (devices s)) = 0" and "CLK_REG (dk_state (devices s)) = 0"
    and "\<not> sim_is_active (DK_UNIT 0) s" and "0 < sim_interval s" and "\<not> stop_cpu s"
    and "usec_delay (timing h) 0 = 0"
    and "tst v CLK_SET_EN" and "\<not> tst v CLK_CLR_EN" and "\<not> tst v CLK_ADD_ONE" and "\<not> tst v CLK_GEN_CLR"
  shows "sim_process_event (unit_action h)
    (snd (perform_io dk_state (\<lambda>u d. d\<lparr>dk_state := u\<rparr>) (dk_devio (timing h)) (0x38 OR CONO) v s)) = None"
  by (rule stuck_process [OF enabled_clock_stuck [OF assms] assms(6)])

theorem enabled_clock_hangs_witness:
  "sim_process_event (unit_action host0)
    (snd (perform_io dk_state (\<lambda>u d. d\<lparr>dk_state := u\<rparr>) (dk_devio (timing host0)) (0x38 OR CONO) 0x23
      (start0\<lparr>sim_interval := 7\<rparr>))) = None"
  by (rule enabled_clock_hangs)
    (simp_all add: start0_def zero_cpu_def idle_units_def idle_clock_def host0_def sim_is_active_def tst_def)

section \<open>Devices\<close>

text \<open>
  C15: Every word that the CONI and DATAI of a peripheral deliver in a run of the machine after a reset is
  a 36-bit word, if the one in AR was.
\<close>

theorem device_words_typed:
  assumes "machine_tables h LP_DEVNUM dis = Some t" and "units_ok (devices s)"
    and "(step (machine h t brk))\<^sup>*\<^sup>* (p, reset_all h s) c"
    and "wf36 v" and "d \<notin> {0, 1, 2}"
  shows "wf36 (fst (dev_tab (machine h t brk) d f v (snd c)))"
proof (rule machine_word [OF assms(1) _ assms(4,5)])
  show "units_ok (devices (snd c))"
    using machine_runs [OF assms(1) _ assms(3), of False] ok_reset [OF assms(2), of False h]
    by (simp add: machine_ok_def)
qed

theorem device_words_typed_witness:
  "\<exists>t c. step (machine host0 t (\<lambda>_. False)) (Top, reset_all host0 start0) c
    \<and> wf36 (fst (dev_tab (machine host0 t (\<lambda>_. False)) (PR_DEVNUM div 4) (0x44 OR DATAI) 5 (snd c)))"
proof -
  obtain t where t: "machine_tables host0 LP_DEVNUM (\<lambda>_. False) = Some t" using table_exists by blast
  obtain c where c: "step (machine host0 t (\<lambda>_. False)) (Top, reset_all host0 start0) c"
    "(step (machine host0 t (\<lambda>_. False)))\<^sup>*\<^sup>* (Top, reset_all host0 start0) c"
    using start0_step by blast
  have "wf36 5" by (simp add: wf36_def)
  then have "wf36 (fst (dev_tab (machine host0 t (\<lambda>_. False)) (PR_DEVNUM div 4) (0x44 OR DATAI) 5 (snd c)))"
    by (intro device_words_typed [OF t start0_ok(1) c(2)]) simp_all
  then show ?thesis using c(1) by blast
qed



section \<open>Cards\<close>



text \<open>
  Nothing limits the column of the card punch: a program that sends words without waiting for the
  requests writes each into the next column, past the eighty of the card image.
\<close>

theorem punch_writes_past_card:
  "\<exists>u' s'. dev_run cp_devio (\<lambda>_::unit. cp_srv) (replicate n (Io (0x48 OR DATAO) v)) (u, s) = (u', s')
    \<and> punch_col u' = punch_col u + n
    \<and> (\<forall>i < n. cp_buffer u' (punch_col u + i) = ucast (v AND 0xFFF))"
  using punch_overrun [of n v u s] by blast

theorem punch_writes_past_card_witness:
  "\<exists>u' s'. dev_run cp_devio (\<lambda>_::unit. cp_srv) (replicate 81 (Io (0x48 OR DATAO) 1)) (idle_punch, zero_cpu)
      = (u', s') \<and> cp_buffer u' 80 = 1"
proof -
  obtain u' s' where e: "dev_run cp_devio (\<lambda>_::unit. cp_srv) (replicate 81 (Io (0x48 OR DATAO) 1)) (idle_punch, zero_cpu)
      = (u', s')" and "\<forall>i < 81. cp_buffer u' (punch_col idle_punch + i) = ucast ((1 :: u64) AND 0xFFF)"
    using punch_writes_past_card [of 81 1 idle_punch zero_cpu] by blast
  then have "cp_buffer u' (0 + 80) = ucast ((1 :: u64) AND 0xFFF)" by (simp add: idle_punch_def)
  then show ?thesis using e by simp
qed

end
