(* ===== verification/Disk_Rc10.thy ===== *)
theory Disk_Rc10
  imports Df10 Paper_Tape
begin

text \<open>
  The RC10 disk controller of \<open>PDP10/kx10_rc.c\<close> with its four RD10 and RM10 drives: one
  controller, as the KI10 is configured. The controller moves words between the file of a drive and
  memory through its DF10 channel, one word for each event of the drive.

  The file of a drive is the list of its words; \<open>drv\<close> names the units of the drives in the
  event queue. A transfer whose control words form a cycle does not come back from
  \<open>df10_fetch\<close>, and then the operations have no result. The current cylinder
  \<open>CUR_CYL\<close>, which is set to zero and never read, is left out.
\<close>

unbundle bit_operations_syntax

section \<open>State\<close>

record rc_drive =
  rm10 :: bool
  on_line :: bool
  write_locked :: bool
  UFLAGS :: u32
  DATAPTR :: int
  capac :: nat
  pack :: "u64 list"

record rc10 =
  rc_df10 :: df10
  rc_buf :: "nat \<Rightarrow> u64"
  rc_ipr :: u32
  rc_unit :: "nat \<Rightarrow> rc_drive"

abbreviation (input) RC_DEVNUM :: nat where "RC_DEVNUM \<equiv> 0x78"
abbreviation (input) INIT_PAR :: "'a::len word" where "INIT_PAR \<equiv> 0x3F000"
abbreviation (input) SEC_SCTR :: "'a::len word" where "SEC_SCTR \<equiv> 0x30000"
abbreviation (input) RST_MSK :: "'a::len word" where "RST_MSK \<equiv> 0xFFC8"
abbreviation (input) RC_WRITE :: "'a::len word" where "RC_WRITE \<equiv> 0x200"
abbreviation (input) SCRCHCMP :: "'a::len word" where "SCRCHCMP \<equiv> 0x20000"
abbreviation (input) S_ERROR :: "'a::len word" where "S_ERROR \<equiv> 0x10000"
abbreviation (input) TRK_SEL_E :: "'a::len word" where "TRK_SEL_E \<equiv> 0x4000"
abbreviation (input) NOT_RDY :: "'a::len word" where "NOT_RDY \<equiv> 0x2000"
abbreviation (input) ILL_WR :: "'a::len word" where "ILL_WR \<equiv> 0x80"
abbreviation (input) CCW_COMP :: "'a::len word" where "CCW_COMP \<equiv> 0x20"

definition wd_seg :: "rc_drive \<Rightarrow> nat" where "wd_seg u = (if rm10 u then 64 else 32)"
definition segs :: "rc_drive \<Rightarrow> nat" where "segs u = (if rm10 u then 60 else 80)"
definition cyls :: "rc_drive \<Rightarrow> nat" where "cyls u = (if rm10 u then 90 else 200)"

type_synonym 'a rc = "rc10 \<times> 'a mem_state_scheme"

definition rc_chan :: "'a chan \<Rightarrow> rc10 \<Rightarrow> 'a rc" where
  \<comment> \<open>the result of a routine of the channel\<close>
  "rc_chan x c = (c\<lparr>rc_df10 := fst x\<rparr>, snd x)"

definition set_drive :: "nat \<Rightarrow> rc_drive \<Rightarrow> rc10 \<Rightarrow> rc10" where
  "set_drive k u c = c\<lparr>rc_unit := (rc_unit c)(k := u)\<rparr>"

definition or_status :: "u32 \<Rightarrow> rc10 \<Rightarrow> rc10" where
  "or_status m c = c\<lparr>rc_df10 := (rc_df10 c)\<lparr>status := status (rc_df10 c) OR m\<rparr>\<rparr>"

definition clr_status :: "u32 \<Rightarrow> rc10 \<Rightarrow> rc10" where
  "clr_status m c = c\<lparr>rc_df10 := (rc_df10 c)\<lparr>status := clr_bits (status (rc_df10 c)) m\<rparr>\<rparr>"

section \<open>I/O instructions\<close>

definition rc_cono :: "(nat \<Rightarrow> unit_id) \<Rightarrow> nat \<Rightarrow> u64 \<Rightarrow> 'a rc \<Rightarrow> 'a rc" where
  "rc_cono drv dev v = (\<lambda>(c, s).
     let c = (if tst v 0x8 then clr_status PI_ENABLE c else c);
         s = clr_interrupt dev s;
         c = or_status (ucast (v AND 7)) (clr_status 7 c);
         c = clr_status (ucast (RST_MSK AND v)) c;
         (c, s) = (if tst v 0x10 then
                     (if tst (status (rc_df10 c)) BUSY
                      then rc_chan (df10_finish_op 0 (rc_df10 c,
                             sim_cancel (drv (unat (rc_ipr c AND 3))) s)) c
                      else rc_chan (df10_setirq (rc_df10 (clr_status BUSY c), s)) c)
                   else (c, s));
         c = c\<lparr>rc_ipr := clr_bits (rc_ipr c) SEC_SCTR OR ucast (v AND SEC_SCTR)\<rparr>
     in if tst (status (rc_df10 c)) BUSY \<and> tst v CCW_COMP
        then (let (c, s) = rc_chan (df10_writecw (rc_df10 c, s)) c in (or_status CCW_COMP c, s))
        else (clr_status CCW_COMP c, s))"

definition rc_datai :: "rc10 \<Rightarrow> u64" where
  "rc_datai c =
     ucast (rc_ipr c) OR
     ucast (drop_bit 3 (UFLAGS (rc_unit c (unat (drop_bit 16 (rc_ipr c AND SEC_SCTR))))) AND 0x7F)"

definition bcd_cyl :: "nat \<Rightarrow> nat" where
  "bcd_cyl n = (n div 16 mod 16) * 10 + n mod 16 + (if n div 256 mod 2 = 1 then 100 else 0)"

definition rc_start :: "(nat \<Rightarrow> unit_id) \<Rightarrow> nat \<Rightarrow> u64 \<Rightarrow> 'a rc \<Rightarrow> 'a rc option" where
  \<comment> \<open>DATAO from \<open>df10_setup\<close> on, for the drive \<open>k\<close>\<close>
  "rc_start drv k v = (\<lambda>(c, s).
     let u = rc_unit c k;
         c = clr_status CCW_COMP (c\<lparr>rc_df10 := df10_setup (ucast v) (rc_df10 c)\<rparr>);
         cyl = unat (drop_bit 25 v AND 0x1FF);
         seg = unat (drop_bit 18 v AND 0x7F)
     in if cyl mod 16 > 9 \<or> cyl div 16 mod 16 > 9 then Some (rc_chan (df10_finish_op TRK_SEL_E (rc_df10 c, s)) c)
        else if cyls u \<le> bcd_cyl cyl then Some (rc_chan (df10_finish_op TRK_SEL_E (rc_df10 c, s)) c)
        else if seg mod 16 > 9 then Some (rc_chan (df10_finish_op TRK_SEL_E (rc_df10 c, s)) c)
        else
          (let u = u\<lparr>UFLAGS := set_if (tst v RC_WRITE) 1 (clr_bits (ucast (drop_bit 15 v)) 7), DATAPTR := - 1\<rparr>;
               c = set_drive k u c
           in map_option (\<lambda>(c, s). (c, sim_activate (drv k) 100 s))
                (if tst v RC_WRITE
                 then map_option (\<lambda>(r, x). rc_chan x c) (df10_read (rc_df10 c, s))
                 else Some (c, s))))"

definition rc_datao :: "(nat \<Rightarrow> unit_id) \<Rightarrow> u64 \<Rightarrow> 'a rc \<Rightarrow> 'a rc option" where
  "rc_datao drv v = (\<lambda>(c, s).
     if tst (status (rc_df10 c)) BUSY then Some (c, s)
     else
       (let c = clr_status (PI_ENABLE OR S_ERROR) c;
            s = clr_interrupt RC_DEVNUM s;
            k = unat (drop_bit 34 v AND 3);
            c = c\<lparr>rc_ipr := clr_bits (rc_ipr c) (INIT_PAR OR 3) OR ucast (v AND INIT_PAR) OR of_nat k\<rparr>;
            u = rc_unit c k
        in if \<not> on_line u then
             (let c = or_status NOT_RDY (clr_status BUSY c) in Some (rc_chan (df10_setirq (rc_df10 c, s)) c))
           else if write_locked u \<and> tst v RC_WRITE then
             (let c = or_status ILL_WR (clr_status BUSY c) in Some (rc_chan (df10_setirq (rc_df10 c, s)) c))
           else rc_start drv k v (c, s)))"

definition rc_devio :: "bool \<Rightarrow> (nat \<Rightarrow> unit_id) \<Rightarrow> u32 \<Rightarrow> u64 \<Rightarrow> 'a rc \<Rightarrow> (u64 \<times> 'a rc) option" where
  \<comment> \<open>\<open>df10c\<close>: the processor's \<open>UNIT_DF10C\<close> flag\<close>
  "rc_devio df10c drv dev v x =
     (let fn = dev AND 3
      in if drop_bit 2 (dev - 0x78) \<noteq> 0 then Some (v, x)
         else if fn = CONI then Some (set_if df10c 0x100000000 (ucast (status (rc_df10 (fst x)))) OR 0x20000000, x)
         else if fn = CONO then Some (v, rc_cono drv (unat dev) v x)
         else if fn = DATAI then Some (rc_datai (fst x), x)
         else map_option (Pair v) (rc_datao drv v x))"

section \<open>Service\<close>

definition rc_locate :: "rc_drive \<Rightarrow> nat \<Rightarrow> nat \<Rightarrow> u32 + nat \<times> nat" where
  \<comment> \<open>cylinder and segment in binary, or the error flag\<close>
  "rc_locate u cyl seg =
     (if cyls u \<le> bcd_cyl cyl then Inl TRK_SEL_E
      else if seg mod 16 > 10 then Inl S_ERROR
      else
        (let seg = (seg div 16 mod 8) * 10 + seg mod 16
         in if segs u \<le> seg then Inl S_ERROR else Inr (bcd_cyl cyl, seg)))"

definition block_at :: "nat \<Rightarrow> nat \<Rightarrow> u64 list \<Rightarrow> nat \<Rightarrow> u64" where
  \<comment> \<open>\<open>n\<close> words of the file from \<open>da\<close>, zero beyond its end\<close>
  "block_at da n f i = (if da + i < length f then f ! (da + i) else 0)"

definition put_block :: "nat \<Rightarrow> u64 list \<Rightarrow> u64 list \<Rightarrow> u64 list" where
  \<comment> \<open>a write at \<open>da\<close>; a gap behind the end of the file reads as zero\<close>
  "put_block da ws f =
     take da f @ replicate (da - length f) 0 @ ws @ drop (da + length ws) f"

definition rc_load :: "nat \<Rightarrow> nat \<Rightarrow> nat \<Rightarrow> rc10 \<Rightarrow> rc10" where
  "rc_load k cyl seg c =
     (let u = rc_unit c k; n = wd_seg u; da = (cyl * segs u + seg) * n
      in c\<lparr>rc_buf := (\<lambda>i. if i < n then block_at da n (pack u) i else rc_buf c i)\<rparr>)"

definition next_flags :: "rc_drive \<Rightarrow> nat \<Rightarrow> nat \<Rightarrow> u32" where
  \<comment> \<open>the segment behind this one, back in BCD\<close>
  "next_flags u cyl seg =
     (let seg = seg + 1;
          (seg, cyl) = (if segs u \<le> seg then (0, if cyls u \<le> cyl + 1 then 0 else cyl + 1) else (seg, cyl));
          seg = 16 * (seg div 10) + seg mod 10;
          w = (if 100 \<le> cyl then 256 else 0);
          cyl = (if 100 \<le> cyl then cyl - 100 else cyl);
          cyl = 16 * (cyl div 10) + w + cyl mod 10
      in (UFLAGS u AND 7) + push_bit 3 (of_nat seg) + push_bit 10 (of_nat cyl))"

definition rc_end :: "nat \<Rightarrow> bool \<Rightarrow> nat \<Rightarrow> nat \<Rightarrow> rc10 \<Rightarrow> rc10" where
  \<comment> \<open>the end of a segment: \<open>cyl\<close> and \<open>seg\<close> are converted from BCD here, even if
      they were before\<close>
  "rc_end k wr cyl seg c =
     (let c = clr_status SCRCHCMP c;
          u = rc_unit c k;
          seg = (seg div 16 mod 16) * 10 + seg mod 16;
          cyl = bcd_cyl cyl;
          n = wd_seg u;
          da = (cyl * segs u + seg) * n;
          c = (if wr then c\<lparr>rc_buf := (\<lambda>i. if DATAPTR u \<le> int i \<and> i < n then 0 else rc_buf c i)\<rparr> else c);
          u = (if wr then u\<lparr>pack := put_block da (map (rc_buf c) [0..<n]) (pack u)\<rparr> else u)
      in set_drive k (u\<lparr>DATAPTR := - 1, UFLAGS := next_flags u cyl seg\<rparr>) c)"

definition rc_transfer :: "(nat \<Rightarrow> unit_id) \<Rightarrow> nat \<Rightarrow> bool \<Rightarrow> nat \<Rightarrow> nat \<Rightarrow> 'a rc \<Rightarrow> 'a rc option" where
  \<comment> \<open>one word through the channel, and what follows it\<close>
  "rc_transfer drv k wr cyl seg = (\<lambda>(c, s).
     let p = nat (DATAPTR (rc_unit c k));
         c = (if wr then c\<lparr>rc_buf := (rc_buf c)(p := buf (rc_df10 c))\<rparr>
              else c\<lparr>rc_df10 := (rc_df10 c)\<lparr>buf := rc_buf c p\<rparr>\<rparr>)
     in case (if wr then df10_read (rc_df10 c, s) else df10_write (rc_df10 c, s)) of
          None \<Rightarrow> None
        | Some (r, x) \<Rightarrow>
            (let (c, s) = rc_chan x c;
                 u = rc_unit c k;
                 c = set_drive k (u\<lparr>DATAPTR := DATAPTR u + 1\<rparr>) c;
                 c = (if int (wd_seg u) \<le> DATAPTR u + 1 \<or> \<not> r then rc_end k wr cyl seg c else c)
             in Some (c, if tst (status (rc_df10 c)) PI_ENABLE then s else sim_activate (drv k) 20 s)))"

definition rc_svc :: "(nat \<Rightarrow> unit_id) \<Rightarrow> nat \<Rightarrow> 'a rc \<Rightarrow> 'a rc option" where
  "rc_svc drv k = (\<lambda>(c, s).
     let u = rc_unit c k;
         seg = unat (drop_bit 3 (UFLAGS u) AND 0x7F);
         cyl = unat (drop_bit 10 (UFLAGS u) AND 0x1FF);
         wr = tst (UFLAGS u) 1
     in if DATAPTR u = - 1 then
          (case rc_locate u cyl seg of
             Inl e \<Rightarrow> Some (rc_chan (df10_finish_op e (rc_df10 c, s)) c)
           | Inr (cyl, seg) \<Rightarrow>
               (let c = (if wr then c else rc_load k cyl seg c);
                    c = or_status SCRCHCMP (set_drive k ((rc_unit c k)\<lparr>DATAPTR := 0\<rparr>) c)
                in rc_transfer drv k wr cyl seg (c, s)))
        else rc_transfer drv k wr cyl seg (c, s))"

definition rc_reset :: "bool \<Rightarrow> rc10 \<Rightarrow> rc10" where
  "rc_reset df10c c =
     c\<lparr>rc_unit := (\<lambda>k. if k < 4 then (rc_unit c k)\<lparr>UFLAGS := 0\<rparr> else rc_unit c k),
       rc_ipr := 0, rc_df10 := df10_init df10c 0x78 8 (rc_df10 c)\<rparr>"

definition drive_size :: "bool \<Rightarrow> nat" where
  "drive_size rm = (if rm then 60 * 90 * 64 else 80 * 200 * 32)"

definition rc_set_type :: "nat \<Rightarrow> rc_drive \<Rightarrow> rc_drive option" where
  \<comment> \<open>the type \<open>v\<close> itself is set by the caller, when there is no error\<close>
  "rc_set_type v u = (if v \<le> 1 then Some (u\<lparr>capac := drive_size (v = 1)\<rparr>) else None)"

definition rc_attach :: "u64 list \<Rightarrow> rc_drive \<Rightarrow> rc_drive" where
  "rc_attach f u = u\<lparr>capac := drive_size (rm10 u), on_line := True, pack := f, UFLAGS := 0\<rparr>"

definition rc_detach :: "unit_id \<Rightarrow> rc_drive \<times> 'a mem_state_scheme \<Rightarrow> rc_drive \<times> 'a mem_state_scheme" where
  "rc_detach unit = (\<lambda>(u, s). if \<not> on_line u then (u, s) else (u\<lparr>on_line := False\<rparr>, sim_cancel unit s))"

fun boot_words :: "nat \<Rightarrow> nat \<Rightarrow> u32 \<Rightarrow> (nat \<Rightarrow> u64) \<Rightarrow> 'a mem_state_scheme \<Rightarrow> 'a mem_state_scheme" where
  \<comment> \<open>the inner loop of \<open>rc_boot\<close>: \<open>n\<close> words from index \<open>p\<close> of the buffer\<close>
  "boot_words p 0 addr b s = s"
| "boot_words p (Suc n) addr b s = boot_words (Suc p) n (addr + 1) b (s\<lparr>M := (M s)(addr := b p)\<rparr>)"

definition rc_boot_sector :: "rc_drive \<Rightarrow> nat \<Rightarrow> u32 \<times> (nat \<Rightarrow> u64) \<times> 'a mem_state_scheme \<Rightarrow> u32 \<times> (nat \<Rightarrow> u64) \<times> 'a mem_state_scheme" where
  \<comment> \<open>a read behind the end of the file leaves the buffer as it was\<close>
  "rc_boot_sector u sect = (\<lambda>(addr, b, s).
     let n = wd_seg u; da = (sect * 128 div n) * n;
         b = (\<lambda>i. if i < n \<and> da + i < length (pack u) then pack u ! (da + i) else b i)
     in (addr + of_nat n, b, boot_words 0 n addr b s))"

definition rc_boot :: "rc_drive \<Rightarrow> (nat \<Rightarrow> u64) \<times> 'a mem_state_scheme \<Rightarrow> u32 \<times> (nat \<Rightarrow> u64) \<times> 'a mem_state_scheme" where
  \<comment> \<open>the first component is the new \<open>PC\<close>\<close>
  "rc_boot u = (\<lambda>(b, s).
     let pc = (MEMSIZE s - 512) AND 0x3FFFF
     in (pc, snd (fold (rc_boot_sector u) [4, 5, 6, 7] (pc, b, s))))"

section \<open>Writing a segment\<close>

text \<open>
  A program writes \<open>n\<close> words of memory with a control word for them, followed by a zero
  word. The channel is always one word ahead of the buffer; when it delivers the last word it has
  already met the end of its list, and the service routine takes that as the end of the transfer,
  before the word has reached the buffer.
\<close>

fun rc_events :: "(nat \<Rightarrow> unit_id) \<Rightarrow> nat \<Rightarrow> nat \<Rightarrow> 'a rc \<Rightarrow> 'a rc option" where
  \<comment> \<open>\<open>n\<close> events of the drive\<close>
  "rc_events drv k 0 x = Some x"
| "rc_events drv k (Suc n) x = Option.bind (rc_svc drv k x) (rc_events drv k n)"

definition chan18 :: "df10 \<Rightarrow> bool" where
  \<comment> \<open>the channel of 18 bits\<close>
  "chan18 d \<longleftrightarrow> amask d = RMASK \<and> wmask d = RMASK \<and> cshift d = 18"

lemma chan18_ok: "chan18 d \<Longrightarrow> df10_ok d"
  by (simp add: chan18_def df10_ok_def)

lemma count_up:
  assumes "uint (x :: u32) < 0x3FFFF"
  shows "ucast (ucast (x + 1) AND (RMASK :: u64)) = x + 1" and "uint (x + 1) = uint x + 1"
proof -
  have m: "(RMASK :: u64) = mask 18" by (simp add: mask_eq_exp_minus_1)
  have "uint x + 1 \<le> uint (RMASK :: u64)" using assms by simp
  from masked_step [OF this m] show "ucast (ucast (x + 1) AND (RMASK :: u64)) = x + 1" "uint (x + 1) = uint x + 1"
    by simp_all
qed

lemma df10_read_last:
  assumes "chan18 d" and "wcr d = 0x3FFFF" and "cda d \<noteq> 0" and "uint (cda d) < 0x3FFFF"
    and "uint (cda d) + 1 < uint (MEMSIZE s)" and "Mem_read_word (ccw d) False s = Some 0"
  shows "df10_read (d, s) =
    Some (False, df10_finish_op 0 (d\<lparr>wcr := 0, cda := cda d + 1, buf := M s (cda d + 1)\<rparr>, s))"
proof -
  have u: "uint (cda d + 1) = uint (cda d) + 1" "ucast (ucast (cda d + 1) AND (RMASK :: u64)) = cda d + 1"
    using count_up [OF assms(4)] by blast+
  have lt: "\<not> MEMSIZE s < cda d" "\<not> MEMSIZE s \<le> cda d + 1"
    using assms(5) u(1) by (simp_all add: word_less_def word_le_def)
  have c: "df10_next_cda (df10_count d) = d\<lparr>wcr := 0, cda := cda d + 1\<rparr>"
    using assms(1,2) u(2) by (simp add: df10_next_cda_def df10_count_def chan18_def)
  have cnt: "cda (df10_count d) = cda d" by (simp add: df10_count_def)
  let ?d = "d\<lparr>wcr := 0, cda := cda d + 1, buf := M s (cda d + 1)\<rparr>"
  have more: "df10_more (d, s) = Some (True, d, s)" using assms(2) by (simp add: df10_more_def)
  have r: "df10_read (d, s) = df10_more (?d, s)"
    using assms(3) lt unfolding df10_read_def more by (simp add: Let_def cnt c Mem_read_word_def)
  have m: "Mem_read_word (ccw ?d) False s = Some 0" using assms(6) by simp
  have "df10_chain 0 (?d, s) = Some (False, df10_finish_op 0 (?d, s))"
    by (rule df10_chain_stop) (simp_all add: cw_transfer_def)
  then have "df10_fetch (?d, s) = Some (False, df10_finish_op 0 (?d, s))"
    unfolding df10_fetch_def Let_def prod.case m option.case .
  moreover have "df10_more (?d, s) = df10_fetch (?d, s)" unfolding df10_more_def by simp
  ultimately show ?thesis unfolding r by (rule trans [rotated])
qed

definition writing :: "nat \<Rightarrow> u32 \<Rightarrow> nat \<Rightarrow> u64 list \<Rightarrow> rc_drive \<Rightarrow> int \<Rightarrow> nat \<Rightarrow> 'a rc \<Rightarrow> bool" where
  \<comment> \<open>\<open>j\<close> words are in the buffer of the drive and the next one in that of the channel\<close>
  "writing k i a ws u p j = (\<lambda>(c, s).
     let d = rc_df10 c in chan18 d \<and> ccw d = i + 1 \<and> Mem_read_word (i + 1) False s = Some 0
     \<and> uint (wcr d) = 2 ^ 18 - int (length ws) + int j + 1 \<and> uint (cda d) = int a + int j + 1
     \<and> a + length ws < 2 ^ 18 \<and> int a + int (length ws) < uint (MEMSIZE s) \<and> buf d = ws ! j
     \<and> (\<forall>x < j. rc_buf c x = ws ! x) \<and> (\<forall>x < length ws. M s (of_nat (a + 1 + x)) = ws ! x)
     \<and> rc_unit c k = u\<lparr>DATAPTR := p\<rparr>)"

lemma of_uint: "uint (x :: u32) = int n \<Longrightarrow> x = of_nat n"
  by (metis of_int_of_nat_eq word_of_int_uint)

lemma writing_step:
  assumes "writing k i a ws u (int j) j (c, s)" and "j + 2 < length ws" and "length ws \<le> wd_seg u"
  shows "\<exists>x. rc_transfer drv k True cyl seg (c, s) = Some x \<and> writing k i a ws u (int (Suc j)) (Suc j) x"
proof -
  let ?d = "rc_df10 c"
  note w = assms(1) [unfolded writing_def Let_def case_prod_conv]
  have r: "df10_room (Suc 0) (?d, s)"
    using w assms(2) unsigned_eq_0_iff [of "wcr ?d"] by (auto simp: df10_room_def chan18_def)
  have ok: "df10_ok ?d" using w by (simp add: chan18_ok)
  note rs = room_step [OF ok r]
  have cd: "cda ?d + 1 = of_nat (a + 1 + Suc j)"
    using rs(6) w by (intro of_uint) simp
  have wc: "uint (wcr ?d + 1) = uint (wcr ?d) + 1"
    by (rule count_up(2)) (use w assms(2) in simp)
  have b: "M s (cda ?d + 1) = ws ! Suc j"
    using w assms(2) unfolding cd by (auto dest: spec [of _ "Suc j"])
  let ?d' = "?d\<lparr>wcr := wcr ?d + 1, cda := cda ?d + 1, buf := ws ! Suc j\<rparr>"
  have step: "df10_read (?d, s) = Some (True, ?d', s)" using df10_read_step [OF ok r] unfolding b .
  let ?c = "c\<lparr>rc_buf := (rc_buf c)(j := ws ! j), rc_df10 := ?d',
     rc_unit := (rc_unit c)(k := u\<lparr>DATAPTR := int j + 1\<rparr>)\<rparr>"
  have n: "\<not> int (wd_seg (u\<lparr>DATAPTR := q\<rparr>)) \<le> int j + 1" for q
    using assms(2,3) by (simp add: wd_seg_def)
  have t: "rc_transfer drv k True cyl seg (c, s) =
      Some (?c, if tst (status ?d) PI_ENABLE then s else sim_activate (drv k) 20 s)"
    using w step n by (simp add: rc_transfer_def Let_def rc_chan_def set_drive_def)
  have m: "M (if b then s else sim_activate v q s) = M s" "MEMSIZE (if b then s else sim_activate v q s) = MEMSIZE s"
    "Mem_read_word x False (if b then s else sim_activate v q s) = Mem_read_word x False s" for b v q x
    by (simp_all add: sim_activate_mem Mem_read_word_def)
  have "writing k i a ws u (int (Suc j)) (Suc j) (?c, if tst (status ?d) PI_ENABLE then s else sim_activate (drv k) 20 s)"
    using w wc rs(6) by (simp add: writing_def chan18_def m less_Suc_eq add.commute [of 1 "int j"])
  then show ?thesis using t by blast
qed

lemma clr_scrchcmp:
  "tst (clr_bits (x :: u32) 0x20000) 0x10 = tst x 0x10" "tst (clr_bits x 0x20000) 0x8 = tst x 0x8"
proof -
  have b: "bit (0x20000 :: u32) n \<longleftrightarrow> n = 17" for n using bit_exp_iff [of 17 n, where ?'a = u32] by auto
  have e: "tst y 0x10 = bit y 4" "tst y 0x8 = bit y 3" for y :: u32
    using tst_exp [of y 4] tst_exp [of y 3] by simp_all
  show "tst (clr_bits x 0x20000) 0x10 = tst x 0x10" "tst (clr_bits x 0x20000) 0x8 = tst x 0x8"
    unfolding e by (simp_all add: bit_clr_bits b del: bit_numeral_word_iff)
qed

lemma writing_last:
  assumes "writing k i a ws u (int j) j (c, s)" and "j + 2 = length ws" and "length ws \<le> wd_seg u"
  shows "\<exists>c' s'. rc_transfer drv k True cyl seg (c, s) = Some (c', s')
    \<and> pack (rc_unit c' k) = put_block ((bcd_cyl cyl * segs u + ((seg div 16 mod 16) * 10 + seg mod 16)) * wd_seg u)
         (butlast ws @ replicate (wd_seg u - (length ws - 1)) 0) (pack u)
    \<and> \<not> tst (status (rc_df10 c')) BUSY \<and> tst (status (rc_df10 c')) PI_ENABLE \<and> DATAPTR (rc_unit c' k) = - 1"
proof -
  let ?d = "rc_df10 c"
  note w = assms(1) [unfolded writing_def Let_def case_prod_conv]
  have "uint (wcr ?d) = uint (0x3FFFF :: u32)" using w assms(2) by simp
  then have wc: "wcr ?d = 0x3FFFF" by (simp only: word_uint_eq_iff)
  have nz: "cda ?d \<noteq> 0" using w unsigned_eq_0_iff [of "cda ?d"] by auto
  let ?d' = "?d\<lparr>wcr := 0, cda := cda ?d + 1, buf := M s (cda ?d + 1)\<rparr>"
  have r: "df10_read (?d, s) = Some (False, df10_finish_op 0 (?d', s))"
    using w assms(2) wc nz by (intro df10_read_last) simp_all
  obtain d2 s2 where f: "df10_finish_op 0 (?d', s) = (d2, s2)" by fastforce
  have st: "\<not> tst (status d2) BUSY" "tst (status d2) PI_ENABLE"
    using df10_finish_status [of 0 ?d' s] f by simp_all
  let ?n = "wd_seg u" and ?b = "(rc_buf c)(j := ws ! j)"
  let ?da = "(bcd_cyl cyl * segs u + ((seg div 16 mod 16) * 10 + seg mod 16)) * wd_seg u"
  have u: "wd_seg (u\<lparr>DATAPTR := q\<rparr>) = ?n" "segs (u\<lparr>DATAPTR := q\<rparr>) = segs u" for q
    by (simp_all add: wd_seg_def segs_def)
  have "map (\<lambda>x. if int j + 1 \<le> int x \<and> x < ?n then 0 else rc_buf b x) [0..<?n]
      = butlast ws @ replicate (?n - (length ws - 1)) 0" if "rc_buf b = ?b" for b :: rc10
    using that w assms(2,3) by (intro nth_equalityI) (auto simp: nth_append nth_butlast less_Suc_eq)
  then show ?thesis
    using w st by (simp add: rc_transfer_def Let_def rc_chan_def set_drive_def r f u rc_end_def clr_status_def
        clr_scrchcmp)
qed

text \<open>The request: the word of the DATAO, the control word and the words in memory.\<close>

definition cyl_of :: "u64 \<Rightarrow> nat" where "cyl_of v = unat (drop_bit 25 v AND 0x1FF)"
definition seg_of :: "u64 \<Rightarrow> nat" where "seg_of v = unat (drop_bit 18 v AND 0x7F)"
definition seg_num :: "nat \<Rightarrow> nat" where "seg_num seg = (seg div 16 mod 16) * 10 + seg mod 16"

definition bcd_ok :: "rc_drive \<Rightarrow> u64 \<Rightarrow> bool" where
  "bcd_ok u v \<longleftrightarrow> cyl_of v mod 16 \<le> 9 \<and> cyl_of v div 16 mod 16 \<le> 9 \<and> bcd_cyl (cyl_of v) < cyls u
     \<and> seg_of v mod 16 \<le> 9 \<and> seg_num (seg_of v) < segs u"

definition block_in_core :: "u32 \<Rightarrow> nat \<Rightarrow> u64 list \<Rightarrow> 'a mem_state_scheme \<Rightarrow> bool" where
  \<comment> \<open>a list of one control word at \<open>i\<close>, for the words behind \<open>a\<close>\<close>
  "block_in_core i a ws s \<longleftrightarrow>
     Mem_read_word i False s = Some (push_bit 18 (of_nat (0x40000 - length ws)) OR of_nat a)
     \<and> Mem_read_word (i + 1) False s = Some 0 \<and> 0 < a \<and> a + length ws < 0x40000
     \<and> int a + int (length ws) < uint (MEMSIZE s) \<and> (\<forall>x < length ws. M s (of_nat (a + 1 + x)) = ws ! x)"

definition write_flags :: "u64 \<Rightarrow> u32" where
  "write_flags v = set_if (tst v RC_WRITE) 1 (clr_bits (ucast (drop_bit 15 v)) 7)"

lemma write_flags_fields:
  "unat (drop_bit 3 (write_flags v) AND 0x7F) = seg_of v"
  "unat (drop_bit 10 (write_flags v) AND 0x1FF) = cyl_of v"
  "tst (write_flags v) 1 = tst v RC_WRITE"
proof -
  have m: "(0x7F :: u32) = mask 7" "(0x1FF :: u32) = mask 9" "(7 :: u32) = mask 3"
    "(0x7F :: u64) = mask 7" "(0x1FF :: u64) = mask 9"
    by (simp_all add: mask_eq_exp_minus_1)
  have one: "bit (1 :: u32) n \<longleftrightarrow> n = 0" for n by (simp add: bit_1_iff)
  have a: "drop_bit 3 (write_flags v) AND 0x7F = ucast (drop_bit 18 v AND 0x7F)"
    unfolding write_flags_def m
    by (rule bit_word_eqI) (auto simp: bit_and_iff bit_drop_bit_eq bit_set_if bit_clr_bits bit_ucast_iff
        bit_mask_iff one add.commute)
  have b: "drop_bit 10 (write_flags v) AND 0x1FF = ucast (drop_bit 25 v AND 0x1FF)"
    unfolding write_flags_def m
    by (rule bit_word_eqI) (auto simp: bit_and_iff bit_drop_bit_eq bit_set_if bit_clr_bits bit_ucast_iff
        bit_mask_iff one add.commute)
  have u: "unat (ucast (x AND mask n) :: u32) = unat (x AND mask n)" if "n \<le> 32" for x :: u64 and n
    using that by (simp only: unsigned_ucast_eq take_bit_eq_mask [symmetric] unsigned_take_bit_eq take_bit_take_bit)
      (simp add: min_def)
  show "unat (drop_bit 3 (write_flags v) AND 0x7F) = seg_of v"
    unfolding a seg_of_def unfolding m(4) by (rule u) simp
  show "unat (drop_bit 10 (write_flags v) AND 0x1FF) = cyl_of v"
    unfolding b cyl_of_def unfolding m(5) by (rule u) simp
  have "tst x 1 = bit x 0" for x :: u32 using tst_exp [of x 0] by simp
  then show "tst (write_flags v) 1 = tst v RC_WRITE"
    unfolding write_flags_def m by (simp add: bit_set_if bit_clr_bits bit_mask_iff)
qed

lemma read_fetched:
  assumes "wcr d = 0" and "df10_fetch (d, s) = Some (True, d1, s)" and "wcr d1 \<noteq> 0"
  shows "df10_read (d, s) = df10_read (d1, s)"
  using assms by (simp add: df10_read_def df10_more_def)

lemma load_control_word:
  assumes "chan18 d" and "Mem_read_word (ccw d) False s = Some (push_bit 18 (of_nat n) OR of_nat a)"
    and "0 < n" and "n < 0x40000" and "a < 0x40000" and "uint (ccw d) < 0x3FFFF"
  shows "df10_fetch (d, s) = Some (True, d\<lparr>wcr := of_nat n, cda := of_nat a, ccw := ccw d + 1\<rparr>, s)"
proof -
  let ?w = "push_bit 18 (of_nat n) OR of_nat a :: u64"
  note f = iowd_fields [OF assms(4,5)]
  have n: "unat (drop_bit 18 ?w AND RMASK) = n" using f(1) .
  then have w: "ucast (drop_bit 18 ?w AND RMASK) = (of_nat n :: u32)"
    using of_nat_unat [of "drop_bit 18 ?w AND RMASK", where ?'a = u32] by simp
  have m: "(RMASK :: u64) = mask 18" by (simp add: mask_eq_exp_minus_1)
  have "drop_bit 18 x AND RMASK = drop_bit 18 (x AND push_bit 18 RMASK)" for x :: u64
    unfolding m by (rule bit_word_eqI)
      (auto simp: bit_and_iff bit_drop_bit_eq bit_push_bit_iff bit_mask_iff dest: bit_u64)
  then have "?w AND push_bit 18 RMASK \<noteq> 0" using n assms(3) by (metis drop_bit_of_0 unsigned_0 less_irrefl)
  then have "cw_transfer d ?w" using assms(1) by (auto simp only: cw_transfer_def chan18_def)
  then have "df10_fetch (d, s) = Some (True, df10_load ?w d, s)" by (rule df10_fetch_here [OF assms(2)])
  then show ?thesis
    using assms(1) count_up(1) [OF assms(6)] w f(2) by (simp only: df10_load_def chan18_def)
qed

lemma uint_small:
  assumes "m < 0x100000000"
  shows "uint (of_nat m :: u32) = int m"
proof -
  have "unat (of_nat m :: u32) = m" using assms by (simp add: unsigned_of_nat take_bit_nat_eq_self)
  then show ?thesis using of_nat_unat [of "of_nat m :: u32", where ?'a = int] by simp
qed

lemma clr_interrupt_mem:
  fixes s :: "'a mem_state_scheme"
  shows "M (clr_interrupt d s) = M s" and "MEMSIZE (clr_interrupt d s) = MEMSIZE s"
proof -
  have "pi_state.more (clr_interrupt d s) = pi_state.more s" by simp
  from mem_more_frame [OF apr_more_frame(16) [OF this]]
  show "M (clr_interrupt d s) = M s" "MEMSIZE (clr_interrupt d s) = MEMSIZE s" by simp_all
qed

lemma start_writing:
  assumes "on_line u" and "\<not> write_locked u" and "rc_unit c k = u" and "k = unat (drop_bit 34 v AND 3)"
    and "\<not> tst (status (rc_df10 c)) BUSY" and "chan18 (rc_df10 c)" and "tst v RC_WRITE" and "bcd_ok u v"
    and "block_in_core (ucast v AND ICWA) a ws s" and "2 \<le> length ws"
  shows "\<exists>x. rc_datao drv v (c, s) = Some x
    \<and> writing k (ucast v AND ICWA) a ws (u\<lparr>UFLAGS := write_flags v\<rparr>) (- 1) 0 x"
proof -
  let ?i = "ucast v AND ICWA" and ?n = "length ws"
  define c1 where "c1 = (clr_status (PI_ENABLE OR S_ERROR) c)\<lparr>rc_ipr := clr_bits (rc_ipr c) (INIT_PAR OR 3)
      OR ucast (v AND INIT_PAR) OR of_nat k\<rparr>"
  define c2 where "c2 = set_drive k (u\<lparr>UFLAGS := write_flags v, DATAPTR := - 1\<rparr>)
      (clr_status CCW_COMP (c1\<lparr>rc_df10 := df10_setup (ucast v) (rc_df10 c1)\<rparr>))"
  define t where "t = clr_interrupt RC_DEVNUM s"
  let ?d = "rc_df10 c2"
  have d: "chan18 ?d" "wcr ?d = 0" "ccw ?d = ?i"
    using assms(6) by (simp_all add: c2_def c1_def set_drive_def clr_status_def df10_setup_def chan18_def)
  have mem: "Mem_read_word x False t = Mem_read_word x False s" "M t = M s" "MEMSIZE t = MEMSIZE s" for x
    by (simp_all add: t_def Mem_read_word_def clr_interrupt_mem)
  note b = assms(9) [unfolded block_in_core_def]
  have small: "uint ?i < 0x3FFFF"
    using word_and_le1 [of "ucast v :: u32" "ICWA"] by (simp add: word_le_def)
  have f: "df10_fetch (?d, t) = Some (True, ?d\<lparr>wcr := of_nat (0x40000 - ?n), cda := of_nat a, ccw := ?i + 1\<rparr>, t)"
    using load_control_word [of ?d t "0x40000 - ?n" a] d b small assms(10) unfolding mem by auto
  let ?l = "?d\<lparr>wcr := of_nat (0x40000 - ?n), cda := of_nat a, ccw := ?i + 1\<rparr>"
  have wc: "uint (wcr ?l) = 0x40000 - int ?n"
  proof -
    have n: "?n < 0x40000" using b by simp
    then have "uint (of_nat (0x40000 - ?n) :: u32) = int (0x40000 - ?n)" by (intro uint_small) simp
    moreover have "int (0x40000 - ?n) = 0x40000 - int ?n" using n by simp
    moreover have "wcr ?l = of_nat (0x40000 - ?n)" by (simp del: of_nat_diff)
    ultimately show ?thesis by (simp only:)
  qed
  have ca: "uint (cda ?l) = int a"
    using b by (simp add: uint_small)
  have lu: "uint (wcr ?l + 1) = uint (wcr ?l) + 1"
    by (rule count_up(2)) (use wc assms(10) in simp)
  have room: "df10_room (Suc 0) (?l, t)"
    using wc ca b assms(10) d(1) unsigned_eq_0_iff [of "wcr ?l"] unsigned_eq_0_iff [of "cda ?l"]
    by (auto simp: df10_room_def mem chan18_def simp del: of_nat_diff)
  have ok: "df10_ok ?l" using d(1) by (simp add: df10_ok_def chan18_def)
  let ?r = "?l\<lparr>wcr := wcr ?l + 1, cda := cda ?l + 1, buf := M t (cda ?l + 1)\<rparr>"
  have "wcr ?l \<noteq> 0" using room by (simp add: df10_room_def)
  then have read: "df10_read (?d, t) = Some (True, ?r, t)"
    using read_fetched [OF d(2) f] df10_read_step [OF ok room] by simp
  have cu: "uint (cda ?l + 1) = int a + 1" using room_step(6) [OF ok room] ca by simp
  then have "cda ?l + 1 = of_nat (a + 1 + 0)" by (intro of_uint) simp
  moreover have core: "\<forall>x < ?n. M s (of_nat (a + 1 + x)) = ws ! x" using b by blast
  ultimately have first: "M t (cda ?l + 1) = ws ! 0"
    using core [rule_format, of 0] assms(10) unfolding mem by (simp only:)
  note v = assms(8) [unfolded bcd_ok_def]
  have c1: "rc_unit c1 k = u" using assms(3) by (simp add: c1_def clr_status_def)
  have "\<not> cyl_of v mod 16 > 9" "\<not> cyl_of v div 16 mod 16 > 9" "\<not> cyls u \<le> bcd_cyl (cyl_of v)" "\<not> seg_of v mod 16 > 9"
    using v by simp_all
  then have "rc_start drv k v (c1, t) =
      Some (c2\<lparr>rc_df10 := ?r\<rparr>, sim_activate (drv k) 100 t)"
    using read assms(7) unfolding rc_start_def Let_def prod.case c1 cyl_of_def [symmetric] seg_of_def [symmetric]
      write_flags_def [symmetric] c2_def [symmetric]
    by (simp add: rc_chan_def)
  moreover have "rc_datao drv v (c, s) = rc_start drv k v (c1, t)"
    using assms(1-5,7) by (simp add: rc_datao_def Let_def c1_def t_def clr_status_def)
  moreover have "writing k ?i a ws (u\<lparr>UFLAGS := write_flags v\<rparr>) (- 1) 0
      (c2\<lparr>rc_df10 := ?r\<rparr>, sim_activate (drv k) 100 t)"
  proof -
    let ?t = "sim_activate (drv k) 100 t"
    have m: "Mem_read_word x False ?t = Mem_read_word x False s" "M ?t = M s" "MEMSIZE ?t = MEMSIZE s" for x
      using mem by (simp_all add: sim_activate_mem Mem_read_word_def)
    have x: "rc_unit c2 k = u\<lparr>UFLAGS := write_flags v, DATAPTR := - 1\<rparr>"
      by (simp add: c2_def set_drive_def)
    have r: "rc_df10 (c2\<lparr>rc_df10 := ?r\<rparr>) = ?r" "rc_unit (c2\<lparr>rc_df10 := ?r\<rparr>) = rc_unit c2"
      "chan18 ?r" "ccw ?r = ?i + 1" "uint (wcr ?r) = 2 ^ 18 - int ?n + int 0 + 1"
      "uint (cda ?r) = int a + int 0 + 1" "buf ?r = ws ! 0"
      using d(1) wc lu cu first by (simp_all add: chan18_def)
    show ?thesis unfolding writing_def Let_def prod.case r(1,2) m x
      using b r(3-7) by (intro conjI) simp_all
  qed
  ultimately show ?thesis by auto
qed

lemma svc_later:
  assumes "writing k i a ws (u\<lparr>UFLAGS := write_flags v\<rparr>) (int j) j x" and "tst v RC_WRITE"
  shows "rc_svc drv k x = rc_transfer drv k True (cyl_of v) (seg_of v) x"
proof -
  obtain c s where x: "x = (c, s)" by fastforce
  have u: "rc_unit c k = u\<lparr>UFLAGS := write_flags v, DATAPTR := int j\<rparr>"
    using assms(1) by (simp add: writing_def Let_def x)
  have "UFLAGS (rc_unit c k) = write_flags v" "DATAPTR (rc_unit c k) \<noteq> - 1" by (simp_all add: u)
  then show ?thesis using assms(2) unfolding x rc_svc_def Let_def prod.case by (simp only: write_flags_fields if_False)
qed

lemma svc_first:
  assumes "writing k i a ws (u\<lparr>UFLAGS := write_flags v\<rparr>) (- 1) 0 x" and "tst v RC_WRITE" and "bcd_ok u v"
    and "3 \<le> length ws" and "length ws \<le> wd_seg u"
  shows "\<exists>y. rc_svc drv k x = Some y \<and> writing k i a ws (u\<lparr>UFLAGS := write_flags v\<rparr>) (int 1) 1 y"
proof -
  let ?u = "u\<lparr>UFLAGS := write_flags v\<rparr>"
  obtain c s where x: "x = (c, s)" by fastforce
  note w = assms(1) [unfolded writing_def Let_def x prod.case]
  have u: "rc_unit c k = ?u\<lparr>DATAPTR := - 1\<rparr>" using w by blast
  have f: "UFLAGS (rc_unit c k) = write_flags v" "DATAPTR (rc_unit c k) = - 1" by (simp_all add: u)
  have "unat (drop_bit 18 v AND 0x7F) \<le> unat (0x7F :: u64)"
    using word_and_le1 [of "drop_bit 18 v" "0x7F"] by (simp only: word_le_nat_alt)
  then have "seg_of v < 128" by (simp add: seg_of_def)
  then have "seg_of v div 16 mod 8 = seg_of v div 16 mod 16" by simp
  moreover have "\<not> cyls (rc_unit c k) \<le> bcd_cyl (cyl_of v)" "\<not> 10 < seg_of v mod 16" "\<not> segs (rc_unit c k) \<le> seg_num (seg_of v)"
    using assms(3) by (simp_all add: bcd_ok_def u cyls_def segs_def)
  ultimately have loc: "rc_locate (rc_unit c k) (cyl_of v) (seg_of v) = Inr (bcd_cyl (cyl_of v), seg_num (seg_of v))"
    by (simp add: rc_locate_def seg_num_def)
  let ?c = "or_status SCRCHCMP (set_drive k ((rc_unit c k)\<lparr>DATAPTR := 0\<rparr>) c)"
  have svc: "rc_svc drv k x = rc_transfer drv k True (bcd_cyl (cyl_of v)) (seg_num (seg_of v)) (?c, s)"
    using assms(2) unfolding x rc_svc_def Let_def prod.case f(1) write_flags_fields loc sum.case by (simp add: f)
  have "writing k i a ws ?u (int 0) 0 (?c, s)"
  proof -
    have d: "rc_df10 ?c = (rc_df10 c)\<lparr>status := status (rc_df10 c) OR SCRCHCMP\<rparr>" "rc_buf ?c = rc_buf c"
      "rc_unit ?c k = ?u\<lparr>DATAPTR := int 0\<rparr>"
      by (simp_all add: or_status_def set_drive_def u)
    show ?thesis unfolding writing_def Let_def prod.case d using w by (simp add: chan18_def)
  qed
  from writing_step [OF this] assms(4,5) show ?thesis unfolding svc by (simp add: wd_seg_def)
qed

lemma write_rest:
  assumes "writing k i a ws (u\<lparr>UFLAGS := write_flags v\<rparr>) (int j) j x" and "tst v RC_WRITE"
    and "j + m + 2 = length ws" and "length ws \<le> wd_seg u"
  shows "\<exists>c' s'. rc_events drv k (Suc m) x = Some (c', s')
    \<and> pack (rc_unit c' k) = put_block ((bcd_cyl (cyl_of v) * segs u + seg_num (seg_of v)) * wd_seg u)
         (butlast ws @ replicate (wd_seg u - (length ws - 1)) 0) (pack u)
    \<and> \<not> tst (status (rc_df10 c')) BUSY \<and> tst (status (rc_df10 c')) PI_ENABLE"
  using assms
proof (induction m arbitrary: j x)
  case 0
  let ?u = "u\<lparr>UFLAGS := write_flags v\<rparr>"
  obtain c s where x: "x = (c, s)" by fastforce
  have u: "wd_seg ?u = wd_seg u" "segs ?u = segs u" "pack ?u = pack u" by (simp_all add: wd_seg_def segs_def)
  show ?case
    using writing_last [OF 0(1) [unfolded x], of drv "cyl_of v" "seg_of v"] 0(3,4) svc_later [OF 0(1,2), of drv]
    unfolding x by (auto simp add: u seg_num_def)
next
  case (Suc m)
  obtain c s where x: "x = (c, s)" by fastforce
  have le: "j + 2 < length ws" "length ws \<le> wd_seg (u\<lparr>UFLAGS := write_flags v\<rparr>)"
    using Suc.prems(3,4) by (simp_all add: wd_seg_def)
  obtain y where y: "rc_svc drv k x = Some y" "writing k i a ws (u\<lparr>UFLAGS := write_flags v\<rparr>) (int (Suc j)) (Suc j) y"
    using writing_step [OF Suc.prems(1) [unfolded x] le, of drv "cyl_of v" "seg_of v"]
      svc_later [OF Suc.prems(1,2), of drv] unfolding x by auto
  have n: "Suc j + m + 2 = length ws" using Suc.prems(3) by simp
  have ev: "rc_events drv k (Suc (Suc m)) x = rc_events drv k (Suc m) y" using y(1) by simp
  show ?case unfolding ev by (rule Suc.IH [OF y(2) Suc.prems(2) n Suc.prems(4)])
qed

lemma write_all:
  assumes "writing k i a ws (u\<lparr>UFLAGS := write_flags v\<rparr>) (- 1) 0 x" and "tst v RC_WRITE" and "bcd_ok u v"
    and "3 \<le> length ws" and "length ws \<le> wd_seg u"
  shows "\<exists>c' s'. rc_events drv k (length ws - 1) x = Some (c', s')
    \<and> pack (rc_unit c' k) = put_block ((bcd_cyl (cyl_of v) * segs u + seg_num (seg_of v)) * wd_seg u)
         (butlast ws @ replicate (wd_seg u - (length ws - 1)) 0) (pack u)
    \<and> \<not> tst (status (rc_df10 c')) BUSY \<and> tst (status (rc_df10 c')) PI_ENABLE"
proof -
  obtain y where y: "rc_svc drv k x = Some y" "writing k i a ws (u\<lparr>UFLAGS := write_flags v\<rparr>) (int 1) 1 y"
    using svc_first [OF assms, of drv] by blast
  obtain m where m: "length ws = m + 3" using assms(4) by (metis add.commute le_iff_add)
  have ev: "rc_events drv k (length ws - 1) x = rc_events drv k (Suc m) y" using y(1) by (simp add: m)
  show ?thesis unfolding ev by (rule write_rest [OF y(2) assms(2) _ assms(5)]) (simp add: m)
qed

end
