(* ===== verification/Properties_Disk.thy ===== *)
theory Properties_Disk
  imports Disk_Rc10 Power_On
begin

text \<open>
  What the disk gets of the words a program writes with one control word.
\<close>

unbundle bit_operations_syntax

definition write_rc :: rc10 where
  \<comment> \<open>an idle controller with an empty RD10 pack on each drive\<close>
  "write_rc =
     \<lparr>rc_df10 = \<lparr>status = 3, cia = 0, ccw = 0, wcr = 0, cda = 0, devnum = 0x78, buf = 0, nxmerr = 8,
        amask = RMASK, wmask = RMASK, cshift = 18\<rparr>,
      rc_buf = (\<lambda>_. 0), rc_ipr = 0,
      rc_unit = (\<lambda>_. \<lparr>rm10 = False, on_line = True, write_locked = False, UFLAGS = 0, DATAPTR = 0, capac = 0, pack = []\<rparr>)\<rparr>"

definition write_cpu :: cpu where
  \<comment> \<open>a control word at 040 for the three words behind 0100\<close>
  "write_cpu = zero_cpu\<lparr>M := (M zero_cpu)(0x20 := push_bit 18 0x3FFFD OR 0x40, 0x41 := 11, 0x42 := 22, 0x43 := 33)\<rparr>"

lemma write_ready: "block_in_core 0x20 0x40 [11, 22, 33] write_cpu"
proof -
  have n: "x < length [11, 22, 33 :: u64] \<longleftrightarrow> x = 0 \<or> x = 1 \<or> x = 2" for x by auto
  show ?thesis
    unfolding block_in_core_def n
    by (intro conjI allI impI; (elim disjE)?; simp add: write_cpu_def zero_cpu_def Mem_read_word_def)
qed

text \<open>
  C34: A write of at least three words and at most a segment, with one control word: the drive's events
  end the transfer, and the controller then is idle with its interrupt flag set; the segment holds the
  words up to the last but one, and zeros behind them. The last word never reaches the disk.
\<close>

theorem disk_write_drops_last_word:
  assumes "rc_unit c (unat (drop_bit 34 v AND 3)) = u" and "on_line u" and "\<not> write_locked u"
    and "\<not> tst (status (rc_df10 c)) BUSY" and "chan18 (rc_df10 c)" and "tst v RC_WRITE" and "bcd_ok u v"
    and "block_in_core (ucast v AND ICWA) a ws s" and "3 \<le> length ws" and "length ws \<le> wd_seg u"
  shows "\<exists>x c' s'. rc_devio df10c drv 0x79 v (c, s) = Some (v, x)
    \<and> rc_events drv (unat (drop_bit 34 v AND 3)) (length ws - 1) x = Some (c', s')
    \<and> pack (rc_unit c' (unat (drop_bit 34 v AND 3)))
        = put_block ((bcd_cyl (cyl_of v) * segs u + seg_num (seg_of v)) * wd_seg u)
            (butlast ws @ replicate (wd_seg u - (length ws - 1)) 0) (pack u)
    \<and> \<not> tst (status (rc_df10 c')) BUSY \<and> tst (status (rc_df10 c')) PI_ENABLE"
proof -
  obtain x where x: "rc_datao drv v (c, s) = Some x"
    "writing (unat (drop_bit 34 v AND 3)) (ucast v AND ICWA) a ws (u\<lparr>UFLAGS := write_flags v\<rparr>) (- 1) 0 x"
    using start_writing [OF assms(2,3,1) refl assms(4-8)] assms(9) by fastforce
  have "rc_devio df10c drv 0x79 v (c, s) = Some (v, x)" using x(1) by (simp add: rc_devio_def CONI_def CONO_def DATAI_def)
  then show ?thesis using write_all [OF x(2) assms(6,7,9,10), of drv] by blast
qed

theorem disk_write_drops_last_word_witness:
  "\<exists>x c' s'. rc_devio False (\<lambda>_. LPT_UNIT) 0x79 0x220 (write_rc, write_cpu) = Some (0x220, x)
    \<and> rc_events (\<lambda>_. LPT_UNIT) 0 2 x = Some (c', s') \<and> pack (rc_unit c' 0) = 11 # 22 # replicate 30 0"
proof -
  let ?u = "rc_unit write_rc 0"
  have u: "on_line ?u" "\<not> write_locked ?u" "\<not> tst (status (rc_df10 write_rc)) BUSY" "chan18 (rc_df10 write_rc)"
    "bcd_ok ?u 0x220" "length [11, 22, 33 :: u64] \<le> wd_seg ?u" "pack ?u = []" "wd_seg ?u = 32"
    by (simp_all add: write_rc_def chan18_def tst_def bcd_ok_def cyl_of_def seg_of_def bcd_cyl_def seg_num_def
        cyls_def segs_def wd_seg_def)
  have i: "(ucast (0x220 :: u64) AND ICWA :: u32) = 0x20" "unat (drop_bit 34 (0x220 :: u64) AND 3) = 0"
    "tst (0x220 :: u64) RC_WRITE" "cyl_of 0x220 = 0" "seg_of 0x220 = 0" "bcd_cyl 0 = 0" "seg_num 0 = 0"
    by (simp_all add: tst_def cyl_of_def seg_of_def bcd_cyl_def seg_num_def)
  have n: "3 \<le> length [11, 22, 33 :: u64]" "length [11, 22, 33 :: u64] - 1 = 2" by simp_all
  have "rc_unit write_rc (unat (drop_bit 34 (0x220 :: u64) AND 3)) = ?u" unfolding i ..
  from disk_write_drops_last_word [OF this u(1-4) i(3) u(5) write_ready [folded i(1)] n(1) u(6), of False "\<lambda>_. LPT_UNIT"]
  show ?thesis unfolding i n u by (auto simp: put_block_def)
qed

end
