(* ===== verification/Spec2Isabelle.thy ===== *)
theory Spec2Isabelle
  imports Properties_Devices Properties_Arith Properties_Float Properties_Control Properties_Peripherals
    Properties_Machine Properties_Disk
begin

text \<open>
  A verification of the KI10 processor among the PDP-10 simulators of this repository: the
  processor \<open>PDP10/kx10_cpu.c\<close>, with the constants of \<open>PDP10/kx10_defs.h\<close>, as
  it is compiled with \<open>KI=1\<close> (and the options ITS, BBN, WAITS and PIDP10 off), the DF10
  data channel \<open>PDP10/kx10_df.c\<close> and the disk controller \<open>PDP10/kx10_rc.c\<close>
  that uses it, the event queue of \<open>scp.c\<close>, and the simple peripherals: console terminal \<open>kx10_cty.c\<close>, paper tape \<open>kx10_pt.c\<close>, line
  printer \<open>kx10_lp.c\<close>, card reader \<open>kx10_cr.c\<close> and punch \<open>kx10_cp.c\<close>,
  and the interval timer \<open>kx10_dk.c\<close>.

  \<^bold>\<open>The program.\<close> \<open>sim_instr\<close> is one loop: it fetches a 36-bit word,
  decodes it, computes an effective address through index registers and indirect words, dispatches
  on nine bits of opcode, and ends at the label \<open>last\<close>, where page failures are turned
  into traps, interrupts are dismissed and the next address is chosen. Every access to memory goes
  through \<open>Mem_read\<close> and \<open>Mem_write\<close>, which consult the pager; a failing access
  jumps to \<open>last\<close>. Peripherals raise requests with \<open>set_interrupt\<close>; the scan
  \<open>check_irq_level\<close> decides which level may interrupt. An I/O instruction calls the routine
  that \<open>build_dev_tab\<close> entered for its device number; the device notes what it is asked for,
  schedules its unit with \<open>sim_activate\<close>, and does the work when
  \<open>sim_process_event\<close>, which the loop calls when \<open>sim_interval\<close> has run out, calls the
  unit's service routine. The whole state is in global variables.

  \<^bold>\<open>State.\<close> The globals are fields, under their C names, of five records, each
  extending the one before: \<open>clock\<close> (event queue), \<open>pi_state\<close> (interrupt
  system), \<open>apr_state\<close> (processor conditions, clock, switches), \<open>mem_state\<close>
  (memory, fast memory, pager) and \<open>cpu\<close> (registers of the instruction cycle, and the units
  of the peripherals in \<open>devices\<close>). A device routine is a function of its own unit and of
  the state up to \<open>pi_state\<close>. Memory and fast memory are functions from
  addresses; 36-bit words are 64-bit words, as in the code, and \<open>wf36\<close> says that a word has
  no bits beyond its 36. Flags and counters that the C program keeps in an \<open>int\<close> but uses as
  truth values are booleans. Operations are functions of the state; an instruction that leaves for
  \<open>last\<close> on a fault is written with its rest as an argument (\<open>mem_rd\<close>,
  \<open>mem_wr\<close>).

  \<^bold>\<open>Theories and code.\<close>
  \<^item> \<open>Word36\<close>, \<open>Arith36\<close>: masks and tests; 36-bit two's-complement
    numbers, their integer value \<open>sval\<close>, the macros \<open>CM\<close>, \<open>CCM\<close>,
    \<open>SWAP_AR\<close>, \<open>AOB\<close>, \<open>SOB\<close>, \<open>NEG\<close>.
  \<^item> \<open>Event_Queue\<close>: \<open>sim_activate\<close> to \<open>sim_process_event\<close>, with
    the \<open>agenda\<close> of absolute times as their abstract state. The locales
    \<open>event_invariant\<close>, \<open>event_routines\<close> and \<open>prompt_routines\<close> say what
    service routines must keep for the loop to keep an invariant, its order, and to return.
  \<^item> \<open>Pi_System\<close>: \<open>set_interrupt\<close>, \<open>clr_interrupt\<close>,
    \<open>check_irq_level\<close>, \<open>set_pi_hold\<close>, \<open>restore_pi_hold\<close>. The levels
    in service are abstracted to a stack \<open>held_levels\<close>.
  \<^item> \<open>Apr_Device\<close>, \<open>Pager_Device\<close>: the devices 0, 4 and 10 (octal), the
    clock service, examine, deposit and the change of memory size.
  \<^item> \<open>Io_Device\<close>: the contract of a device with the processor, the locales
    \<open>io_device\<close> and \<open>timed_device\<close>, interpreted for each of
    \<open>Paper_Tape\<close>, \<open>Clock_Dk10\<close>, \<open>Console_Tty\<close>,
    \<open>Line_Printer\<close> and \<open>Cards\<close>, which hold the devices, one operation per
    case of their I/O routines, services, reset and attach routines. \<open>Peripherals\<close> is the
    record of all units with the initial values of the \<open>UNIT\<close> tables.
  \<^item> \<open>Memory\<close>: \<open>get_reg\<close>, \<open>set_reg\<close>, \<open>load_tlb\<close>,
    \<open>page_lookup\<close>, \<open>Mem_read\<close>, \<open>Mem_write\<close> and the accesses without
    paging. \<open>user_entry\<close> and \<open>user_may\<close> say what the page table in memory
    grants.
  \<^item> \<open>Df10\<close>: the whole of \<open>kx10_df.c\<close>. \<open>Disk_Rc10\<close>: the RC10 controller
    with its drives, \<open>rc_devio\<close> to \<open>rc_boot\<close>, on top of it. The controller works on
    memory and channel beside the processor and is not among the devices of \<open>Machine\<close>.
  \<^item> \<open>Cpu_State\<close>, \<open>Moves\<close>, \<open>Add_Sub\<close>, \<open>Mul_Div\<close>,
    \<open>Long_Div\<close>, \<open>Shifts\<close>, \<open>Shift_Long\<close>, \<open>Logic\<close>,
    \<open>Halfwords\<close>, \<open>Control\<close>, \<open>Bytes\<close>: the cases of
    \<open>switch (IR)\<close>, one definition \<open>exec_...\<close> per group of opcodes. The arithmetic
    is compared with integers, the Boolean, half-word and move groups with tables, BLT with a copy of
    one word after the other.
  \<^item> \<open>Floating\<close>, \<open>Double_Float\<close>: the floating-point cases, from the label
    \<open>fadd\<close> to the normalization at \<open>fnorm\<close> and the stores behind it. \<open>Float_Value\<close>
    gives a floating-point word its value over the reals and says what a rounded result is;
    \<open>Float_Arith\<close> proves the instructions against it.
  \<^item> \<open>Cycle\<close>: the I/O instructions, the dispatch, and the loop. Its step
    \<open>cycle_step\<close> runs from one of the two points control returns to, the head of the loop
    and the label \<open>no_fetch\<close>, to the next; \<open>step\<close> is the relation, \<open>run\<close>
    the loop, \<open>sim_instr\<close> the function. \<open>Effective_Address\<close> compares the
    effective-address loop with the rule of the architecture.
  \<^item> \<open>Invariants\<close>, \<open>Cycle_Invariants\<close>: the locales \<open>kept\<close> and
    \<open>kept_cycle\<close> lift an invariant of the memory, register and flag operations to every
    instruction and every step. They are interpreted for the consistency of the interrupt bus, for
    the confinement of user programs, and in \<open>Machine_Runs\<close> for the machine.
  \<^item> \<open>Machine\<close>: the processor with its peripherals: the service routines of all units
    (\<open>unit_action\<close>), \<open>build_dev_tab\<close>, \<open>cpu_reset\<close> and
    \<open>reset_all\<close>, and the environment \<open>machine\<close> they give the processor.
    \<open>Machine_Runs\<close> shows what every run of it keeps, \<open>Timer_Events\<close> how the
    interval timer can stop it.
  \<^item> \<open>Calls\<close>: subroutine linkage, double-length negation, entry to traps, interrupts
    across cycles.
  \<^item> \<open>Power_On\<close>: a concrete state. \<open>Properties_Devices\<close>,
    \<open>Properties_Arith\<close>, \<open>Properties_Float\<close>, \<open>Properties_Control\<close>,
    \<open>Properties_Peripherals\<close>, \<open>Properties_Machine\<close>, \<open>Properties_Disk\<close>: the properties C1 to C40 with
    an instance of each, and some further theorems.

  \<^bold>\<open>What is shown.\<close> Of the whole machine: a user program reaches the monitor only
  through a monitor call, an interrupt or a trap, and never gains I/O privilege or changes what the
  monitor has set; the interrupt bus stays consistent along every run; interrupts nest as a stack
  over whole cycles; a page failure is a restartable trap. With the peripherals put in, no assumption
  on devices is left: after a reset the bus and the devices' buffers stay in order whatever program
  runs, the words devices deliver have 36 bits, and each call of the event queue returns as long as
  the interval timer is disabled. Of the event queue: activation and cancellation are insertion into
  and removal from the agenda. Of the devices: tapes and decks are read as they were punched, a boot
  tape is loaded, lines are printed, requests follow ready flags, and the dispatch table is what the
  configuration says. Of memory: a user store changes only
  what the page table allows. Of the instructions: exact results, flags and refusals of the
  arithmetic, correctly rounded floating-point results, equivalence of the large instruction groups with their tables, round trips of calls,
  bytes and channel transfers, termination of BLT, of the effective-address loop and of the channel's
  control-word fetch. Where the code misses an overflow, postpones a due event, drops the last word of a
  disk transfer, writes past a buffer or hangs, a theorem says so.

  \<^bold>\<open>Loops and bounds.\<close> The shifts that normalize a fraction are \<open>while\<close>
  of the library; the loops of a fixed number of turns count them down. The loops that may not end, BLT, the effective-address loop,
  the channel's control-word fetch, the loop of \<open>sim_process_event\<close> and that of
  \<open>sim_instr\<close>, are
  \<open>partial_function (option)\<close>, so that not returning is \<open>None\<close>; there is no fuel in
  the model. The reference \<open>ea_ref\<close> counts indirections, and the property about it
  quantifies over the count.

  \<^bold>\<open>Parameters.\<close> The record \<open>env\<close> holds what the processor calls outside
  \<open>kx10_cpu.c\<close>: the event queue, the breakpoints of \<open>scp.c\<close>, the device routines
  and their interrupt vectors. \<open>machine\<close> fills it in for the modelled devices; the properties
  of the processor alone are stated for any. What remains open there is the record \<open>host\<close>:
  the characters of the keyboard, the answers of the screen, and the measurements of
  \<open>sim_timer.c\<close>, which convert microseconds to instructions. Of them \<open>timer_ok\<close>
  says that a positive delay takes at least one instruction.

  \<^bold>\<open>Not modelled.\<close> The RH10 and the other disk controllers, the tape, network and display controllers, and with them
  their part of \<open>build_dev_tab\<close>; the file formats of card decks; asynchronous I/O. The
  instruction history, debugging output, idle detection, calibration of host timers, help and the
  command line are host interaction; a request to stop the simulator that arrives while a routine
  runs is not seen before it returns. The other processors of \<open>kx10_cpu.c\<close> are other
  programs in the same file, and the remaining simulators of the repository are independent of this
  one.
\<close>

end
